(* ===== verification/Prelude.thy ===== *)
theory Prelude
  imports Main "HOL-Library.AList" "HOL-Library.Multiset" "HOL-Library.Word" "HOL-Library.Sublist"
begin

text \<open>
  The part of the Go language and its standard library that the components share:
  errors and panics as values, Go maps as association lists, the string functions of
  package \<open>strings\<close> that the sources call, and generic lemmas on lists.

  A Go function that may panic has a result in \<open>'a res\<close> (\<open>Inl\<close> the panic); a Go
  function that returns an \<open>error\<close> has a result in \<open>go_err + 'a\<close>.
  A Go \<open>map[K]V\<close> is an association list with distinct keys; the position of an entry is
  the place it takes in one \<open>range\<close> loop, which Go leaves open, so theorems quantify over
  the list or speak about \<open>map_of\<close>, sets and multisets only.
  A nil slice or nil map behaves as the empty one in every operation the sources use
  unless a definition says otherwise.
\<close>

section \<open>Errors and panics\<close>

text \<open>
  A \<open>ConferenceError\<close> (package \<open>errors\<close>) carries a code and a formatted message; the
  model keeps the code and the format string, without rendering its arguments.
\<close>

datatype go_err = ConfError int string | PlainError string

datatype go_panic =
    IndexOutOfRange
  | SliceBounds
  | DivideByZero
  | NilDeref
  | ErrorPanic go_err
  | ValuePanic string

type_synonym 'a res = "go_panic + 'a"

type_synonym byte = "8 word"

definition bind_res :: "('e + 'a) \<Rightarrow> ('a \<Rightarrow> 'e + 'b) \<Rightarrow> 'e + 'b" where
  "bind_res r f = (case r of Inl e \<Rightarrow> Inl e | Inr x \<Rightarrow> f x)"

lemma bind_res_simps [simp]:
  "bind_res (Inl e) f = Inl e"
  "bind_res (Inr x) f = f x"
  by (simp_all add: bind_res_def)

lemma bind_res_Inr_iff: "bind_res r f = Inr y \<longleftrightarrow> (\<exists>x. r = Inr x \<and> f x = Inr y)"
  by (cases r) auto

lemma bind_res_cong [fundef_cong]:
  "r = r' \<Longrightarrow> (\<And>x. r' = Inr x \<Longrightarrow> f x = g x) \<Longrightarrow> bind_res r f = bind_res r' g"
  by (cases r') simp_all

text \<open>A \<open>for range\<close> loop whose body may panic or return early with an error.\<close>

fun fold_res :: "('x \<Rightarrow> 's \<Rightarrow> 'e + 's) \<Rightarrow> 'x list \<Rightarrow> 's \<Rightarrow> 'e + 's" where
  "fold_res f [] s = Inr s"
| "fold_res f (x # xs) s = bind_res (f x s) (fold_res f xs)"

section \<open>Collections of rewrite rules\<close>

named_theorems room_simps \<open>segments, patterns and rooms\<close>
named_theorems gomap_simps \<open>lookup in a Go map after an update or a deletion\<close>

section \<open>Go maps\<close>

type_synonym ('k, 'v) gomap = "('k \<times> 'v) list"

abbreviation mget :: "('k, 'v) gomap \<Rightarrow> 'k \<Rightarrow> 'v option" where
  "mget m k \<equiv> map_of m k"

abbreviation mput :: "'k \<Rightarrow> 'v \<Rightarrow> ('k, 'v) gomap \<Rightarrow> ('k, 'v) gomap" where
  "mput k v m \<equiv> AList.update k v m"

abbreviation mdel :: "'k \<Rightarrow> ('k, 'v) gomap \<Rightarrow> ('k, 'v) gomap" where
  "mdel k m \<equiv> AList.delete k m"

definition mwf :: "('k, 'v) gomap \<Rightarrow> bool" where
  "mwf m \<longleftrightarrow> distinct (map fst m)"

lemma mwf_empty [simp, intro]: "mwf []"
  by (simp add: mwf_def)

lemma mwf_mput [simp, intro]: "mwf m \<Longrightarrow> mwf (mput k v m)"
  by (simp add: mwf_def distinct_update)

lemma mwf_mdel [simp, intro]: "mwf m \<Longrightarrow> mwf (mdel k m)"
  by (simp add: mwf_def distinct_delete)

lemma mget_mput [gomap_simps]: "mget (mput k v m) k' = (if k = k' then Some v else mget m k')"
  by (simp add: update_conv')

lemma mget_mdel [gomap_simps]: "mget (mdel k m) k' = (if k = k' then None else mget m k')"
  by (simp add: delete_conv')

lemma update_fresh: "mget m k = None \<Longrightarrow> mput k v m = m @ [(k, v)]"
  by (induction m) (auto split: if_splits)

lemma delete_fresh_append: "mget m k = None \<Longrightarrow> mdel k (m @ [(k, v)]) = m"
  by (induction m) (auto split: if_splits)

text \<open>
  What the components rely on: the interface of a map with the laws of lookup after an
  update and after a deletion, and the loop that puts all entries of one map into another
  (\<open>utils.MapPutMap\<close>) proved once from them.
\<close>

locale map_interface =
  fixes lookup :: "'m \<Rightarrow> 'k \<Rightarrow> 'v option"
    and update :: "'k \<Rightarrow> 'v \<Rightarrow> 'm \<Rightarrow> 'm"
    and delete :: "'k \<Rightarrow> 'm \<Rightarrow> 'm"
    and invar :: "'m \<Rightarrow> bool"
  assumes lookup_update: "invar m \<Longrightarrow> lookup (update k v m) k' = (if k = k' then Some v else lookup m k')"
    and lookup_delete: "invar m \<Longrightarrow> lookup (delete k m) k' = (if k = k' then None else lookup m k')"
    and invar_update: "invar m \<Longrightarrow> invar (update k v m)"
    and invar_delete: "invar m \<Longrightarrow> invar (delete k m)"
begin

lemma invar_fold_update: "invar m \<Longrightarrow> invar (fold (\<lambda>(k, v). update k v) kvs m)"
  by (induction kvs arbitrary: m) (auto simp: invar_update)

lemma lookup_fold_update:
  "invar m \<Longrightarrow> distinct (map fst kvs) \<Longrightarrow>
   lookup (fold (\<lambda>(k, v). update k v) kvs m) k' =
     (case map_of kvs k' of Some v \<Rightarrow> Some v | None \<Rightarrow> lookup m k')"
proof (induction kvs arbitrary: m)
  case Nil
  then show ?case by simp
next
  case (Cons kv kvs)
  obtain k v where kv: "kv = (k, v)" by (cases kv)
  with Cons.prems have "k \<notin> set (map fst kvs)" by simp
  then have "map_of kvs k = None" by (simp add: map_of_eq_None_iff)
  with Cons kv show ?case
    by (auto simp: invar_update lookup_update split: option.splits)
qed

lemma lookup_fold_delete:
  "invar m \<Longrightarrow> lookup (fold delete ks m) k = (if k \<in> set ks then None else lookup m k)"
  by (induction ks arbitrary: m) (auto simp: invar_delete lookup_delete)

end

interpretation gm: map_interface mget mput mdel mwf
  by unfold_locales (auto simp: gomap_simps)

section \<open>Strings\<close>

text \<open>\<open>strings.Split(s, sep)\<close> for a separator of one character.\<close>

fun Split :: "char \<Rightarrow> string \<Rightarrow> string list" where
  "Split c [] = [[]]"
| "Split c (x # xs) =
     (if x = c then [] # Split c xs
      else (case Split c xs of [] \<Rightarrow> [[x]] | w # ws \<Rightarrow> (x # w) # ws))"

text \<open>\<open>strings.HasPrefix\<close>, \<open>strings.HasSuffix\<close>, \<open>strings.Contains\<close>.\<close>

definition HasPrefix :: "string \<Rightarrow> string \<Rightarrow> bool" where
  "HasPrefix s p = (take (length p) s = p)"

definition HasSuffix :: "string \<Rightarrow> string \<Rightarrow> bool" where
  "HasSuffix s p = HasPrefix (rev s) (rev p)"

fun Contains :: "string \<Rightarrow> string \<Rightarrow> bool" where
  "Contains [] p = (p = [])"
| "Contains (x # xs) p = (HasPrefix (x # xs) p \<or> Contains xs p)"

lemma Split_nonempty [simp]: "Split c s \<noteq> []"
  by (induction s) (auto split: list.splits)

lemma Split_no_sep: "w \<in> set (Split c s) \<Longrightarrow> c \<notin> set w"
  by (induction s arbitrary: w) (auto split: list.splits if_splits)

lemma Split_chars: "w \<in> set (Split c s) \<Longrightarrow> set w \<subseteq> set s"
proof (induction s arbitrary: w)
  case Nil
  then show ?case by simp
next
  case (Cons x xs)
  obtain v vs where vs: "Split c xs = v # vs"
    by (metis Split_nonempty neq_Nil_conv)
  with Cons.prems show ?case
    using Cons.IH [of w] Cons.IH [of v] by (auto split: if_splits)
qed

lemma Contains_single [simp]: "Contains s [c] \<longleftrightarrow> c \<in> set s"
  by (induction s) (auto simp: HasPrefix_def)

text \<open>
  A dotted name has no empty segment exactly when it is not empty, does not start or
  end with the separator and has no two separators in a row: the condition that
  \<open>CheckPattern\<close> and \<open>CheckRoom\<close> test on the characters.
\<close>

lemma Split_hd: "hd (Split c s) = [] \<longleftrightarrow> s = [] \<or> hd s = c"
  by (cases s) (auto split: list.splits)

lemma HasPrefix_single [simp]: "HasPrefix s [c] \<longleftrightarrow> s \<noteq> [] \<and> hd s = c"
  by (cases s) (auto simp: HasPrefix_def)

lemma HasSuffix_single [simp]: "HasSuffix s [c] \<longleftrightarrow> s \<noteq> [] \<and> last s = c"
  by (auto simp: HasSuffix_def hd_rev)

lemma Split_tl: "[] \<in> set (tl (Split c s)) \<longleftrightarrow> (s \<noteq> [] \<and> last s = c) \<or> Contains s [c, c]"
proof (induction s)
  case Nil
  then show ?case by simp
next
  case (Cons x xs)
  obtain w ws where ws: "Split c xs = w # ws"
    by (metis Split_nonempty neq_Nil_conv)
  show ?case
    using Cons ws Split_hd [of c xs]
    by (cases xs) (auto simp: HasPrefix_def split: if_splits)
qed

lemma Split_segments_nonempty:
  "[] \<notin> set (Split c s) \<longleftrightarrow>
     s \<noteq> [] \<and> \<not> Contains s [c, c] \<and> \<not> HasPrefix s [c] \<and> \<not> HasSuffix s [c]"
proof -
  obtain w ws where ws: "Split c s = w # ws"
    by (metis Split_nonempty neq_Nil_conv)
  have "[] \<in> set (Split c s) \<longleftrightarrow> hd (Split c s) = [] \<or> [] \<in> set (tl (Split c s))"
    by (auto simp: ws)
  also have "\<dots> \<longleftrightarrow> s = [] \<or> hd s = c \<or> last s = c \<or> Contains s [c, c]"
    by (auto simp: Split_hd Split_tl)
  finally show ?thesis
    by (cases "s = []") auto
qed

end
