(* ===== verification/GoStrings.thy ===== *)
theory GoStrings
  imports Prelude
begin

text \<open>
  Functions of the Go packages \<open>strings\<close>, \<open>strconv\<close>, \<open>fmt\<close> and \<open>path\<close> that several components call: decimal
  numbers, trimming, splitting, lower case and the cleaning of slash-separated paths. Strings are lists of
  bytes; letters outside of ASCII are not changed by \<open>ToLower\<close>.
\<close>

section \<open>Decimal numbers\<close>

text \<open>The verb \<open>%d\<close> for a non-negative number, and \<open>strconv.ParseUint(s, 10, bits)\<close> (\<open>None\<close> where it returns an error).\<close>

definition digit :: "nat \<Rightarrow> char" where
  "digit n = char_of (48 + n)"

fun decimal :: "nat \<Rightarrow> string" where
  "decimal n = (if n < 10 then [digit n] else decimal (n div 10) @ [digit (n mod 10)])"

declare decimal.simps [simp del]

definition isDigit :: "char \<Rightarrow> bool" where
  "isDigit c \<longleftrightarrow> 48 \<le> (of_char c :: nat) \<and> (of_char c :: nat) \<le> 57"

definition digitsVal :: "string \<Rightarrow> nat" where
  "digitsVal s = foldl (\<lambda>n c. 10 * n + (of_char c - 48)) 0 s"

definition ParseUint :: "string \<Rightarrow> nat \<Rightarrow> nat option" where
  "ParseUint s bits =
     (if s = [] \<or> \<not> list_all isDigit s then None
      else if digitsVal s \<ge> 2 ^ bits then None else Some (digitsVal s))"

lemma digit_props: "d < 10 \<Longrightarrow> of_char (digit d) = 48 + d \<and> isDigit (digit d) \<and> digit d \<noteq> CHR '';''"
proof -
  assume d: "d < 10"
  then have "of_char (digit d) = (48 + d :: nat)" by (simp add: digit_def)
  moreover have "(of_char CHR '';'' :: nat) = 59" by simp
  ultimately show ?thesis using d by (auto simp: isDigit_def)
qed

lemma decimal_props: "decimal n \<noteq> [] \<and> list_all isDigit (decimal n) \<and> digitsVal (decimal n) = n \<and> CHR '';'' \<notin> set (decimal n)"
proof (induction n rule: decimal.induct)
  case (1 n)
  show ?case
  proof (cases "n < 10")
    case True
    then show ?thesis using digit_props [OF True] by (auto simp: decimal.simps [of n] digitsVal_def)
  next
    case False
    have "n mod 10 < 10" by simp
    from digit_props [OF this] 1 [OF False] show ?thesis
      using False by (auto simp: decimal.simps [of n] digitsVal_def)
  qed
qed

lemma decimal_eq: "decimal m = decimal n \<longleftrightarrow> m = n"
  using decimal_props [of m] decimal_props [of n] by metis

lemma ParseUint_decimal: "n < 2 ^ bits \<Longrightarrow> ParseUint (decimal n) bits = Some n"
  using decimal_props [of n] by (simp add: ParseUint_def)

text \<open>\<open>strconv.Atoi\<close>: an optional sign and decimal digits, in the range of a 64-bit integer.\<close>

definition Atoi :: "string \<Rightarrow> int option" where
  "Atoi s =
     (let neg = HasPrefix s ''-'';
          ds = (if HasPrefix s ''-'' \<or> HasPrefix s ''+'' then drop 1 s else s)
      in case ParseUint ds 64 of
           None \<Rightarrow> None
         | Some n \<Rightarrow> (if neg then (if n \<le> 2 ^ 63 then Some (- int n) else None)
                      else (if n < 2 ^ 63 then Some (int n) else None)))"

lemma Atoi_decimal: "n < 2 ^ 63 \<Longrightarrow> Atoi (decimal n) = Some (int n)"
proof -
  assume n: "n < 2 ^ 63"
  have d: "decimal n \<noteq> []" "list_all isDigit (decimal n)" using decimal_props [of n] by simp_all
  then have "isDigit (hd (decimal n))" by (cases "decimal n") simp_all
  then have "hd (decimal n) \<noteq> CHR ''-''" "hd (decimal n) \<noteq> CHR ''+''" by (auto simp: isDigit_def)
  moreover have "ParseUint (decimal n) 64 = Some n" using n by (intro ParseUint_decimal) simp
  ultimately show ?thesis using n by (simp add: Atoi_def)
qed

section \<open>Spaces, case and parts\<close>

definition isSpace :: "char \<Rightarrow> bool" where
  "isSpace c \<longleftrightarrow> c \<in> {CHR 0x09, CHR 0x0A, CHR 0x0B, CHR 0x0C, CHR 0x0D, CHR '' ''}"

definition TrimSpace :: "string \<Rightarrow> string" where
  "TrimSpace s = rev (dropWhile isSpace (rev (dropWhile isSpace s)))"

definition ToLower :: "string \<Rightarrow> string" where
  "ToLower s = map (\<lambda>c. if 65 \<le> (of_char c :: nat) \<and> (of_char c :: nat) \<le> 90 then char_of (of_char c + 32 :: nat) else c) s"

text \<open>\<open>strings.SplitN(s, sep, n)\<close> for a separator of one character and \<open>n > 0\<close>, and \<open>strings.Join\<close>.\<close>

fun SplitN :: "char \<Rightarrow> nat \<Rightarrow> string \<Rightarrow> string list" where
  "SplitN c 0 s = []"
| "SplitN c (Suc n) s =
     (let w = takeWhile (\<lambda>x. x \<noteq> c) s
      in if n = 0 \<or> length w = length s then [s] else w # SplitN c n (drop (length w + 1) s))"

fun Join :: "string list \<Rightarrow> string \<Rightarrow> string" where
  "Join [] sep = []"
| "Join [w] sep = w"
| "Join (w # ws) sep = w @ sep @ Join ws sep"

lemma Join_Split: "Join (Split c s) [c] = s"
proof (induction s)
  case (Cons x s)
  obtain w ws where "Split c s = w # ws" by (metis Split_nonempty neq_Nil_conv)
  then show ?case using Cons by (cases ws) auto
qed simp

section \<open>Paths\<close>

text \<open>
  \<open>path.Clean\<close>: empty segments and \<open>.\<close> go, \<open>..\<close> takes the segment before it with it; at the root it goes, at
  the start of a relative path it stays. The list of segments is kept with the last one first.
\<close>

definition cleanStep :: "bool \<Rightarrow> string list \<Rightarrow> string \<Rightarrow> string list" where
  "cleanStep rooted done seg =
     (if seg = '''' \<or> seg = ''.'' then done
      else if seg = ''..''
      then (case done of
              [] \<Rightarrow> if rooted then [] else [''..'']
            | d # ds \<Rightarrow> if d = ''..'' then ''..'' # done else ds)
      else seg # done)"

definition segments :: "string \<Rightarrow> string list" where
  "segments p = rev (foldl (cleanStep (HasPrefix p ''/'')) [] (Split CHR ''/'' p))"

definition Clean :: "string \<Rightarrow> string" where
  "Clean p =
     (if p = '''' then ''.''
      else if HasPrefix p ''/'' then ''/'' @ Join (segments p) ''/''
      else if segments p = [] then ''.'' else Join (segments p) ''/'')"

definition path_Join :: "string list \<Rightarrow> string" where
  "path_Join elems =
     (let es = filter (\<lambda>e. e \<noteq> '''') elems in if es = [] then '''' else Clean (Join es ''/''))"

end
