(* ===== verification/ConfErrors.thy ===== *)
theory ConfErrors
  imports GoStrings
begin

text \<open>
  The constructors of package \<open>errors\<close>. A \<open>ConferenceError\<close> is \<open>ConfError\<close> with its code and
  its message; the message is the format string, the arguments are not rendered, and the call
  frames, which only serve the logs, are left out.
\<close>

definition Ok :: go_err where
  "Ok = ConfError 0 ''''"

definition IsOk :: "go_err \<Rightarrow> bool" where
  "IsOk err = (case err of ConfError code _ \<Rightarrow> code = 0 | PlainError _ \<Rightarrow> False)"

definition MaybeWrapError :: "go_err \<Rightarrow> go_err" where
  "MaybeWrapError cause = (case cause of ConfError c m \<Rightarrow> ConfError c m | PlainError m \<Rightarrow> ConfError 1000 m)"

definition Unauthorized :: "string \<Rightarrow> go_err" where
  "Unauthorized msg = ConfError 401 msg"

definition InvalidParam :: "string \<Rightarrow> go_err" where
  "InvalidParam msg = ConfError 400 msg"

definition FatalError :: "string \<Rightarrow> go_err" where
  "FatalError msg = ConfError 1000 msg"

definition BadPacket :: "string \<Rightarrow> go_err" where
  "BadPacket msg = ConfError 10000 msg"

definition InvalidPubPattern :: "string \<Rightarrow> go_err" where
  "InvalidPubPattern msg = ConfError 11000 msg"

definition RoomNoRight :: "go_err" where
  "RoomNoRight = ConfError 13000 ''no right for room %s''"

definition SubNotExist :: "go_err" where
  "SubNotExist = ConfError 12000 ''the subscription %v does not exists''"

definition InvalidState :: "string \<Rightarrow> go_err" where
  "InvalidState msg = ConfError 10000000 msg"

definition InvalidConfig :: "string \<Rightarrow> go_err" where
  "InvalidConfig msg = ConfError 14000 msg"

definition InvalidMessage :: "string \<Rightarrow> go_err" where
  "InvalidMessage msg = ConfError 15000 msg"

definition MsgTimeout :: "string \<Rightarrow> go_err" where
  "MsgTimeout msg = ConfError 16000 msg"

definition SignalContextClosed :: go_err where
  "SignalContextClosed = ConfError 20000 ''the signal context is closed''"

definition ThisIsImpossible :: go_err where
  "ThisIsImpossible = ConfError 10000000 ''this is impossible, if happened, must be a bug''"

lemma MaybeWrapError_idem [simp]: "MaybeWrapError (MaybeWrapError e) = MaybeWrapError e"
  by (cases e) (simp_all add: MaybeWrapError_def)

end
