(* ===== verification/ClusterConf.thy ===== *)
theory ClusterConf
  imports ConfErrors
begin

text \<open>
  The configuration of the cluster (\<open>config/model.go\<close>): Kafka, Redis, Prometheus, the name of the node and the debug mode.
\<close>

record RedisConfigure =
  rdMode :: string
  rdAddrs :: string
  rdUsers :: string
  rdPasses :: string
  rdKeyPrefix :: string
  rdMasterName :: string

record PrometheusConfigure =
  pmEnable :: bool
  pmNamespace :: string
  pmSubsystem :: string
  pmGoCollectors :: bool

record KafkaConfigure =
  kfAddrs :: string
  kfTopicPrefix :: string
  kfSaslEnable :: bool
  kfSaslMethod :: string
  kfSaslUser :: string
  kfSaslPass :: string
  kfTlsEnable :: bool
  kfTlsCa :: string
  kfTlsCert :: string
  kfTlsKey :: string
  kfPrometheus :: PrometheusConfigure
  kfMaxBufferedRecords :: int
  kfMaxBufferedBytes :: int
  kfMaxConcurrentFetches :: int
  kfFetchMaxBytes :: int
  kfBatchMaxBytes :: int
  kfNoIdempotency :: bool
  kfLingerMs :: int
  kfCompression :: string

record ClusterConfigure =
  clEnable :: bool
  clKafka :: KafkaConfigure
  clRedis :: RedisConfigure
  clNodeName :: string
  clDebugEnable :: bool
  clDebugReplicas :: int
  clDebugPortOffset :: int

definition GetNodeName :: "ClusterConfigure \<Rightarrow> string" where
  "GetNodeName c = (if clNodeName c = '''' then ''node0'' else clNodeName c)"

definition requiredString :: "string \<Rightarrow> go_err option" where
  "requiredString v = (if v = '''' then Some (InvalidConfig ''invalid config, %s is required%s'') else None)"

definition Kafka_Validate :: "KafkaConfigure \<Rightarrow> go_err option" where
  "Kafka_Validate c = requiredString (kfAddrs c)"

section \<open>Examples\<close>

definition demoProm :: PrometheusConfigure where
  "demoProm = \<lparr> pmEnable = False, pmNamespace = ''cfgo'', pmSubsystem = ''common'', pmGoCollectors = False \<rparr>"

definition demoKafka :: KafkaConfigure where
  "demoKafka = \<lparr> kfAddrs = ''k'', kfTopicPrefix = ''cfgo_'', kfSaslEnable = False, kfSaslMethod = '''', kfSaslUser = '''', kfSaslPass = '''',
     kfTlsEnable = False, kfTlsCa = '''', kfTlsCert = '''', kfTlsKey = '''', kfPrometheus = demoProm, kfMaxBufferedRecords = 0,
     kfMaxBufferedBytes = 0, kfMaxConcurrentFetches = 0, kfFetchMaxBytes = 0, kfBatchMaxBytes = 0, kfNoIdempotency = False, kfLingerMs = 0,
     kfCompression = ''none'' \<rparr>"

definition demoRedis :: RedisConfigure where
  "demoRedis = \<lparr> rdMode = ''auto'', rdAddrs = ''r'', rdUsers = '''', rdPasses = '''', rdKeyPrefix = ''cfgo:'', rdMasterName = '''' \<rparr>"

definition demoCluster :: ClusterConfigure where
  "demoCluster = \<lparr> clEnable = True, clKafka = demoKafka, clRedis = demoRedis, clNodeName = ''n'', clDebugEnable = True, clDebugReplicas = 3,
     clDebugPortOffset = 10 \<rparr>"

end
