(* ===== verification/RoomPattern.thy ===== *)
theory RoomPattern
  imports ConfErrors
begin

text \<open>
  Room names and room patterns (\<open>signal/utils.go\<close>): the checks of a pattern and of a room,
  \<open>MatchRoom\<close> with its backtracking loop, and the prefix tree \<open>PatternMap\<close> in which the
  messager keeps callbacks by pattern. A room is a dotted name; in a pattern the segment
  \<open>*\<close> stands for any one segment and \<open>**\<close> for any number of segments. \<open>glob\<close> is the
  abstract specification; \<open>MatchRoom\<close> and \<open>Collect\<close> are shown to implement it.
\<close>

section \<open>Checks\<close>

definition CheckPattern :: "string \<Rightarrow> unit res" where
  "CheckPattern pattern =
     (if pattern = '''' then Inl (ErrorPanic (InvalidParam ''pattern is required''))
      else if Contains pattern ''..'' \<or> HasPrefix pattern ''.'' \<or> HasSuffix pattern ''.''
      then Inl (ErrorPanic (InvalidParam ''invalid pattern %s''))
      else Inr ())"

definition CheckRoom :: "string \<Rightarrow> unit res" where
  "CheckRoom room =
     (if room = '''' then Inl (ErrorPanic (InvalidParam ''room is required''))
      else if Contains room ''*'' \<or> Contains room ''..'' \<or> HasPrefix room ''.'' \<or> HasSuffix room ''.''
      then Inl (ErrorPanic (InvalidParam ''invalid room %s''))
      else Inr ())"

section \<open>MatchRoom\<close>

text \<open>
  The loop of \<open>matchRoom\<close> only looks at the suffixes \<open>pt_parts[pt_i:]\<close> and
  \<open>rm_parts[rm_i:]\<close>; they are the arguments of the model. \<open>matchSuffixes\<close> is the inner loop
  over \<open>j\<close>. An index past the end is the runtime panic.
\<close>

function (sequential) matchRoom :: "string list \<Rightarrow> string list \<Rightarrow> bool res"
  and matchSuffixes :: "string list \<Rightarrow> string list \<Rightarrow> bool res" where
  "matchRoom (pt_part # pts) (rm_part # rms) =
     (if pt_part = ''**''
      then (let rest = dropWhile (\<lambda>p. p = ''**'') pts
            in if rest = [] then Inr True else matchSuffixes rest (rm_part # rms))
      else if pt_part = ''*'' \<or> pt_part = rm_part
      then (if pts = [] then Inr (rms = [])
            else if rms = [] then Inr (list_all (\<lambda>p. p = ''**'') pts)
            else matchRoom pts rms)
      else Inr False)"
| "matchRoom _ _ = Inl IndexOutOfRange"
| "matchSuffixes rest [] = Inr False"
| "matchSuffixes rest (r # rs) =
     (case matchRoom rest (r # rs) of
        Inl e \<Rightarrow> Inl e
      | Inr True \<Rightarrow> Inr True
      | Inr False \<Rightarrow> matchSuffixes rest rs)"
  by pat_completeness auto
termination
  by (relation "measures [\<lambda>x. case x of Inl (p, r) \<Rightarrow> length p | Inr (p, r) \<Rightarrow> length p,
                          \<lambda>x. case x of Inl (p, r) \<Rightarrow> length r | Inr (p, r) \<Rightarrow> length r,
                          \<lambda>x. case x of Inl _ \<Rightarrow> 0 | Inr _ \<Rightarrow> 1]")
     (auto simp: le_imp_less_Suc length_dropWhile_le)

definition MatchRoom :: "string \<Rightarrow> string \<Rightarrow> bool res" where
  "MatchRoom pattern room =
     bind_res (CheckPattern pattern) (\<lambda>_.
     bind_res (CheckRoom room) (\<lambda>_.
       if pattern = room \<or> pattern = ''**'' then Inr True
       else matchRoom (Split CHR ''.'' pattern) (Split CHR ''.'' room)))"

section \<open>The pattern tree\<close>

text \<open>
  The fields \<open>hasData\<close> and \<open>data\<close> are one option: the code only reads \<open>data\<close> where
  \<open>hasData\<close> is set and resets it to the zero value where it is not.
\<close>

datatype 'a PatternTree =
  PatternTree (children: "(string \<times> 'a PatternTree) list") (tdata: "'a option")

type_synonym 'a PatternMap = "(string \<times> 'a PatternTree) list"

definition NewPatternMap :: "'a PatternMap" where
  "NewPatternMap = []"

definition IsEmpty :: "'a PatternTree \<Rightarrow> bool" where
  "IsEmpty me = (tdata me = None \<and> children me = [])"

lemma size_child_entry:
  "(k, t) \<in> set cs \<Longrightarrow> size t < size (PatternTree cs d)"
  by (induction cs) auto

lemma size_child:
  "mget cs k = Some t \<Longrightarrow> size t < size (PatternTree cs d)"
  by (induction cs) (auto split: if_splits)

fun removePatternData :: "string list \<Rightarrow> 'a PatternTree \<Rightarrow> 'a PatternTree" where
  "removePatternData [] (PatternTree cs d) = PatternTree cs None"
| "removePatternData (key # ps) (PatternTree cs d) =
     (case mget cs key of
        None \<Rightarrow> PatternTree cs d
      | Some next \<Rightarrow>
          let next' = removePatternData ps next
          in PatternTree (if IsEmpty next' then mdel key cs else mput key next' cs) d)"

text \<open>The only caller has made \<open>pm.inner\<close> a non-nil map; \<open>inner\<close> is that map.\<close>

definition PatternMap_removePatternData :: "string list \<Rightarrow> 'a PatternMap \<Rightarrow> 'a PatternMap res" where
  "PatternMap_removePatternData pList inner =
     (case pList of
        [] \<Rightarrow> Inl (ErrorPanic ThisIsImpossible)
      | key # ps \<Rightarrow>
          (case mget inner key of
             None \<Rightarrow> Inr inner
           | Some pt \<Rightarrow> Inr (mput key (removePatternData ps pt) inner)))"

text \<open>
  The loop of \<open>UpdatePatternData\<close> walks down the tree and creates the missing nodes; the
  second component says that the mapper asked for the removal, which the code then does from
  the root. The mapper gets the old data (\<open>None\<close> for \<open>found = false\<close>) and returns the new
  one (\<open>None\<close> for \<open>remove = true\<close>).
\<close>

fun updateWalk :: "('a option \<Rightarrow> 'a option) \<Rightarrow> string list \<Rightarrow> 'a PatternMap \<Rightarrow> 'a PatternMap \<times> bool" where
  "updateWalk mapper [] inner = (inner, False)"
| "updateWalk mapper (p # ps) inner =
     (case mget inner p of
        found \<Rightarrow>
          if ps = []
          then (case mapper (case found of Some pt \<Rightarrow> tdata pt | None \<Rightarrow> None) of
                  None \<Rightarrow> (inner, True)
                | Some new \<Rightarrow>
                    (mput p (PatternTree (case found of Some pt \<Rightarrow> children pt | None \<Rightarrow> []) (Some new)) inner,
                     False))
          else (let pt = (case found of Some pt \<Rightarrow> pt | None \<Rightarrow> PatternTree [] None);
                    (cs, remove) = updateWalk mapper ps (children pt)
                in (mput p (PatternTree cs (tdata pt)) inner, remove)))"

definition UpdatePatternData :: "string \<Rightarrow> ('a option \<Rightarrow> 'a option) \<Rightarrow> 'a PatternMap \<Rightarrow> 'a PatternMap res" where
  "UpdatePatternData pattern mapper pm =
     bind_res (CheckPattern pattern) (\<lambda>_.
       let pList = Split CHR ''.'' pattern;
           (inner, remove) = updateWalk mapper pList pm
       in if remove then PatternMap_removePatternData pList inner else Inr inner)"

text \<open>
  \<open>collect\<close> threads the slice of results through its calls and only appends to it; the
  model returns what the call appends. \<open>starChain\<close> is its loop over the \<open>**\<close> children.
\<close>

function starChain :: "'a PatternTree \<Rightarrow> 'a list" where
  "starChain (PatternTree cs d) =
     (case mget cs ''**'' of
        None \<Rightarrow> []
      | Some pt \<Rightarrow> (case tdata pt of None \<Rightarrow> [] | Some v \<Rightarrow> [v]) @ starChain pt)"
  by pat_completeness auto
termination
  by (relation "measure size") (simp_all add: size_child del: PatternTree.size)

function collect :: "'a PatternTree \<Rightarrow> string list \<Rightarrow> bool \<Rightarrow> 'a list" where
  "collect (PatternTree cs d) [] doubleStar =
     (case d of None \<Rightarrow> [] | Some v \<Rightarrow> [v]) @ starChain (PatternTree cs d)"
| "collect (PatternTree cs d) (key # rest) doubleStar =
     (if doubleStar then (case d of None \<Rightarrow> [] | Some v \<Rightarrow> [v]) else [])
     @ (case mget cs ''**'' of None \<Rightarrow> [] | Some pt \<Rightarrow> collect pt (key # rest) True)
     @ (case mget cs ''*'' of None \<Rightarrow> [] | Some pt \<Rightarrow> collect pt rest False)
     @ (case mget cs key of None \<Rightarrow> [] | Some pt \<Rightarrow> collect pt rest False)
     @ (if doubleStar
        then concat (map (\<lambda>i. collect (PatternTree cs d) (drop i (key # rest)) False)
                         [1..<length (key # rest)])
        else [])"
  by pat_completeness auto
termination
  by (relation "measures [\<lambda>(t, m, b). size t, \<lambda>(t, m, b). length m]")
     (auto simp: size_child simp del: PatternTree.size)

definition Collect :: "string \<Rightarrow> 'a PatternMap \<Rightarrow> 'a list res" where
  "Collect toMatch pm =
     bind_res (CheckRoom toMatch) (\<lambda>_.
       let toMatchList = Split CHR ''.'' toMatch;
           key = hd toMatchList;
           leftKeys = tl toMatchList
       in Inr ((case mget pm ''**'' of None \<Rightarrow> [] | Some pt \<Rightarrow> collect pt toMatchList True)
             @ (case mget pm ''*'' of None \<Rightarrow> [] | Some pt \<Rightarrow> collect pt leftKeys False)
             @ (case mget pm key of None \<Rightarrow> [] | Some pt \<Rightarrow> collect pt leftKeys False)))"

section \<open>Specification: globs over segments\<close>

fun glob :: "string list \<Rightarrow> string list \<Rightarrow> bool" where
  "glob [] rs = (rs = [])"
| "glob (p # ps) [] = (p = ''**'' \<and> glob ps [])"
| "glob (p # ps) (r # rs) =
     (if p = ''**'' then glob ps (r # rs) \<or> glob (p # ps) rs
      else (p = ''*'' \<or> p = r) \<and> glob ps rs)"

lemma glob_empty [room_simps]: "glob ps [] \<longleftrightarrow> list_all (\<lambda>p. p = ''**'') ps"
  by (induction ps) auto

lemma glob_doublestar: "glob (''**'' # ps) rs \<longleftrightarrow> (\<exists>i \<le> length rs. glob ps (drop i rs))"
proof (induction rs)
  case Nil
  then show ?case by simp
next
  case (Cons r rs)
  have "(\<exists>i \<le> length (r # rs). glob ps (drop i (r # rs))) \<longleftrightarrow>
        glob ps (r # rs) \<or> (\<exists>i \<le> length rs. glob ps (drop i rs))"
    by (simp add: less_Suc_eq_le [symmetric] less_Suc_eq_0_disj [where n = "Suc (length rs)"] ex_disj_distrib conj_disj_distribR)
       (metis drop0 drop_Suc_Cons)
  then show ?case using Cons by simp
qed

lemma glob_doublestar_twice [room_simps]: "glob (''**'' # ''**'' # ps) rs \<longleftrightarrow> glob (''**'' # ps) rs"
  by (induction rs) auto

lemma glob_dropWhile:
  "glob (''**'' # dropWhile (\<lambda>p. p = ''**'') ps) rs \<longleftrightarrow> glob (''**'' # ps) rs"
  by (induction ps) (auto simp: room_simps)

lemma glob_doublestar_only [room_simps]: "glob [''**''] rs"
  by (induction rs) auto

text \<open>The recursive routine computes the specification and stays within its slices.\<close>

lemma matchRoom_matchSuffixes_glob:
  "pts \<noteq> [] \<Longrightarrow> rms \<noteq> [] \<Longrightarrow> matchRoom pts rms = Inr (glob pts rms)"
  "rest \<noteq> [] \<Longrightarrow> hd rest \<noteq> ''**'' \<Longrightarrow>
     matchSuffixes rest rs = Inr (\<exists>i < length rs. glob rest (drop i rs))"
proof (induction pts rms and rest rs rule: matchRoom_matchSuffixes.induct)
  case (1 pt_part pts rm_part rms)
  show ?case
  proof (cases "pt_part = ''**''")
    case True
    let ?rest = "dropWhile (\<lambda>p. p = ''**'') pts"
    have g: "glob (pt_part # pts) (rm_part # rms) = glob (''**'' # ?rest) (rm_part # rms)"
      using True by (simp add: glob_dropWhile del: glob.simps)
    show ?thesis
    proof (cases "?rest = []")
      case rest: True
      have "matchRoom (pt_part # pts) (rm_part # rms) = Inr True"
        using True rest by (simp add: Let_def del: dropWhile_eq_Nil_conv)
      moreover have "glob (pt_part # pts) (rm_part # rms)"
        unfolding g rest by (rule glob_doublestar_only)
      ultimately show ?thesis by simp
    next
      case False
      then have "hd ?rest \<noteq> ''**''" using hd_dropWhile [OF False] by simp
      with False True have "matchSuffixes ?rest (rm_part # rms) =
          Inr (\<exists>i < length (rm_part # rms). glob ?rest (drop i (rm_part # rms)))"
        using "1.IH"(1) [OF True refl] by blast
      moreover have "\<not> glob ?rest []"
        using False \<open>hd ?rest \<noteq> ''**''\<close> by (cases ?rest) auto
      ultimately show ?thesis
        using True False unfolding g glob_doublestar
        by (auto simp: Let_def le_less)
    qed
  next
    case False
    then show ?thesis using "1.IH"(2) by (auto simp: room_simps neq_Nil_conv)
  qed
next
  case (4 rest r rs)
  have "(\<exists>i < length (r # rs). glob rest (drop i (r # rs))) \<longleftrightarrow>
        glob rest (r # rs) \<or> (\<exists>i < length rs. glob rest (drop i rs))"
    by (auto simp: less_Suc_eq_0_disj)
  with 4 show ?case by (auto split: bool.splits)
qed auto


section \<open>What the tree stores\<close>

fun lookup :: "'a PatternTree \<Rightarrow> string list \<Rightarrow> 'a option" where
  "lookup t [] = tdata t"
| "lookup t (k # ks) = (case mget (children t) k of None \<Rightarrow> None | Some t' \<Rightarrow> lookup t' ks)"

definition plookup :: "'a PatternMap \<Rightarrow> string list \<Rightarrow> 'a option" where
  "plookup pm ks = lookup (PatternTree pm None) ks"

lemma plookup_simps [simp]:
  "plookup pm [] = None"
  "plookup pm (k # ks) = (case mget pm k of None \<Rightarrow> None | Some t \<Rightarrow> lookup t ks)"
  by (simp_all add: plookup_def)

lemma lookup_plookup: "lookup t ks = (if ks = [] then tdata t else plookup (children t) ks)"
  by (cases ks) auto

lemma lookup_IsEmpty: "IsEmpty t \<Longrightarrow> lookup t q = None"
  by (cases q) (auto simp: IsEmpty_def)

lemma lookup_removePatternData:
  "lookup (removePatternData ps t) q = (if q = ps then None else lookup t q)"
proof (induction ps t arbitrary: q rule: removePatternData.induct)
  case (1 cs d)
  then show ?case by (cases q) auto
next
  case (2 key ps cs d)
  show ?case
  proof (cases "mget cs key")
    case None
    then show ?thesis by (cases q) auto
  next
    case (Some n)
    have e: "IsEmpty (removePatternData ps n) \<Longrightarrow> r \<noteq> ps \<Longrightarrow> lookup n r = None" for r
      using lookup_IsEmpty [of "removePatternData ps n" r] 2 [OF Some, of r] by simp
    from Some 2 [OF Some] show ?thesis
      by (cases q) (auto simp: Let_def gomap_simps e)
  qed
qed

lemma plookup_mput:
  "plookup (mput p t inner) q =
     (case q of [] \<Rightarrow> None | k # ks \<Rightarrow> if k = p then lookup t ks else plookup inner q)"
  by (cases q) (auto simp: gomap_simps)

lemma updateWalk_lookup:
  "ps \<noteq> [] \<Longrightarrow> updateWalk mapper ps inner = (inner', rm) \<Longrightarrow>
   rm = (mapper (plookup inner ps) = None) \<and>
   (\<forall>q. plookup inner' q =
          (if q = ps \<and> \<not> rm then mapper (plookup inner ps) else plookup inner q))"
proof (induction ps arbitrary: inner inner' rm)
  case Nil
  then show ?case by simp
next
  case (Cons p ps)
  show ?case
  proof (cases "ps = []")
    case True
    obtain pt where pt: "pt = (case mget inner p of Some pt \<Rightarrow> pt | None \<Rightarrow> PatternTree [] None)" by simp
    have same: "plookup inner (p # k) = lookup pt k" for k
      by (cases k) (auto simp: pt split: option.splits)
    have walk: "updateWalk mapper (p # ps) inner =
        (case mapper (tdata pt) of None \<Rightarrow> (inner, True)
         | Some new \<Rightarrow> (mput p (PatternTree (children pt) (Some new)) inner, False))"
      using True by (simp add: pt split: option.splits)
    show ?thesis
    proof (cases "mapper (tdata pt)")
      case None
      with walk Cons.prems same [of ps] True show ?thesis by (simp del: plookup_simps)
    next
      case (Some new)
      then have r: "inner' = mput p (PatternTree (children pt) (Some new)) inner" "\<not> rm"
        using walk Cons.prems by auto
      have "plookup inner' q = (if q = p # ps then Some new else plookup inner q)" for q
        using True same [of "tl q"]
        by (cases q) (auto simp: r plookup_mput lookup_plookup simp del: plookup_simps(2))
      with r Some same [of ps] True show ?thesis by (simp del: plookup_simps)
    qed
  next
    case False
    obtain pt where pt: "pt = (case mget inner p of Some pt \<Rightarrow> pt | None \<Rightarrow> PatternTree [] None)" by simp
    obtain cs rm' where w: "updateWalk mapper ps (children pt) = (cs, rm')" by fastforce
    have r: "inner' = mput p (PatternTree cs (tdata pt)) inner" "rm = rm'"
      using Cons.prems False w pt by (auto split: option.splits)
    note IH = Cons.IH [OF False w]
    have same: "plookup inner (p # k) = lookup pt k" for k
      by (cases k) (auto simp: pt split: option.splits)
    have "plookup inner' q =
        (if q = p # ps \<and> \<not> rm then mapper (plookup inner (p # ps)) else plookup inner q)" for q
    proof (cases q)
      case Nil
      then show ?thesis by simp
    next
      case (Cons k ks)
      then show ?thesis
        using IH False same [of ks] same [of ps]
        by (cases "k = p") (auto simp: r plookup_mput lookup_plookup simp del: plookup_simps(2))
    qed
    moreover have "rm = (mapper (plookup inner (p # ps)) = None)"
      using IH r same [of ps] False by (simp add: lookup_plookup del: plookup_simps(2))
    ultimately show ?thesis by blast
  qed
qed

lemma UpdatePatternData_lookup:
  assumes "CheckPattern pattern = Inr ()"
  shows "\<exists>pm'. UpdatePatternData pattern mapper pm = Inr pm' \<and>
           (\<forall>q. plookup pm' q =
              (if q = Split CHR ''.'' pattern then mapper (plookup pm q) else plookup pm q))"
proof -
  let ?p = "Split CHR ''.'' pattern"
  obtain inner rm where w: "updateWalk mapper ?p pm = (inner, rm)" by fastforce
  note W = updateWalk_lookup [OF Split_nonempty w]
  obtain key ps where kp: "?p = key # ps" by (metis Split_nonempty neq_Nil_conv)
  show ?thesis
  proof (cases rm)
    case False
    then show ?thesis using assms w W by (auto simp: UpdatePatternData_def)
  next
    case True
    then have same: "plookup inner q = plookup pm q" for q using W by simp
    have n: "mapper (plookup pm ?p) = None" using True W by simp
    have del: "plookup (mput key (removePatternData ps pt) inner) q =
        (if q = key # ps then None else plookup inner q)" if "mget inner key = Some pt" for pt q
      using that by (cases q) (auto simp: gomap_simps lookup_removePatternData)
    have none: "plookup inner ?p = None" if "mget inner key = None"
      using that kp by simp
    show ?thesis
      using assms w True kp n del none same
      by (cases "mget inner key")
         (auto simp: UpdatePatternData_def PatternMap_removePatternData_def simp del: plookup_simps)
  qed
qed

section \<open>What Collect finds\<close>

lemma set_starChain: "set (starChain t) = {v. \<exists>n. lookup t (replicate (Suc n) ''**'') = Some v}"
proof (induction t rule: starChain.induct)
  case (1 cs d)
  show ?case
  proof (cases "mget cs ''**''")
    case None
    then show ?thesis by simp
  next
    case (Some pt)
    have "(\<exists>n. lookup pt (replicate n ''**'') = Some v) \<longleftrightarrow>
          tdata pt = Some v \<or> (\<exists>n. lookup pt (replicate (Suc n) ''**'') = Some v)" for v
      by (metis lookup.simps(1) not0_implies_Suc replicate_0)
    with Some 1 [OF Some] show ?thesis by (auto split: option.splits)
  qed
qed

lemma list_all_replicate: "list_all (\<lambda>p. p = x) ps \<longleftrightarrow> ps = [] \<or> (\<exists>n. ps = replicate (Suc n) x)"
proof
  assume "list_all (\<lambda>p. p = x) ps"
  then have "ps = replicate (length ps) x" by (induction ps) auto
  then show "ps = [] \<or> (\<exists>n. ps = replicate (Suc n) x)"
    by (metis length_0_conv not0_implies_Suc)
qed (auto simp: list_all_iff)

text \<open>
  The patterns \<open>p\<close> below a node that match \<open>m\<close>: \<open>doubleStar\<close> says that the node itself
  was reached through a \<open>**\<close>.
\<close>

definition node_matches :: "'a PatternTree \<Rightarrow> string list \<Rightarrow> bool \<Rightarrow> 'a set" where
  "node_matches t m doubleStar =
     {v. \<exists>p. lookup t p = Some v \<and> glob (if doubleStar then ''**'' # p else p) m}"

lemma node_matches_empty:
  "node_matches (PatternTree cs d) [] ds =
     set (case d of None \<Rightarrow> [] | Some v \<Rightarrow> [v]) \<union> set (starChain (PatternTree cs d))"
proof -
  have "glob (if ds then ''**'' # p else p) [] \<longleftrightarrow> (p = [] \<or> (\<exists>n. p = replicate (Suc n) ''**''))" for p
    unfolding list_all_replicate [symmetric] by (simp add: glob_empty)
  then have "node_matches (PatternTree cs d) [] ds =
      {v. lookup (PatternTree cs d) [] = Some v} \<union>
      {v. \<exists>n. lookup (PatternTree cs d) (replicate (Suc n) ''**'') = Some v}"
    unfolding node_matches_def by (auto simp del: lookup.simps replicate_Suc)
  then show ?thesis
    by (auto simp: set_starChain simp del: replicate_Suc lookup.simps(2) starChain.simps split: option.splits)
qed

definition child_matches :: "'a PatternMap \<Rightarrow> string \<Rightarrow> ('a PatternTree \<Rightarrow> 'a set) \<Rightarrow> 'a set" where
  "child_matches cs k f = (case mget cs k of None \<Rightarrow> {} | Some pt \<Rightarrow> f pt)"

lemma mem_child_matches: "v \<in> child_matches cs k f \<longleftrightarrow> (\<exists>pt. mget cs k = Some pt \<and> v \<in> f pt)"
  by (simp add: child_matches_def split: option.splits)

lemma ex_list_cases: "(\<exists>p. P p) \<longleftrightarrow> P [] \<or> (\<exists>k ks. P (k # ks))"
  by (metis list.exhaust)

lemma ex_three_keys:
  "(\<exists>k ks pt. M k = Some pt \<and> L pt ks = w \<and> (k = a \<and> A ks \<or> (k = b \<or> k = c) \<and> B ks)) \<longleftrightarrow>
   ((\<exists>pt. M a = Some pt \<and> (\<exists>ks. L pt ks = w \<and> A ks)) \<or>
    (\<exists>pt. M b = Some pt \<and> (\<exists>ks. L pt ks = w \<and> B ks))) \<or>
   (\<exists>pt. M c = Some pt \<and> (\<exists>ks. L pt ks = w \<and> B ks))"
  by blast

lemma un_absorb_part: "x = d \<union> f \<union> u \<Longrightarrow> y = d \<union> c \<union> v \<Longrightarrow> c \<subseteq> f \<Longrightarrow> v = f \<union> u \<Longrightarrow> x = y"
  by blast

lemma lookup_Cons_iff:
  "lookup t (k # ks) = Some v \<longleftrightarrow> (\<exists>pt. mget (children t) k = Some pt \<and> lookup pt ks = Some v)"
  by (simp split: option.splits)

lemma node_matches_False:
  assumes "key \<noteq> ''*''" "key \<noteq> ''**''"
  shows "node_matches (PatternTree cs d) (key # rest) False =
    child_matches cs ''**'' (\<lambda>pt. node_matches pt (key # rest) True) \<union>
    child_matches cs ''*'' (\<lambda>pt. node_matches pt rest False) \<union>
    child_matches cs key (\<lambda>pt. node_matches pt rest False)" (is "?L = ?R")
proof (rule set_eqI)
  fix v
  define G where "G ks = glob (''**'' # ks) (key # rest)" for ks
  have g: "glob (k # ks) (key # rest) \<longleftrightarrow> k = ''**'' \<and> G ks \<or> (k = ''*'' \<or> k = key) \<and> glob ks rest" for k ks
    using assms by (auto simp: G_def)
  have "v \<in> ?L \<longleftrightarrow> (\<exists>k ks. lookup (PatternTree cs d) (k # ks) = Some v \<and> glob (k # ks) (key # rest))"
    unfolding node_matches_def mem_Collect_eq
    by (subst ex_list_cases) (simp del: lookup.simps glob.simps(3))
  also have "\<dots> \<longleftrightarrow> (\<exists>k ks pt. mget cs k = Some pt \<and> lookup pt ks = Some v \<and>
      (k = ''**'' \<and> G ks \<or> (k = ''*'' \<or> k = key) \<and> glob ks rest))"
    by (simp only: lookup_Cons_iff g PatternTree.sel) blast
  also have "\<dots> \<longleftrightarrow> v \<in> ?R"
    unfolding mem_child_matches Un_iff node_matches_def mem_Collect_eq if_True if_False G_def
    by (rule ex_three_keys)
  finally show "v \<in> ?L \<longleftrightarrow> v \<in> ?R" .
qed

lemma node_matches_True:
  assumes "m \<noteq> []"
  shows "node_matches (PatternTree cs d) m True =
    set (case d of None \<Rightarrow> [] | Some v \<Rightarrow> [v]) \<union>
    child_matches cs ''**'' (\<lambda>pt. node_matches pt m True) \<union>
    (\<Union>i < length m. node_matches (PatternTree cs d) (drop i m) False)" (is "?L = ?D \<union> ?C \<union> ?U")
proof (rule set_eqI)
  fix v
  let ?t = "PatternTree cs d"
  have star: "glob (''**'' # p) m \<longleftrightarrow> list_all (\<lambda>p. p = ''**'') p \<or> (\<exists>i < length m. glob p (drop i m))" for p
    unfolding glob_doublestar by (auto simp: le_less glob_empty)
  have all: "lookup ?t p = Some v \<Longrightarrow> list_all (\<lambda>p. p = ''**'') p \<Longrightarrow> v \<in> ?D \<union> ?C" for p
    using star [of "tl p"]
    by (cases p) (auto simp: child_matches_def node_matches_def simp del: glob.simps split: option.splits)
  have "glob (''**'' # ''**'' # ps) m" if "glob (''**'' # ps) m" for ps
    using that by (simp add: room_simps del: glob.simps)
  then have C: "v \<in> ?C \<Longrightarrow> v \<in> ?L"
    unfolding child_matches_def node_matches_def
    by (auto simp del: glob.simps split: option.splits)
       (metis lookup.simps(2) option.simps(5) PatternTree.sel(1))
  have D: "v \<in> ?D \<Longrightarrow> v \<in> ?L"
    unfolding node_matches_def using star [of "[]"]
    by (auto simp del: glob.simps split: option.splits intro!: exI [of _ "[]"])
  show "v \<in> ?L \<longleftrightarrow> v \<in> ?D \<union> ?C \<union> ?U"
    using all C D star unfolding node_matches_def by (simp del: glob.simps) blast
qed

lemma set_opt_collect:
  "set (case mget cs k of None \<Rightarrow> [] | Some pt \<Rightarrow> f pt) = child_matches cs k (\<lambda>pt. set (f pt))"
  by (simp add: child_matches_def split: option.splits)

lemma set_collect:
  assumes "''*'' \<notin> set m" "''**'' \<notin> set m"
  shows "set (collect t m ds) = node_matches t m ds"
  using assms
proof (induction t m ds rule: collect.induct)
  case (1 cs d ds)
  then show ?case by (simp add: node_matches_empty)
next
  case (2 cs d key rest ds)
  let ?m = "key # rest" and ?t = "PatternTree cs d"
  have key: "key \<noteq> ''*''" "key \<noteq> ''**''" "''*'' \<notin> set rest" "''**'' \<notin> set rest" using 2 by auto
  have c: "child_matches cs ''**'' (\<lambda>pt. set (collect pt ?m True)) = child_matches cs ''**'' (\<lambda>pt. node_matches pt ?m True)"
      "child_matches cs ''*'' (\<lambda>pt. set (collect pt rest False)) = child_matches cs ''*'' (\<lambda>pt. node_matches pt rest False)"
      "child_matches cs key (\<lambda>pt. set (collect pt rest False)) = child_matches cs key (\<lambda>pt. node_matches pt rest False)"
    using 2 by (auto simp: child_matches_def split: option.splits)
  have l: "ds \<Longrightarrow> i \<in> {1..<length ?m} \<Longrightarrow> set (collect ?t (drop i ?m) False) = node_matches ?t (drop i ?m) False" for i
    by (rule "2.IH"(4)) (use "2.prems" in \<open>auto dest: in_set_dropD\<close>)
  have base: "child_matches cs ''**'' (\<lambda>pt. set (collect pt ?m True)) \<union>
      child_matches cs ''*'' (\<lambda>pt. set (collect pt rest False)) \<union>
      child_matches cs key (\<lambda>pt. set (collect pt rest False)) = node_matches ?t ?m False"
    unfolding c node_matches_False [OF key(1,2)] ..
  have un: "(\<Union>i < length ?m. node_matches ?t (drop i ?m) False) =
      node_matches ?t ?m False \<union> (\<Union>i \<in> {1..<length ?m}. node_matches ?t (drop i ?m) False)"
    by (auto simp: less_Suc_eq_0_disj)
       (metis One_nat_def Suc_le_eq Suc_less_eq atLeastLessThan_iff drop_Suc_Cons zero_less_Suc)
  show ?case
  proof (cases ds)
    case False
    then show ?thesis using base by (simp add: set_opt_collect Un_assoc)
  next
    case True
    then have ds: "ds = True" by simp
    have "set (collect ?t ?m True) = set (case d of None \<Rightarrow> [] | Some v \<Rightarrow> [v]) \<union> node_matches ?t ?m False \<union>
        (\<Union>i \<in> {1..<length ?m}. node_matches ?t (drop i ?m) False)"
      using l [OF True] unfolding base [symmetric]
      by (simp add: set_opt_collect Un_assoc del: upt_Suc drop_Suc_Cons)
    moreover have "node_matches ?t ?m True =
        set (case d of None \<Rightarrow> [] | Some v \<Rightarrow> [v]) \<union> child_matches cs ''**'' (\<lambda>pt. node_matches pt ?m True) \<union>
        (\<Union>i < length ?m. node_matches ?t (drop i ?m) False)"
      by (rule node_matches_True) simp
    moreover have "child_matches cs ''**'' (\<lambda>pt. node_matches pt ?m True) \<subseteq> node_matches ?t ?m False"
      using base c(1) by blast
    ultimately show ?thesis unfolding ds using un by (rule un_absorb_part)
  qed
qed

section \<open>Patterns and rooms as strings\<close>

fun joinDots :: "string list \<Rightarrow> string" where
  "joinDots [] = []"
| "joinDots [w] = w"
| "joinDots (w # ws) = w @ CHR ''.'' # joinDots ws"

lemma joinDots_Cons_char: "joinDots ((x # w) # ws) = x # joinDots (w # ws)"
  by (cases ws) auto

lemma joinDots_Split [simp]: "joinDots (Split CHR ''.'' s) = s"
proof (induction s)
  case (Cons x xs)
  obtain w ws where "Split CHR ''.'' xs = w # ws" by (metis Split_nonempty neq_Nil_conv)
  with Cons show ?case by (auto simp: joinDots_Cons_char)
qed simp

lemma Split_inject: "Split CHR ''.'' s = Split CHR ''.'' t \<longleftrightarrow> s = t"
  by (metis joinDots_Split)

lemma glob_refl: "glob ps ps"
proof (induction ps)
  case (Cons p ps)
  have "glob (''**'' # ps) ps" unfolding glob_doublestar using Cons by (auto intro!: exI [of _ 0])
  with Cons show ?case by auto
qed simp

lemma CheckPattern_ok_iff: "CheckPattern pattern = Inr () \<longleftrightarrow> [] \<notin> set (Split CHR ''.'' pattern)"
  unfolding Split_segments_nonempty by (auto simp: CheckPattern_def)

lemma CheckRoom_ok_iff:
  "CheckRoom room = Inr () \<longleftrightarrow> [] \<notin> set (Split CHR ''.'' room) \<and> CHR ''*'' \<notin> set room"
  unfolding Split_segments_nonempty by (auto simp: CheckRoom_def)

lemma CheckRoom_no_stars:
  assumes "CheckRoom room = Inr ()"
  shows "''*'' \<notin> set (Split CHR ''.'' room)" "''**'' \<notin> set (Split CHR ''.'' room)"
  using assms Split_chars [of "''*''" "CHR ''.''" room] Split_chars [of "''**''" "CHR ''.''" room]
  by (auto simp: CheckRoom_ok_iff)

definition patternMatches :: "string \<Rightarrow> string \<Rightarrow> bool" where
  "patternMatches pattern room = glob (Split CHR ''.'' pattern) (Split CHR ''.'' room)"

definition stored :: "'a PatternMap \<Rightarrow> string \<Rightarrow> 'a option" where
  "stored pm pattern = plookup pm (Split CHR ''.'' pattern)"

text \<open>Every path that holds data is the path of an accepted pattern.\<close>

definition pm_wf :: "'a PatternMap \<Rightarrow> bool" where
  "pm_wf pm \<longleftrightarrow>
     (\<forall>ks v. plookup pm ks = Some v \<longrightarrow>
        (\<exists>pattern. CheckPattern pattern = Inr () \<and> Split CHR ''.'' pattern = ks))"

lemma pm_wf_New [simp]: "pm_wf (NewPatternMap :: 'a PatternMap)"
proof -
  have "plookup (NewPatternMap :: 'a PatternMap) ks = None" for ks by (cases ks) (auto simp: NewPatternMap_def)
  then show ?thesis by (simp add: pm_wf_def)
qed

lemma stored_New [simp]: "stored NewPatternMap p = None"
  by (cases "Split CHR ''.'' p") (auto simp: stored_def NewPatternMap_def)

lemma UpdatePatternData_stored:
  assumes "pm_wf pm" "CheckPattern pattern = Inr ()"
  shows "\<exists>pm'. UpdatePatternData pattern mapper pm = Inr pm' \<and> pm_wf pm' \<and>
           (\<forall>q. stored pm' q = (if q = pattern then mapper (stored pm q) else stored pm q))"
proof -
  obtain pm' where u: "UpdatePatternData pattern mapper pm = Inr pm'"
    and l: "\<And>q. plookup pm' q =
      (if q = Split CHR ''.'' pattern then mapper (plookup pm q) else plookup pm q)"
    using UpdatePatternData_lookup [OF assms(2), of mapper pm] by blast
  have "pm_wf pm'" using assms by (auto simp: pm_wf_def l split: if_splits)
  with u l show ?thesis by (auto simp: stored_def Split_inject)
qed

lemma Collect_stored:
  assumes "pm_wf pm" "CheckRoom room = Inr ()"
  shows "\<exists>vs. Collect room pm = Inr vs \<and>
           set vs = {v. \<exists>p. CheckPattern p = Inr () \<and> stored pm p = Some v \<and> patternMatches p room}"
proof -
  obtain key rest where sp: "Split CHR ''.'' room = key # rest" by (metis Split_nonempty neq_Nil_conv)
  have k: "key \<noteq> ''*''" "key \<noteq> ''**''" "''*'' \<notin> set rest" "''**'' \<notin> set rest"
    using CheckRoom_no_stars [OF assms(2)] sp by auto
  obtain vs where vs: "Collect room pm = Inr vs"
    and v: "set vs = child_matches pm ''**'' (\<lambda>pt. node_matches pt (key # rest) True) \<union>
      child_matches pm ''*'' (\<lambda>pt. node_matches pt rest False) \<union>
      child_matches pm key (\<lambda>pt. node_matches pt rest False)"
    using k assms(2) by (simp add: Collect_def sp set_opt_collect set_collect Un_assoc)
  have "set vs = {v. \<exists>ks. plookup pm ks = Some v \<and> glob ks (key # rest)}"
    unfolding v node_matches_False [OF k(1,2), of pm None rest, symmetric]
    by (simp add: node_matches_def plookup_def)
  also have "\<dots> = {v. \<exists>p. CheckPattern p = Inr () \<and> stored pm p = Some v \<and> patternMatches p room}"
    using assms(1) unfolding pm_wf_def stored_def patternMatches_def sp by blast
  finally show ?thesis using vs by blast
qed

lemma MatchRoom_patternMatches:
  "MatchRoom pattern room =
     bind_res (CheckPattern pattern) (\<lambda>_. bind_res (CheckRoom room) (\<lambda>_.
       Inr (patternMatches pattern room)))"
  using matchRoom_matchSuffixes_glob(1) [OF Split_nonempty Split_nonempty, of "CHR ''.''" pattern "CHR ''.''" room]
  by (auto simp: MatchRoom_def patternMatches_def bind_res_def glob_refl room_simps split: sum.splits)

section \<open>The interface of the store\<close>

text \<open>
  What the messager relies on. A loop that updates the data of several patterns in turn is
  analysed once, from the two laws.
\<close>

locale pattern_store =
  fixes upd :: "string \<Rightarrow> ('d option \<Rightarrow> 'd option) \<Rightarrow> 'm \<Rightarrow> 'm res"
    and coll :: "string \<Rightarrow> 'm \<Rightarrow> 'd list res"
    and look :: "'m \<Rightarrow> string \<Rightarrow> 'd option"
    and invar :: "'m \<Rightarrow> bool"
    and pat_ok :: "string \<Rightarrow> bool"
    and room_ok :: "string \<Rightarrow> bool"
    and matches :: "string \<Rightarrow> string \<Rightarrow> bool"
  assumes upd_law: "invar m \<Longrightarrow> pat_ok p \<Longrightarrow>
      \<exists>m'. upd p f m = Inr m' \<and> invar m' \<and>
        (\<forall>q. look m' q = (if q = p then f (look m q) else look m q))"
    and coll_law: "invar m \<Longrightarrow> room_ok r \<Longrightarrow>
      \<exists>vs. coll r m = Inr vs \<and> set vs = {v. \<exists>p. pat_ok p \<and> look m p = Some v \<and> matches p r}"
begin

lemma upd_all:
  assumes idem: "\<And>x. f (f x) = f x"
  shows "invar m \<Longrightarrow> list_all pat_ok ps \<Longrightarrow>
    \<exists>m'. fold_res (\<lambda>p. upd p f) ps m = Inr m' \<and> invar m' \<and>
      (\<forall>q. look m' q = (if q \<in> set ps then f (look m q) else look m q))"
proof (induction ps arbitrary: m)
  case Nil
  then show ?case by simp
next
  case (Cons p ps)
  then obtain m1 where m1: "upd p f m = Inr m1" "invar m1"
      "\<And>q. look m1 q = (if q = p then f (look m q) else look m q)"
    using upd_law [of m p f] by auto
  from Cons.IH [OF m1(2)] Cons.prems obtain m2 where
      "fold_res (\<lambda>p. upd p f) ps m1 = Inr m2" "invar m2"
      "\<And>q. look m2 q = (if q \<in> set ps then f (look m1 q) else look m1 q)" by auto
  then show ?case using m1 idem by auto
qed

text \<open>The data found for a room after the loop: the new data of the matching patterns.\<close>

lemma coll_upd_all:
  assumes "invar m" "list_all pat_ok ps" "room_ok r" "\<And>x. f (f x) = f x"
  shows "\<exists>m' vs. fold_res (\<lambda>p. upd p f) ps m = Inr m' \<and> coll r m' = Inr vs \<and> invar m' \<and>
    set vs = {v. \<exists>p. pat_ok p \<and> matches p r \<and>
      (if p \<in> set ps then f (look m p) else look m p) = Some v}"
proof -
  obtain m' where m': "fold_res (\<lambda>p. upd p f) ps m = Inr m'" "invar m'"
      "\<And>q. look m' q = (if q \<in> set ps then f (look m q) else look m q)"
    using upd_all [of f m ps] assms by blast
  with coll_law [OF m'(2) assms(3)] show ?thesis by auto
qed

end

interpretation pm: pattern_store UpdatePatternData Collect stored pm_wf
    "\<lambda>p. CheckPattern p = Inr ()" "\<lambda>r. CheckRoom r = Inr ()" patternMatches
  by unfold_locales (rule UpdatePatternData_stored Collect_stored; assumption)+

section \<open>Properties\<close>

text \<open>C5: \<open>MatchRoom\<close> never indexes past its slices and computes the glob relation between the
  segments of the pattern and the segments of the room; the only panics are those of
  \<open>CheckPattern\<close> and \<open>CheckRoom\<close>, in this order.\<close>

theorem MatchRoom_glob:
  "MatchRoom pattern room =
     (case CheckPattern pattern of Inl e \<Rightarrow> Inl e
      | Inr _ \<Rightarrow> (case CheckRoom room of Inl e \<Rightarrow> Inl e
                 | Inr _ \<Rightarrow> Inr (glob (Split CHR ''.'' pattern) (Split CHR ''.'' room))))"
  by (simp add: MatchRoom_patternMatches bind_res_def patternMatches_def)

text \<open>C6: the prefix tree and the direct matcher agree: for an accepted room, \<open>Collect\<close> returns
  the data of exactly those stored patterns for which \<open>MatchRoom\<close> answers true.\<close>

theorem Collect_agrees_with_MatchRoom:
  assumes "pm_wf pm" "CheckRoom room = Inr ()"
  shows "\<exists>vs. Collect room pm = Inr vs \<and>
           (\<forall>v. v \<in> set vs \<longleftrightarrow> (\<exists>p. stored pm p = Some v \<and> MatchRoom p room = Inr True))"
proof -
  have "MatchRoom p room = Inr True \<longleftrightarrow> CheckPattern p = Inr () \<and> patternMatches p room" for p
    by (cases "CheckPattern p") (auto simp: MatchRoom_patternMatches assms(2))
  then show ?thesis using Collect_stored [OF assms] by fastforce
qed

text \<open>C26: \<open>UpdatePatternData\<close> on an accepted pattern applies the mapper to the data of that
  pattern alone (creating, replacing or removing it), keeps the tree well formed, and never
  reaches its \<open>ThisIsImpossible\<close> panic.\<close>

theorem UpdatePatternData_correct:
  assumes "pm_wf pm" "CheckPattern pattern = Inr ()"
  shows "\<exists>pm'. UpdatePatternData pattern mapper pm = Inr pm' \<and> pm_wf pm' \<and>
           (\<forall>q. stored pm' q = (if q = pattern then mapper (stored pm q) else stored pm q))"
  by (rule UpdatePatternData_stored [OF assms])

definition demo_tree :: "nat PatternMap" where
  "demo_tree = [(''a'', PatternTree [(''**'', PatternTree [] (Some 1)), (''b'', PatternTree [] (Some 2))] None)]"

lemma demo_tree_wf: "pm_wf demo_tree"
proof -
  have "ks \<in> {[''a'', ''**''], [''a'', ''b'']}" if "plookup demo_tree ks = Some v" for ks v
    using that by (cases ks; cases "tl ks"; cases "tl (tl ks)")
      (auto simp: demo_tree_def split: if_splits)
  moreover have "CheckPattern ''a.**'' = Inr () \<and> Split CHR ''.'' ''a.**'' = [''a'', ''**'']"
    "CheckPattern ''a.b'' = Inr () \<and> Split CHR ''.'' ''a.b'' = [''a'', ''b'']" by code_simp+
  ultimately show ?thesis unfolding pm_wf_def by (metis empty_iff insert_iff)
qed

theorem Collect_agrees_witness:
  "\<exists>vs. Collect ''a.c.d'' demo_tree = Inr vs \<and>
     (\<forall>v. v \<in> set vs \<longleftrightarrow> (\<exists>p. stored demo_tree p = Some v \<and> MatchRoom p ''a.c.d'' = Inr True))"
proof -
  have "CheckRoom ''a.c.d'' = Inr ()" by code_simp
  with demo_tree_wf show ?thesis by (rule Collect_agrees_with_MatchRoom)
qed

theorem UpdatePatternData_witness:
  "\<exists>pm'. UpdatePatternData ''a.b'' (\<lambda>_. None) demo_tree = Inr pm' \<and> pm_wf pm' \<and>
     (\<forall>q. stored pm' q = (if q = ''a.b'' then None else stored demo_tree q))"
proof -
  have "CheckPattern ''a.b'' = Inr ()" by code_simp
  then show ?thesis using UpdatePatternData_correct [OF demo_tree_wf, of "''a.b''" "\<lambda>_. None"] by simp
qed

end
