(* ===== verification/Collections.thy ===== *)
theory Collections
  imports ConfErrors "HOL-Library.More_List"
begin

unbundle bit_operations_syntax

text \<open>
  The generic helpers of \<open>utils/collection.go\<close>. A slice is a list and a nil slice is \<open>[]\<close>.
  An operation that may write to the array behind its argument returns a pair: the elements of
  the argument slice after the call, and the result. The loops that delete in place are the
  index loops of the code on that array; the lemmas show that writing behind the read position
  is safe, so the in-place and the copying mode return the same slice.
\<close>

section \<open>Searching\<close>

definition SimpleEqualer :: "'a \<Rightarrow> 'a \<Rightarrow> bool" where
  "SimpleEqualer t1 t2 = (t1 = t2)"

text \<open>The comparer is \<open>None\<close> when the caller passes nil.\<close>

fun inSliceLoop :: "('a \<Rightarrow> 'a \<Rightarrow> bool) \<Rightarrow> 'a list \<Rightarrow> 'a \<Rightarrow> bool" where
  "inSliceLoop comparer [] target = False"
| "inSliceLoop comparer (e # sl) target = (if comparer e target then True else inSliceLoop comparer sl target)"

definition InSlice :: "'a list \<Rightarrow> 'a \<Rightarrow> ('a \<Rightarrow> 'a \<Rightarrow> bool) option \<Rightarrow> bool" where
  "InSlice sl target comparer =
     inSliceLoop (case comparer of None \<Rightarrow> SimpleEqualer | Some c \<Rightarrow> c) sl target"

fun InSlice2 :: "'a list \<Rightarrow> ('a \<Rightarrow> bool) \<Rightarrow> bool" where
  "InSlice2 [] tester = False"
| "InSlice2 (e # sl) tester = (if tester e then True else InSlice2 sl tester)"

fun indexOfLoop :: "('a \<Rightarrow> 'a \<Rightarrow> bool) \<Rightarrow> int \<Rightarrow> 'a list \<Rightarrow> 'a \<Rightarrow> int" where
  "indexOfLoop comparer i [] target = -1"
| "indexOfLoop comparer i (e # sl) target =
     (if comparer e target then i else indexOfLoop comparer (i + 1) sl target)"

definition IndexOf :: "'a list \<Rightarrow> 'a \<Rightarrow> ('a \<Rightarrow> 'a \<Rightarrow> bool) option \<Rightarrow> int" where
  "IndexOf sl target comparer =
     indexOfLoop (case comparer of None \<Rightarrow> SimpleEqualer | Some c \<Rightarrow> c) 0 sl target"

fun InMap :: "('k, 'v) gomap \<Rightarrow> ('v \<Rightarrow> bool) \<Rightarrow> bool" where
  "InMap [] tester = False"
| "InMap ((_, e) # m) tester = (if tester e then True else InMap m tester)"

fun SliceAnyMatch :: "'a list \<Rightarrow> ('a \<Rightarrow> bool) \<Rightarrow> bool" where
  "SliceAnyMatch [] predicate = False"
| "SliceAnyMatch (v # sl) predicate = (if predicate v then True else SliceAnyMatch sl predicate)"

fun SliceAllMatch :: "'a list \<Rightarrow> ('a \<Rightarrow> bool) \<Rightarrow> bool" where
  "SliceAllMatch [] predicate = True"
| "SliceAllMatch (v # sl) predicate = (if \<not> predicate v then False else SliceAllMatch sl predicate)"

lemma InSlice_None [simp]: "InSlice sl target None \<longleftrightarrow> target \<in> set sl"
proof -
  have "inSliceLoop SimpleEqualer sl target \<longleftrightarrow> target \<in> set sl"
    by (induction sl) (auto simp: SimpleEqualer_def)
  then show ?thesis by (simp add: InSlice_def)
qed

lemma InSlice2_iff [simp]: "InSlice2 sl tester \<longleftrightarrow> list_ex tester sl"
  by (induction sl) auto

lemma SliceAnyMatch_iff [simp]: "SliceAnyMatch sl p \<longleftrightarrow> list_ex p sl"
  by (induction sl) auto

lemma SliceAllMatch_iff [simp]: "SliceAllMatch sl p \<longleftrightarrow> list_all p sl"
  by (induction sl) auto

lemma InMap_iff [simp]: "InMap m tester \<longleftrightarrow> list_ex tester (map snd m)"
  by (induction m tester rule: InMap.induct) auto

section \<open>Removal loops\<close>

text \<open>
  \<open>for i, v := range sl { if keep { out = append(out, v) } }\<close> with \<open>out\<close> either a fresh slice
  (\<open>keepCopy\<close>) or \<open>slice[0:0]\<close> (\<open>keepInPlace\<close>, where the append writes to position \<open>n\<close> of the
  array that the loop reads). The body decides from the index, the value and its own state.
\<close>

fun keepCopy :: "(int \<Rightarrow> 'a \<Rightarrow> 's \<Rightarrow> (bool \<times> 's) res) \<Rightarrow> int \<Rightarrow> 'a list \<Rightarrow> 's \<Rightarrow> 'a list res" where
  "keepCopy body i [] s = Inr []"
| "keepCopy body i (v # vs) s =
     bind_res (body i v s) (\<lambda>(keep, s').
     bind_res (keepCopy body (i + 1) vs s') (\<lambda>out. Inr (if keep then v # out else out)))"

function keepInPlace :: "(int \<Rightarrow> 'a \<Rightarrow> 's \<Rightarrow> (bool \<times> 's) res) \<Rightarrow> nat \<Rightarrow> nat \<Rightarrow> 'a list \<Rightarrow> 's \<Rightarrow> ('a list \<times> nat) res" where
  "keepInPlace body i n arr s =
     (if i < length arr then
        bind_res (body (int i) (arr ! i) s) (\<lambda>(keep, s').
          if keep then keepInPlace body (i + 1) (n + 1) (arr[n := arr ! i]) s'
          else keepInPlace body (i + 1) n arr s')
      else Inr (arr, n))"
  by pat_completeness auto
termination
  by (relation "measure (\<lambda>(body, i, n, arr, s). length arr - i)") auto

declare keepInPlace.simps [simp del]

definition keepRange :: "bool \<Rightarrow> (int \<Rightarrow> 'a \<Rightarrow> 's \<Rightarrow> (bool \<times> 's) res) \<Rightarrow> 's \<Rightarrow> 'a list \<Rightarrow> ('a list \<times> 'a list) res" where
  "keepRange copy body s sl =
     (if copy then bind_res (keepCopy body 0 sl s) (\<lambda>out. Inr (sl, out))
      else bind_res (keepInPlace body 0 0 sl s) (\<lambda>(arr, n). Inr (arr, take n arr)))"

lemma keepInPlace_keepCopy:
  "n \<le> i \<Longrightarrow> i \<le> length arr \<Longrightarrow>
   (case keepInPlace body i n arr s of Inl e \<Rightarrow> Inl e | Inr (arr', n') \<Rightarrow> Inr (take n' arr')) =
   bind_res (keepCopy body (int i) (drop i arr) s) (\<lambda>out. Inr (take n arr @ out))"
proof (induction body i n arr s rule: keepInPlace.induct)
  case (1 body i n arr s)
  show ?case
  proof (cases "i < length arr")
    case False
    then show ?thesis by (simp add: keepInPlace.simps)
  next
    case True
    have d: "drop i arr = arr ! i # drop (Suc i) arr" using True by (rule Cons_nth_drop_Suc [symmetric])
    have t: "take (Suc n) (arr[n := arr ! i]) = take n arr @ [arr ! i]"
      using 1(3,4) True by (simp add: take_Suc_conv_app_nth)
    show ?thesis
    proof (cases "body (int i) (arr ! i) s")
      case (Inl e)
      then show ?thesis using True by (simp add: keepInPlace.simps [of body i] d)
    next
      case (Inr ks)
      obtain keep s' where ks: "ks = (keep, s')" by (cases ks)
      show ?thesis
        using 1(1,2) [OF True Inr [unfolded ks] refl] 1(3,4) True Inr ks t
        by (simp add: keepInPlace.simps [of body i] d bind_res_def add.commute split: sum.splits)
    qed
  qed
qed

lemma keepRange_out:
  "map_sum id snd (keepRange copy body s sl) = keepCopy body 0 sl s"
  using keepInPlace_keepCopy [of 0 0 sl body s]
  by (auto simp: keepRange_def bind_res_def split: sum.splits)

text \<open>A body that only looks at the value and never panics.\<close>

lemma keepCopy_filter: "keepCopy (\<lambda>i v s. Inr (P v, ())) i sl () = Inr (filter P sl)"
  by (induction sl arbitrary: i) auto

definition SliceRemoveIf :: "'a list \<Rightarrow> bool \<Rightarrow> ('a \<Rightarrow> bool) \<Rightarrow> ('a list \<times> 'a list) res" where
  "SliceRemoveIf sl copy cond =
     (if sl = [] then Inr (sl, sl)
      else keepRange copy (\<lambda>i v s. Inr (\<not> cond v, s)) () sl)"

definition SliceRemoveByValue :: "'a list \<Rightarrow> bool \<Rightarrow> 'a \<Rightarrow> ('a list \<times> 'a list) res" where
  "SliceRemoveByValue sl copy val =
     (if sl = [] then Inr (sl, sl)
      else keepRange copy (\<lambda>i v s. Inr (v \<noteq> val, s)) () sl)"

definition SliceRemoveByValues :: "'a list \<Rightarrow> bool \<Rightarrow> 'a list \<Rightarrow> ('a list \<times> 'a list) res" where
  "SliceRemoveByValues sl copy vals =
     (if sl = [] then Inr (sl, sl)
      else keepRange copy (\<lambda>i v s. Inr (\<not> InSlice vals v None, s)) () sl)"

lemma SliceRemoveIf_out: "map_sum id snd (SliceRemoveIf sl copy cond) = Inr (filter (\<lambda>v. \<not> cond v) sl)"
  by (simp add: SliceRemoveIf_def keepRange_out keepCopy_filter)

lemma SliceRemoveByValue_out: "map_sum id snd (SliceRemoveByValue sl copy val) = Inr (filter (\<lambda>v. v \<noteq> val) sl)"
  by (simp add: SliceRemoveByValue_def keepRange_out keepCopy_filter)

lemma SliceRemoveByValues_out:
  "map_sum id snd (SliceRemoveByValues sl copy vals) = Inr (filter (\<lambda>v. v \<notin> set vals) sl)"
  by (simp add: SliceRemoveByValues_def keepRange_out keepCopy_filter)

section \<open>Removal by position\<close>

definition SliceRemoveByIndex :: "'a list \<Rightarrow> bool \<Rightarrow> int \<Rightarrow> ('a list \<times> 'a list) \<times> bool" where
  "SliceRemoveByIndex sl copy index =
     (let l = length sl; k = nat index in
      if l = 0 then ((sl, sl), False)
      else if index < 0 \<or> index \<ge> int l then ((sl, sl), False)
      else if copy then ((sl, take k sl @ drop (k + 1) sl), True)
      else if index = 0 then ((sl, drop 1 sl), True)
      else if index = int l - 1 then ((sl, take (l - 1) sl), True)
      else ((take k sl @ drop (k + 1) sl @ [last sl], take k sl @ drop (k + 1) sl), True))"

definition ComparableCompare :: "'a::linorder \<Rightarrow> 'a \<Rightarrow> int" where
  "ComparableCompare t1 t2 = (if t1 = t2 then 0 else if t1 < t2 then -1 else 1)"

fun firstNonNeg :: "nat \<Rightarrow> int list \<Rightarrow> nat" where
  "firstNonNeg i [] = 0"
| "firstNonNeg i (index # indexes) = (if index \<ge> 0 then i else firstNonNeg (i + 1) indexes)"

fun lastBelow :: "int list \<Rightarrow> int \<Rightarrow> nat \<Rightarrow> int" where
  "lastBelow indexes l 0 = -1"
| "lastBelow indexes l (Suc i) = (if indexes ! i < l then int i else lastBelow indexes l i)"

function skipEqual :: "int list \<Rightarrow> int \<Rightarrow> int \<Rightarrow> nat \<Rightarrow> nat" where
  "skipEqual indexes e index p =
     (if int p \<le> e \<and> p < length indexes \<and> index = indexes ! p then skipEqual indexes e index (p + 1) else p)"
  by pat_completeness auto
termination
  by (relation "measure (\<lambda>(indexes, e, index, p). length indexes - p)") auto

declare skipEqual.simps [simp del]

definition removeIndexBody :: "int list \<Rightarrow> int \<Rightarrow> int \<Rightarrow> 'a \<Rightarrow> nat \<times> bool \<Rightarrow> (bool \<times> nat \<times> bool) res" where
  "removeIndexBody indexes e i v st =
     (case st of (p, skip) \<Rightarrow>
        if skip then Inr (True, p, True)
        else if p \<ge> length indexes then Inl IndexOutOfRange
        else if i \<noteq> indexes ! p then Inr (True, p, int p > e)
        else (let p' = skipEqual indexes e (indexes ! p) (p + 1) in Inr (False, p', int p' > e)))"

lemma removeIndexBody_simps [simp]:
  "removeIndexBody indexes e i v (p, True) = Inr (True, p, True)"
  "removeIndexBody indexes e i v (p, False) =
     (if p \<ge> length indexes then Inl IndexOutOfRange
      else if i \<noteq> indexes ! p then Inr (True, p, int p > e)
      else (let p' = skipEqual indexes e (indexes ! p) (p + 1) in Inr (False, p', int p' > e)))"
  by (simp_all add: removeIndexBody_def)

text \<open>The variadic slice \<open>indexes\<close> is sorted in place; \<open>e\<close> stays below its length.\<close>

definition SliceRemoveByIndexes :: "'a list \<Rightarrow> bool \<Rightarrow> int list \<Rightarrow> ('a list \<times> 'a list) res" where
  "SliceRemoveByIndexes sl copy indexes0 =
     (if indexes0 = [] then Inr (sl, sl)
      else if sl = [] then Inr (sl, sl)
      else (let indexes = sort indexes0;
                p = firstNonNeg 0 indexes;
                e = lastBelow indexes (int (length sl)) (length indexes)
            in if e = -1 then Inr (sl, sl)
               else keepRange copy (removeIndexBody indexes e) (p, False) sl))"

definition notIn :: "int list \<Rightarrow> int \<Rightarrow> 'a list \<Rightarrow> 'a list" where
  "notIn indexes i sl = nths sl {j. i + int j \<notin> set indexes}"

lemma notIn_simps [simp]:
  "notIn indexes i [] = []"
  "notIn indexes i (v # vs) = (if i \<in> set indexes then notIn indexes (i + 1) vs else v # notIn indexes (i + 1) vs)"
  by (simp_all add: notIn_def nths_Cons add.assoc)

lemma skipEqual_spec:
  assumes "p \<le> length indexes" "e < int (length indexes)"
  shows "p \<le> skipEqual indexes e index p \<and> skipEqual indexes e index p \<le> length indexes \<and>
    (\<forall>q. p \<le> q \<and> q < skipEqual indexes e index p \<longrightarrow> indexes ! q = index) \<and>
    (int (skipEqual indexes e index p) \<le> e \<longrightarrow> indexes ! skipEqual indexes e index p \<noteq> index)"
  using assms
proof (induction indexes e index p rule: skipEqual.induct)
  case (1 indexes e index p)
  show ?case
  proof (cases "int p \<le> e \<and> p < length indexes \<and> index = indexes ! p")
    case True
    then have u: "skipEqual indexes e index p = skipEqual indexes e index (p + 1)"
      by (subst skipEqual.simps) simp
    have "q = p \<or> p + 1 \<le> q" if "p \<le> q" for q using that by auto
    with 1(1) [OF True] 1(3) True u show ?thesis by (metis Suc_eq_plus1 Suc_leD Suc_leI)
  next
    case False
    then have "skipEqual indexes e index p = p" by (subst skipEqual.simps) auto
    with 1(2,3) False show ?thesis by auto
  qed
qed

lemma lastBelow_spec:
  "n \<le> length indexes \<Longrightarrow> lastBelow indexes l n < int n \<and> -1 \<le> lastBelow indexes l n \<and>
     (\<forall>q < n. lastBelow indexes l n < int q \<longrightarrow> indexes ! q \<ge> l)"
  by (induction n) (auto simp: less_Suc_eq)

lemma firstNonNeg_spec:
  "indexes \<noteq> [] \<Longrightarrow> firstNonNeg i indexes < i + length indexes \<and>
    ((\<forall>x \<in> set indexes. x < 0) \<and> firstNonNeg i indexes = 0 \<or>
     i \<le> firstNonNeg i indexes \<and> indexes ! (firstNonNeg i indexes - i) \<ge> 0 \<and>
       (\<forall>q < firstNonNeg i indexes - i. indexes ! q < 0))"
proof (induction indexes arbitrary: i)
  case Nil
  then show ?case by simp
next
  case (Cons x xs)
  show ?case
  proof (cases "x \<ge> 0 \<or> xs = []")
    case True
    then show ?thesis by auto
  next
    case False
    then show ?thesis using Cons.IH [of "Suc i"] by (auto simp: nth_Cons' less_diff_conv)
  qed
qed

text \<open>
  The invariant of the range loop: every index before \<open>p\<close> is behind the read position, and the
  index at \<open>p\<close> is not, unless no index is in range at all.
\<close>

definition cursor_ok :: "int list \<Rightarrow> int \<Rightarrow> nat \<Rightarrow> bool" where
  "cursor_ok indexes i p \<longleftrightarrow> p < length indexes \<and> (\<forall>q < p. indexes ! q < i) \<and>
     (indexes ! p \<ge> i \<or> (\<forall>x \<in> set indexes. x < 0))"

lemma cursor_not_in:
  assumes "sorted indexes" "cursor_ok indexes i p" "0 \<le> i" "i \<noteq> indexes ! p"
  shows "i \<notin> set indexes"
proof
  assume "i \<in> set indexes"
  then obtain q where q: "q < length indexes" "indexes ! q = i" by (auto simp: in_set_conv_nth)
  then have "p \<le> q" using assms(2) by (auto simp: cursor_ok_def not_less [symmetric])
  then have "indexes ! p \<le> i" using assms(1) q sorted_nth_mono by blast
  then show False using assms q \<open>i \<in> set indexes\<close> by (auto simp: cursor_ok_def)
qed

lemma keepCopy_skip: "keepCopy (removeIndexBody indexes e) i sl (p, True) = Inr sl"
  by (induction sl arbitrary: i) auto

lemma notIn_all: "(\<And>j. i \<le> j \<Longrightarrow> j < i + int (length sl) \<Longrightarrow> j \<notin> set indexes) \<Longrightarrow> notIn indexes i sl = sl"
  by (induction sl arbitrary: i) auto

lemma cursor_done:
  assumes "e < int (length indexes)" "int p > e" "\<forall>q < p. q < length indexes \<longrightarrow> indexes ! q < i"
    and "\<forall>q < length indexes. e < int q \<longrightarrow> indexes ! q \<ge> l" "i + int (length sl) \<le> l"
  shows "notIn indexes i sl = sl"
proof (rule notIn_all)
  fix j assume j: "i \<le> j" "j < i + int (length sl)"
  show "j \<notin> set indexes"
  proof
    assume "j \<in> set indexes"
    then obtain q where q: "q < length indexes" "indexes ! q = j" by (auto simp: in_set_conv_nth)
    with j assms(4,5) have "int q \<le> e" by force
    then have "q < p" using assms(2) by simp
    with assms(3) q j show False by auto
  qed
qed

lemma keepCopy_removeIndex:
  assumes "sorted indexes" "e < int (length indexes)" "\<forall>q < length indexes. e < int q \<longrightarrow> indexes ! q \<ge> l"
  shows "cursor_ok indexes i p \<Longrightarrow> 0 \<le> i \<Longrightarrow> i + int (length sl) \<le> l \<Longrightarrow>
    keepCopy (removeIndexBody indexes e) i sl (p, False) = Inr (notIn indexes i sl)"
proof (induction sl arbitrary: i p)
  case Nil
  then show ?case by simp
next
  case (Cons v vs)
  let ?step = "\<lambda>p b. keepCopy (removeIndexBody indexes e) (i + 1) vs (p, b)"
  have p: "p < length indexes" and before: "\<forall>q < p. indexes ! q < i"
    using Cons.prems by (auto simp: cursor_ok_def)
  have rest: "?step p' (int p' > e) = Inr (notIn indexes (i + 1) vs)"
    if "\<forall>q < p'. q < length indexes \<longrightarrow> indexes ! q < i + 1" "int p' \<le> e \<longrightarrow> cursor_ok indexes (i + 1) p'" for p'
  proof (cases "int p' > e")
    case True
    then show ?thesis
      using cursor_done [OF assms(2) True that(1) assms(3), of vs] Cons.prems by (simp add: keepCopy_skip)
  next
    case False
    then show ?thesis using Cons.IH [of "i + 1" p'] that(2) Cons.prems by simp
  qed
  show ?case
  proof (cases "i = indexes ! p")
    case False
    then have "cursor_ok indexes (i + 1) p" using Cons.prems by (fastforce simp: cursor_ok_def)
    moreover have "\<forall>q < p. q < length indexes \<longrightarrow> indexes ! q < i + 1" using before by fastforce
    ultimately show ?thesis
      using rest [of p] p False cursor_not_in [OF assms(1) Cons.prems(1,2) False]
      by auto
  next
    case True
    define p' where "p' = skipEqual indexes e (indexes ! p) (p + 1)"
    have P: "p + 1 \<le> p'" "p' \<le> length indexes" "\<forall>q. p + 1 \<le> q \<and> q < p' \<longrightarrow> indexes ! q = i"
        "int p' \<le> e \<longrightarrow> indexes ! p' \<noteq> i"
      using skipEqual_spec [of "p + 1" indexes e "indexes ! p"] p assms(2) True by (auto simp: p'_def)
    have le: "indexes ! q \<le> i" if "q < p'" for q
      using that before P(3) True by (metis Suc_eq_plus1 less_imp_le linorder_not_less not_less_eq_eq order_antisym order_refl)
    have "cursor_ok indexes (i + 1) p'" if "int p' \<le> e"
    proof -
      have "p' < length indexes" using that assms(2) by simp
      moreover have "indexes ! p \<le> indexes ! p'" using assms(1) P(1) \<open>p' < length indexes\<close> by (simp add: sorted_nth_mono)
      ultimately show ?thesis using le P(4) True that by (fastforce simp: cursor_ok_def)
    qed
    moreover have "\<forall>q < p'. q < length indexes \<longrightarrow> indexes ! q < i + 1" using le by fastforce
    moreover have "i \<in> set indexes" using True p by simp
    ultimately show ?thesis
      using rest [of p'] p True by (auto simp: Let_def p'_def)
  qed
qed

lemma SliceRemoveByIndexes_out:
  "map_sum id snd (SliceRemoveByIndexes sl copy indexes) = Inr (nths sl {j. int j \<notin> set indexes})"
proof (cases "indexes = [] \<or> sl = []")
  case True
  then show ?thesis by (auto simp: SliceRemoveByIndexes_def nths_all)
next
  case False
  let ?ix = "sort indexes" and ?l = "int (length sl)"
  let ?e = "lastBelow ?ix ?l (length ?ix)" and ?p = "firstNonNeg 0 ?ix"
  note E = lastBelow_spec [of "length ?ix" ?ix ?l, OF order_refl]
  note F = firstNonNeg_spec [of ?ix 0]
  have ne: "?ix \<noteq> []" using False by (metis sort_key_simps(1) length_0_conv length_sort)
  have nn: "nths sl {j. int j \<notin> set indexes} = notIn ?ix 0 sl" by (simp add: notIn_def)
  show ?thesis
  proof (cases "?e = -1")
    case True
    have "notIn ?ix 0 sl = sl"
      by (rule cursor_done [of ?e _ 0 0 ?l]) (use E True in auto)
    then show ?thesis using False True nn by (simp add: SliceRemoveByIndexes_def Let_def)
  next
    case e: False
    have "cursor_ok ?ix 0 ?p" using F ne by (auto simp: cursor_ok_def)
    then have "keepCopy (removeIndexBody ?ix ?e) 0 sl (?p, False) = Inr (notIn ?ix 0 sl)"
      using keepCopy_removeIndex [of ?ix ?e ?l 0 ?p sl] E by simp
    then show ?thesis
      using False e nn by (simp add: SliceRemoveByIndexes_def Let_def keepRange_out)
  qed
qed

section \<open>Mapping in place and into a new slice\<close>

text \<open>The mapper returns \<open>None\<close> for \<open>remove = true\<close>.\<close>

function mapChangeLoop :: "('a \<Rightarrow> 'a option) \<Rightarrow> nat \<Rightarrow> nat \<Rightarrow> 'a list \<Rightarrow> 'a list \<times> nat" where
  "mapChangeLoop mapper i pos sl =
     (if i < length sl then
        (case mapper (sl ! i) of
           None \<Rightarrow> mapChangeLoop mapper (i + 1) pos sl
         | Some v \<Rightarrow> mapChangeLoop mapper (i + 1) (pos + 1) (sl[pos := v]))
      else (sl, pos))"
  by pat_completeness auto
termination
  by (relation "measure (\<lambda>(m, i, pos, sl). length sl - i)") auto

declare mapChangeLoop.simps [simp del]

definition SliceMapChange :: "'a list \<Rightarrow> ('a \<Rightarrow> 'a option) \<Rightarrow> 'a list \<times> 'a list" where
  "SliceMapChange sl mapper =
     (case mapChangeLoop mapper 0 0 sl of (sl', pos) \<Rightarrow> (sl', if pos > 0 then take pos sl' else []))"

lemma mapChangeLoop_take:
  "pos \<le> i \<Longrightarrow> i \<le> length sl \<Longrightarrow>
   (case mapChangeLoop mapper i pos sl of (sl', pos') \<Rightarrow> take pos' sl') = take pos sl @ List.map_filter mapper (drop i sl)"
proof (induction mapper i pos sl rule: mapChangeLoop.induct)
  case (1 mapper i pos sl)
  show ?case
  proof (cases "i < length sl")
    case False
    then show ?thesis by (simp add: mapChangeLoop.simps map_filter_simps)
  next
    case True
    then have d: "drop i sl = sl ! i # drop (Suc i) sl" by (rule Cons_nth_drop_Suc [symmetric])
    have u: "mapChangeLoop mapper i pos sl =
        (case mapper (sl ! i) of None \<Rightarrow> mapChangeLoop mapper (i + 1) pos sl
         | Some v \<Rightarrow> mapChangeLoop mapper (i + 1) (pos + 1) (sl[pos := v]))"
      using True by (subst mapChangeLoop.simps) simp
    show ?thesis
    proof (cases "mapper (sl ! i)")
      case None
      then show ?thesis using 1(1) [OF True None] 1(3,4) True by (simp add: u d)
    next
      case (Some v)
      have "take (pos + 1) (sl[pos := v]) = take pos sl @ [v]"
        using 1(3) True by (simp add: take_Suc_conv_app_nth)
      then show ?thesis using 1(2) [OF True Some] 1(3,4) True Some by (simp add: u d)
    qed
  qed
qed

lemma SliceMapChange_out: "snd (SliceMapChange sl mapper) = List.map_filter mapper sl"
  using mapChangeLoop_take [of 0 0 sl mapper]
  by (auto simp: SliceMapChange_def split: prod.splits)

fun SliceMapNew :: "'a list \<Rightarrow> ('a \<Rightarrow> 'b option) \<Rightarrow> 'b list" where
  "SliceMapNew [] mapper = []"
| "SliceMapNew (v # sl) mapper =
     (case mapper v of None \<Rightarrow> SliceMapNew sl mapper | Some b \<Rightarrow> b # SliceMapNew sl mapper)"

lemma SliceMapNew_map_filter [simp]: "SliceMapNew sl mapper = List.map_filter mapper sl"
  by (induction sl) (auto simp: map_filter_simps split: option.splits)

fun SliceAppendNoRepeat :: "'a list \<Rightarrow> 'a list \<Rightarrow> 'a list" where
  "SliceAppendNoRepeat sl [] = sl"
| "SliceAppendNoRepeat sl (val # vals) =
     (if val \<notin> set sl then SliceAppendNoRepeat (sl @ [val]) vals else SliceAppendNoRepeat sl vals)"

lemma SliceAppendNoRepeat_spec:
  "set (SliceAppendNoRepeat sl vals) = set sl \<union> set vals \<and>
   (distinct sl \<longrightarrow> distinct (SliceAppendNoRepeat sl vals)) \<and> prefix sl (SliceAppendNoRepeat sl vals)"
  by (induction sl vals rule: SliceAppendNoRepeat.induct) (auto simp: prefix_def)

text \<open>
  \<open>slices.BinarySearch\<close> of the standard library, and the append that relies on it. The slice is
  only sorted after the loop, so the second value is already searched in an unsorted slice.
\<close>

function binarySearchLoop :: "'a::linorder list \<Rightarrow> 'a \<Rightarrow> nat \<Rightarrow> nat \<Rightarrow> nat" where
  "binarySearchLoop sl target i j =
     (if i < j then
        (let h = (i + j) div 2
         in if sl ! h < target then binarySearchLoop sl target (h + 1) j
            else binarySearchLoop sl target i h)
      else i)"
  by pat_completeness auto
termination
  by (relation "measure (\<lambda>(sl, t, i, j). j - i)") auto

declare binarySearchLoop.simps [simp del]

definition BinarySearch :: "'a::linorder list \<Rightarrow> 'a \<Rightarrow> nat \<times> bool" where
  "BinarySearch sl target =
     (let i = binarySearchLoop sl target 0 (length sl)
      in (i, i < length sl \<and> sl ! i = target))"

fun sortedAppendLoop :: "'a::linorder list \<Rightarrow> 'a list \<Rightarrow> 'a list" where
  "sortedAppendLoop sl [] = sl"
| "sortedAppendLoop sl (val # vals) =
     (if snd (BinarySearch sl val) then sortedAppendLoop sl vals
      else sortedAppendLoop (sl @ [val]) vals)"

definition SortedSliceAppendNoRepeat :: "'a::linorder list \<Rightarrow> 'a list \<Rightarrow> 'a list" where
  "SortedSliceAppendNoRepeat sl vals = sort (sortedAppendLoop sl vals)"

fun toMapLoop :: "('a \<Rightarrow> nat \<Rightarrow> ('k \<times> 'v) option) \<Rightarrow> ('v \<Rightarrow> 'v \<Rightarrow> 'v) \<Rightarrow> nat \<Rightarrow> 'a list \<Rightarrow> ('k, 'v) gomap \<Rightarrow> ('k, 'v) gomap" where
  "toMapLoop mapper merger i [] out = out"
| "toMapLoop mapper merger i (t # sl) out =
     (case mapper t i of
        None \<Rightarrow> toMapLoop mapper merger (i + 1) sl out
      | Some (k, v) \<Rightarrow>
          toMapLoop mapper merger (i + 1) sl
            (mput k (case mget out k of Some old \<Rightarrow> merger old v | None \<Rightarrow> v) out))"

definition SliceToMap :: "'a list \<Rightarrow> ('a \<Rightarrow> nat \<Rightarrow> ('k \<times> 'v) option) \<Rightarrow> ('v \<Rightarrow> 'v \<Rightarrow> 'v) option \<Rightarrow> ('k, 'v) gomap" where
  "SliceToMap sl mapper merger =
     toMapLoop mapper (case merger of None \<Rightarrow> (\<lambda>v1 v2. v2) | Some f \<Rightarrow> f) 0 sl []"

definition SliceClone :: "'a list \<Rightarrow> 'a list" where
  "SliceClone sl = sl"

fun splitByValues :: "'a list \<Rightarrow> 'a list \<Rightarrow> 'a list" where
  "splitByValues vals [] = []"
| "splitByValues vals (v # sl) =
     (if \<not> InSlice vals v None then splitByValues vals sl else v # splitByValues vals sl)"

definition SliceRemoveByValuesAndReturnRemoved ::
    "'a list \<Rightarrow> bool \<Rightarrow> 'a list \<Rightarrow> ('a list \<times> 'a list \<times> 'a list) res" where
  "SliceRemoveByValuesAndReturnRemoved sl copy vals =
     (if sl = [] then Inr (sl, sl, [])
      else bind_res (keepRange copy (\<lambda>i v s. Inr (\<not> InSlice vals v None, s)) () sl)
             (\<lambda>(arr, out). Inr (arr, out, splitByValues vals sl)))"

lemma splitByValues_filter [simp]: "splitByValues vals sl = filter (\<lambda>v. v \<in> set vals) sl"
  by (induction sl) auto

section \<open>Removal that ignores the order\<close>

function dropLast :: "('a \<Rightarrow> bool) \<Rightarrow> 'a list \<Rightarrow> int \<Rightarrow> int \<Rightarrow> int \<Rightarrow> int \<times> int" where
  "dropLast cond sl i lst removed =
     (if (lst > i \<and> cond (sl ! nat lst)) \<or> lst = i
      then dropLast cond sl i (lst - 1) (removed + 1) else (lst, removed))"
  by pat_completeness auto
termination
  by (relation "measure (\<lambda>(c, sl, i, lst, r). nat (lst - i + 1))") auto

declare dropLast.simps [simp del]

lemma dropLast_spec:
  "\<lbrakk>i \<le> lst; dropLast cond sl i lst removed = (lst', removed')\<rbrakk> \<Longrightarrow>
   i - 1 \<le> lst' \<and> lst' \<le> lst \<and> lst' \<noteq> i \<and> lst' + removed' = lst + removed \<and>
   (\<forall>k. lst' < k \<and> k \<le> lst \<and> k \<noteq> i \<longrightarrow> cond (sl ! nat k)) \<and> (i < lst' \<longrightarrow> \<not> cond (sl ! nat lst'))"
proof (induction cond sl i lst removed arbitrary: lst' removed' rule: dropLast.induct)
  case (1 cond sl i lst removed)
  show ?case
  proof (cases "i < lst \<and> cond (sl ! nat lst)")
    case True
    then have "dropLast cond sl i (lst - 1) (removed + 1) = (lst', removed')"
      using 1(3) by (subst (asm) dropLast.simps) simp
    moreover have "k \<le> lst - 1 \<or> k = lst" if "k \<le> lst" for k using that by auto
    ultimately show ?thesis
      using 1(1) [OF disjI1 [OF True], of lst' removed'] True by (auto 4 4)
  next
    case False
    show ?thesis
    proof (cases "lst = i")
      case True
      have "dropLast cond sl i (i - 1) (removed + 1) = (i - 1, removed + 1)"
        by (subst dropLast.simps) simp
      then have "lst' = i - 1" "removed' = removed + 1"
        using 1(3) True by (subst (asm) dropLast.simps, simp)+
      then show ?thesis using True by auto
    next
      case ne: False
      then have "lst' = lst" "removed' = removed"
        using 1(3) False by (subst (asm) dropLast.simps, auto)+
      then show ?thesis using ne False 1(2) by auto
    qed
  qed
qed

function removeIgnoreOrderLoop :: "('a \<Rightarrow> bool) \<Rightarrow> 'a list \<Rightarrow> int \<Rightarrow> int \<Rightarrow> int \<Rightarrow> 'a list \<times> int" where
  "removeIgnoreOrderLoop cond sl i lst removed =
     (if i \<le> lst then
        (if cond (sl ! nat i) then
           (let r = dropLast cond sl i lst removed; lst1 = fst r; removed1 = snd r
            in if lst1 > i
               then removeIgnoreOrderLoop cond (sl[nat i := sl ! nat lst1]) (i + 1) (lst1 - 1) (removed1 + 1)
               else removeIgnoreOrderLoop cond sl (i + 1) lst1 removed1)
         else removeIgnoreOrderLoop cond sl (i + 1) lst removed)
      else (sl, removed))"
  by pat_completeness auto
termination
proof (relation "measure (\<lambda>(c, sl, i, lst, r). nat (lst - i + 1))")
  fix cond sl i lst removed r lst1 removed1
  assume a: "i \<le> (lst :: int)" "cond (sl ! nat i)" "r = dropLast cond sl i lst removed" "lst1 = fst r" "removed1 = snd r"
  then have "dropLast cond sl i lst removed = (lst1, removed1)" by simp
  from dropLast_spec [OF a(1) this] have "lst1 \<le> lst" by simp
  then show "((cond, sl[nat i := sl ! nat lst1], i + 1, lst1 - 1, removed1 + 1), cond, sl, i, lst, removed)
      \<in> measure (\<lambda>(c, sl, i, lst, r). nat (lst - i + 1))"
    "((cond, sl, i + 1, lst1, removed1), cond, sl, i, lst, removed)
      \<in> measure (\<lambda>(c, sl, i, lst, r). nat (lst - i + 1))"
    using a(1) by auto
qed auto

declare removeIgnoreOrderLoop.simps [simp del]

definition SliceRemoveIfIgnoreOrder :: "'a list \<Rightarrow> ('a \<Rightarrow> bool) \<Rightarrow> 'a list \<times> 'a list" where
  "SliceRemoveIfIgnoreOrder sl cond =
     (if sl = [] then (sl, sl)
      else (let r = removeIgnoreOrderLoop cond sl 0 (int (length sl) - 1) 0
            in (fst r, take (nat (int (length sl) - snd r)) (fst r))))"

text \<open>
  What the loop keeps: the part up to \<open>lst\<close> still holds every kept element, and everything before
  \<open>i\<close> is kept.
\<close>

definition swap_inv :: "('a \<Rightarrow> bool) \<Rightarrow> 'a multiset \<Rightarrow> 'a list \<Rightarrow> int \<Rightarrow> int \<Rightarrow> bool" where
  "swap_inv cond M sl i lst \<longleftrightarrow> 0 \<le> i \<and> -1 \<le> lst \<and> lst < int (length sl) \<and>
     (\<forall>k. int k < i \<and> int k \<le> lst \<longrightarrow> \<not> cond (sl ! k)) \<and> filter_mset (\<lambda>v. \<not> cond v) (mset (take (nat (lst + 1)) sl)) = M"

lemma filter_take_Suc:
  "n < length sl \<Longrightarrow> cond (sl ! n) \<Longrightarrow>
   filter_mset (\<lambda>v. \<not> cond v) (mset (take (Suc n) sl)) = filter_mset (\<lambda>v. \<not> cond v) (mset (take n sl))"
  by (simp add: take_Suc_conv_app_nth)

lemma filter_take_drop:
  assumes "m \<le> n" "n \<le> length sl" "\<And>k. m \<le> k \<Longrightarrow> k < n \<Longrightarrow> cond (sl ! k)"
  shows "filter_mset (\<lambda>v. \<not> cond v) (mset (take n sl)) = filter_mset (\<lambda>v. \<not> cond v) (mset (take m sl))"
  using assms
proof (induction n)
  case (Suc n)
  then show ?case by (cases "m = Suc n") (auto simp: filter_take_Suc)
qed simp

lemma filter_take_move:
  assumes "i < n" "n < length sl" "cond (sl ! i)" "\<not> cond (sl ! n)"
  shows "filter_mset (\<lambda>v. \<not> cond v) (mset (take n (sl[i := sl ! n]))) =
         filter_mset (\<lambda>v. \<not> cond v) (mset (take (Suc n) sl))"
  using assms by (simp add: take_update_swap mset_update take_Suc_conv_app_nth)

lemma swap_inv_step:
  assumes "swap_inv cond M sl i lst" "i \<le> lst" "cond (sl ! nat i)"
    and "dropLast cond sl i lst removed = (lst1, removed1)"
  shows "lst1 > i \<Longrightarrow> swap_inv cond M (sl[nat i := sl ! nat lst1]) (i + 1) (lst1 - 1)"
    and "\<not> lst1 > i \<Longrightarrow> swap_inv cond M sl (i + 1) lst1"
proof -
  note D = dropLast_spec [OF assms(2,4)]
  have b: "0 \<le> i" "lst < int (length sl)" "-1 \<le> lst1" "lst1 \<le> lst"
    using assms(1) D by (auto simp: swap_inv_def)
  have "cond (sl ! k)" if "nat (lst1 + 1) \<le> k" "k < nat (lst + 1)" for k
    using that D b assms(3) by (cases "int k = i") (auto dest: spec [of _ "int k"])
  then have f: "filter_mset (\<lambda>v. \<not> cond v) (mset (take (nat (lst1 + 1)) sl)) = M"
    using filter_take_drop [of "nat (lst1 + 1)" "nat (lst + 1)" sl cond] assms(1) b by (auto simp: swap_inv_def)
  show "swap_inv cond M (sl[nat i := sl ! nat lst1]) (i + 1) (lst1 - 1)" if g: "lst1 > i"
  proof -
    have n: "nat (lst1 + 1) = Suc (nat lst1)" using b g by simp
    have "filter_mset (\<lambda>v. \<not> cond v) (mset (take (nat lst1) (sl[nat i := sl ! nat lst1]))) = M"
      using filter_take_move [of "nat i" "nat lst1" sl cond] f b g D assms(3) by (auto simp: n)
    moreover have "\<not> cond (sl[nat i := sl ! nat lst1] ! k)" if "int k < i + 1" for k
      using that assms(1,2) b g D by (cases "k = nat i") (auto simp: swap_inv_def nth_list_update)
    ultimately show ?thesis using b g by (simp add: swap_inv_def)
  qed
  show "swap_inv cond M sl (i + 1) lst1" if g: "\<not> lst1 > i"
    using D g b assms(1,2) f by (auto simp: swap_inv_def)
qed

lemma removeIgnoreOrderLoop_spec:
  "swap_inv cond M sl i lst \<Longrightarrow> removeIgnoreOrderLoop cond sl i lst removed = (sl', removed') \<Longrightarrow>
   mset (take (nat (lst + removed + 1 - removed')) sl') = M \<and> length sl' = length sl"
proof (induction cond sl i lst removed arbitrary: sl' removed' rule: removeIgnoreOrderLoop.induct)
  case (1 cond sl i lst removed)
  note u = 1(5) [unfolded removeIgnoreOrderLoop.simps [of cond sl i lst removed]]
  show ?case
  proof (cases "i \<le> lst")
    case False
    then have "sl' = sl" "removed' = removed" using u by auto
    moreover have "\<forall>v \<in> set (take (nat (lst + 1)) sl). \<not> cond v"
    proof
      fix v assume "v \<in> set (take (nat (lst + 1)) sl)"
      then obtain k where "k < nat (lst + 1)" "v = sl ! k" by (auto simp: in_set_conv_nth)
      then show "\<not> cond v" using 1(4) False unfolding swap_inv_def by (auto dest!: spec [of _ k])
    qed
    then have "filter_mset (\<lambda>v. \<not> cond v) (mset (take (nat (lst + 1)) sl)) = mset (take (nat (lst + 1)) sl)"
      by (simp add: filter_mset_eq_conv)
    ultimately show ?thesis using 1(4) by (simp add: swap_inv_def)
  next
    case le: True
    show ?thesis
    proof (cases "cond (sl ! nat i)")
      case False
      then have "\<not> cond (sl ! k)" if "int k < i + 1" "int k \<le> lst" for k
        using that 1(4) by (cases "int k = i") (auto simp: swap_inv_def)
      then have "swap_inv cond M sl (i + 1) lst" using 1(4) by (simp add: swap_inv_def)
      then show ?thesis using 1(3) [OF le False] u le False by simp
    next
      case c: True
      obtain lst1 removed1 where d: "dropLast cond sl i lst removed = (lst1, removed1)" by fastforce
      note S = swap_inv_step [OF 1(4) le c d]
      have sum: "lst1 + removed1 = lst + removed"
        using dropLast_spec [OF le d] by simp
      show ?thesis
      proof (cases "lst1 > i")
        case True
        then show ?thesis
          using 1(1) [OF le c refl _ _ True] S(1) [OF True] u le c d sum by (simp add: algebra_simps)
      next
        case False
        then show ?thesis
          using 1(2) [OF le c refl _ _ False] S(2) [OF False] u le c d sum by (simp add: algebra_simps)
      qed
    qed
  qed
qed

lemma SliceRemoveIfIgnoreOrder_mset:
  "mset (snd (SliceRemoveIfIgnoreOrder sl cond)) = filter_mset (\<lambda>v. \<not> cond v) (mset sl)"
proof (cases "sl = []")
  case True
  then show ?thesis by (simp add: SliceRemoveIfIgnoreOrder_def)
next
  case False
  obtain sl' r where l: "removeIgnoreOrderLoop cond sl 0 (int (length sl) - 1) 0 = (sl', r)" by fastforce
  have "swap_inv cond (filter_mset (\<lambda>v. \<not> cond v) (mset sl)) sl 0 (int (length sl) - 1)"
    by (auto simp: swap_inv_def)
  from removeIgnoreOrderLoop_spec [OF this l] False l show ?thesis
    by (simp add: SliceRemoveIfIgnoreOrder_def Let_def)
qed

section \<open>Maps\<close>

text \<open>The loops over a map visit the entries in the order of the list.\<close>

definition MapValues :: "('k, 'v) gomap \<Rightarrow> 'v list" where
  "MapValues m = map snd m"

definition MapKeys :: "('k, 'v) gomap \<Rightarrow> 'k list" where
  "MapKeys m = map fst m"

fun MapValuesTo :: "('k, 'v) gomap \<Rightarrow> ('k \<Rightarrow> 'v \<Rightarrow> 't option) \<Rightarrow> 't list" where
  "MapValuesTo [] mapper = []"
| "MapValuesTo ((key, val) # m) mapper =
     (case mapper key val of None \<Rightarrow> MapValuesTo m mapper | Some mapped \<Rightarrow> mapped # MapValuesTo m mapper)"

fun MapPutMap :: "('k, 'v) gomap \<Rightarrow> ('k, 'v) gomap \<Rightarrow> ('k, 'v) gomap" where
  "MapPutMap [] target = target"
| "MapPutMap ((k, v) # src) target = MapPutMap src (mput k v target)"

fun MapAnyMatch :: "('k, 'v) gomap \<Rightarrow> ('k \<Rightarrow> 'v \<Rightarrow> bool) \<Rightarrow> bool" where
  "MapAnyMatch [] predicate = False"
| "MapAnyMatch ((k, v) # m) predicate = (if predicate k v then True else MapAnyMatch m predicate)"

fun MapAllMatch :: "('k, 'v) gomap \<Rightarrow> ('k \<Rightarrow> 'v \<Rightarrow> bool) \<Rightarrow> bool" where
  "MapAllMatch [] predicate = True"
| "MapAllMatch ((k, v) # m) predicate = (if \<not> predicate k v then False else MapAllMatch m predicate)"

fun MapFindFirst :: "('k, 'v) gomap \<Rightarrow> ('k \<Rightarrow> 'v \<Rightarrow> bool) \<Rightarrow> ('k \<times> 'v) option" where
  "MapFindFirst [] predicate = None"
| "MapFindFirst ((k, v) # m) predicate = (if predicate k v then Some (k, v) else MapFindFirst m predicate)"

lemma MapPutMap_fold: "MapPutMap src target = fold (\<lambda>(k, v). mput k v) src target"
  by (induction src target rule: MapPutMap.induct) auto

lemma MapPutMap_lookup:
  "mwf src \<Longrightarrow> mwf target \<Longrightarrow>
   mwf (MapPutMap src target) \<and>
   mget (MapPutMap src target) k = (case mget src k of Some v \<Rightarrow> Some v | None \<Rightarrow> mget target k)"
  unfolding MapPutMap_fold
  using gm.invar_fold_update [of target src] gm.lookup_fold_update [of target src k]
  by (simp add: mwf_def)

lemma MapFindFirst_spec:
  "MapFindFirst m P = Some (k, v) \<Longrightarrow> (k, v) \<in> set m \<and> P k v"
  "MapFindFirst m P = None \<longleftrightarrow> (\<forall>(k, v) \<in> set m. \<not> P k v)"
  by (induction m P rule: MapFindFirst.induct) (auto split: if_splits)

section \<open>Bytes\<close>

text \<open>
  \<open>None\<close> is the nil output slice. \<open>xorInto\<close> is the loop when the output is a third slice,
  \<open>xorSelf\<close> the loop when the output is the first operand itself, as \<open>NewUUID\<close> calls it.
\<close>

definition xorInto :: "byte list \<Rightarrow> byte list \<Rightarrow> byte list \<Rightarrow> byte list" where
  "xorInto bytes1 bytes2 out = foldl (\<lambda>o' i. o'[i := bytes1 ! i XOR bytes2 ! i]) out [0..<length bytes1]"

definition xorSelf :: "byte list \<Rightarrow> byte list \<Rightarrow> byte list" where
  "xorSelf out bytes2 = foldl (\<lambda>o' i. o'[i := o' ! i XOR bytes2 ! i]) out [0..<length out]"

definition XOrBytes :: "byte list \<Rightarrow> byte list \<Rightarrow> byte list option \<Rightarrow> byte list res" where
  "XOrBytes bytes1 bytes2 out =
     (case out of
        None \<Rightarrow> Inl (ErrorPanic (FatalError ''to xor two bytes array, the output must not be nil''))
      | Some out' \<Rightarrow>
          if length bytes1 \<noteq> length bytes2
          then Inl (ErrorPanic (FatalError ''to xor two bytes array, the length of bytes 1 must be equal to bytes 2''))
          else if length out' < length bytes1
          then Inl (ErrorPanic (FatalError ''to xor two bytes array, the length of the output must be greater or equal to the length of them''))
          else Inr (xorInto bytes1 bytes2 out'))"

lemma foldl_update_prefix:
  "n \<le> length out \<Longrightarrow> foldl (\<lambda>o' i. o'[i := f i]) out [0..<n] = map f [0..<n] @ drop n out"
proof (induction n)
  case (Suc n)
  then have "drop n out = out ! n # drop (Suc n) out" by (simp add: Cons_nth_drop_Suc)
  with Suc show ?case by (simp add: list_update_append)
qed simp

lemma foldl_update_self:
  "n \<le> length out \<Longrightarrow> foldl (\<lambda>o' i. o'[i := g (o' ! i) i]) out [0..<n] = map (\<lambda>i. g (out ! i) i) [0..<n] @ drop n out"
proof (induction n)
  case (Suc n)
  then have "drop n out = out ! n # drop (Suc n) out" by (simp add: Cons_nth_drop_Suc)
  with Suc show ?case by (simp add: list_update_append nth_append)
qed simp

lemma xorSelf_map2: "length b = length a \<Longrightarrow> xorSelf a b = map2 (XOR) a b"
  unfolding xorSelf_def
  by (subst foldl_update_self [where g = "\<lambda>x i. x XOR b ! i"]) (auto intro!: nth_equalityI)

lemma xorInto_map2:
  "length b = length a \<Longrightarrow> length a \<le> length out \<Longrightarrow> xorInto a b out = map2 (XOR) a b @ drop (length a) out"
  unfolding xorInto_def by (subst foldl_update_prefix) (auto intro!: nth_equalityI)

lemma xorSelf_involution: "length b = length a \<Longrightarrow> xorSelf (xorSelf a b) b = a"
  by (simp add: xorSelf_map2) (auto intro!: nth_equalityI simp: xor.assoc)

text \<open>
  \<open>NewUUID\<close> of \<open>signal/utils.go\<close>. The uuid package is a parameter: \<open>parse\<close> is \<open>uuid.MustParse\<close>
  (\<open>None\<close> where it panics), \<open>str\<close> is \<open>UUID.String\<close>.
\<close>

definition NewUUID :: "(string \<Rightarrow> byte list option) \<Rightarrow> (byte list \<Rightarrow> string) \<Rightarrow> string \<Rightarrow> string \<Rightarrow> string res" where
  "NewUUID parse str uid base =
     (case parse uid of
        None \<Rightarrow> Inl (ValuePanic ''uuid: Parse'')
      | Some newBytes \<Rightarrow>
          (case parse base of
             None \<Rightarrow> Inl (ValuePanic ''uuid: Parse'')
           | Some baseBytes \<Rightarrow>
               if length newBytes \<noteq> length baseBytes
               then Inl (ErrorPanic (FatalError ''to xor two bytes array, the length of bytes 1 must be equal to bytes 2''))
               else Inr (str (xorSelf newBytes baseBytes))))"

section \<open>Binary search in a sorted slice\<close>

lemma binarySearchLoop_spec:
  assumes "sorted sl"
  shows "i \<le> j \<Longrightarrow> j \<le> length sl \<Longrightarrow> (\<forall>k < i. sl ! k < target) \<Longrightarrow>
    (\<forall>k. j \<le> k \<and> k < length sl \<longrightarrow> \<not> sl ! k < target) \<Longrightarrow>
    binarySearchLoop sl target i j \<le> length sl \<and>
    (\<forall>k < binarySearchLoop sl target i j. sl ! k < target) \<and>
    (\<forall>k. binarySearchLoop sl target i j \<le> k \<and> k < length sl \<longrightarrow> \<not> sl ! k < target)"
proof (induction "j - i" arbitrary: i j rule: less_induct)
  case less
  show ?case
  proof (cases "i < j")
    case False
    then have "binarySearchLoop sl target i j = i" by (subst binarySearchLoop.simps) simp
    then show ?thesis using False less.prems by auto
  next
    case True
    define h where "h = (i + j) div 2"
    have h: "i \<le> h" "h < j" using True by (auto simp: h_def)
    show ?thesis
    proof (cases "sl ! h < target")
      case lt: True
      have "binarySearchLoop sl target i j = binarySearchLoop sl target (h + 1) j"
        using True lt by (subst binarySearchLoop.simps) (simp add: h_def Let_def)
      moreover have "\<forall>k < h + 1. sl ! k < target"
      proof (intro allI impI)
        fix k assume "k < h + 1"
        then have "sl ! k \<le> sl ! h" using assms h less.prems(2) by (simp add: sorted_nth_mono)
        then show "sl ! k < target" using lt by (rule le_less_trans)
      qed
      ultimately show ?thesis using h less.prems by (simp only:) (rule less.hyps; simp)
    next
      case ge: False
      have "binarySearchLoop sl target i j = binarySearchLoop sl target i h"
        using True ge by (subst binarySearchLoop.simps) (simp add: h_def Let_def)
      moreover have "\<forall>k. h \<le> k \<and> k < length sl \<longrightarrow> \<not> sl ! k < target"
      proof (intro allI impI)
        fix k assume "h \<le> k \<and> k < length sl"
        then have "sl ! h \<le> sl ! k" using assms by (simp add: sorted_nth_mono)
        then show "\<not> sl ! k < target" using ge by simp
      qed
      ultimately show ?thesis using h less.prems by (simp only:) (rule less.hyps; simp)
    qed
  qed
qed

lemma BinarySearch_found_iff:
  assumes "sorted sl"
  shows "snd (BinarySearch sl target) \<longleftrightarrow> target \<in> set sl"
proof -
  define r where "r = binarySearchLoop sl target 0 (length sl)"
  have "r \<le> length sl \<and> (\<forall>k < r. sl ! k < target) \<and> (\<forall>k. r \<le> k \<and> k < length sl \<longrightarrow> \<not> sl ! k < target)"
    unfolding r_def by (rule binarySearchLoop_spec [OF assms]) auto
  then have R: "\<And>k. k < r \<Longrightarrow> sl ! k < target" "\<And>k. r \<le> k \<Longrightarrow> k < length sl \<Longrightarrow> \<not> sl ! k < target" by auto
  have "r < length sl \<and> sl ! r = target" if t: "target \<in> set sl"
  proof -
    obtain k where k: "k < length sl" "sl ! k = target" using t by (auto simp: in_set_conv_nth)
    then have "r \<le> k" using R(1) [of k] by (meson less_irrefl not_less)
    then have "r < length sl" "sl ! r \<le> sl ! k" using k assms by (auto intro: sorted_nth_mono)
    then show ?thesis using R(2) [of r] k by auto
  qed
  then show ?thesis by (auto simp: BinarySearch_def r_def [symmetric] Let_def)
qed

section \<open>Properties\<close>

text \<open>\<open>SliceRemoveByIndexes\<close> never indexes out of range and returns the elements whose
  position is not listed, in order, whatever the listed positions are (unsorted, repeated, negative
  or past the end), and the in-place mode returns the same slice as the copying mode.\<close>

theorem SliceRemoveByIndexes_correct:
  "\<exists>arr. SliceRemoveByIndexes sl copy indexes = Inr (arr, nths sl {j. int j \<notin> set indexes})"
  using SliceRemoveByIndexes_out [of sl copy indexes]
  by (cases "SliceRemoveByIndexes sl copy indexes") auto

text \<open>\<open>SliceRemoveIfIgnoreOrder\<close> terminates and keeps exactly the elements that do not satisfy
  the condition, with their multiplicity, in some order.\<close>

theorem SliceRemoveIfIgnoreOrder_correct:
  "mset (snd (SliceRemoveIfIgnoreOrder sl cond)) = mset (filter (\<lambda>v. \<not> cond v) sl)"
  by (simp add: SliceRemoveIfIgnoreOrder_mset)

text \<open>\<open>SortedSliceAppendNoRepeat\<close> keeps its promise when one value is added to a sorted slice,
  and breaks it for more: the loop searches the slice it has just appended to, so adding 1 twice to
  the slice with 5 leaves 1 in it twice.\<close>

theorem SortedSliceAppendNoRepeat_repeats:
  "(\<forall>sl v. (if sorted sl then SortedSliceAppendNoRepeat sl [v] =
                               (if v \<in> set sl then sl else sort (sl @ [v :: int])) else True)) \<and>
   SortedSliceAppendNoRepeat [5 :: int] [1, 1] = [1, 1, 5]"
proof (intro conjI allI)
  fix sl :: "int list" and v
  show "if sorted sl then SortedSliceAppendNoRepeat sl [v] =
          (if v \<in> set sl then sl else sort (sl @ [v])) else True"
    by (auto simp: SortedSliceAppendNoRepeat_def BinarySearch_found_iff sorted_sort_id)
next
  show "SortedSliceAppendNoRepeat [5 :: int] [1, 1] = [1, 1, 5]" by code_simp
qed

text \<open>\<open>NewUUID\<close> is an involution for a fixed base: combining the combined id with the same base
  gives the first id back, so two ids never collide under one base.\<close>

theorem NewUUID_involution:
  assumes roundtrip: "\<And>b. length b = 16 \<Longrightarrow> parse (str b) = Some b"
    and sixteen: "\<And>s b. parse s = Some b \<Longrightarrow> length b = 16"
    and "NewUUID parse str uid base = Inr combined"
  shows "\<exists>b. parse uid = Some b \<and> NewUUID parse str combined base = Inr (str b)"
proof -
  obtain a b where ab: "parse uid = Some a" "parse base = Some b"
      "combined = str (xorSelf a b)"
    using assms(3) by (auto simp: NewUUID_def split: option.splits if_splits)
  have l: "length a = 16" "length b = 16" using sixteen ab by auto
  then have "length (xorSelf a b) = 16" by (simp add: xorSelf_map2)
  then have "parse combined = Some (xorSelf a b)" using roundtrip ab by simp
  with ab l \<open>length (xorSelf a b) = 16\<close> show ?thesis by (simp add: NewUUID_def xorSelf_involution)
qed

definition demo_parse :: "string \<Rightarrow> byte list option" where
  "demo_parse s = (if length s = 16 then Some (map (\<lambda>c. of_nat (of_char c)) s) else None)"

definition demo_str :: "byte list \<Rightarrow> string" where
  "demo_str b = map (\<lambda>w. char_of (unat w)) b"

theorem NewUUID_witness:
  "NewUUID demo_parse demo_str (demo_str (replicate 16 6)) (demo_str (replicate 16 3)) = Inr (demo_str (replicate 16 5))"
proof -
  have rt: "demo_parse (demo_str b) = Some b" if "length b = 16" for b
  proof -
    have "of_nat (unat w mod 256) = w" for w :: byte
    proof -
      have "unat w < 2 ^ 8" using unsigned_less [of w] by simp
      then show ?thesis by simp
    qed
    with that show ?thesis by (auto simp: demo_parse_def demo_str_def o_def intro!: map_idI)
  qed
  have sx: "length b = 16" if "demo_parse s = Some b" for s b
    using that by (auto simp: demo_parse_def split: if_splits)
  have "NewUUID demo_parse demo_str (demo_str (replicate 16 5)) (demo_str (replicate 16 3)) = Inr (demo_str (replicate 16 6))"
    by (simp add: NewUUID_def rt xorSelf_map2 zip_replicate)
  then have "\<exists>b. demo_parse (demo_str (replicate 16 5)) = Some b \<and>
      NewUUID demo_parse demo_str (demo_str (replicate 16 6)) (demo_str (replicate 16 3)) = Inr (demo_str b)"
    by (rule NewUUID_involution [rotated 2]) (fact rt, fact sx)
  then show ?thesis using rt [of "replicate 16 5"] by auto
qed

end
