(* ===== verification/PubPattern.thy ===== *)
theory PubPattern
  imports Collections
begin

text \<open>
  Publication patterns (\<open>model/pattern.go\<close>): the boolean language in which a subscriber says which
  tracks it wants. \<open>Validate\<close> checks the shape of a pattern, \<open>Match\<close> evaluates it on one track and
  \<open>MatchTracks\<close> splits the tracks of a publisher. \<open>sat\<close> is the meaning of a pattern; \<open>Match\<close> agrees
  with it, without the index panic that a pattern with an odd number of label arguments causes,
  on every pattern that \<open>Validate\<close> accepts.
\<close>

section \<open>Patterns and tracks\<close>

text \<open>A protobuf enum is open: \<open>OP_OTHER\<close> is a number without a name.\<close>

datatype PatternOp =
    OP_ALL | OP_SOME | OP_NONE
  | OP_PUBLISH_ID | OP_STREAM_ID | OP_TRACK_ID | OP_TRACK_RID
  | OP_TRACK_LABEL_ALL_MATCH | OP_TRACK_LABEL_SOME_MATCH | OP_TRACK_LABEL_NONE_MATCH
  | OP_TRACK_LABEL_ALL_HAS | OP_TRACK_LABEL_SOME_HAS | OP_TRACK_LABEL_NONE_HAS
  | OP_TRACK_TYPE
  | OP_OTHER int

definition PatternOp_String :: "PatternOp \<Rightarrow> string" where
  "PatternOp_String op =
     (case op of
        OP_ALL \<Rightarrow> ''ALL'' | OP_SOME \<Rightarrow> ''SOME'' | OP_NONE \<Rightarrow> ''NONE''
      | OP_PUBLISH_ID \<Rightarrow> ''PUBLISH_ID'' | OP_STREAM_ID \<Rightarrow> ''STREAM_ID''
      | OP_TRACK_ID \<Rightarrow> ''TRACK_ID'' | OP_TRACK_RID \<Rightarrow> ''TRACK_RID''
      | OP_TRACK_LABEL_ALL_MATCH \<Rightarrow> ''TRACK_LABEL_ALL_MATCH''
      | OP_TRACK_LABEL_SOME_MATCH \<Rightarrow> ''TRACK_LABEL_SOME_MATCH''
      | OP_TRACK_LABEL_NONE_MATCH \<Rightarrow> ''TRACK_LABEL_NONE_MATCH''
      | OP_TRACK_LABEL_ALL_HAS \<Rightarrow> ''TRACK_LABEL_ALL_HAS''
      | OP_TRACK_LABEL_SOME_HAS \<Rightarrow> ''TRACK_LABEL_SOME_HAS''
      | OP_TRACK_LABEL_NONE_HAS \<Rightarrow> ''TRACK_LABEL_NONE_HAS''
      | OP_TRACK_TYPE \<Rightarrow> ''TRACK_TYPE''
      | OP_OTHER _ \<Rightarrow> ''UNKNOWN'')"

datatype PublicationPattern =
  PublicationPattern (Op: PatternOp) (Args: "string list") (Children: "PublicationPattern list")

record RTCPFeedback =
  fbType :: string
  fbParameter :: string

record RTPCodecParameters =
  mimeType :: string
  clockRate :: "32 word"
  channels :: "32 word"
  sdpFmtpLine :: string
  rtcpFeedback :: "RTCPFeedback list"
  payloadType :: "32 word"

record Track =
  trackType :: string
  pubId :: string
  globalId :: string
  localId :: string
  bindId :: string
  rid :: string
  streamId :: string
  codec :: "RTPCodecParameters option"
  labels :: "(string, string) gomap"

definition CopyTrack :: "Track \<Rightarrow> Track" where
  "CopyTrack src =
     \<lparr> trackType = trackType src, pubId = pubId src, globalId = globalId src, localId = localId src,
       bindId = bindId src, rid = rid src, streamId = streamId src, codec = codec src, labels = labels src \<rparr>"

lemma CopyTrack_same [simp]: "CopyTrack t = t"
  by (simp add: CopyTrack_def)

section \<open>Validation\<close>

definition checkArgsNum :: "PublicationPattern \<Rightarrow> nat \<Rightarrow> bool \<Rightarrow> go_err + unit" where
  "checkArgsNum me n atleast =
     (if \<not> atleast \<and> length (Args me) \<noteq> n
      then Inl (InvalidPubPattern ''The pub pattern op '%v' accept %d args, but gotten %v'')
      else if atleast \<and> length (Args me) < n
      then Inl (InvalidPubPattern ''The pub pattern op '%v' accept at least %d args, but gotten %v'')
      else Inr ())"

fun Validate :: "PublicationPattern \<Rightarrow> go_err + unit"
  and validateChildren :: "PublicationPattern list \<Rightarrow> go_err + unit" where
  "Validate (PublicationPattern op args cs) =
     (if op \<in> {OP_ALL, OP_SOME, OP_NONE}
      then bind_res (checkArgsNum (PublicationPattern op args cs) 0 False) (\<lambda>_. validateChildren cs)
      else if length cs > 0
      then Inl (InvalidPubPattern ''The pub pattern op '%v' accept zero child, but gotten %v'')
      else if op \<in> {OP_PUBLISH_ID, OP_STREAM_ID, OP_TRACK_ID, OP_TRACK_RID, OP_TRACK_LABEL_ALL_HAS,
                     OP_TRACK_LABEL_SOME_HAS, OP_TRACK_LABEL_NONE_HAS, OP_TRACK_TYPE}
      then bind_res (checkArgsNum (PublicationPattern op args cs) 1 True) (\<lambda>_.
             if op = OP_TRACK_TYPE \<and> hd args \<noteq> ''video'' \<and> hd args \<noteq> ''audio''
             then Inl (InvalidPubPattern ''The pub pattern op '%v' accept only \"video\" and \"audio\", but gotten %v'')
             else Inr ())
      else if op \<in> {OP_TRACK_LABEL_ALL_MATCH, OP_TRACK_LABEL_SOME_MATCH, OP_TRACK_LABEL_NONE_MATCH}
      then (if length args < 2 \<or> length args mod 2 \<noteq> 0
            then Inl (InvalidPubPattern ''The pub pattern op '%v' accept at least 2 even number of args, but gotten %v'')
            else Inr ())
      else Inl (InvalidPubPattern ''Unkonwn op: %d''))"
| "validateChildren [] = Inr ()"
| "validateChildren (c # cs) = bind_res (Validate c) (\<lambda>_. validateChildren cs)"

section \<open>Evaluation\<close>

definition MatchLabel :: "Track \<Rightarrow> string \<Rightarrow> string \<Rightarrow> bool" where
  "MatchLabel me name val = (case mget (labels me) name of Some v \<Rightarrow> v = val | None \<Rightarrow> False)"

definition HasLabel :: "Track \<Rightarrow> string \<Rightarrow> bool" where
  "HasLabel me name = (mget (labels me) name \<noteq> None)"

text \<open>
  The loops over label pairs stop at the first pair whose test equals \<open>stop\<close>; a key without a
  value is the index panic of \<open>me.Args[i+1]\<close>.
\<close>

fun matchPairs :: "Track \<Rightarrow> bool \<Rightarrow> bool \<Rightarrow> bool \<Rightarrow> string list \<Rightarrow> bool res" where
  "matchPairs track stop onStop atEnd [] = Inr atEnd"
| "matchPairs track stop onStop atEnd [key] = Inl IndexOutOfRange"
| "matchPairs track stop onStop atEnd (key # val # args) =
     (if MatchLabel track key val = stop then Inr onStop else matchPairs track stop onStop atEnd args)"

fun hasLoop :: "Track \<Rightarrow> bool \<Rightarrow> bool \<Rightarrow> bool \<Rightarrow> string list \<Rightarrow> bool" where
  "hasLoop track stop onStop atEnd [] = atEnd"
| "hasLoop track stop onStop atEnd (name # args) =
     (if HasLabel track name = stop then onStop else hasLoop track stop onStop atEnd args)"

fun Match :: "PublicationPattern \<Rightarrow> Track \<Rightarrow> bool res"
  and matchChildren :: "bool \<Rightarrow> bool \<Rightarrow> bool \<Rightarrow> PublicationPattern list \<Rightarrow> Track \<Rightarrow> bool res" where
  "Match (PublicationPattern op args cs) track =
     (case op of
        OP_ALL \<Rightarrow> matchChildren False False True cs track
      | OP_SOME \<Rightarrow> matchChildren True True False cs track
      | OP_NONE \<Rightarrow> matchChildren True False True cs track
      | OP_PUBLISH_ID \<Rightarrow> Inr (InSlice args (pubId track) None)
      | OP_STREAM_ID \<Rightarrow> Inr (InSlice args (streamId track) None)
      | OP_TRACK_ID \<Rightarrow> Inr (InSlice args (globalId track) None)
      | OP_TRACK_RID \<Rightarrow> Inr (InSlice args (rid track) None)
      | OP_TRACK_LABEL_ALL_MATCH \<Rightarrow> matchPairs track False False True args
      | OP_TRACK_LABEL_SOME_MATCH \<Rightarrow> matchPairs track True True False args
      | OP_TRACK_LABEL_NONE_MATCH \<Rightarrow> matchPairs track True False True args
      | OP_TRACK_LABEL_ALL_HAS \<Rightarrow> Inr (hasLoop track False False True args)
      | OP_TRACK_LABEL_SOME_HAS \<Rightarrow> Inr (hasLoop track True True False args)
      | OP_TRACK_LABEL_NONE_HAS \<Rightarrow> Inr (hasLoop track True False True args)
      | OP_TRACK_TYPE \<Rightarrow> Inr (InSlice args (trackType track) None)
      | OP_OTHER _ \<Rightarrow> Inr False)"
| "matchChildren stop onStop atEnd [] track = Inr atEnd"
| "matchChildren stop onStop atEnd (c # cs) track =
     bind_res (Match c track) (\<lambda>b.
       if b = stop then Inr onStop else matchChildren stop onStop atEnd cs track)"

text \<open>
  \<open>ord\<close> is the order in which Go ranges over the map of groups.
\<close>

fun groupTracks :: "PublicationPattern \<Rightarrow> Track list \<Rightarrow> (string, Track list) gomap \<Rightarrow> Track list
    \<Rightarrow> ((string, Track list) gomap \<times> Track list) res" where
  "groupTracks me [] tracksByPub unmatched = Inr (tracksByPub, unmatched)"
| "groupTracks me (track # tracks) tracksByPub unmatched =
     bind_res (Match me track) (\<lambda>b.
       if b
       then (let ts = (case mget tracksByPub (pubId track) of Some ts \<Rightarrow> ts | None \<Rightarrow> [])
             in groupTracks me tracks (mput (pubId track) (ts @ [track]) tracksByPub) unmatched)
       else groupTracks me tracks tracksByPub (unmatched @ [track]))"

fun typeConds :: "Track list \<Rightarrow> bool \<Rightarrow> bool \<Rightarrow> bool \<times> bool" where
  "typeConds [] videoCond audioCond = (videoCond, audioCond)"
| "typeConds (track # ts) videoCond audioCond =
     (let v = (videoCond \<or> trackType track = ''video'');
          a = (if trackType track = ''video'' then audioCond else audioCond \<or> trackType track = ''audio'')
      in if v \<and> a then (v, a) else typeConds ts v a)"

fun splitGroups :: "bool \<Rightarrow> bool \<Rightarrow> (string \<times> Track list) list \<Rightarrow> Track list \<Rightarrow> Track list \<Rightarrow> Track list \<times> Track list" where
  "splitGroups reqVideo reqAudio [] matched unmatched = (matched, unmatched)"
| "splitGroups reqVideo reqAudio ((_, ts) # groups) matched unmatched =
     (let (videoCond, audioCond) =
            (if reqVideo \<or> reqAudio then typeConds ts (\<not> reqVideo) (\<not> reqAudio) else (True, True))
      in if \<not> videoCond \<or> \<not> audioCond
         then splitGroups reqVideo reqAudio groups matched (unmatched @ ts)
         else splitGroups reqVideo reqAudio groups (matched @ ts) unmatched)"

definition MatchTracks :: "((string \<times> Track list) list \<Rightarrow> (string \<times> Track list) list) \<Rightarrow>
    PublicationPattern \<Rightarrow> Track list \<Rightarrow> string list \<Rightarrow> (Track list \<times> Track list) res" where
  "MatchTracks ord me tracks reqTypes =
     bind_res (groupTracks me tracks [] []) (\<lambda>(tracksByPub, unmatched).
       Inr (splitGroups (InSlice reqTypes ''video'' None) (InSlice reqTypes ''audio'' None)
              (ord tracksByPub) [] unmatched))"

section \<open>The meaning of a pattern\<close>

fun pairsOf :: "string list \<Rightarrow> (string \<times> string) list" where
  "pairsOf (k # v # args) = (k, v) # pairsOf args"
| "pairsOf _ = []"

fun sat :: "PublicationPattern \<Rightarrow> Track \<Rightarrow> bool" where
  "sat (PublicationPattern op args cs) track =
     (case op of
        OP_ALL \<Rightarrow> (\<forall>c \<in> set cs. sat c track)
      | OP_SOME \<Rightarrow> (\<exists>c \<in> set cs. sat c track)
      | OP_NONE \<Rightarrow> \<not> (\<exists>c \<in> set cs. sat c track)
      | OP_PUBLISH_ID \<Rightarrow> pubId track \<in> set args
      | OP_STREAM_ID \<Rightarrow> streamId track \<in> set args
      | OP_TRACK_ID \<Rightarrow> globalId track \<in> set args
      | OP_TRACK_RID \<Rightarrow> rid track \<in> set args
      | OP_TRACK_LABEL_ALL_MATCH \<Rightarrow> (\<forall>(k, v) \<in> set (pairsOf args). mget (labels track) k = Some v)
      | OP_TRACK_LABEL_SOME_MATCH \<Rightarrow> (\<exists>(k, v) \<in> set (pairsOf args). mget (labels track) k = Some v)
      | OP_TRACK_LABEL_NONE_MATCH \<Rightarrow> \<not> (\<exists>(k, v) \<in> set (pairsOf args). mget (labels track) k = Some v)
      | OP_TRACK_LABEL_ALL_HAS \<Rightarrow> set args \<subseteq> dom (mget (labels track))
      | OP_TRACK_LABEL_SOME_HAS \<Rightarrow> set args \<inter> dom (mget (labels track)) \<noteq> {}
      | OP_TRACK_LABEL_NONE_HAS \<Rightarrow> set args \<inter> dom (mget (labels track)) = {}
      | OP_TRACK_TYPE \<Rightarrow> trackType track \<in> set args
      | OP_OTHER _ \<Rightarrow> False)"

lemma MatchLabel_iff [simp]: "MatchLabel t k v \<longleftrightarrow> mget (labels t) k = Some v"
  by (auto simp: MatchLabel_def split: option.splits)

lemma HasLabel_iff [simp]: "HasLabel t k \<longleftrightarrow> k \<in> dom (mget (labels t))"
  by (auto simp: HasLabel_def)

lemma matchPairs_even:
  "even (length args) \<Longrightarrow> matchPairs t stop onStop atEnd args =
     Inr (if \<exists>(k, v) \<in> set (pairsOf args). (mget (labels t) k = Some v) = stop then onStop else atEnd)"
  by (induction t stop onStop atEnd args rule: matchPairs.induct) auto

lemma hasLoop_iff:
  "hasLoop t stop onStop atEnd args =
     (if \<exists>k \<in> set args. (k \<in> dom (mget (labels t))) = stop then onStop else atEnd)"
  by (induction args) auto

lemma matchChildren_sat:
  "(\<And>c. c \<in> set cs \<Longrightarrow> Match c t = Inr (sat c t)) \<Longrightarrow>
   matchChildren stop onStop atEnd cs t = Inr (if \<exists>c \<in> set cs. sat c t = stop then onStop else atEnd)"
  by (induction cs) auto

lemma validateChildren_iff: "validateChildren cs = Inr () \<longleftrightarrow> (\<forall>c \<in> set cs. Validate c = Inr ())"
  by (induction cs) (auto simp: bind_res_Inr_iff)

lemma Validate_children: "Validate (PublicationPattern op args cs) = Inr () \<Longrightarrow> c \<in> set cs \<Longrightarrow> Validate c = Inr ()"
  by (auto simp: bind_res_Inr_iff validateChildren_iff split: if_splits)

lemma Validate_pairs:
  "Validate (PublicationPattern op args cs) = Inr () \<Longrightarrow>
   op \<in> {OP_TRACK_LABEL_ALL_MATCH, OP_TRACK_LABEL_SOME_MATCH, OP_TRACK_LABEL_NONE_MATCH} \<Longrightarrow> even (length args)"
  by (auto split: if_splits)

lemma Match_sat: "Validate p = Inr () \<Longrightarrow> Match p t = Inr (sat p t)"
proof (induction p)
  case (PublicationPattern op args cs)
  have "Match c t = Inr (sat c t)" if "c \<in> set cs" for c
    using PublicationPattern.IH [OF that] Validate_children [OF PublicationPattern.prems that] by simp
  then have "matchChildren stop onStop atEnd cs t = Inr (if \<exists>c \<in> set cs. sat c t = stop then onStop else atEnd)"
    for stop onStop atEnd by (rule matchChildren_sat)
  then show ?case
    using Validate_pairs [OF PublicationPattern.prems]
    by (cases op) (auto simp: matchPairs_even hasLoop_iff)
qed

section \<open>Splitting the tracks\<close>

definition group_tracks :: "(string, Track list) gomap \<Rightarrow> Track multiset" where
  "group_tracks g = (\<Sum>(k, ts) \<leftarrow> g. mset ts)"

definition groups_ok :: "(string, Track list) gomap \<Rightarrow> bool" where
  "groups_ok g \<longleftrightarrow> mwf g \<and> (\<forall>k ts. mget g k = Some ts \<longrightarrow> (\<forall>t \<in> set ts. pubId t = k))"

lemma group_tracks_mput:
  "group_tracks (mput k (ts @ [t]) g) + (case mget g k of Some ts' \<Rightarrow> mset ts' | None \<Rightarrow> {#}) =
     group_tracks g + mset ts + {#t#}"
  by (induction g) (auto simp: group_tracks_def split: option.splits)

lemma groups_ok_mput:
  "groups_ok g \<Longrightarrow> pubId t = k \<Longrightarrow> \<forall>u \<in> set ts. pubId u = k \<Longrightarrow> groups_ok (mput k (ts @ [t]) g)"
  by (auto simp: groups_ok_def gomap_simps split: if_splits)

lemma groupTracks_spec:
  assumes "Validate me = Inr ()"
  shows "groups_ok g \<Longrightarrow>
    \<exists>g'. groupTracks me tracks g un = Inr (g', un @ filter (\<lambda>t. \<not> sat me t) tracks) \<and> groups_ok g' \<and>
      group_tracks g' = group_tracks g + filter_mset (sat me) (mset tracks)"
proof (induction tracks arbitrary: g un)
  case Nil
  then show ?case by simp
next
  case (Cons t tracks)
  show ?case
  proof (cases "sat me t")
    case False
    then show ?thesis using Cons.IH [OF Cons.prems, of "un @ [t]"] Match_sat [OF assms, of t] by auto
  next
    case True
    let ?ts = "case mget g (pubId t) of Some ts \<Rightarrow> ts | None \<Rightarrow> []"
    have "\<forall>u \<in> set ?ts. pubId u = pubId t"
      using Cons.prems by (cases "mget g (pubId t)") (auto simp: groups_ok_def)
    then have ok: "groups_ok (mput (pubId t) (?ts @ [t]) g)" by (rule groups_ok_mput [OF Cons.prems refl])
    have "group_tracks (mput (pubId t) (?ts @ [t]) g) = group_tracks g + {#t#}"
      using group_tracks_mput [of "pubId t" ?ts t g] by (auto split: option.splits)
    then show ?thesis using Cons.IH [OF ok, of un] True Match_sat [OF assms, of t] by auto
  qed
qed

definition covers :: "string list \<Rightarrow> Track list \<Rightarrow> bool" where
  "covers reqTypes ts \<longleftrightarrow>
     (\<forall>ty \<in> {''video'', ''audio''}. ty \<in> set reqTypes \<longrightarrow> (\<exists>t \<in> set ts. trackType t = ty))"

lemma typeConds_spec:
  "typeConds ts v a = (v', a') \<Longrightarrow>
   v' \<and> a' \<longleftrightarrow> (v \<or> (\<exists>t \<in> set ts. trackType t = ''video'')) \<and> (a \<or> (\<exists>t \<in> set ts. trackType t = ''audio''))"
  by (induction ts v a rule: typeConds.induct) (auto simp: Let_def split: if_splits)

lemma splitGroups_spec:
  "splitGroups (''video'' \<in> set reqTypes) (''audio'' \<in> set reqTypes) gs m un =
     (m @ concat (map snd (filter (\<lambda>g. covers reqTypes (snd g)) gs)),
      un @ concat (map snd (filter (\<lambda>g. \<not> covers reqTypes (snd g)) gs)))"
proof (induction gs arbitrary: m un)
  case Nil
  then show ?case by simp
next
  case (Cons g gs)
  obtain k ts where g: "g = (k, ts)" by (cases g)
  obtain v a where va: "(if ''video'' \<in> set reqTypes \<or> ''audio'' \<in> set reqTypes
      then typeConds ts (''video'' \<notin> set reqTypes) (''audio'' \<notin> set reqTypes) else (True, True)) = (v, a)" by fastforce
  then have "v \<and> a \<longleftrightarrow> covers reqTypes ts"
    using typeConds_spec [of ts "''video'' \<notin> set reqTypes" "''audio'' \<notin> set reqTypes" v a]
    by (auto simp: covers_def split: if_splits)
  then show ?case using Cons.IH va g by (auto simp: Let_def)
qed

definition group_of :: "PublicationPattern \<Rightarrow> Track list \<Rightarrow> Track \<Rightarrow> Track list" where
  "group_of me tracks t = filter (\<lambda>u. sat me u \<and> pubId u = pubId t) tracks"

lemma mem_group_tracks: "t \<in># group_tracks g \<longleftrightarrow> (\<exists>(k, ts) \<in> set g. t \<in> set ts)"
  by (induction g) (auto simp: group_tracks_def)

lemma groups_ok_members:
  assumes "groups_ok g" "(k, ts) \<in> set g"
  shows "u \<in> set ts \<longleftrightarrow> u \<in># group_tracks g \<and> pubId u = k"
proof -
  have "mget g k = Some ts" using assms by (simp add: groups_ok_def mwf_def)
  moreover have "mget g k' = Some ts'" if "(k', ts') \<in> set g" for k' ts'
    using that assms(1) by (simp add: groups_ok_def mwf_def)
  ultimately show ?thesis
    using assms unfolding mem_group_tracks groups_ok_def by fastforce
qed

lemma mset_concat_partition:
  "mset (concat (map snd (filter P gs))) + mset (concat (map snd (filter (\<lambda>g. \<not> P g) gs))) = group_tracks gs"
  by (induction gs) (auto simp: group_tracks_def case_prod_beta)

lemma group_tracks_perm: "mset gs = mset g \<Longrightarrow> group_tracks gs = group_tracks g"
  unfolding group_tracks_def by (metis mset_map sum_mset_sum_list)

lemma MatchTracks_spec:
  assumes "Validate me = Inr ()" "\<And>g. mset (ord g) = mset g"
  shows "\<exists>matched unmatched. MatchTracks ord me tracks reqTypes = Inr (matched, unmatched) \<and>
    mset matched + mset unmatched = mset tracks \<and>
    (\<forall>t. t \<in> set matched \<longleftrightarrow> t \<in> set tracks \<and> sat me t \<and> covers reqTypes (group_of me tracks t))"
proof -
  obtain g where g: "groupTracks me tracks [] [] = Inr (g, filter (\<lambda>t. \<not> sat me t) tracks)" "groups_ok g"
      "group_tracks g = filter_mset (sat me) (mset tracks)"
    using groupTracks_spec [OF assms(1), of "[]" tracks "[]"] by (auto simp: groups_ok_def group_tracks_def)
  let ?C = "\<lambda>g. covers reqTypes (snd g)"
  let ?m = "concat (map snd (filter ?C (ord g)))"
  let ?u = "filter (\<lambda>t. \<not> sat me t) tracks @ concat (map snd (filter (\<lambda>g. \<not> ?C g) (ord g)))"
  have r: "MatchTracks ord me tracks reqTypes = Inr (?m, ?u)"
    by (simp add: MatchTracks_def g splitGroups_spec)
  have "mset ?m + mset ?u = filter_mset (\<lambda>t. \<not> sat me t) (mset tracks) + group_tracks (ord g)"
    using mset_concat_partition [of ?C "ord g"] by (simp add: ac_simps)
  also have "\<dots> = mset tracks"
    using group_tracks_perm [OF assms(2)] g(3) multiset_partition [of "mset tracks" "sat me"] by (simp add: add.commute)
  finally have part: "mset ?m + mset ?u = mset tracks" .
  have mem: "u \<in> set ts \<longleftrightarrow> u \<in> set tracks \<and> sat me u \<and> pubId u = k" if "(k, ts) \<in> set g" for k ts u
    using groups_ok_members [OF g(2) that] g(3) by auto
  have cov: "covers reqTypes ts \<longleftrightarrow> covers reqTypes (group_of me tracks t)" if "(k, ts) \<in> set g" "t \<in> set ts" for k ts t
    using mem [OF that(1)] that(2) by (auto simp: covers_def group_of_def)
  have set_ord: "set (ord g) = set g" using assms(2) by (metis set_mset_mset)
  have "t \<in> set ?m \<longleftrightarrow> t \<in> set tracks \<and> sat me t \<and> covers reqTypes (group_of me tracks t)" for t
  proof -
    have "t \<in> set ?m \<longleftrightarrow> (\<exists>(k, ts) \<in> set g. t \<in> set ts \<and> covers reqTypes ts)" by (auto simp: set_ord)
    also have "\<dots> \<longleftrightarrow> (\<exists>(k, ts) \<in> set g. t \<in> set ts) \<and> covers reqTypes (group_of me tracks t)"
      using cov by fastforce
    also have "(\<exists>(k, ts) \<in> set g. t \<in> set ts) \<longleftrightarrow> t \<in> set tracks \<and> sat me t"
      unfolding mem_group_tracks [symmetric] g(3) by simp
    finally show ?thesis by simp
  qed
  with r part show ?thesis by blast
qed

section \<open>Properties\<close>

text \<open>a pattern that \<open>Validate\<close> accepts is evaluated by \<open>Match\<close> without a panic, to its meaning:
  \<open>ALL\<close>, \<open>SOME\<close> and \<open>NONE\<close> quantify over the children (over the label pairs, over the label names),
  the other operators test membership.\<close>

theorem Match_meaning:
  assumes "Validate p = Inr ()"
  shows "Match p t = Inr (sat p t)"
  by (rule Match_sat [OF assms])

text \<open>C27: for an accepted pattern and any iteration order of the map of groups, \<open>MatchTracks\<close> loses
  and duplicates no track, and a track is matched exactly when it satisfies the pattern and the
  satisfying tracks of the same publication contain every requested type.\<close>

theorem MatchTracks_partition:
  assumes "Validate me = Inr ()" "\<And>g. mset (ord g) = mset g"
  shows "\<exists>matched unmatched. MatchTracks ord me tracks reqTypes = Inr (matched, unmatched) \<and>
    mset matched + mset unmatched = mset tracks \<and>
    (\<forall>t. t \<in> set matched \<longleftrightarrow> t \<in> set tracks \<and> sat me t \<and>
       (\<forall>ty \<in> {''video'', ''audio''}. ty \<in> set reqTypes \<longrightarrow>
          (\<exists>u \<in> set tracks. sat me u \<and> pubId u = pubId t \<and> trackType u = ty)))"
  using MatchTracks_spec [OF assms, of tracks reqTypes] by (auto simp: covers_def group_of_def)

definition demo_pattern :: PublicationPattern where
  "demo_pattern = PublicationPattern OP_ALL [] [PublicationPattern OP_TRACK_LABEL_ALL_MATCH [''k'', ''v''] [],
     PublicationPattern OP_NONE [] [PublicationPattern OP_TRACK_TYPE [''audio''] []]]"

definition demo_track :: "string \<Rightarrow> Track" where
  "demo_track ty = \<lparr> trackType = ty, pubId = ''p'', globalId = ''g'', localId = '''', bindId = '''', rid = '''',
     streamId = '''', codec = None, labels = [(''k'', ''v'')] \<rparr>"

theorem Match_meaning_witness:
  "Match demo_pattern (demo_track ''video'') = Inr (sat demo_pattern (demo_track ''video''))"
proof -
  have "Validate demo_pattern = Inr ()" by code_simp
  then show ?thesis by (rule Match_meaning)
qed

theorem MatchTracks_witness:
  "\<exists>matched unmatched. MatchTracks rev demo_pattern [demo_track ''video'', demo_track ''audio''] [''video''] = Inr (matched, unmatched) \<and>
    mset matched + mset unmatched = mset [demo_track ''video'', demo_track ''audio'']"
proof -
  have "Validate demo_pattern = Inr ()" by code_simp
  from MatchTracks_partition [OF this, of rev "[demo_track ''video'', demo_track ''audio'']" "[''video'']"]
  show ?thesis by auto
qed

end
