(* ===== verification/Messages.thy ===== *)
theory Messages
  imports PubPattern
begin

text \<open>
  The messages that travel between nodes and to the clients: the records of \<open>proto/message.proto\<close>
  with the methods of \<open>proto/message.ext.go\<close> (\<open>FixRouter\<close>, \<open>CopyPlain\<close>, \<open>ToMap\<close>, \<open>ToClientMessage\<close>)
  and the publish and subscribe requests of \<open>model/messages.go\<close> with their validation. A nil pointer
  to a router or to a nested message is \<open>None\<close>; the methods are called on non-nil messages, and the
  getters of a nil router return empty strings.
\<close>

section \<open>Routers\<close>

record Router =
  room :: string
  nodeFrom :: string
  nodeTo :: string
  socketFrom :: string
  socketTo :: string

definition newRouter :: Router where
  "newRouter = \<lparr> room = '''', nodeFrom = '''', nodeTo = '''', socketFrom = '''', socketTo = '''' \<rparr>"

text \<open>\<open>if x.Router == nil { x.Router = &Router{} }\<close>, and the getters of a possibly nil router.\<close>

definition routerOrNew :: "Router option \<Rightarrow> Router" where
  "routerOrNew r = (case r of None \<Rightarrow> newRouter | Some x \<Rightarrow> x)"

datatype anyv = AStr string | AU32 "32 word" | ABool bool | AMap "(string \<times> anyv) list"

type_synonym anyMap = "(string, anyv) gomap"

definition Router_ToMap :: "Router option \<Rightarrow> anyMap" where
  "Router_ToMap x =
     (case x of
        None \<Rightarrow> []
      | Some r \<Rightarrow> [(''room'', AStr (room r)), (''nodeFrom'', AStr (nodeFrom r)), (''nodeTo'', AStr (nodeTo r)),
                   (''socketFrom'', AStr (socketFrom r)), (''socketTo'', AStr (socketTo r))])"

definition Router_CopyPlain :: "Router option \<Rightarrow> Router" where
  "Router_CopyPlain x =
     \<lparr> room = room (routerOrNew x), nodeFrom = nodeFrom (routerOrNew x), nodeTo = nodeTo (routerOrNew x),
       socketFrom = socketFrom (routerOrNew x), socketTo = socketTo (routerOrNew x) \<rparr>"

definition fixRouter :: "Router \<Rightarrow> string \<Rightarrow> string \<Rightarrow> string \<Rightarrow> Router" where
  "fixRouter router rm socketId node =
     (if room router = '''' then router\<lparr> room := rm \<rparr> else router)
       \<lparr> socketFrom := socketId, nodeFrom := node \<rparr>"

lemma Router_CopyPlain_same [simp]: "Router_CopyPlain x = routerOrNew x"
  by (simp add: Router_CopyPlain_def)

lemma routerOrNew_Some [simp]: "routerOrNew (Some r) = r"
  by (simp add: routerOrNew_def)

section \<open>Messages\<close>

record WantMessage =
  wmRouter :: "Router option"
  wmReqTypes :: "string list"
  wmPattern :: "PublicationPattern option"
  wmTransportId :: "string"

definition WantMessage_FixRouter :: "WantMessage \<Rightarrow> string \<Rightarrow> string \<Rightarrow> string \<Rightarrow> WantMessage" where
  "WantMessage_FixRouter x rm socketId node = x\<lparr> wmRouter := Some (fixRouter (routerOrNew (wmRouter x)) rm socketId node) \<rparr>"

definition WantMessage_CopyPlain :: "WantMessage \<Rightarrow> WantMessage" where
  "WantMessage_CopyPlain x = \<lparr> wmRouter = Some (Router_CopyPlain (wmRouter x)), wmReqTypes = wmReqTypes x, wmPattern = wmPattern x, wmTransportId = wmTransportId x \<rparr>"

record StateMessage =
  smRouter :: "Router option"
  smPubId :: "string"
  smAddr :: "string"
  smTracks :: "Track list"

definition StateMessage_FixRouter :: "StateMessage \<Rightarrow> string \<Rightarrow> string \<Rightarrow> string \<Rightarrow> StateMessage" where
  "StateMessage_FixRouter x rm socketId node = x\<lparr> smRouter := Some (fixRouter (routerOrNew (smRouter x)) rm socketId node) \<rparr>"

definition StateMessage_CopyPlain :: "StateMessage \<Rightarrow> StateMessage" where
  "StateMessage_CopyPlain x = \<lparr> smRouter = Some (Router_CopyPlain (smRouter x)), smPubId = smPubId x, smAddr = smAddr x, smTracks = smTracks x \<rparr>"

record SelectMessage =
  selRouter :: "Router option"
  selPubId :: "string"
  selTransportId :: "string"
  selTracks :: "Track list"

definition SelectMessage_FixRouter :: "SelectMessage \<Rightarrow> string \<Rightarrow> string \<Rightarrow> string \<Rightarrow> SelectMessage" where
  "SelectMessage_FixRouter x rm socketId node = x\<lparr> selRouter := Some (fixRouter (routerOrNew (selRouter x)) rm socketId node) \<rparr>"

definition SelectMessage_CopyPlain :: "SelectMessage \<Rightarrow> SelectMessage" where
  "SelectMessage_CopyPlain x = \<lparr> selRouter = Some (Router_CopyPlain (selRouter x)), selPubId = selPubId x, selTransportId = selTransportId x, selTracks = selTracks x \<rparr>"

record WantParticipantMessage =
  wpRouter :: "Router option"

definition WantParticipantMessage_FixRouter :: "WantParticipantMessage \<Rightarrow> string \<Rightarrow> string \<Rightarrow> string \<Rightarrow> WantParticipantMessage" where
  "WantParticipantMessage_FixRouter x rm socketId node = x\<lparr> wpRouter := Some (fixRouter (routerOrNew (wpRouter x)) rm socketId node) \<rparr>"

definition WantParticipantMessage_CopyPlain :: "WantParticipantMessage \<Rightarrow> WantParticipantMessage" where
  "WantParticipantMessage_CopyPlain x = \<lparr> wpRouter = Some (Router_CopyPlain (wpRouter x)) \<rparr>"

record StateParticipantMessage =
  spRouter :: "Router option"
  spUserId :: "string"
  spUserName :: "string"
  spSocketId :: "string"
  spJoinId :: "32 word"

definition StateParticipantMessage_FixRouter :: "StateParticipantMessage \<Rightarrow> string \<Rightarrow> string \<Rightarrow> string \<Rightarrow> StateParticipantMessage" where
  "StateParticipantMessage_FixRouter x rm socketId node = x\<lparr> spRouter := Some (fixRouter (routerOrNew (spRouter x)) rm socketId node) \<rparr>"

definition StateParticipantMessage_CopyPlain :: "StateParticipantMessage \<Rightarrow> StateParticipantMessage" where
  "StateParticipantMessage_CopyPlain x = \<lparr> spRouter = Some (Router_CopyPlain (spRouter x)), spUserId = spUserId x, spUserName = spUserName x, spSocketId = spSocketId x, spJoinId = spJoinId x \<rparr>"

definition StateParticipantMessage_ToMap :: "StateParticipantMessage \<Rightarrow> anyMap" where
  "StateParticipantMessage_ToMap x =
     [(''router'', AMap (Router_ToMap (spRouter x))),
      (''userId'', AStr (spUserId x)),
      (''userName'', AStr (spUserName x)),
      (''socketId'', AStr (spSocketId x)),
      (''joinId'', AU32 (spJoinId x))]"

record StateLeaveMessage =
  slRouter :: "Router option"
  slUserId :: "string"
  slSocketId :: "string"
  slJoinId :: "32 word"

definition StateLeaveMessage_FixRouter :: "StateLeaveMessage \<Rightarrow> string \<Rightarrow> string \<Rightarrow> string \<Rightarrow> StateLeaveMessage" where
  "StateLeaveMessage_FixRouter x rm socketId node = x\<lparr> slRouter := Some (fixRouter (routerOrNew (slRouter x)) rm socketId node) \<rparr>"

definition StateLeaveMessage_CopyPlain :: "StateLeaveMessage \<Rightarrow> StateLeaveMessage" where
  "StateLeaveMessage_CopyPlain x = \<lparr> slRouter = Some (Router_CopyPlain (slRouter x)), slUserId = slUserId x, slSocketId = slSocketId x, slJoinId = slJoinId x \<rparr>"

definition StateLeaveMessage_ToMap :: "StateLeaveMessage \<Rightarrow> anyMap" where
  "StateLeaveMessage_ToMap x =
     [(''router'', AMap (Router_ToMap (slRouter x))),
      (''userId'', AStr (slUserId x)),
      (''socketId'', AStr (slSocketId x)),
      (''joinId'', AU32 (slJoinId x))]"

record PingMessage =
  pingRouter :: "Router option"
  pingMsgId :: "32 word"

definition PingMessage_FixRouter :: "PingMessage \<Rightarrow> string \<Rightarrow> string \<Rightarrow> string \<Rightarrow> PingMessage" where
  "PingMessage_FixRouter x rm socketId node = x\<lparr> pingRouter := Some (fixRouter (routerOrNew (pingRouter x)) rm socketId node) \<rparr>"

definition PingMessage_CopyPlain :: "PingMessage \<Rightarrow> PingMessage" where
  "PingMessage_CopyPlain x = \<lparr> pingRouter = Some (Router_CopyPlain (pingRouter x)), pingMsgId = pingMsgId x \<rparr>"

definition PingMessage_ToMap :: "PingMessage \<Rightarrow> anyMap" where
  "PingMessage_ToMap x =
     [(''router'', AMap (Router_ToMap (pingRouter x))),
      (''msgId'', AU32 (pingMsgId x))]"

record PongMessage =
  pongRouter :: "Router option"
  pongMsgId :: "32 word"

definition PongMessage_FixRouter :: "PongMessage \<Rightarrow> string \<Rightarrow> string \<Rightarrow> string \<Rightarrow> PongMessage" where
  "PongMessage_FixRouter x rm socketId node = x\<lparr> pongRouter := Some (fixRouter (routerOrNew (pongRouter x)) rm socketId node) \<rparr>"

definition PongMessage_CopyPlain :: "PongMessage \<Rightarrow> PongMessage" where
  "PongMessage_CopyPlain x = \<lparr> pongRouter = Some (Router_CopyPlain (pongRouter x)), pongMsgId = pongMsgId x \<rparr>"

definition PongMessage_ToMap :: "PongMessage \<Rightarrow> anyMap" where
  "PongMessage_ToMap x =
     [(''router'', AMap (Router_ToMap (pongRouter x))),
      (''msgId'', AU32 (pongMsgId x))]"

record CustomMessage =
  cmRouter :: "Router option"
  cmContent :: "string"
  cmMsgId :: "32 word"
  cmAck :: "bool"

definition CustomMessage_FixRouter :: "CustomMessage \<Rightarrow> string \<Rightarrow> string \<Rightarrow> string \<Rightarrow> CustomMessage" where
  "CustomMessage_FixRouter x rm socketId node = x\<lparr> cmRouter := Some (fixRouter (routerOrNew (cmRouter x)) rm socketId node) \<rparr>"

definition CustomMessage_CopyPlain :: "CustomMessage \<Rightarrow> CustomMessage" where
  "CustomMessage_CopyPlain x = \<lparr> cmRouter = Some (Router_CopyPlain (cmRouter x)), cmContent = cmContent x, cmMsgId = cmMsgId x, cmAck = cmAck x \<rparr>"

definition CustomMessage_ToMap :: "CustomMessage \<Rightarrow> anyMap" where
  "CustomMessage_ToMap x =
     [(''router'', AMap (Router_ToMap (cmRouter x))),
      (''content'', AStr (cmContent x)),
      (''msgId'', AU32 (cmMsgId x)),
      (''ack'', ABool (cmAck x))]"

record CustomAckMessage =
  caRouter :: "Router option"
  caMsgId :: "32 word"
  caContent :: "string"
  caErr :: "bool"

definition CustomAckMessage_FixRouter :: "CustomAckMessage \<Rightarrow> string \<Rightarrow> string \<Rightarrow> string \<Rightarrow> CustomAckMessage" where
  "CustomAckMessage_FixRouter x rm socketId node = x\<lparr> caRouter := Some (fixRouter (routerOrNew (caRouter x)) rm socketId node) \<rparr>"

definition CustomAckMessage_CopyPlain :: "CustomAckMessage \<Rightarrow> CustomAckMessage" where
  "CustomAckMessage_CopyPlain x = \<lparr> caRouter = Some (Router_CopyPlain (caRouter x)), caMsgId = caMsgId x, caContent = caContent x, caErr = caErr x \<rparr>"

definition CustomAckMessage_ToMap :: "CustomAckMessage \<Rightarrow> anyMap" where
  "CustomAckMessage_ToMap x =
     [(''router'', AMap (Router_ToMap (caRouter x))),
      (''msgId'', AU32 (caMsgId x)),
      (''content'', AStr (caContent x)),
      (''err'', ABool (caErr x))]"

record CustomClusterMessage =
  ccEvt :: string
  ccMsg :: "CustomMessage option"

definition newCustomMessage :: CustomMessage where
  "newCustomMessage = \<lparr> cmRouter = Some newRouter, cmContent = '''', cmMsgId = 0, cmAck = False \<rparr>"

definition CustomClusterMessage_GetRouter :: "CustomClusterMessage \<Rightarrow> Router option" where
  "CustomClusterMessage_GetRouter x = (case ccMsg x of None \<Rightarrow> None | Some m \<Rightarrow> cmRouter m)"

definition CustomClusterMessage_FixRouter :: "CustomClusterMessage \<Rightarrow> string \<Rightarrow> string \<Rightarrow> string \<Rightarrow> CustomClusterMessage" where
  "CustomClusterMessage_FixRouter x rm socketId node =
     (let m = (case ccMsg x of None \<Rightarrow> newCustomMessage | Some m \<Rightarrow> m)
      in x\<lparr> ccMsg := Some (m\<lparr> cmRouter := Some (fixRouter (routerOrNew (cmRouter m)) rm socketId node) \<rparr>) \<rparr>)"

text \<open>\<open>x.GetMsg().CopyPlain()\<close> on a nil message copies the zero values of the getters.\<close>

definition CustomClusterMessage_CopyPlain :: "CustomClusterMessage \<Rightarrow> CustomClusterMessage" where
  "CustomClusterMessage_CopyPlain x =
     \<lparr> ccEvt = ccEvt x,
       ccMsg = Some (case ccMsg x of None \<Rightarrow> newCustomMessage | Some m \<Rightarrow> CustomMessage_CopyPlain m) \<rparr>"

definition CustomClusterMessage_ToMap :: "CustomClusterMessage \<Rightarrow> anyMap" where
  "CustomClusterMessage_ToMap x =
     [(''evt'', AStr (ccEvt x)),
      (''msg'', AMap (case ccMsg x of None \<Rightarrow> [] | Some m \<Rightarrow> CustomMessage_ToMap m))]"

text \<open>The values of the interface \<open>RoomMessage\<close>.\<close>

datatype RoomMessage =
    MWant WantMessage | MState StateMessage | MSelect SelectMessage
  | MWantParticipant WantParticipantMessage | MStateParticipant StateParticipantMessage
  | MStateLeave StateLeaveMessage | MPing PingMessage | MPong PongMessage
  | MCustom CustomMessage | MCustomCluster CustomClusterMessage | MCustomAck CustomAckMessage

fun GetRouter :: "RoomMessage \<Rightarrow> Router option" where
  "GetRouter (MWant m) = wmRouter m"
| "GetRouter (MState m) = smRouter m"
| "GetRouter (MSelect m) = selRouter m"
| "GetRouter (MWantParticipant m) = wpRouter m"
| "GetRouter (MStateParticipant m) = spRouter m"
| "GetRouter (MStateLeave m) = slRouter m"
| "GetRouter (MPing m) = pingRouter m"
| "GetRouter (MPong m) = pongRouter m"
| "GetRouter (MCustom m) = cmRouter m"
| "GetRouter (MCustomCluster m) = CustomClusterMessage_GetRouter m"
| "GetRouter (MCustomAck m) = caRouter m"

definition GetRoom :: "RoomMessage \<Rightarrow> string" where
  "GetRoom msg = (case GetRouter msg of Some r \<Rightarrow> room r | None \<Rightarrow> '''')"

fun FixRouter :: "RoomMessage \<Rightarrow> string \<Rightarrow> string \<Rightarrow> string \<Rightarrow> RoomMessage" where
  "FixRouter (MWant m) rm s n = MWant (WantMessage_FixRouter m rm s n)"
| "FixRouter (MState m) rm s n = MState (StateMessage_FixRouter m rm s n)"
| "FixRouter (MSelect m) rm s n = MSelect (SelectMessage_FixRouter m rm s n)"
| "FixRouter (MWantParticipant m) rm s n = MWantParticipant (WantParticipantMessage_FixRouter m rm s n)"
| "FixRouter (MStateParticipant m) rm s n = MStateParticipant (StateParticipantMessage_FixRouter m rm s n)"
| "FixRouter (MStateLeave m) rm s n = MStateLeave (StateLeaveMessage_FixRouter m rm s n)"
| "FixRouter (MPing m) rm s n = MPing (PingMessage_FixRouter m rm s n)"
| "FixRouter (MPong m) rm s n = MPong (PongMessage_FixRouter m rm s n)"
| "FixRouter (MCustom m) rm s n = MCustom (CustomMessage_FixRouter m rm s n)"
| "FixRouter (MCustomCluster m) rm s n = MCustomCluster (CustomClusterMessage_FixRouter m rm s n)"
| "FixRouter (MCustomAck m) rm s n = MCustomAck (CustomAckMessage_FixRouter m rm s n)"

fun CopyPlain :: "RoomMessage \<Rightarrow> RoomMessage" where
  "CopyPlain (MWant m) = MWant (WantMessage_CopyPlain m)"
| "CopyPlain (MState m) = MState (StateMessage_CopyPlain m)"
| "CopyPlain (MSelect m) = MSelect (SelectMessage_CopyPlain m)"
| "CopyPlain (MWantParticipant m) = MWantParticipant (WantParticipantMessage_CopyPlain m)"
| "CopyPlain (MStateParticipant m) = MStateParticipant (StateParticipantMessage_CopyPlain m)"
| "CopyPlain (MStateLeave m) = MStateLeave (StateLeaveMessage_CopyPlain m)"
| "CopyPlain (MPing m) = MPing (PingMessage_CopyPlain m)"
| "CopyPlain (MPong m) = MPong (PongMessage_CopyPlain m)"
| "CopyPlain (MCustom m) = MCustom (CustomMessage_CopyPlain m)"
| "CopyPlain (MCustomCluster m) = MCustomCluster (CustomClusterMessage_CopyPlain m)"
| "CopyPlain (MCustomAck m) = MCustomAck (CustomAckMessage_CopyPlain m)"

text \<open>The type assertion to \<open>CanToMap\<close>: \<open>None\<close> for the messages without a \<open>ToMap\<close> method.\<close>

fun ToMap :: "RoomMessage \<Rightarrow> anyMap option" where
  "ToMap (MStateParticipant m) = Some (StateParticipantMessage_ToMap m)"
| "ToMap (MStateLeave m) = Some (StateLeaveMessage_ToMap m)"
| "ToMap (MPing m) = Some (PingMessage_ToMap m)"
| "ToMap (MPong m) = Some (PongMessage_ToMap m)"
| "ToMap (MCustom m) = Some (CustomMessage_ToMap m)"
| "ToMap (MCustomCluster m) = Some (CustomClusterMessage_ToMap m)"
| "ToMap (MCustomAck m) = Some (CustomAckMessage_ToMap m)"
| "ToMap _ = None"

text \<open>\<open>msg.GetRouter().NodeFrom = s\<close> and \<open>msg.GetRouter().NodeTo = s\<close> write through the pointer.\<close>

fun mapRouter :: "(Router \<Rightarrow> Router) \<Rightarrow> RoomMessage \<Rightarrow> RoomMessage" where
  "mapRouter f (MWant m) = MWant (m\<lparr> wmRouter := map_option f (wmRouter m) \<rparr>)"
| "mapRouter f (MState m) = MState (m\<lparr> smRouter := map_option f (smRouter m) \<rparr>)"
| "mapRouter f (MSelect m) = MSelect (m\<lparr> selRouter := map_option f (selRouter m) \<rparr>)"
| "mapRouter f (MWantParticipant m) = MWantParticipant (m\<lparr> wpRouter := map_option f (wpRouter m) \<rparr>)"
| "mapRouter f (MStateParticipant m) = MStateParticipant (m\<lparr> spRouter := map_option f (spRouter m) \<rparr>)"
| "mapRouter f (MStateLeave m) = MStateLeave (m\<lparr> slRouter := map_option f (slRouter m) \<rparr>)"
| "mapRouter f (MPing m) = MPing (m\<lparr> pingRouter := map_option f (pingRouter m) \<rparr>)"
| "mapRouter f (MPong m) = MPong (m\<lparr> pongRouter := map_option f (pongRouter m) \<rparr>)"
| "mapRouter f (MCustom m) = MCustom (m\<lparr> cmRouter := map_option f (cmRouter m) \<rparr>)"
| "mapRouter f (MCustomCluster m) =
     MCustomCluster (m\<lparr> ccMsg := map_option (\<lambda>c. c\<lparr> cmRouter := map_option f (cmRouter c) \<rparr>) (ccMsg m) \<rparr>)"
| "mapRouter f (MCustomAck m) = MCustomAck (m\<lparr> caRouter := map_option f (caRouter m) \<rparr>)"

datatype ClientMessage = MapMessage anyMap | PlainMessage RoomMessage

definition ToClientMessage :: "RoomMessage \<Rightarrow> ClientMessage" where
  "ToClientMessage message =
     (case ToMap message of
        Some msg_map \<Rightarrow>
          MapMessage
            (case mget msg_map ''router'' of
               Some (AMap router_map) \<Rightarrow>
                 mput ''router'' (AMap (mdel ''nodeTo'' (mdel ''nodeFrom'' router_map))) msg_map
             | _ \<Rightarrow> msg_map)
      | None \<Rightarrow> PlainMessage (mapRouter (\<lambda>r. r\<lparr> nodeFrom := '''', nodeTo := '''' \<rparr>) (CopyPlain message)))"

lemma GetRouter_mapRouter [simp]: "GetRouter (mapRouter f m) = map_option f (GetRouter m)"
  by (cases m) (auto simp: CustomClusterMessage_GetRouter_def split: option.splits)

lemmas message_defs =
  WantMessage_FixRouter_def StateMessage_FixRouter_def SelectMessage_FixRouter_def
  WantParticipantMessage_FixRouter_def StateParticipantMessage_FixRouter_def StateLeaveMessage_FixRouter_def
  PingMessage_FixRouter_def PongMessage_FixRouter_def CustomMessage_FixRouter_def
  CustomAckMessage_FixRouter_def CustomClusterMessage_FixRouter_def
  WantMessage_CopyPlain_def StateMessage_CopyPlain_def SelectMessage_CopyPlain_def
  WantParticipantMessage_CopyPlain_def StateParticipantMessage_CopyPlain_def StateLeaveMessage_CopyPlain_def
  PingMessage_CopyPlain_def PongMessage_CopyPlain_def CustomMessage_CopyPlain_def
  CustomAckMessage_CopyPlain_def CustomClusterMessage_CopyPlain_def CustomClusterMessage_GetRouter_def
  newCustomMessage_def

lemmas toMap_defs =
  StateParticipantMessage_ToMap_def StateLeaveMessage_ToMap_def PingMessage_ToMap_def
  PongMessage_ToMap_def CustomMessage_ToMap_def CustomAckMessage_ToMap_def

lemma GetRouter_FixRouter [simp]:
  "GetRouter (FixRouter m rm s n) = Some (fixRouter (routerOrNew (GetRouter m)) rm s n)"
  by (cases m) (auto simp: message_defs routerOrNew_def Let_def split: option.splits)

lemma GetRouter_CopyPlain [simp]: "GetRouter (CopyPlain m) = Some (routerOrNew (GetRouter m))"
  by (cases m) (auto simp: message_defs routerOrNew_def split: option.splits)

lemma CopyPlain_same: "GetRouter m \<noteq> None \<Longrightarrow> CopyPlain m = m"
  by (cases m) (auto simp: message_defs split: option.splits)

section \<open>Requests of the clients\<close>

text \<open>\<open>PublishOp\<close> and \<open>SubscribeOp\<close> are integers on the wire.\<close>

record TrackToPublish =
  tpType :: string
  tpBindId :: string
  tpRid :: string
  tpSid :: string
  tpLabels :: "(string, string) gomap"

record PublishMessage =
  pubOp :: int
  pubMsgId :: string
  pubTracks :: "TrackToPublish list"

definition PublishOp_String :: "int \<Rightarrow> string" where
  "PublishOp_String op = (if op = 0 then ''add'' else if op = 1 then ''remove'' else ''unknown'')"

definition PublishMessage_Validate :: "PublishMessage \<Rightarrow> go_err + unit" where
  "PublishMessage_Validate m =
     (if pubOp m = 0 then
        (if pubMsgId m \<noteq> '''' then Inl (InvalidParam ''the publish message does not need id param when the op is %v'')
         else if pubTracks m = [] then Inl (InvalidParam ''the publish message need at least 1 track when the op is %v'')
         else if list_ex (\<lambda>t. tpBindId t = '''') (pubTracks m)
         then Inl (InvalidParam ''the publish message's track need a valid bind id when the op is %v, the problem track is tracks[%d]'')
         else Inr ())
      else if pubOp m = 1 then
        (if pubMsgId m = '''' then Inl (InvalidParam ''the publish message need id param when the op is %v'')
         else if pubTracks m \<noteq> [] then Inl (InvalidParam ''the publish message does not need tracks param when the op is %v'')
         else Inr ())
      else Inl (InvalidParam ''the publish message has an invalid op %d''))"

record SubscribeMessage =
  subOp :: int
  subMsgId :: string
  subReqTypes :: "string list"
  subPattern :: "PublicationPattern option"
  subRoom :: string

definition SubscribeOp_String :: "int \<Rightarrow> string" where
  "SubscribeOp_String op =
     (if op = 0 then ''add'' else if op = 1 then ''update'' else if op = 2 then ''remove'' else ''unknown'')"

text \<open>\<open>Validate\<close> reads the operator of the pattern first: a nil pattern is a nil dereference.\<close>

definition ValidatePtr :: "PublicationPattern option \<Rightarrow> (go_err + unit) res" where
  "ValidatePtr p = (case p of None \<Rightarrow> Inl NilDeref | Some q \<Rightarrow> Inr (Validate q))"

definition SubscribeMessage_Validate :: "SubscribeMessage \<Rightarrow> (go_err + unit) res" where
  "SubscribeMessage_Validate m =
     (if subOp m = 0 then
        (if subMsgId m \<noteq> '''' then Inr (Inl (InvalidParam ''the subscribe message does not need id param when the op is %v''))
         else ValidatePtr (subPattern m))
      else if subOp m = 1 then
        (if subMsgId m = '''' then Inr (Inl (InvalidParam ''the subscribe message need id param when the op is %v''))
         else ValidatePtr (subPattern m))
      else if subOp m = 2 then
        (if subMsgId m = '''' then Inr (Inl (InvalidParam ''the subscribe message need id param when the op is %v''))
         else Inr (Inr ()))
      else Inr (Inl (InvalidParam ''the subscribe message has an invalid op %d'')))"

section \<open>Properties\<close>

text \<open>whatever router a client puts into a message, the copy that is emitted for it names the
  client's own socket and node as the sender; the room is the client's choice or, when it gives
  none, the room it is emitted to, and the addressees are kept.\<close>

theorem FixRouter_sender:
  "\<exists>r. GetRouter (FixRouter (CopyPlain m) rm socketId node) = Some r \<and>
     socketFrom r = socketId \<and> nodeFrom r = node \<and>
     room r = (if GetRoom m = '''' then rm else GetRoom m) \<and>
     nodeTo r = nodeTo (routerOrNew (GetRouter m)) \<and> socketTo r = socketTo (routerOrNew (GetRouter m))"
  by (cases "GetRouter m") (auto simp: fixRouter_def GetRoom_def routerOrNew_def newRouter_def)

text \<open>every message but the cluster envelope of a custom message reaches the client without the
  names of the nodes, with room and sockets unchanged.\<close>

theorem ToClientMessage_hides_nodes:
  assumes "\<And>c. m \<noteq> MCustomCluster c" "GetRouter m = Some r"
  shows "case ToClientMessage m of
      MapMessage mm \<Rightarrow> (\<exists>rm. mget mm ''router'' = Some (AMap rm) \<and> mget rm ''nodeFrom'' = None \<and> mget rm ''nodeTo'' = None \<and>
        mget rm ''room'' = Some (AStr (room r)) \<and> mget rm ''socketFrom'' = Some (AStr (socketFrom r)) \<and>
        mget rm ''socketTo'' = Some (AStr (socketTo r)))
    | PlainMessage p \<Rightarrow> GetRouter p = Some (r\<lparr> nodeFrom := '''', nodeTo := '''' \<rparr>)"
proof -
  have t: "mget (Router_ToMap (Some r)) ''room'' = Some (AStr (room r))"
    "mget (Router_ToMap (Some r)) ''socketFrom'' = Some (AStr (socketFrom r))"
    "mget (Router_ToMap (Some r)) ''socketTo'' = Some (AStr (socketTo r))"
    by (simp_all add: Router_ToMap_def)
  show ?thesis using assms
    by (cases m) (auto simp: ToClientMessage_def toMap_defs gomap_simps t routerOrNew_def message_defs)
qed

text \<open>an accepted subscribe request to add or update carries a valid pattern, so the evaluation of
  its pattern cannot panic; the request without a pattern is not rejected but dereferences nil.\<close>

theorem SubscribeMessage_Validate_pattern:
  "(SubscribeMessage_Validate m = Inr (Inr ()) \<longleftrightarrow>
      (subOp m = 0 \<and> subMsgId m = '''' \<or> subOp m = 1 \<and> subMsgId m \<noteq> '''') \<and>
        (case subPattern m of None \<Rightarrow> False | Some p \<Rightarrow> Validate p = Inr () \<and> Match p t = Inr (sat p t))
      \<or> subOp m = 2 \<and> subMsgId m \<noteq> '''') \<and>
   SubscribeMessage_Validate \<lparr> subOp = 0, subMsgId = '''', subReqTypes = [], subPattern = None, subRoom = '''' \<rparr> = Inl NilDeref"
  by (auto simp: SubscribeMessage_Validate_def ValidatePtr_def Match_sat split: option.splits)

theorem ToClientMessage_witness:
  "\<exists>rm. mget (case ToClientMessage (MPing \<lparr> pingRouter = Some newRouter, pingMsgId = 7 \<rparr>) of
      MapMessage mm \<Rightarrow> mm | PlainMessage p \<Rightarrow> []) ''router'' = Some (AMap rm) \<and> mget rm ''nodeFrom'' = None"
  using ToClientMessage_hides_nodes [of "MPing \<lparr> pingRouter = Some newRouter, pingMsgId = 7 \<rparr>" newRouter]
  by (auto split: ClientMessage.splits simp: ToClientMessage_def)

end
