(* ===== verification/Messager.thy ===== *)
theory Messager
  imports ClusterConf RoomPattern Messages
begin

text \<open>
  The messager of a node (\<open>signal/messager.go\<close>): callbacks registered by room pattern, one pattern
  map per kind of message, the delivery of a message to them, the handlers of the Kafka topics and
  \<open>Emit\<close>, which delivers on the own node and produces a record for the others; and the parts of
  \<open>signal/kafka.go\<close> it uses. A callback is a value of the type \<open>'f\<close>; an operation that starts
  callbacks returns the list of them, each of which the code runs with the message on its own
  goroutine. Protobuf encoding is a parameter. The mutexes make every operation one step. Where
  \<open>UpdatePatternData\<close> panics on an invalid pattern the patterns before it stay registered in the
  code; the model only returns the panic.
\<close>

section \<open>Kafka client\<close>

text \<open>A client is known by its configuration here; a nil client is \<open>None\<close>.\<close>

record KafkaRecord =
  recKey :: string
  recTopic :: string
  recValue :: "byte list"

definition parseKafkaAddrs :: "string \<Rightarrow> string list" where
  "parseKafkaAddrs addrs =
     SliceMapNew (Split CHR '','' addrs) (\<lambda>addr. if TrimSpace addr = '''' then None else Some (TrimSpace addr))"

definition MakeKafkaTopic :: "KafkaConfigure \<Rightarrow> string \<Rightarrow> string" where
  "MakeKafkaTopic conf topic =
     (let prefix = TrimSpace (kfTopicPrefix conf) in if prefix = '''' then topic else prefix @ topic)"

definition KafkaClient_MakeTopic :: "KafkaConfigure option \<Rightarrow> string \<Rightarrow> string" where
  "KafkaClient_MakeTopic s topic = (case s of None \<Rightarrow> '''' | Some conf \<Rightarrow> MakeKafkaTopic conf topic)"

text \<open>\<open>broker\<close> is the answer of the broker; the records that reach it are returned.\<close>

definition KafkaClient_Produce ::
    "(KafkaRecord \<Rightarrow> go_err + unit) \<Rightarrow> KafkaConfigure option \<Rightarrow> KafkaRecord \<Rightarrow> KafkaRecord list \<times> (go_err + unit)" where
  "KafkaClient_Produce broker s rec =
     (case s of None \<Rightarrow> ([], Inr ()) | Some _ \<Rightarrow> ([rec], broker rec))"

section \<open>State\<close>

record 'f messagerCallbackBox =
  boxId :: string
  boxFun :: 'f

type_synonym 'f FuncBoxes = "(string, 'f messagerCallbackBox) gomap"

record 'f Messager =
  nodeName :: string
  kafka :: "KafkaConfigure option"
  onStateCallbacks :: "'f FuncBoxes PatternMap"
  onWantCallbacks :: "'f FuncBoxes PatternMap"
  onSelectCallbacks :: "'f FuncBoxes PatternMap"
  onWantParticipantCallbacks :: "'f FuncBoxes PatternMap"
  onStateParticipantCallbacks :: "'f FuncBoxes PatternMap"
  onStateLeaveCallbacks :: "'f FuncBoxes PatternMap"
  onPingCallbacks :: "'f FuncBoxes PatternMap"
  onPongCallbacks :: "'f FuncBoxes PatternMap"
  onCustomCallbacks :: "'f FuncBoxes PatternMap"
  onCustomAckCallbacks :: "'f FuncBoxes PatternMap"

definition TOPIC_STATE :: string where
  "TOPIC_STATE = ''cluster_state''"

definition TOPIC_WANT :: string where
  "TOPIC_WANT = ''cluster_want''"

definition TOPIC_SELECT :: string where
  "TOPIC_SELECT = ''cluster_select''"

definition TOPIC_WANT_PARTICIPANT :: string where
  "TOPIC_WANT_PARTICIPANT = ''cluster_want_participant''"

definition TOPIC_STATE_PARTICIPANT :: string where
  "TOPIC_STATE_PARTICIPANT = ''cluster_state_participant''"

definition TOPIC_STATE_LEAVE :: string where
  "TOPIC_STATE_LEAVE = ''cluster_state_leave''"

definition TOPIC_PING :: string where
  "TOPIC_PING = ''cluster_ping''"

definition TOPIC_PONG :: string where
  "TOPIC_PONG = ''cluster_pong''"

definition TOPIC_CUSTOM :: string where
  "TOPIC_CUSTOM = ''cluster_custom''"

definition TOPIC_CUSTOM_ACK :: string where
  "TOPIC_CUSTOM_ACK = ''cluster_custom_ack''"

definition NewMessager :: "string \<Rightarrow> KafkaConfigure option \<Rightarrow> 'f Messager" where
  "NewMessager name k =
     \<lparr> nodeName = name, kafka = k,
       onStateCallbacks = NewPatternMap,
       onWantCallbacks = NewPatternMap,
       onSelectCallbacks = NewPatternMap,
       onWantParticipantCallbacks = NewPatternMap,
       onStateParticipantCallbacks = NewPatternMap,
       onStateLeaveCallbacks = NewPatternMap,
       onPingCallbacks = NewPatternMap,
       onPongCallbacks = NewPatternMap,
       onCustomCallbacks = NewPatternMap,
       onCustomAckCallbacks = NewPatternMap \<rparr>"

section \<open>Registration and delivery\<close>

definition addBox :: "string \<Rightarrow> 'f messagerCallbackBox \<Rightarrow> 'f FuncBoxes option \<Rightarrow> 'f FuncBoxes option" where
  "addBox funId box old = Some (mput funId box (case old of None \<Rightarrow> [] | Some m \<Rightarrow> m))"

definition dropBox :: "string \<Rightarrow> 'f FuncBoxes option \<Rightarrow> 'f FuncBoxes option" where
  "dropBox funId old = (case old of None \<Rightarrow> None | Some m \<Rightarrow> Some (mdel funId m))"

definition onMessage :: "'f FuncBoxes PatternMap \<Rightarrow> string \<Rightarrow> 'f \<Rightarrow> string list \<Rightarrow> 'f FuncBoxes PatternMap res" where
  "onMessage pm funId fn roomPattern =
     (let box = \<lparr> boxId = funId, boxFun = fn \<rparr>
      in fold_res (\<lambda>rp. UpdatePatternData rp (addBox funId box)) roomPattern pm)"

definition offMessage :: "'f FuncBoxes PatternMap \<Rightarrow> string \<Rightarrow> string list \<Rightarrow> 'f FuncBoxes PatternMap res" where
  "offMessage pm funId roomPattern = fold_res (\<lambda>rp. UpdatePatternData rp (dropBox funId)) roomPattern pm"

definition boxFuns :: "'f FuncBoxes list \<Rightarrow> (string, 'f) gomap" where
  "boxFuns boxess = foldl (foldl (\<lambda>bm (key, box). mput key (boxFun box) bm)) [] boxess"

definition consumeMessage :: "'f FuncBoxes PatternMap \<Rightarrow> RoomMessage \<Rightarrow> string \<Rightarrow> 'f list res" where
  "consumeMessage pm msg node =
     (case GetRouter msg of
        None \<Rightarrow> Inr []
      | Some target \<Rightarrow>
          if room target = '''' then Inr []
          else if nodeTo target \<noteq> '''' \<and> nodeTo target \<noteq> node then Inr []
          else bind_res (Collect (room target) pm) (\<lambda>boxess. Inr (MapValues (boxFuns boxess))))"

definition OnState :: "'f Messager \<Rightarrow> string \<Rightarrow> 'f \<Rightarrow> string list \<Rightarrow> 'f Messager res" where
  "OnState m funId fn roomPattern =
     bind_res (onMessage (onStateCallbacks m) funId fn roomPattern) (\<lambda>pm. Inr (m\<lparr> onStateCallbacks := pm \<rparr>))"

definition OffState :: "'f Messager \<Rightarrow> string \<Rightarrow> string list \<Rightarrow> 'f Messager res" where
  "OffState m funId roomPattern =
     bind_res (offMessage (onStateCallbacks m) funId roomPattern) (\<lambda>pm. Inr (m\<lparr> onStateCallbacks := pm \<rparr>))"

definition consumeState :: "'f Messager \<Rightarrow> StateMessage \<Rightarrow> 'f list res" where
  "consumeState m msg = consumeMessage (onStateCallbacks m) (MState msg) (nodeName m)"

definition OnWant :: "'f Messager \<Rightarrow> string \<Rightarrow> 'f \<Rightarrow> string list \<Rightarrow> 'f Messager res" where
  "OnWant m funId fn roomPattern =
     bind_res (onMessage (onWantCallbacks m) funId fn roomPattern) (\<lambda>pm. Inr (m\<lparr> onWantCallbacks := pm \<rparr>))"

definition OffWant :: "'f Messager \<Rightarrow> string \<Rightarrow> string list \<Rightarrow> 'f Messager res" where
  "OffWant m funId roomPattern =
     bind_res (offMessage (onWantCallbacks m) funId roomPattern) (\<lambda>pm. Inr (m\<lparr> onWantCallbacks := pm \<rparr>))"

definition consumeWant :: "'f Messager \<Rightarrow> WantMessage \<Rightarrow> 'f list res" where
  "consumeWant m msg = consumeMessage (onWantCallbacks m) (MWant msg) (nodeName m)"

definition OnSelect :: "'f Messager \<Rightarrow> string \<Rightarrow> 'f \<Rightarrow> string list \<Rightarrow> 'f Messager res" where
  "OnSelect m funId fn roomPattern =
     bind_res (onMessage (onSelectCallbacks m) funId fn roomPattern) (\<lambda>pm. Inr (m\<lparr> onSelectCallbacks := pm \<rparr>))"

definition OffSelect :: "'f Messager \<Rightarrow> string \<Rightarrow> string list \<Rightarrow> 'f Messager res" where
  "OffSelect m funId roomPattern =
     bind_res (offMessage (onSelectCallbacks m) funId roomPattern) (\<lambda>pm. Inr (m\<lparr> onSelectCallbacks := pm \<rparr>))"

definition consumeSelect :: "'f Messager \<Rightarrow> SelectMessage \<Rightarrow> 'f list res" where
  "consumeSelect m msg = consumeMessage (onSelectCallbacks m) (MSelect msg) (nodeName m)"

definition OnWantParticipant :: "'f Messager \<Rightarrow> string \<Rightarrow> 'f \<Rightarrow> string list \<Rightarrow> 'f Messager res" where
  "OnWantParticipant m funId fn roomPattern =
     bind_res (onMessage (onWantParticipantCallbacks m) funId fn roomPattern) (\<lambda>pm. Inr (m\<lparr> onWantParticipantCallbacks := pm \<rparr>))"

definition OffWantParticipant :: "'f Messager \<Rightarrow> string \<Rightarrow> string list \<Rightarrow> 'f Messager res" where
  "OffWantParticipant m funId roomPattern =
     bind_res (offMessage (onWantParticipantCallbacks m) funId roomPattern) (\<lambda>pm. Inr (m\<lparr> onWantParticipantCallbacks := pm \<rparr>))"

definition consumeWantParticipant :: "'f Messager \<Rightarrow> WantParticipantMessage \<Rightarrow> 'f list res" where
  "consumeWantParticipant m msg = consumeMessage (onWantParticipantCallbacks m) (MWantParticipant msg) (nodeName m)"

definition OnStateParticipant :: "'f Messager \<Rightarrow> string \<Rightarrow> 'f \<Rightarrow> string list \<Rightarrow> 'f Messager res" where
  "OnStateParticipant m funId fn roomPattern =
     bind_res (onMessage (onStateParticipantCallbacks m) funId fn roomPattern) (\<lambda>pm. Inr (m\<lparr> onStateParticipantCallbacks := pm \<rparr>))"

definition OffStateParticipant :: "'f Messager \<Rightarrow> string \<Rightarrow> string list \<Rightarrow> 'f Messager res" where
  "OffStateParticipant m funId roomPattern =
     bind_res (offMessage (onStateParticipantCallbacks m) funId roomPattern) (\<lambda>pm. Inr (m\<lparr> onStateParticipantCallbacks := pm \<rparr>))"

definition consumeStateParticipant :: "'f Messager \<Rightarrow> StateParticipantMessage \<Rightarrow> 'f list res" where
  "consumeStateParticipant m msg = consumeMessage (onStateParticipantCallbacks m) (MStateParticipant msg) (nodeName m)"

definition OnStateLeave :: "'f Messager \<Rightarrow> string \<Rightarrow> 'f \<Rightarrow> string list \<Rightarrow> 'f Messager res" where
  "OnStateLeave m funId fn roomPattern =
     bind_res (onMessage (onStateLeaveCallbacks m) funId fn roomPattern) (\<lambda>pm. Inr (m\<lparr> onStateLeaveCallbacks := pm \<rparr>))"

definition OffStateLeave :: "'f Messager \<Rightarrow> string \<Rightarrow> string list \<Rightarrow> 'f Messager res" where
  "OffStateLeave m funId roomPattern =
     bind_res (offMessage (onStateLeaveCallbacks m) funId roomPattern) (\<lambda>pm. Inr (m\<lparr> onStateLeaveCallbacks := pm \<rparr>))"

definition consumeStateLeave :: "'f Messager \<Rightarrow> StateLeaveMessage \<Rightarrow> 'f list res" where
  "consumeStateLeave m msg = consumeMessage (onStateLeaveCallbacks m) (MStateLeave msg) (nodeName m)"

definition OnPing :: "'f Messager \<Rightarrow> string \<Rightarrow> 'f \<Rightarrow> string list \<Rightarrow> 'f Messager res" where
  "OnPing m funId fn roomPattern =
     bind_res (onMessage (onPingCallbacks m) funId fn roomPattern) (\<lambda>pm. Inr (m\<lparr> onPingCallbacks := pm \<rparr>))"

definition OffPing :: "'f Messager \<Rightarrow> string \<Rightarrow> string list \<Rightarrow> 'f Messager res" where
  "OffPing m funId roomPattern =
     bind_res (offMessage (onPingCallbacks m) funId roomPattern) (\<lambda>pm. Inr (m\<lparr> onPingCallbacks := pm \<rparr>))"

definition consumePing :: "'f Messager \<Rightarrow> PingMessage \<Rightarrow> 'f list res" where
  "consumePing m msg = consumeMessage (onPingCallbacks m) (MPing msg) (nodeName m)"

definition OnPong :: "'f Messager \<Rightarrow> string \<Rightarrow> 'f \<Rightarrow> string list \<Rightarrow> 'f Messager res" where
  "OnPong m funId fn roomPattern =
     bind_res (onMessage (onPongCallbacks m) funId fn roomPattern) (\<lambda>pm. Inr (m\<lparr> onPongCallbacks := pm \<rparr>))"

definition OffPong :: "'f Messager \<Rightarrow> string \<Rightarrow> string list \<Rightarrow> 'f Messager res" where
  "OffPong m funId roomPattern =
     bind_res (offMessage (onPongCallbacks m) funId roomPattern) (\<lambda>pm. Inr (m\<lparr> onPongCallbacks := pm \<rparr>))"

definition consumePong :: "'f Messager \<Rightarrow> PongMessage \<Rightarrow> 'f list res" where
  "consumePong m msg = consumeMessage (onPongCallbacks m) (MPong msg) (nodeName m)"

definition OnCustom :: "'f Messager \<Rightarrow> string \<Rightarrow> 'f \<Rightarrow> string list \<Rightarrow> 'f Messager res" where
  "OnCustom m funId fn roomPattern =
     bind_res (onMessage (onCustomCallbacks m) funId fn roomPattern) (\<lambda>pm. Inr (m\<lparr> onCustomCallbacks := pm \<rparr>))"

definition OffCustom :: "'f Messager \<Rightarrow> string \<Rightarrow> string list \<Rightarrow> 'f Messager res" where
  "OffCustom m funId roomPattern =
     bind_res (offMessage (onCustomCallbacks m) funId roomPattern) (\<lambda>pm. Inr (m\<lparr> onCustomCallbacks := pm \<rparr>))"

definition consumeCustom :: "'f Messager \<Rightarrow> CustomClusterMessage \<Rightarrow> 'f list res" where
  "consumeCustom m msg = consumeMessage (onCustomCallbacks m) (MCustomCluster msg) (nodeName m)"

definition OnCustomAck :: "'f Messager \<Rightarrow> string \<Rightarrow> 'f \<Rightarrow> string list \<Rightarrow> 'f Messager res" where
  "OnCustomAck m funId fn roomPattern =
     bind_res (onMessage (onCustomAckCallbacks m) funId fn roomPattern) (\<lambda>pm. Inr (m\<lparr> onCustomAckCallbacks := pm \<rparr>))"

definition OffCustomAck :: "'f Messager \<Rightarrow> string \<Rightarrow> string list \<Rightarrow> 'f Messager res" where
  "OffCustomAck m funId roomPattern =
     bind_res (offMessage (onCustomAckCallbacks m) funId roomPattern) (\<lambda>pm. Inr (m\<lparr> onCustomAckCallbacks := pm \<rparr>))"

definition consumeCustomAck :: "'f Messager \<Rightarrow> CustomAckMessage \<Rightarrow> 'f list res" where
  "consumeCustomAck m msg = consumeMessage (onCustomAckCallbacks m) (MCustomAck msg) (nodeName m)"

section \<open>Topics\<close>

text \<open>
  \<open>gproto.Unmarshal\<close> for each message type, \<open>None\<close> where it fails. The handlers log a missing router
  and then read its \<open>NodeFrom\<close> all the same.
\<close>

record Codec =
  unmState :: "byte list \<Rightarrow> StateMessage option"
  unmWant :: "byte list \<Rightarrow> WantMessage option"
  unmSelect :: "byte list \<Rightarrow> SelectMessage option"
  unmWantParticipant :: "byte list \<Rightarrow> WantParticipantMessage option"
  unmStateParticipant :: "byte list \<Rightarrow> StateParticipantMessage option"
  unmStateLeave :: "byte list \<Rightarrow> StateLeaveMessage option"
  unmPing :: "byte list \<Rightarrow> PingMessage option"
  unmPong :: "byte list \<Rightarrow> PongMessage option"
  unmCustom :: "byte list \<Rightarrow> CustomClusterMessage option"
  unmCustomAck :: "byte list \<Rightarrow> CustomAckMessage option"

definition onTopicState :: "Codec \<Rightarrow> 'f Messager \<Rightarrow> byte list \<Rightarrow> 'f list res" where
  "onTopicState cd m val =
     (case unmState cd val of
        None \<Rightarrow> Inr []
      | Some msg \<Rightarrow>
          (case smRouter msg of
             None \<Rightarrow> Inl NilDeref
           | Some r \<Rightarrow> if nodeFrom r \<noteq> nodeName m then consumeState m msg else Inr []))"

definition onTopicWant :: "Codec \<Rightarrow> 'f Messager \<Rightarrow> byte list \<Rightarrow> 'f list res" where
  "onTopicWant cd m val =
     (case unmWant cd val of
        None \<Rightarrow> Inr []
      | Some msg \<Rightarrow>
          (case wmRouter msg of
             None \<Rightarrow> Inl NilDeref
           | Some r \<Rightarrow> if nodeFrom r \<noteq> nodeName m then consumeWant m msg else Inr []))"

definition onTopicSelect :: "Codec \<Rightarrow> 'f Messager \<Rightarrow> byte list \<Rightarrow> 'f list res" where
  "onTopicSelect cd m val =
     (case unmSelect cd val of
        None \<Rightarrow> Inr []
      | Some msg \<Rightarrow>
          (case selRouter msg of
             None \<Rightarrow> Inl NilDeref
           | Some r \<Rightarrow> if nodeFrom r \<noteq> nodeName m then consumeSelect m msg else Inr []))"

definition onTopicWantParticipant :: "Codec \<Rightarrow> 'f Messager \<Rightarrow> byte list \<Rightarrow> 'f list res" where
  "onTopicWantParticipant cd m val =
     (case unmWantParticipant cd val of
        None \<Rightarrow> Inr []
      | Some msg \<Rightarrow>
          (case wpRouter msg of
             None \<Rightarrow> Inl NilDeref
           | Some r \<Rightarrow> if nodeFrom r \<noteq> nodeName m then consumeWantParticipant m msg else Inr []))"

definition onTopicStateParticipant :: "Codec \<Rightarrow> 'f Messager \<Rightarrow> byte list \<Rightarrow> 'f list res" where
  "onTopicStateParticipant cd m val =
     (case unmStateParticipant cd val of
        None \<Rightarrow> Inr []
      | Some msg \<Rightarrow>
          (case spRouter msg of
             None \<Rightarrow> Inl NilDeref
           | Some r \<Rightarrow> if nodeFrom r \<noteq> nodeName m then consumeStateParticipant m msg else Inr []))"

definition onTopicStateLeave :: "Codec \<Rightarrow> 'f Messager \<Rightarrow> byte list \<Rightarrow> 'f list res" where
  "onTopicStateLeave cd m val =
     (case unmStateLeave cd val of
        None \<Rightarrow> Inr []
      | Some msg \<Rightarrow>
          (case slRouter msg of
             None \<Rightarrow> Inl NilDeref
           | Some r \<Rightarrow> if nodeFrom r \<noteq> nodeName m then consumeStateLeave m msg else Inr []))"

definition onTopicPing :: "Codec \<Rightarrow> 'f Messager \<Rightarrow> byte list \<Rightarrow> 'f list res" where
  "onTopicPing cd m val =
     (case unmPing cd val of
        None \<Rightarrow> Inr []
      | Some msg \<Rightarrow>
          (case pingRouter msg of
             None \<Rightarrow> Inl NilDeref
           | Some r \<Rightarrow> if nodeFrom r \<noteq> nodeName m then consumePing m msg else Inr []))"

definition onTopicPong :: "Codec \<Rightarrow> 'f Messager \<Rightarrow> byte list \<Rightarrow> 'f list res" where
  "onTopicPong cd m val =
     (case unmPong cd val of
        None \<Rightarrow> Inr []
      | Some msg \<Rightarrow>
          (case pongRouter msg of
             None \<Rightarrow> Inl NilDeref
           | Some r \<Rightarrow> if nodeFrom r \<noteq> nodeName m then consumePong m msg else Inr []))"

definition onTopicCustom :: "Codec \<Rightarrow> 'f Messager \<Rightarrow> byte list \<Rightarrow> 'f list res" where
  "onTopicCustom cd m val =
     (case unmCustom cd val of
        None \<Rightarrow> Inr []
      | Some msg \<Rightarrow>
          (case CustomClusterMessage_GetRouter msg of
             None \<Rightarrow> Inl NilDeref
           | Some r \<Rightarrow> if nodeFrom r \<noteq> nodeName m then consumeCustom m msg else Inr []))"

definition onTopicCustomAck :: "Codec \<Rightarrow> 'f Messager \<Rightarrow> byte list \<Rightarrow> 'f list res" where
  "onTopicCustomAck cd m val =
     (case unmCustomAck cd val of
        None \<Rightarrow> Inr []
      | Some msg \<Rightarrow>
          (case caRouter msg of
             None \<Rightarrow> Inl NilDeref
           | Some r \<Rightarrow> if nodeFrom r \<noteq> nodeName m then consumeCustomAck m msg else Inr []))"

text \<open>The map of workers that \<open>NewMessager\<close> gives to the Kafka client.\<close>

definition workers :: "Codec \<Rightarrow> KafkaConfigure \<Rightarrow> (string, 'f Messager \<Rightarrow> byte list \<Rightarrow> 'f list res) gomap" where
  "workers cd conf =
     [(MakeKafkaTopic conf TOPIC_STATE, onTopicState cd),
      (MakeKafkaTopic conf TOPIC_WANT, onTopicWant cd),
      (MakeKafkaTopic conf TOPIC_SELECT, onTopicSelect cd),
      (MakeKafkaTopic conf TOPIC_WANT_PARTICIPANT, onTopicWantParticipant cd),
      (MakeKafkaTopic conf TOPIC_STATE_PARTICIPANT, onTopicStateParticipant cd),
      (MakeKafkaTopic conf TOPIC_STATE_LEAVE, onTopicStateLeave cd),
      (MakeKafkaTopic conf TOPIC_PING, onTopicPing cd),
      (MakeKafkaTopic conf TOPIC_PONG, onTopicPong cd),
      (MakeKafkaTopic conf TOPIC_CUSTOM, onTopicCustom cd),
      (MakeKafkaTopic conf TOPIC_CUSTOM_ACK, onTopicCustomAck cd)]"

fun topicOf :: "RoomMessage \<Rightarrow> string option" where
  "topicOf (MState _) = Some TOPIC_STATE"
| "topicOf (MWant _) = Some TOPIC_WANT"
| "topicOf (MSelect _) = Some TOPIC_SELECT"
| "topicOf (MWantParticipant _) = Some TOPIC_WANT_PARTICIPANT"
| "topicOf (MStateParticipant _) = Some TOPIC_STATE_PARTICIPANT"
| "topicOf (MStateLeave _) = Some TOPIC_STATE_LEAVE"
| "topicOf (MPing _) = Some TOPIC_PING"
| "topicOf (MPong _) = Some TOPIC_PONG"
| "topicOf (MCustomCluster _) = Some TOPIC_CUSTOM"
| "topicOf (MCustomAck _) = Some TOPIC_CUSTOM_ACK"
| "topicOf (MCustom _) = None"

fun consumeTyped :: "'f Messager \<Rightarrow> RoomMessage \<Rightarrow> 'f list res" where
  "consumeTyped m (MState msg) = consumeState m msg"
| "consumeTyped m (MWant msg) = consumeWant m msg"
| "consumeTyped m (MSelect msg) = consumeSelect m msg"
| "consumeTyped m (MWantParticipant msg) = consumeWantParticipant m msg"
| "consumeTyped m (MStateParticipant msg) = consumeStateParticipant m msg"
| "consumeTyped m (MStateLeave msg) = consumeStateLeave m msg"
| "consumeTyped m (MPing msg) = consumePing m msg"
| "consumeTyped m (MPong msg) = consumePong m msg"
| "consumeTyped m (MCustomCluster msg) = consumeCustom m msg"
| "consumeTyped m (MCustomAck msg) = consumeCustomAck m msg"
| "consumeTyped m (MCustom _) = Inr []"

text \<open>
  The type switch of \<open>Emit\<close> is \<open>topicOf\<close> and \<open>consumeTyped\<close>; a plain \<open>CustomMessage\<close> is its default
  case. The result holds the message after \<open>Emit\<close> has written its \<open>NodeFrom\<close>, the callbacks started
  on the own node, the records handed to Kafka, and the returned error.
\<close>

definition Emit :: "(RoomMessage \<Rightarrow> byte list option) \<Rightarrow> (KafkaRecord \<Rightarrow> go_err + unit) \<Rightarrow> 'f Messager \<Rightarrow> RoomMessage
    \<Rightarrow> (RoomMessage \<times> 'f list \<times> KafkaRecord list \<times> (go_err + unit)) res" where
  "Emit marshal broker m msg =
     (case GetRouter msg of
        None \<Rightarrow> Inr (msg, [], [], Inl (InvalidMessage ''invalid room message, router is nil or router without room''))
      | Some target \<Rightarrow>
          if room target = ''''
          then Inr (msg, [], [], Inl (InvalidMessage ''invalid room message, router is nil or router without room''))
          else if nodeFrom target \<noteq> '''' \<and> nodeFrom target \<noteq> nodeName m
          then Inr (msg, [], [], Inl (InvalidMessage ''invalid room message, nodeFrom %s different from current node %s''))
          else
            (let msg' = (if nodeFrom target = '''' then mapRouter (\<lambda>r. r\<lparr> nodeFrom := nodeName m \<rparr>) msg else msg)
             in case topicOf msg' of
                  None \<Rightarrow> Inr (msg', [], [], Inl (InvalidMessage ''invalid room message, unknown message type %v''))
                | Some t \<Rightarrow>
                    bind_res (consumeTyped m msg') (\<lambda>funs.
                      case marshal msg' of
                        None \<Rightarrow> Inr (msg', funs, [], Inl (InvalidMessage ''unable to marshal room message, %v''))
                      | Some data \<Rightarrow>
                          (case KafkaClient_Produce broker (kafka m)
                                  \<lparr> recKey = room target, recTopic = KafkaClient_MakeTopic (kafka m) t, recValue = data \<rparr>
                           of (sent, r) \<Rightarrow> Inr (msg', funs, sent, r)))))"

section \<open>Who is registered\<close>

definition registered :: "'f FuncBoxes PatternMap \<Rightarrow> (string \<times> string) set" where
  "registered pm = {(k, p). \<exists>m. stored pm p = Some m \<and> k \<in> dom (mget m)}"

text \<open>Every id stands for one callback \<open>F k\<close>, whatever the patterns it is registered with.\<close>

definition cb_ok :: "(string \<Rightarrow> 'f) \<Rightarrow> 'f FuncBoxes PatternMap \<Rightarrow> bool" where
  "cb_ok F pm \<longleftrightarrow> pm_wf pm \<and>
     (\<forall>p m. stored pm p = Some m \<longrightarrow> mwf m \<and> (\<forall>k box. mget m k = Some box \<longrightarrow> boxFun box = F k))"

lemma mput_idem: "mput k v (mput k v m) = mput k v m"
  by (induction m) auto

lemma addBox_idem: "addBox k b (addBox k b x) = addBox k b x"
  by (simp add: addBox_def mput_idem)

lemma dropBox_idem: "dropBox k (dropBox k x) = dropBox k x"
  by (auto simp: dropBox_def delete_idem split: option.splits)

lemma onMessage_registered:
  assumes "cb_ok F pm" "list_all (\<lambda>p. CheckPattern p = Inr ()) ps" "fn = F k"
  shows "\<exists>pm'. onMessage pm k fn ps = Inr pm' \<and> cb_ok F pm' \<and>
           registered pm' = registered pm \<union> {(k, p) |p. p \<in> set ps}"
proof -
  let ?b = "\<lparr> boxId = k, boxFun = fn \<rparr>"
  have wf: "pm_wf pm" using assms(1) by (simp add: cb_ok_def)
  obtain pm' where pm': "onMessage pm k fn ps = Inr pm'" "pm_wf pm'"
      "\<And>q. stored pm' q = (if q \<in> set ps then addBox k ?b (stored pm q) else stored pm q)"
    using pm.upd_all [of "addBox k ?b", OF addBox_idem wf assms(2)] by (auto simp: onMessage_def)
  have "cb_ok F pm'"
    using assms(1,3) pm'(2) by (auto simp: cb_ok_def pm'(3) addBox_def gomap_simps split: if_splits option.splits)
  moreover have "registered pm' = registered pm \<union> {(k, p) |p. p \<in> set ps}"
    by (fastforce simp: registered_def pm'(3) addBox_def gomap_simps split: if_splits option.splits)
  ultimately show ?thesis using pm'(1) by blast
qed

lemma offMessage_registered:
  assumes "cb_ok F pm" "list_all (\<lambda>p. CheckPattern p = Inr ()) ps"
  shows "\<exists>pm'. offMessage pm k ps = Inr pm' \<and> cb_ok F pm' \<and>
           registered pm' = registered pm - {(k, p) |p. p \<in> set ps}"
proof -
  have wf: "pm_wf pm" using assms(1) by (simp add: cb_ok_def)
  obtain pm' where pm': "offMessage pm k ps = Inr pm'" "pm_wf pm'"
      "\<And>q. stored pm' q = (if q \<in> set ps then dropBox k (stored pm q) else stored pm q)"
    using pm.upd_all [of "dropBox k", OF dropBox_idem wf assms(2)] by (auto simp: offMessage_def)
  have "cb_ok F pm'"
    using assms(1) pm'(2) by (auto simp: cb_ok_def pm'(3) dropBox_def gomap_simps split: if_splits option.splits)
  moreover have "registered pm' = registered pm - {(k, p) |p. p \<in> set ps}"
    by (fastforce simp: registered_def pm'(3) dropBox_def gomap_simps split: if_splits option.splits)
  ultimately show ?thesis using pm'(1) by blast
qed

section \<open>Who is called\<close>

definition holds_funs :: "(string \<Rightarrow> 'f) \<Rightarrow> string set \<Rightarrow> (string, 'f) gomap \<Rightarrow> bool" where
  "holds_funs F S bm \<longleftrightarrow> mwf bm \<and> (\<forall>k. mget bm k = (if k \<in> S then Some (F k) else None))"

lemma holds_funs_boxes:
  "holds_funs F S bm \<Longrightarrow> \<forall>(k, box) \<in> set boxes. boxFun box = F k \<Longrightarrow>
   holds_funs F (S \<union> fst ` set boxes) (foldl (\<lambda>bm (key, box). mput key (boxFun box) bm) bm boxes)"
proof (induction boxes arbitrary: bm S)
  case Nil
  then show ?case by simp
next
  case (Cons e boxes)
  obtain k box where e: "e = (k, box)" by (cases e)
  have "holds_funs F (insert k S) (mput k (boxFun box) bm)"
    using Cons.prems e by (auto simp: holds_funs_def gomap_simps)
  from Cons.IH [OF this] Cons.prems(2) e show ?case by simp
qed

lemma holds_funs_all:
  "holds_funs F S bm \<Longrightarrow> \<forall>m \<in> set boxess. \<forall>(k, box) \<in> set m. boxFun box = F k \<Longrightarrow>
   holds_funs F (S \<union> (\<Union>m \<in> set boxess. fst ` set m)) (foldl (foldl (\<lambda>bm (key, box). mput key (boxFun box) bm)) bm boxess)"
proof (induction boxess arbitrary: bm S)
  case Nil
  then show ?case by simp
next
  case (Cons m boxess)
  then have "holds_funs F (S \<union> fst ` set m) (foldl (\<lambda>bm (key, box). mput key (boxFun box) bm) bm m)"
    by (intro holds_funs_boxes) auto
  from Cons.IH [OF this] Cons.prems(2) show ?case by (simp add: Un_assoc)
qed

lemma holds_funs_values:
  assumes "holds_funs F S bm"
  shows "mset (MapValues bm) = image_mset F (mset_set S)"
proof -
  have "set (map fst bm) = S"
    using assms by (auto simp: holds_funs_def dom_map_of_conv_image_fst [symmetric] split: if_splits)
  moreover have "distinct (map fst bm)" using assms by (simp add: holds_funs_def mwf_def)
  ultimately have m: "mset (map fst bm) = mset_set S" by (metis mset_set_set)
  have "snd e = F (fst e)" if "e \<in> set bm" for e
  proof -
    have "mget bm (fst e) = Some (snd e)" using that \<open>distinct (map fst bm)\<close> by simp
    then show ?thesis using assms by (auto simp: holds_funs_def split: if_splits)
  qed
  then have "map snd bm = map (F \<circ> fst) bm" by simp
  then have "mset (MapValues bm) = image_mset F (mset (map fst bm))"
    unfolding MapValues_def by (metis mset_map map_map)
  with m show ?thesis by simp
qed

lemma consumeMessage_registered:
  assumes "cb_ok F pm" "GetRouter msg = Some r" "CheckRoom (room r) = Inr ()" "nodeTo r = '''' \<or> nodeTo r = node"
  shows "\<exists>fs. consumeMessage pm msg node = Inr fs \<and>
    mset fs = image_mset F (mset_set {k. \<exists>p. (k, p) \<in> registered pm \<and> MatchRoom p (room r) = Inr True})"
proof -
  have wf: "pm_wf pm" using assms(1) by (simp add: cb_ok_def)
  obtain vs where vs: "Collect (room r) pm = Inr vs"
      "set vs = {v. \<exists>p. CheckPattern p = Inr () \<and> stored pm p = Some v \<and> patternMatches p (room r)}"
    using Collect_stored [OF wf assms(3)] by blast
  have ok: "mwf m" "\<And>k box. mget m k = Some box \<Longrightarrow> boxFun box = F k" if "m \<in> set vs" for m
    using that assms(1) vs(2) by (auto simp: cb_ok_def)
  have "\<forall>m \<in> set vs. \<forall>(k, box) \<in> set m. boxFun box = F k"
    using ok by (auto simp: mwf_def)
  then have h: "holds_funs F (\<Union>m \<in> set vs. fst ` set m) (boxFuns vs)"
    unfolding boxFuns_def using holds_funs_all [of F "{}" "[]" vs] by (simp add: holds_funs_def)
  have mt: "MatchRoom p (room r) = Inr True \<longleftrightarrow> CheckPattern p = Inr () \<and> patternMatches p (room r)" for p
    by (cases "CheckPattern p") (auto simp: MatchRoom_patternMatches assms(3))
  have "(\<Union>m \<in> set vs. fst ` set m) = {k. \<exists>p. (k, p) \<in> registered pm \<and> MatchRoom p (room r) = Inr True}"
    by (auto simp: vs(2) registered_def mt dom_map_of_conv_image_fst)
  moreover have "room r \<noteq> ''''" using assms(3) by (auto simp: CheckRoom_def)
  ultimately show ?thesis
    using holds_funs_values [OF h] vs(1) assms(2,4) by (auto simp: consumeMessage_def)
qed

section \<open>Histories of registrations\<close>

datatype 'f RegOp = RegOn string 'f "string list" | RegOff string "string list"

fun runOp :: "'f RegOp \<Rightarrow> 'f FuncBoxes PatternMap \<Rightarrow> 'f FuncBoxes PatternMap res" where
  "runOp (RegOn k fn ps) pm = onMessage pm k fn ps"
| "runOp (RegOff k ps) pm = offMessage pm k ps"

text \<open>The abstract registry: a set of pairs of an id and a pattern.\<close>

fun regsOp :: "'f RegOp \<Rightarrow> (string \<times> string) set \<Rightarrow> (string \<times> string) set" where
  "regsOp (RegOn k fn ps) R = R \<union> {(k, p) |p. p \<in> set ps}"
| "regsOp (RegOff k ps) R = R - {(k, p) |p. p \<in> set ps}"

fun op_ok :: "(string \<Rightarrow> 'f) \<Rightarrow> 'f RegOp \<Rightarrow> bool" where
  "op_ok F (RegOn k fn ps) = (fn = F k \<and> list_all (\<lambda>p. CheckPattern p = Inr ()) ps)"
| "op_ok F (RegOff k ps) = list_all (\<lambda>p. CheckPattern p = Inr ()) ps"

lemma runOp_refines:
  "cb_ok F pm \<Longrightarrow> op_ok F c \<Longrightarrow>
   \<exists>pm'. runOp c pm = Inr pm' \<and> cb_ok F pm' \<and> registered pm' = regsOp c (registered pm)"
  by (cases c) (auto intro: onMessage_registered offMessage_registered)

lemma runOps_refine:
  "cb_ok F pm \<Longrightarrow> list_all (op_ok F) ops \<Longrightarrow>
   \<exists>pm'. fold_res runOp ops pm = Inr pm' \<and> cb_ok F pm' \<and> registered pm' = fold regsOp ops (registered pm)"
proof (induction ops arbitrary: pm)
  case Nil
  then show ?case by simp
next
  case (Cons c ops)
  then obtain pm1 where "runOp c pm = Inr pm1" "cb_ok F pm1" "registered pm1 = regsOp c (registered pm)"
    using runOp_refines [of F pm c] by auto
  then show ?case using Cons.IH [of pm1] Cons.prems by auto
qed

lemma cb_ok_New: "cb_ok F (NewPatternMap :: 'f FuncBoxes PatternMap)" "registered (NewPatternMap :: 'f FuncBoxes PatternMap) = {}"
  by (auto simp: cb_ok_def registered_def)

section \<open>Emission and the topics\<close>

text \<open>What a receiver reads from the bytes of a message.\<close>

fun decodes :: "Codec \<Rightarrow> byte list \<Rightarrow> RoomMessage \<Rightarrow> bool" where
  "decodes cd val (MState x) = (unmState cd val = Some x)"
| "decodes cd val (MWant x) = (unmWant cd val = Some x)"
| "decodes cd val (MSelect x) = (unmSelect cd val = Some x)"
| "decodes cd val (MWantParticipant x) = (unmWantParticipant cd val = Some x)"
| "decodes cd val (MStateParticipant x) = (unmStateParticipant cd val = Some x)"
| "decodes cd val (MStateLeave x) = (unmStateLeave cd val = Some x)"
| "decodes cd val (MPing x) = (unmPing cd val = Some x)"
| "decodes cd val (MPong x) = (unmPong cd val = Some x)"
| "decodes cd val (MCustomCluster x) = (unmCustom cd val = Some x)"
| "decodes cd val (MCustomAck x) = (unmCustomAck cd val = Some x)"
| "decodes cd val (MCustom x) = False"

lemmas topic_defs = TOPIC_STATE_def TOPIC_WANT_def TOPIC_SELECT_def TOPIC_WANT_PARTICIPANT_def
  TOPIC_STATE_PARTICIPANT_def TOPIC_STATE_LEAVE_def TOPIC_PING_def TOPIC_PONG_def TOPIC_CUSTOM_def TOPIC_CUSTOM_ACK_def

lemmas onTopic_defs = onTopicState_def onTopicWant_def onTopicSelect_def onTopicWantParticipant_def
  onTopicStateParticipant_def onTopicStateLeave_def onTopicPing_def onTopicPong_def onTopicCustom_def onTopicCustomAck_def

lemma MakeKafkaTopic_inject: "MakeKafkaTopic conf t = MakeKafkaTopic conf t' \<longleftrightarrow> t = t'"
  by (simp add: MakeKafkaTopic_def Let_def)

definition receive :: "'f Messager \<Rightarrow> RoomMessage \<Rightarrow> 'f list res" where
  "receive m msg =
     (case GetRouter msg of None \<Rightarrow> Inl NilDeref
      | Some r \<Rightarrow> if nodeFrom r \<noteq> nodeName m then consumeTyped m msg else Inr [])"

lemma topics_distinct:
  "distinct [TOPIC_STATE, TOPIC_WANT, TOPIC_SELECT, TOPIC_WANT_PARTICIPANT, TOPIC_STATE_PARTICIPANT,
     TOPIC_STATE_LEAVE, TOPIC_PING, TOPIC_PONG, TOPIC_CUSTOM, TOPIC_CUSTOM_ACK]"
  by code_simp

lemma workers_distinct: "distinct (map fst (workers cd conf))"
proof -
  have keys: "map fst (workers cd conf) = map (MakeKafkaTopic conf)
      [TOPIC_STATE, TOPIC_WANT, TOPIC_SELECT, TOPIC_WANT_PARTICIPANT, TOPIC_STATE_PARTICIPANT,
       TOPIC_STATE_LEAVE, TOPIC_PING, TOPIC_PONG, TOPIC_CUSTOM, TOPIC_CUSTOM_ACK]"
    by (simp add: workers_def)
  have "inj_on (MakeKafkaTopic conf) A" for A by (simp add: inj_on_def MakeKafkaTopic_inject)
  then show ?thesis unfolding keys distinct_map using topics_distinct by blast
qed

lemma workers_lookup: "(t, w) \<in> set (workers cd conf) \<Longrightarrow> mget (workers cd conf) t = Some w"
  by (simp add: workers_distinct)

fun handlerOf :: "Codec \<Rightarrow> RoomMessage \<Rightarrow> 'f Messager \<Rightarrow> byte list \<Rightarrow> 'f list res" where
  "handlerOf cd (MState _) = onTopicState cd"
| "handlerOf cd (MWant _) = onTopicWant cd"
| "handlerOf cd (MSelect _) = onTopicSelect cd"
| "handlerOf cd (MWantParticipant _) = onTopicWantParticipant cd"
| "handlerOf cd (MStateParticipant _) = onTopicStateParticipant cd"
| "handlerOf cd (MStateLeave _) = onTopicStateLeave cd"
| "handlerOf cd (MPing _) = onTopicPing cd"
| "handlerOf cd (MPong _) = onTopicPong cd"
| "handlerOf cd (MCustomCluster _) = onTopicCustom cd"
| "handlerOf cd (MCustomAck _) = onTopicCustomAck cd"
| "handlerOf cd (MCustom _) = (\<lambda>m val. Inr [])"

lemma handlerOf_worker: "topicOf msg = Some t \<Longrightarrow> (MakeKafkaTopic conf t, handlerOf cd msg) \<in> set (workers cd conf)"
  by (cases msg) (simp_all add: workers_def)

lemma handlerOf_receive: "decodes cd val msg \<Longrightarrow> handlerOf cd msg m val = receive m msg"
  by (cases msg) (simp_all add: onTopic_defs receive_def split: option.splits)

lemma workers_receive:
  assumes "topicOf msg = Some t" "decodes cd val msg"
  shows "map_option (\<lambda>w. w m val) (mget (workers cd conf) (MakeKafkaTopic conf t)) = Some (receive m msg)"
  by (simp add: workers_lookup [OF handlerOf_worker [OF assms(1)]] handlerOf_receive [OF assms(2)])

lemma topicOf_mapRouter [simp]: "topicOf (mapRouter f msg) = topicOf msg"
  by (cases msg) auto

lemma Emit_success:
  assumes "Emit marshal broker m msg = Inr (msg', funs, sent, Inr ())" "kafka m = Some conf"
  shows "\<exists>r t data. GetRouter msg' = Some r \<and> nodeFrom r = nodeName m \<and> topicOf msg' = Some t \<and>
    consumeTyped m msg' = Inr funs \<and> marshal msg' = Some data \<and>
    sent = [\<lparr> recKey = room r, recTopic = MakeKafkaTopic conf t, recValue = data \<rparr>]"
proof -
  obtain target where t: "GetRouter msg = Some target" "room target \<noteq> ''''"
      "nodeFrom target = '''' \<or> nodeFrom target = nodeName m"
    using assms(1) by (auto simp: Emit_def split: option.splits if_splits)
  then have msg': "Emit marshal broker m msg =
     (let msg'' = (if nodeFrom target = '''' then mapRouter (\<lambda>r. r\<lparr> nodeFrom := nodeName m \<rparr>) msg else msg)
      in case topicOf msg'' of
           None \<Rightarrow> Inr (msg'', [], [], Inl (InvalidMessage ''invalid room message, unknown message type %v''))
         | Some t \<Rightarrow> bind_res (consumeTyped m msg'') (\<lambda>funs.
             case marshal msg'' of
               None \<Rightarrow> Inr (msg'', funs, [], Inl (InvalidMessage ''unable to marshal room message, %v''))
             | Some data \<Rightarrow>
                 (case KafkaClient_Produce broker (kafka m)
                    \<lparr> recKey = room target, recTopic = KafkaClient_MakeTopic (kafka m) t, recValue = data \<rparr>
                  of (sent, r) \<Rightarrow> Inr (msg'', funs, sent, r))))"
    by (auto simp: Emit_def)
  show ?thesis
    using assms t unfolding msg'
    by (auto simp: Let_def bind_res_def KafkaClient_Produce_def KafkaClient_MakeTopic_def
             split: option.splits sum.splits if_splits)
qed

section \<open>Properties\<close>

text \<open>C7: after any history of registrations and removals, started from the empty map, a message is
  delivered exactly once to each id that is still registered with some pattern that matches the
  room, however many of its patterns match, and to no other; removals only concern the named
  patterns.\<close>

theorem messager_delivery:
  assumes "list_all (op_ok F) ops" "GetRouter msg = Some r" "CheckRoom (room r) = Inr ()"
    and "nodeTo r = '''' \<or> nodeTo r = node"
  shows "\<exists>pm fs. fold_res runOp ops NewPatternMap = Inr pm \<and> consumeMessage pm msg node = Inr fs \<and>
    mset fs = image_mset F (mset_set {k. \<exists>p. (k, p) \<in> fold regsOp ops {} \<and> MatchRoom p (room r) = Inr True})"
proof -
  obtain pm where pm: "fold_res runOp ops NewPatternMap = Inr pm" "cb_ok F pm" "registered pm = fold regsOp ops {}"
    using runOps_refine [OF cb_ok_New(1) assms(1)] by (auto simp: cb_ok_New(2))
  with consumeMessage_registered [OF pm(2) assms(2-4)] show ?thesis by auto
qed

text \<open>C11: when \<open>Emit\<close> succeeds in a cluster, the message carries the name of the emitting node and one
  record goes to Kafka. The worker of its topic, on a node that decodes the record to the message,
  starts the callbacks there, and on the emitting node itself starts none, so every node delivers
  the message once.\<close>

theorem Emit_once_per_node:
  assumes "Emit marshal broker (m :: 'f Messager) msg = Inr (msg', funs, sent, Inr ())" "kafka m = Some conf"
    and codec: "\<And>x data. marshal x = Some data \<Longrightarrow> decodes cd data x"
  shows "\<exists>rec. sent = [rec] \<and> consumeTyped m msg' = Inr funs \<and>
    (\<forall>n :: 'f Messager. map_option (\<lambda>w. w n (recValue rec)) (mget (workers cd conf) (recTopic rec)) =
           Some (if nodeName n = nodeName m then Inr [] else consumeTyped n msg'))"
proof -
  obtain r t data where e: "GetRouter msg' = Some r" "nodeFrom r = nodeName m" "topicOf msg' = Some t"
      "consumeTyped m msg' = Inr funs" "marshal msg' = Some data"
      "sent = [\<lparr> recKey = room r, recTopic = MakeKafkaTopic conf t, recValue = data \<rparr>]"
    using Emit_success [OF assms(1,2)] by blast
  show ?thesis
  proof (intro exI conjI allI)
    fix n :: "'f Messager"
    show "map_option (\<lambda>w. w n (recValue (hd sent))) (mget (workers cd conf) (recTopic (hd sent))) =
        Some (if nodeName n = nodeName m then Inr [] else consumeTyped n msg')"
      using workers_receive [OF e(3) codec [OF e(5)], of n conf] e(1,2,6) by (auto simp: receive_def)
  qed (use e in simp_all)
qed

text \<open>a record without a router is logged and then dereferenced: the handler of the state topic
  panics on it instead of dropping it.\<close>

theorem onTopicState_missing_router:
  assumes "unmState cd val = Some msg" "smRouter msg = None"
  shows "onTopicState cd m val = Inl NilDeref"
  using assms by (simp add: onTopicState_def)

definition demo_ping :: RoomMessage where
  "demo_ping = MPing \<lparr> pingRouter = Some (newRouter\<lparr> room := ''a.b'' \<rparr>), pingMsgId = 1 \<rparr>"

definition demo_codec :: Codec where
  "demo_codec = \<lparr> unmState = \<lambda>_. Some \<lparr> smRouter = None, smPubId = '''', smAddr = '''', smTracks = [] \<rparr>,
     unmWant = \<lambda>_. None, unmSelect = \<lambda>_. None, unmWantParticipant = \<lambda>_. None,
     unmStateParticipant = \<lambda>_. None, unmStateLeave = \<lambda>_. None,
     unmPing = \<lambda>_. Some \<lparr> pingRouter = Some (newRouter\<lparr> room := ''a.b'', nodeFrom := ''n1'' \<rparr>), pingMsgId = 1 \<rparr>,
     unmPong = \<lambda>_. None, unmCustom = \<lambda>_. None, unmCustomAck = \<lambda>_. None \<rparr>"

definition demo_marshal :: "RoomMessage \<Rightarrow> byte list option" where
  "demo_marshal x =
     (if x = MPing \<lparr> pingRouter = Some (newRouter\<lparr> room := ''a.b'', nodeFrom := ''n1'' \<rparr>), pingMsgId = 1 \<rparr>
      then Some [] else None)"

theorem messager_delivery_witness:
  "\<exists>pm fs. fold_res runOp [RegOn ''s1'' True [''a.*'', ''**''], RegOn ''s2'' False [''c'']] NewPatternMap = Inr pm \<and>
     consumeMessage pm demo_ping ''n1'' = Inr fs \<and> mset fs = {#True#}"
proof -
  let ?ops = "[RegOn ''s1'' True [''a.*'', ''**''], RegOn ''s2'' False [''c'']]"
  have 1: "list_all (op_ok (\<lambda>k. k = ''s1'')) ?ops" by code_simp
  have 2: "CheckRoom (room (newRouter\<lparr> room := ''a.b'' \<rparr>)) = Inr ()" by code_simp
  have m: "MatchRoom ''a.*'' ''a.b'' = Inr True" "MatchRoom ''**'' ''a.b'' = Inr True" "MatchRoom ''c'' ''a.b'' = Inr False"
    by code_simp+
  have s: "{k. \<exists>p. (k, p) \<in> fold regsOp ?ops {} \<and> MatchRoom p ''a.b'' = Inr True} = {''s1''}"
    using m by auto
  show ?thesis
    using messager_delivery [OF 1 _ 2, of demo_ping "''n1''"] s by (auto simp: demo_ping_def newRouter_def)
qed

theorem Emit_once_per_node_witness:
  "\<exists>rec :: KafkaRecord. (\<forall>n. map_option (\<lambda>w. w n (recValue rec)) (mget (workers demo_codec demoKafka) (recTopic rec)) =
     Some (if nodeName n = ''n1'' then Inr []
           else consumeTyped (n :: bool Messager) (mapRouter (\<lambda>r. r\<lparr> nodeFrom := ''n1'' \<rparr>) demo_ping)))"
proof -
  let ?m = "NewMessager ''n1'' (Some demoKafka) :: bool Messager"
  let ?msg = "mapRouter (\<lambda>r. r\<lparr> nodeFrom := ''n1'' \<rparr>) demo_ping"
  have c: "decodes demo_codec data x" if "demo_marshal x = Some data" for x data
    using that by (auto simp: demo_marshal_def demo_codec_def split: if_splits)
  have e: "Emit demo_marshal (\<lambda>_. Inr ()) ?m demo_ping =
      Inr (?msg, [], [\<lparr> recKey = ''a.b'', recTopic = MakeKafkaTopic demoKafka TOPIC_PING, recValue = [] \<rparr>], Inr ())"
    by code_simp
  have k: "kafka ?m = Some demoKafka" "nodeName ?m = ''n1''" by (simp_all add: NewMessager_def)
  from Emit_once_per_node [OF e k(1), of demo_codec, unfolded k(2)] c show ?thesis by blast
qed

theorem onTopicState_missing_router_witness:
  "onTopicState demo_codec (NewMessager ''n1'' None :: bool Messager) [] = Inl NilDeref"
  by (rule onTopicState_missing_router
        [where msg = "\<lparr> smRouter = None, smPubId = '''', smAddr = '''', smTracks = [] \<rparr>"]) (simp_all add: demo_codec_def)

end
