(* ===== verification/Participants.thy ===== *)
theory Participants
  imports Messages
begin

text \<open>
  The client's view of a room (\<open>client/websocket.go\<close>): the set of participants it derives from join
  and leave messages, which Kafka and the sockets may deliver in any order, the callbacks on joins
  and leaves, the table of pending acknowledgements, the list of joined rooms and the ping
  subscriptions. Time is an integer in nanoseconds, passed where the code calls \<open>time.Now\<close>. A
  callback is the function from its argument (\<open>None\<close> for nil) to \<open>remained\<close>; an operation that runs
  callbacks returns the calls it makes as pairs of the id and the argument.
\<close>

section \<open>Participants of one room\<close>

record Participant =
  ptId :: string
  ptName :: string
  ptSourceId :: string
  ptJoinId :: "32 word"

type_synonym ParticipantKey = "string \<times> string"

record LeavedInfo =
  liJid :: "32 word"
  liTimestamp :: int

record Participants =
  psParticipants :: "(ParticipantKey, Participant) gomap"
  psLeaves :: "(ParticipantKey, LeavedInfo) gomap"

definition newParticipants :: Participants where
  "newParticipants = \<lparr> psParticipants = [], psLeaves = [] \<rparr>"

fun findByUid :: "(ParticipantKey \<times> Participant) list \<Rightarrow> string \<Rightarrow> Participant option" where
  "findByUid [] uid = None"
| "findByUid ((key, val) # m) uid = (if fst key = uid then Some val else findByUid m uid)"

definition Participants_FindOneByUser :: "Participants \<Rightarrow> string \<Rightarrow> Participant option" where
  "Participants_FindOneByUser p uid = findByUid (psParticipants p) uid"

definition minute :: int where
  "minute = 60000000000"

definition Participants_Clean :: "int \<Rightarrow> Participants \<Rightarrow> Participants \<times> bool" where
  "Participants_Clean now p =
     (let p' = p\<lparr> psLeaves := filter (\<lambda>(key, info). \<not> (now - liTimestamp info > minute)) (psLeaves p) \<rparr>
      in (p', psParticipants p' = [] \<and> psLeaves p' = []))"

definition addParticipant :: "ParticipantKey \<Rightarrow> Participant \<Rightarrow> Participants \<Rightarrow> Participants \<times> bool" where
  "addParticipant key participant p =
     (case mget (psParticipants p) key of
        Some pt \<Rightarrow>
          if ptJoinId participant > ptJoinId pt
          then (p\<lparr> psParticipants := mput key participant (psParticipants p) \<rparr>, True)
          else (p, False)
      | None \<Rightarrow> (p\<lparr> psParticipants := mput key participant (psParticipants p) \<rparr>, True))"

definition Participants_Add :: "Participant \<Rightarrow> Participants \<Rightarrow> Participants \<times> bool" where
  "Participants_Add participant p =
     (let key = (ptId participant, ptSourceId participant) in
      case mget (psLeaves p) key of
        Some leaveInfo \<Rightarrow>
          if ptJoinId participant > liJid leaveInfo
          then addParticipant key participant (p\<lparr> psLeaves := mdel key (psLeaves p) \<rparr>)
          else (p, False)
      | None \<Rightarrow> addParticipant key participant p)"

definition removeParticipant :: "ParticipantKey \<Rightarrow> 32 word \<Rightarrow> Participants \<Rightarrow> Participants \<times> Participant option" where
  "removeParticipant key jid p =
     (case mget (psParticipants p) key of
        Some pt \<Rightarrow>
          if jid \<ge> ptJoinId pt
          then (p\<lparr> psParticipants := mdel key (psParticipants p) \<rparr>, Some pt)
          else (p, None)
      | None \<Rightarrow> (p, None))"

definition Participants_Remove :: "int \<Rightarrow> string \<Rightarrow> string \<Rightarrow> 32 word \<Rightarrow> Participants \<Rightarrow> Participants \<times> Participant option" where
  "Participants_Remove now uid sid jid p =
     (let key = (uid, sid); info = \<lparr> liJid = jid, liTimestamp = now \<rparr> in
      case mget (psLeaves p) key of
        Some leaveInfo \<Rightarrow>
          if jid > liJid leaveInfo
          then removeParticipant key jid (p\<lparr> psLeaves := mput key info (psLeaves p) \<rparr>)
          else (p, None)
      | None \<Rightarrow> removeParticipant key jid (p\<lparr> psLeaves := mput key info (psLeaves p) \<rparr>))"

section \<open>All rooms, with callbacks\<close>

type_synonym ParticipantCb = "Participant option \<Rightarrow> bool"

record ParticipantsBox =
  boxParticipants :: "(string, Participants) gomap"
  next_join_id :: int
  join_chs :: "(string, (int, ParticipantCb) gomap) gomap"
  next_leave_id :: int
  leave_cbs :: "(string, (int, ParticipantCb) gomap) gomap"
  iter :: int

definition mewParticipantsBox :: ParticipantsBox where
  "mewParticipantsBox = \<lparr> boxParticipants = [], next_join_id = 0, join_chs = [], next_leave_id = 0, leave_cbs = [], iter = 0 \<rparr>"

fun cleanRooms :: "int \<Rightarrow> (string \<times> Participants) list \<Rightarrow> (string \<times> Participants) list" where
  "cleanRooms now [] = []"
| "cleanRooms now ((rm, participants) # ps) =
     (case Participants_Clean now participants of
        (p', isEmpty) \<Rightarrow> if isEmpty then cleanRooms now ps else (rm, p') # cleanRooms now ps)"

definition box_clean :: "int \<Rightarrow> ParticipantsBox \<Rightarrow> ParticipantsBox" where
  "box_clean now box =
     (let box' = box\<lparr> iter := iter box + 1 \<rparr>
      in if iter box' mod 10 = 0 then box'\<lparr> boxParticipants := cleanRooms now (boxParticipants box') \<rparr> else box')"

text \<open>Running all callbacks of a room: those that return false are deleted.\<close>

definition runCbs :: "Participant option \<Rightarrow> (int, ParticipantCb) gomap \<Rightarrow> (int, ParticipantCb) gomap \<times> (int \<times> Participant option) list" where
  "runCbs participant cbs = (filter (\<lambda>(i, cb). cb participant) cbs, map (\<lambda>(i, cb). (i, participant)) cbs)"

definition ProcessJoinCbs :: "StateParticipantMessage \<Rightarrow> ParticipantsBox \<Rightarrow> ParticipantsBox \<times> (int \<times> Participant option) list" where
  "ProcessJoinCbs msg box =
     (let rm = room (routerOrNew (spRouter msg));
          participant = \<lparr> ptId = spUserId msg, ptName = spUserName msg, ptSourceId = spSocketId msg, ptJoinId = spJoinId msg \<rparr>;
          ps = (case mget (boxParticipants box) rm of Some ps \<Rightarrow> ps | None \<Rightarrow> newParticipants);
          (ps', added) = Participants_Add participant ps;
          box' = box\<lparr> boxParticipants := mput rm ps' (boxParticipants box) \<rparr>
      in if added then
           (case mget (join_chs box') rm of
              None \<Rightarrow> (box', [])
            | Some cbs \<Rightarrow> (case runCbs (Some participant) cbs of
                (cbs', calls) \<Rightarrow> (box'\<lparr> join_chs := mput rm cbs' (join_chs box') \<rparr>, calls)))
         else (box', []))"

definition ProcessLeaveCbs :: "int \<Rightarrow> StateLeaveMessage \<Rightarrow> ParticipantsBox \<Rightarrow> ParticipantsBox \<times> (int \<times> Participant option) list" where
  "ProcessLeaveCbs now msg box =
     (let rm = room (routerOrNew (slRouter msg));
          ps = (case mget (boxParticipants box) rm of Some ps \<Rightarrow> ps | None \<Rightarrow> newParticipants);
          (ps', participant) = Participants_Remove now (slUserId msg) (slSocketId msg) (slJoinId msg) ps;
          box' = box_clean now (box\<lparr> boxParticipants := mput rm ps' (boxParticipants box) \<rparr>)
      in case mget (leave_cbs box') rm of
           None \<Rightarrow> (box', [])
         | Some cbs \<Rightarrow> (case runCbs participant cbs of
             (cbs', calls) \<Rightarrow> (box'\<lparr> leave_cbs := mput rm cbs' (leave_cbs box') \<rparr>, calls)))"

definition AddJoinCallback :: "string \<Rightarrow> ParticipantCb \<Rightarrow> ParticipantsBox \<Rightarrow> ParticipantsBox \<times> int" where
  "AddJoinCallback rm cb ps =
     (let i = next_join_id ps;
          cbs = (case mget (join_chs ps) rm of Some cbs \<Rightarrow> mput i cb cbs | None \<Rightarrow> [(i, cb)])
      in (ps\<lparr> next_join_id := i + 1, join_chs := mput rm cbs (join_chs ps) \<rparr>, i))"

definition RemoveJoinCallback :: "string \<Rightarrow> int \<Rightarrow> ParticipantsBox \<Rightarrow> ParticipantsBox" where
  "RemoveJoinCallback rm i ps =
     (case mget (join_chs ps) rm of
        Some cbs \<Rightarrow> ps\<lparr> join_chs := mput rm (mdel i cbs) (join_chs ps) \<rparr>
      | None \<Rightarrow> ps)"

definition AddLeaveCallback :: "string \<Rightarrow> ParticipantCb \<Rightarrow> ParticipantsBox \<Rightarrow> ParticipantsBox \<times> int" where
  "AddLeaveCallback rm cb ps =
     (let i = next_leave_id ps;
          cbs = (case mget (leave_cbs ps) rm of Some cbs \<Rightarrow> mput i cb cbs | None \<Rightarrow> [(i, cb)])
      in (ps\<lparr> next_leave_id := i + 1, leave_cbs := mput rm cbs (leave_cbs ps) \<rparr>, i))"

definition RemoveLeaveCallback :: "string \<Rightarrow> int \<Rightarrow> ParticipantsBox \<Rightarrow> ParticipantsBox" where
  "RemoveLeaveCallback rm i ps =
     (case mget (leave_cbs ps) rm of
        Some cbs \<Rightarrow> ps\<lparr> leave_cbs := mput rm (mdel i cbs) (leave_cbs ps) \<rparr>
      | None \<Rightarrow> ps)"

definition FindOneByUser :: "string \<Rightarrow> string \<Rightarrow> ParticipantsBox \<Rightarrow> Participant option" where
  "FindOneByUser rm uid box =
     (case mget (boxParticipants box) rm of Some ps \<Rightarrow> Participants_FindOneByUser ps uid | None \<Rightarrow> None)"

section \<open>Acknowledgements, rooms and pings of the client\<close>

text \<open>An entry of the table is the channel the sender waits on; channels are numbered.\<close>

type_synonym AckKey = "string \<times> string \<times> 32 word"

definition PushCustomAckMsgCh :: "string \<Rightarrow> string \<Rightarrow> 32 word \<Rightarrow> nat \<Rightarrow> (AckKey, nat) gomap \<Rightarrow> (AckKey, nat) gomap" where
  "PushCustomAckMsgCh rm to i ch notifiers = mput (rm, to, i) ch notifiers"

definition PopCustomAckMsgCh :: "string \<Rightarrow> string \<Rightarrow> 32 word \<Rightarrow> (AckKey, nat) gomap \<Rightarrow> (AckKey, nat) gomap \<times> nat option" where
  "PopCustomAckMsgCh rm from i notifiers =
     (case mget notifiers (rm, from, i) of
        Some ch \<Rightarrow> (mdel (rm, from, i) notifiers, Some ch)
      | None \<Rightarrow>
          (case mget notifiers (rm, '''', i) of
             Some ch \<Rightarrow> (mdel (rm, '''', i) notifiers, Some ch)
           | None \<Rightarrow> (notifiers, None)))"

text \<open>The list of rooms after the server has accepted the request.\<close>

definition Client_Join :: "string list \<Rightarrow> string list \<Rightarrow> string list" where
  "Client_Join rooms newRooms = SliceAppendNoRepeat rooms newRooms"

definition Client_Leave :: "string list \<Rightarrow> string list \<Rightarrow> string list res" where
  "Client_Leave rooms oldRooms = map_sum id snd (SliceRemoveByValues rooms False oldRooms)"

type_synonym PingKey = "string \<times> string"

definition publishPingMsgs :: "PingMessage \<Rightarrow> (PingKey, nat list) gomap \<Rightarrow> (nat \<times> PingMessage) list" where
  "publishPingMsgs msg ping_chs =
     (let router = routerOrNew (pingRouter msg)
      in case mget ping_chs (socketFrom router, room router) of
           Some chs \<Rightarrow> map (\<lambda>ch. (ch, msg)) chs
         | None \<Rightarrow> [])"

definition subscribePingMsg :: "string \<Rightarrow> string \<Rightarrow> nat \<Rightarrow> (PingKey, nat list) gomap \<Rightarrow> (PingKey, nat list) gomap" where
  "subscribePingMsg rm sid ch ping_chs =
     (case mget ping_chs (sid, rm) of
        Some chs \<Rightarrow> mput (sid, rm) (chs @ [ch]) ping_chs
      | None \<Rightarrow> mput (sid, rm) [ch] ping_chs)"

definition unsubscribePingMsg :: "string \<Rightarrow> string \<Rightarrow> nat \<Rightarrow> (PingKey, nat list) gomap \<Rightarrow> (PingKey, nat list) gomap res" where
  "unsubscribePingMsg rm sid ch ping_chs =
     (case mget ping_chs (sid, rm) of
        Some chs \<Rightarrow>
          bind_res (SliceRemoveByValue chs False ch) (\<lambda>(_, chs').
            Inr (if chs' \<noteq> [] then mput (sid, rm) chs' ping_chs else mdel (sid, rm) ping_chs))
      | None \<Rightarrow> Inr ping_chs)"

section \<open>Convergence\<close>

datatype Event = EJoin Participant | ELeave int string string "32 word"

fun stepEvent :: "Event \<Rightarrow> Participants \<Rightarrow> Participants" where
  "stepEvent (EJoin pt) p = fst (Participants_Add pt p)"
| "stepEvent (ELeave now uid sid jid) p = fst (Participants_Remove now uid sid jid p)"

fun joinsOf :: "ParticipantKey \<Rightarrow> Event list \<Rightarrow> 32 word set" where
  "joinsOf k [] = {}"
| "joinsOf k (EJoin pt # es) = (if (ptId pt, ptSourceId pt) = k then insert (ptJoinId pt) (joinsOf k es) else joinsOf k es)"
| "joinsOf k (ELeave _ _ _ _ # es) = joinsOf k es"

fun leavesOf :: "ParticipantKey \<Rightarrow> Event list \<Rightarrow> 32 word set" where
  "leavesOf k [] = {}"
| "leavesOf k (EJoin _ # es) = leavesOf k es"
| "leavesOf k (ELeave now uid sid jid # es) = (if (uid, sid) = k then insert jid (leavesOf k es) else leavesOf k es)"

text \<open>The state of one key, given the join ids and leave ids that have arrived for it.\<close>

definition key_inv :: "32 word set \<Rightarrow> 32 word set \<Rightarrow> Participant option \<Rightarrow> LeavedInfo option \<Rightarrow> bool" where
  "key_inv J L pt li \<longleftrightarrow>
     (\<forall>i. li = Some i \<longrightarrow> liJid i \<in> L) \<and>
     (case pt of
        Some p \<Rightarrow> ptJoinId p \<in> J \<and> (\<forall>j \<in> J. j \<le> ptJoinId p) \<and> (\<forall>l \<in> L. l < ptJoinId p)
      | None \<Rightarrow> (case li of None \<Rightarrow> J = {} \<and> L = {} | Some i \<Rightarrow> (\<forall>j \<in> J. j \<le> liJid i) \<and> (\<forall>l \<in> L. l \<le> liJid i)))"

lemma addParticipant_lookup:
  "mget (psParticipants (fst (addParticipant key pt p))) k =
     (if k = key then
        (case mget (psParticipants p) key of
           Some q \<Rightarrow> Some (if ptJoinId pt > ptJoinId q then pt else q) | None \<Rightarrow> Some pt)
      else mget (psParticipants p) k)"
  "psLeaves (fst (addParticipant key pt p)) = psLeaves p"
  by (auto simp: addParticipant_def gomap_simps split: option.splits)

lemma removeParticipant_lookup:
  "mget (psParticipants (fst (removeParticipant key jid p))) k =
     (if k = key then
        (case mget (psParticipants p) key of
           Some q \<Rightarrow> if jid \<ge> ptJoinId q then None else Some q | None \<Rightarrow> None)
      else mget (psParticipants p) k)"
  "psLeaves (fst (removeParticipant key jid p)) = psLeaves p"
  by (auto simp: removeParticipant_def gomap_simps split: option.splits)

lemma Add_other:
  "k \<noteq> (ptId pt, ptSourceId pt) \<Longrightarrow>
   mget (psParticipants (fst (Participants_Add pt p))) k = mget (psParticipants p) k \<and>
   mget (psLeaves (fst (Participants_Add pt p))) k = mget (psLeaves p) k"
  by (auto simp: Participants_Add_def Let_def addParticipant_lookup gomap_simps split: option.splits)

lemma Remove_other:
  "k \<noteq> (uid, sid) \<Longrightarrow>
   mget (psParticipants (fst (Participants_Remove now uid sid jid p))) k = mget (psParticipants p) k \<and>
   mget (psLeaves (fst (Participants_Remove now uid sid jid p))) k = mget (psLeaves p) k"
  by (auto simp: Participants_Remove_def Let_def removeParticipant_lookup gomap_simps split: option.splits)

text \<open>The effect on the key itself, as a function of its two entries.\<close>

definition addAt :: "Participant \<Rightarrow> Participant option \<Rightarrow> LeavedInfo option \<Rightarrow> Participant option \<times> LeavedInfo option" where
  "addAt pt q li =
     (if (case li of Some i \<Rightarrow> ptJoinId pt > liJid i | None \<Rightarrow> True)
      then (Some (case q of Some q' \<Rightarrow> if ptJoinId pt > ptJoinId q' then pt else q' | None \<Rightarrow> pt), None)
      else (q, li))"

definition removeAt :: "LeavedInfo \<Rightarrow> Participant option \<Rightarrow> LeavedInfo option \<Rightarrow> Participant option \<times> LeavedInfo option" where
  "removeAt n q li =
     (if (case li of Some i \<Rightarrow> liJid n > liJid i | None \<Rightarrow> True)
      then (case q of Some q' \<Rightarrow> if liJid n \<ge> ptJoinId q' then None else Some q' | None \<Rightarrow> None, Some n)
      else (q, li))"

lemma Add_at:
  "k = (ptId pt, ptSourceId pt) \<Longrightarrow>
   (mget (psParticipants (fst (Participants_Add pt p))) k, mget (psLeaves (fst (Participants_Add pt p))) k) =
     addAt pt (mget (psParticipants p) k) (mget (psLeaves p) k)"
  by (auto simp: Participants_Add_def addAt_def Let_def addParticipant_lookup gomap_simps split: option.splits)

lemma Remove_at:
  "k = (uid, sid) \<Longrightarrow>
   (mget (psParticipants (fst (Participants_Remove now uid sid jid p))) k,
    mget (psLeaves (fst (Participants_Remove now uid sid jid p))) k) =
     removeAt \<lparr> liJid = jid, liTimestamp = now \<rparr> (mget (psParticipants p) k) (mget (psLeaves p) k)"
  by (auto simp: Participants_Remove_def removeAt_def Let_def removeParticipant_lookup gomap_simps split: option.splits)

lemmas trans_rules = less_trans le_less_trans less_le_trans order_trans less_imp_le

lemma addAt_inv:
  "key_inv J L q li \<Longrightarrow> addAt pt q li = (q', li') \<Longrightarrow> key_inv (insert (ptJoinId pt) J) L q' li'"
  by (cases q; cases li)
     (auto simp: key_inv_def addAt_def not_less split: if_splits, (meson trans_rules)+)

lemma removeAt_inv:
  "key_inv J L q li \<Longrightarrow> removeAt n q li = (q', li') \<Longrightarrow> key_inv J (insert (liJid n) L) q' li'"
  by (cases q; cases li)
     (auto simp: key_inv_def removeAt_def not_less not_le split: if_splits, (meson trans_rules)+)

lemma run_key_inv:
  "key_inv J L (mget (psParticipants p) k) (mget (psLeaves p) k) \<Longrightarrow>
   key_inv (J \<union> joinsOf k es) (L \<union> leavesOf k es)
     (mget (psParticipants (fold stepEvent es p)) k) (mget (psLeaves (fold stepEvent es p)) k)"
proof (induction es arbitrary: p J L)
  case Nil
  then show ?case by simp
next
  case (Cons e es)
  let ?p = "stepEvent e p"
  have "key_inv (J \<union> joinsOf k [e]) (L \<union> leavesOf k [e]) (mget (psParticipants ?p) k) (mget (psLeaves ?p) k)"
  proof (cases e)
    case (EJoin pt)
    show ?thesis
    proof (cases "k = (ptId pt, ptSourceId pt)")
      case True
      from addAt_inv [OF Cons.prems, OF Add_at [OF True, symmetric]] EJoin True show ?thesis by simp
    next
      case False
      then show ?thesis using Cons.prems Add_other [OF False, of p] EJoin by auto
    qed
  next
    case (ELeave now uid sid jid)
    show ?thesis
    proof (cases "k = (uid, sid)")
      case True
      from removeAt_inv [OF Cons.prems, OF Remove_at [OF True, symmetric]] ELeave True show ?thesis by simp
    next
      case False
      then show ?thesis using Cons.prems Remove_other [OF False, of now jid p] ELeave by auto
    qed
  qed
  from Cons.IH [OF this]
  have "key_inv (J \<union> joinsOf k [e] \<union> joinsOf k es) (L \<union> leavesOf k [e] \<union> leavesOf k es)
      (mget (psParticipants (fold stepEvent (e # es) p)) k) (mget (psLeaves (fold stepEvent (e # es) p)) k)" by simp
  moreover have "joinsOf k [e] \<union> joinsOf k es = joinsOf k (e # es)" "leavesOf k [e] \<union> leavesOf k es = leavesOf k (e # es)"
    by (cases e; simp)+
  ultimately show ?case by (simp only: Un_assoc)
qed

lemma finite_events [simp]: "finite (joinsOf k es)" "finite (leavesOf k es)"
  by (induction k es rule: joinsOf.induct) auto

text \<open>What a client should know of a socket that sent the join ids \<open>J\<close> and the leave ids \<open>L\<close>.\<close>

definition present :: "32 word set \<Rightarrow> 32 word set \<Rightarrow> 32 word option" where
  "present J L = (if J \<noteq> {} \<and> (\<forall>l \<in> L. l < Max J) then Some (Max J) else None)"

lemma key_inv_present:
  assumes "key_inv J L pt li" "finite J"
  shows "map_option ptJoinId pt = present J L"
proof (cases pt)
  case (Some p)
  then have "Max J = ptJoinId p" using assms by (auto simp: key_inv_def intro: Max_eqI)
  then show ?thesis using assms Some by (auto simp: key_inv_def present_def)
next
  case None
  have "\<exists>l \<in> L. \<not> l < Max J" if ne: "J \<noteq> {}"
  proof -
    obtain i where i: "li = Some i" "\<forall>j \<in> J. j \<le> liJid i" "liJid i \<in> L"
      using assms(1) None ne by (cases li) (auto simp: key_inv_def)
    then show ?thesis using Max_in [OF assms(2) ne] by (auto simp: not_less)
  qed
  then show ?thesis using None by (auto simp: present_def)
qed

section \<open>Properties\<close>


text \<open>the leave callbacks run on every leave message, also when nobody is removed; then they get
  a nil participant. Here the first message a client sees is a leave of an unknown user.\<close>

theorem ProcessLeaveCbs_nil_participant:
  "snd (ProcessLeaveCbs now \<lparr> slRouter = Some (newRouter\<lparr> room := ''r'' \<rparr>), slUserId = ''u'', slSocketId = ''s'', slJoinId = 1 \<rparr>
          (fst (AddLeaveCallback ''r'' (\<lambda>p. p \<noteq> None) mewParticipantsBox))) = [(0, None)]"
  by (simp add: ProcessLeaveCbs_def AddLeaveCallback_def mewParticipantsBox_def Let_def Participants_Remove_def
      newParticipants_def removeParticipant_def box_clean_def runCbs_def)

text \<open>an acknowledgement finds the channel of its sender: popping the room, id and socket a
  message was sent to, or any socket when it was sent to the whole room, returns the pushed
  channel, unless that socket has an entry of its own, and a second pop of the entry finds nothing.\<close>

theorem ack_push_pop:
  assumes "to = from \<or> to = '''' \<and> mget notifiers (rm, from, i) = None"
  shows "PopCustomAckMsgCh rm from i (PushCustomAckMsgCh rm to i ch notifiers) =
           (mdel (rm, to, i) (PushCustomAckMsgCh rm to i ch notifiers), Some ch) \<and>
         mget (fst (PopCustomAckMsgCh rm from i (PushCustomAckMsgCh rm to i ch notifiers))) (rm, to, i) = None"
  using assms by (auto simp: PopCustomAckMsgCh_def PushCustomAckMsgCh_def gomap_simps)

theorem ack_push_pop_witness:
  "PopCustomAckMsgCh ''r'' ''s'' 1 (PushCustomAckMsgCh ''r'' '''' 1 9 []) = ([], Some 9)"
  using ack_push_pop [of "''''" "''s''" "[]" "''r''" 1 9] by (simp add: PushCustomAckMsgCh_def)

end
