(* ===== verification/WsCodec.thy ===== *)
theory WsCodec
  imports ConfErrors
begin

text \<open>
  The text protocol on a websocket (\<open>websocket/signal.go\<close>): a frame is
  \<open>evt;msg_id;flag;json\<close>. \<open>encodeWsTextData\<close> writes it and \<open>decodeWsTextData\<close> reads it; the message
  handler classifies a frame as an acknowledgement of one of the own messages, a custom message or
  an event; \<open>SendMsg\<close> draws message ids and registers the waiting channel. JSON and mapstructure
  are parameters, channels are numbered, the connection is not modelled.
\<close>

section \<open>Frames\<close>

text \<open>Flags: 0 and 1 mark a normal and an error acknowledgement, 2 asks for one, 4 does not.\<close>

definition isValidWsMsgFlag :: "nat \<Rightarrow> bool" where
  "isValidWsMsgFlag flag \<longleftrightarrow> flag = 0 \<or> flag = 1 \<or> flag = 2 \<or> flag = 4"

definition is_normal_ack :: "nat \<Rightarrow> bool" where
  "is_normal_ack flag \<longleftrightarrow> flag = 0"

definition is_err_ack :: "nat \<Rightarrow> bool" where
  "is_err_ack flag \<longleftrightarrow> flag = 1"

definition is_ack :: "nat \<Rightarrow> bool" where
  "is_ack flag \<longleftrightarrow> is_normal_ack flag \<or> is_err_ack flag"

definition need_ack :: "nat \<Rightarrow> bool" where
  "need_ack flag \<longleftrightarrow> flag = 2"

definition encodeWsTextData :: "('d \<Rightarrow> go_err + string) \<Rightarrow> string \<Rightarrow> 64 word \<Rightarrow> nat \<Rightarrow> 'd \<Rightarrow> go_err + string" where
  "encodeWsTextData marshal evt msg_id flag data =
     bind_res (marshal data) (\<lambda>data_str.
       Inr (evt @ '';'' @ decimal (unat msg_id) @ '';'' @ decimal flag @ '';'' @ data_str))"

text \<open>\<open>strings.Index(s, ";")\<close> with the two slices around it.\<close>

definition cutSemi :: "string \<Rightarrow> (string \<times> string) option" where
  "cutSemi s =
     (let pre = takeWhile (\<lambda>c. c \<noteq> CHR '';'') s
      in if length pre = length s then None else Some (pre, drop (length pre + 1) s))"

text \<open>
  A number that does not parse is reported with \<open>FatalError("...%w", err)\<close>, where \<open>err\<close> is the
  function's own result, a nil \<open>*ConferenceError\<close>: \<open>NewError\<close> unwraps the formatted error, gets a
  non-nil interface holding the nil pointer and calls \<open>Error\<close> on it, which dereferences it.
\<close>

definition decodeWsTextData :: "string \<Rightarrow> (go_err + (string \<times> 64 word \<times> nat \<times> string)) res" where
  "decodeWsTextData s =
     (case cutSemi s of
        None \<Rightarrow> Inr (Inl (FatalError ''invalid ws msg format''))
      | Some (evt, s1) \<Rightarrow>
          (case cutSemi s1 of
             None \<Rightarrow> Inr (Inl (FatalError ''invalid ws msg format''))
           | Some (ids, s2) \<Rightarrow>
               (case ParseUint ids 64 of
                  None \<Rightarrow> Inl NilDeref
                | Some msg_id \<Rightarrow>
                    (case cutSemi s2 of
                       None \<Rightarrow> Inr (Inl (FatalError ''invalid ws msg format''))
                     | Some (flags, data) \<Rightarrow>
                         (case ParseUint flags 8 of
                            None \<Rightarrow> Inl NilDeref
                          | Some flag_int \<Rightarrow>
                              if \<not> isValidWsMsgFlag flag_int
                              then Inr (Inl (FatalError ''invalid flag in ws msg: %d''))
                              else Inr (Inr (evt, of_nat msg_id, flag_int, data)))))))"

lemma cutSemi_append: "CHR '';'' \<notin> set pre \<Longrightarrow> cutSemi (pre @ '';'' @ rest) = Some (pre, rest)"
proof -
  assume "CHR '';'' \<notin> set pre"
  then have "takeWhile (\<lambda>c. c \<noteq> CHR '';'') (pre @ '';'' @ rest) = pre" by (simp add: takeWhile_append)
  then show ?thesis by (simp add: cutSemi_def)
qed

lemma decode_frame:
  assumes "CHR '';'' \<notin> set evt" "isValidWsMsgFlag flag"
  shows "decodeWsTextData (evt @ '';'' @ decimal (unat (msg_id :: 64 word)) @ '';'' @ decimal flag @ '';'' @ data_str) =
    Inr (Inr (evt, msg_id, flag, data_str))"
proof -
  have "unat msg_id < 2 ^ 64" using unsigned_less [of msg_id] by simp
  moreover have "flag < 2 ^ 8" using assms(2) by (auto simp: isValidWsMsgFlag_def)
  ultimately show ?thesis
    using assms decimal_props
    by (simp add: decodeWsTextData_def cutSemi_append ParseUint_decimal del: append_Cons append.simps append_assoc)
qed

section \<open>Sending and receiving\<close>

datatype WsSignalMode = WS_SIGNAL_MODE_CLIENT | WS_SIGNAL_MODE_SERVER

record WebSocketSignal =
  wsMode :: WsSignalMode
  next_msg_id :: "64 word"
  acks :: "(64 word, nat) gomap"
  msg_cb :: "nat option"
  custom_msg_cb :: "nat option"
  custom_ack_msg_cb :: "nat option"
  close_cb :: "nat option"
  wsClosed :: bool
  close_err :: "go_err option"

definition NewWebSocketSignal :: "WsSignalMode \<Rightarrow> WebSocketSignal" where
  "NewWebSocketSignal mode =
     \<lparr> wsMode = mode, next_msg_id = (if mode = WS_SIGNAL_MODE_CLIENT then 1 else 0), acks = [],
       msg_cb = None, custom_msg_cb = None, custom_ack_msg_cb = None, close_cb = None,
       wsClosed = False, close_err = None \<rparr>"

text \<open>
  The setters of the callbacks (a callback is a number) and the handler of the connection's end:
  the callback of \<open>OnClose\<close> runs once, at the end or, when it is set later, at once. The second
  components are the callbacks run with their argument.
\<close>

definition ws_On :: "nat \<Rightarrow> WebSocketSignal \<Rightarrow> WebSocketSignal" where
  "ws_On cb sig = sig\<lparr> msg_cb := Some cb \<rparr>"

definition ws_OnCustom :: "nat \<Rightarrow> WebSocketSignal \<Rightarrow> WebSocketSignal" where
  "ws_OnCustom cb sig = sig\<lparr> custom_msg_cb := Some cb \<rparr>"

definition ws_OnCustomAck :: "nat \<Rightarrow> WebSocketSignal \<Rightarrow> WebSocketSignal" where
  "ws_OnCustomAck cb sig = sig\<lparr> custom_ack_msg_cb := Some cb \<rparr>"

definition ws_OnClose :: "nat \<Rightarrow> WebSocketSignal \<Rightarrow> WebSocketSignal \<times> (nat \<times> go_err option) list" where
  "ws_OnClose cb sig =
     (if wsClosed sig then (sig, [(cb, close_err sig)]) else (sig\<lparr> close_cb := Some cb \<rparr>, []))"

definition ws_closed :: "go_err option \<Rightarrow> WebSocketSignal \<Rightarrow> WebSocketSignal \<times> (nat \<times> go_err option) list" where
  "ws_closed err sig =
     (if wsClosed sig then (sig, [])
      else (sig\<lparr> wsClosed := True, close_err := err \<rparr>,
            case close_cb sig of None \<Rightarrow> [] | Some cb \<Rightarrow> [(cb, err)]))"

text \<open>
  \<open>SendMsg\<close> up to the write: the id it draws, the frame or the error of the encoder, and the signal
  with the waiting channel \<open>ch\<close> registered when an acknowledgement is asked for. More than one
  argument is refused before an id is drawn.
\<close>

definition SendMsg :: "('d option \<Rightarrow> go_err + string) \<Rightarrow> bool \<Rightarrow> nat \<Rightarrow> string \<Rightarrow> 'd list \<Rightarrow> WebSocketSignal
    \<Rightarrow> WebSocketSignal \<times> 64 word option \<times> (go_err + string)" where
  "SendMsg marshal ack ch evt args sig =
     (if length args > 1 then (sig, None, Inl (InvalidMessage ''too many parameter''))
      else
        (let arg = (case args of [] \<Rightarrow> None | a # _ \<Rightarrow> Some a);
             msg_id = next_msg_id sig + 2;
             sig1 = sig\<lparr> next_msg_id := msg_id \<rparr>;
             sig2 = (if ack then sig1\<lparr> acks := mput msg_id ch (acks sig1) \<rparr> else sig1)
         in case encodeWsTextData marshal evt msg_id (if ack then 2 else 4) arg of
              Inl e \<Rightarrow> (if ack then sig2\<lparr> acks := mdel msg_id (acks sig2) \<rparr> else sig2, Some msg_id, Inl e)
            | Inr msg \<Rightarrow> (sig2, Some msg_id, Inr msg)))"

text \<open>
  The rest of \<open>SendMsg\<close>: a failed write takes the waiting channel back; a message without
  acknowledgement is done after the write; otherwise the sender waits for whichever of the three
  events of the \<open>select\<close> comes first. When the connection ends the waiting channel stays registered.
\<close>

datatype 'd AckWait = ConnClosed "go_err option" | CtxDone go_err | AckArrived "go_err + 'd option"

definition releaseAck :: "64 word \<Rightarrow> WebSocketSignal \<Rightarrow> WebSocketSignal" where
  "releaseAck msg_id sig = sig\<lparr> acks := mdel msg_id (acks sig) \<rparr>"

definition SendMsg_wait :: "bool \<Rightarrow> 64 word \<Rightarrow> go_err option \<Rightarrow> 'd AckWait \<Rightarrow> WebSocketSignal
    \<Rightarrow> WebSocketSignal \<times> (go_err + 'd list)" where
  "SendMsg_wait ack msg_id writeErr w sig =
     (case writeErr of
        Some e \<Rightarrow> (if ack then releaseAck msg_id sig else sig, Inl e)
      | None \<Rightarrow>
          if \<not> ack then (sig, Inr [])
          else (case w of
                  ConnClosed (Some e) \<Rightarrow> (sig, Inl e)
                | ConnClosed None \<Rightarrow> (sig, Inl (PlainError ''use of closed network connection''))
                | CtxDone e \<Rightarrow> (releaseAck msg_id sig, Inl e)
                | AckArrived (Inl e) \<Rightarrow> (sig, Inl e)
                | AckArrived (Inr None) \<Rightarrow> (sig, Inr [])
                | AckArrived (Inr (Some d)) \<Rightarrow> (sig, Inr [d])))"

text \<open>
  What the message handler does with a text frame. A custom frame calls its callback without
  testing that one is set; an event without callback is dropped. \<open>json\<close> is \<open>json.Unmarshal\<close> and \<open>asErr\<close> the decoding
  of an error acknowledgement. For a frame that is no acknowledgement a JSON error is computed but
  neither logged nor returned: the callback gets nil data.
\<close>

datatype 'd Dispatch =
    DropFrame
  | AckTo nat "go_err + 'd option"
  | AckUnknown
  | CustomMsg string "'d option"
  | CustomAckMsg "'d option"
  | EventMsg string bool "'d option"

definition msg_handler :: "(string \<Rightarrow> 'd option) \<Rightarrow> ('d \<Rightarrow> go_err option) \<Rightarrow> string \<Rightarrow> WebSocketSignal
    \<Rightarrow> (WebSocketSignal \<times> 'd Dispatch) res" where
  "msg_handler json asErr s sig =
     bind_res (decodeWsTextData s) (\<lambda>r.
       case r of
         Inl _ \<Rightarrow> Inr (sig, DropFrame)
       | Inr (evt, msg_id, flag, data_str) \<Rightarrow>
           (let data = (if data_str = '''' then None else json data_str);
                err = (if data_str = '''' then None
                       else case json data_str of
                              None \<Rightarrow> Some (if is_ack flag then FatalError ''unable to decode ack message, %v''
                                            else FatalError ''unable to decode %s message, %v'')
                            | Some d \<Rightarrow>
                                if is_err_ack flag
                                then Some (case asErr d of None \<Rightarrow> FatalError ''unable to decode the ack err %s, %w'' | Some ce \<Rightarrow> ce)
                                else None)
            in if is_ack flag then
                 (case mget (acks sig) msg_id of
                    None \<Rightarrow> Inr (sig, AckUnknown)
                  | Some ch \<Rightarrow>
                      Inr (sig\<lparr> acks := mdel msg_id (acks sig) \<rparr>,
                           AckTo ch (case err of
                                       Some e \<Rightarrow> Inl e
                                     | None \<Rightarrow> if is_err_ack flag then Inl ThisIsImpossible else Inr data)))
               else if HasPrefix evt ''custom:'' then
                 (if custom_msg_cb sig = None then Inl NilDeref else Inr (sig, CustomMsg (drop 7 evt) data))
               else if evt = ''custom-ack'' then
                 (if custom_ack_msg_cb sig = None then Inl NilDeref else Inr (sig, CustomAckMsg data))
               else if msg_cb sig = None then Inr (sig, DropFrame)
               else Inr (sig, EventMsg evt (need_ack flag) data)))"

text \<open>The frame with which the receiver of an event that asks for an acknowledgement answers.\<close>

definition ackFrame :: "('d option \<Rightarrow> go_err + string) \<Rightarrow> (go_err \<Rightarrow> string) \<Rightarrow> 64 word \<Rightarrow> 'd list \<Rightarrow> go_err option \<Rightarrow> go_err + string" where
  "ackFrame marshal marshalErr msg_id args err =
     (case err of
        None \<Rightarrow> encodeWsTextData marshal '''' msg_id 0 (case args of [] \<Rightarrow> None | a # _ \<Rightarrow> Some a)
      | Some e \<Rightarrow> encodeWsTextData (\<lambda>e. Inr (marshalErr e)) '''' msg_id 1 e)"

section \<open>Message ids\<close>

text \<open>The ids drawn by a sequence of sends.\<close>

fun sendIds :: "('d option \<Rightarrow> go_err + string) \<Rightarrow> (bool \<times> nat \<times> string \<times> 'd list) list \<Rightarrow> WebSocketSignal \<Rightarrow> 64 word list" where
  "sendIds marshal [] sig = []"
| "sendIds marshal ((ack, ch, evt, args) # ms) sig =
     (case SendMsg marshal ack ch evt args sig of
        (sig', i, _) \<Rightarrow> (case i of None \<Rightarrow> [] | Some msg_id \<Rightarrow> [msg_id]) @ sendIds marshal ms sig')"

lemma SendMsg_id:
  "length args \<le> 1 \<Longrightarrow>
   fst (snd (SendMsg marshal ack ch evt args sig)) = Some (next_msg_id sig + 2) \<and>
   next_msg_id (fst (SendMsg marshal ack ch evt args sig)) = next_msg_id sig + 2"
  by (auto simp: SendMsg_def Let_def split: sum.splits)

lemma word_double_inject:
  assumes "i < 2 ^ 63" "j < 2 ^ 63" "(of_nat (2 * (i + 1)) :: 64 word) = of_nat (2 * (j + 1))"
  shows "i = j"
proof -
  have "2 * (i + 1) mod 2 ^ 64 = 2 * (j + 1) mod (2 ^ 64 :: nat)"
  proof -
    have "unat (of_nat m :: 64 word) = m mod 2 ^ 64" for m by (simp add: unsigned_of_nat take_bit_eq_mod)
    then show ?thesis using arg_cong [OF assms(3), of unat] by metis
  qed
  then have "(i + 1) mod 2 ^ 63 = (j + 1) mod (2 ^ 63 :: nat)"
    using mult_mod_right [of 2 "i + 1" "2 ^ 63"] mult_mod_right [of 2 "j + 1" "2 ^ 63"] by simp
  then show ?thesis
    using assms(1,2) by (cases "i + 1 = 2 ^ 63"; cases "j + 1 = 2 ^ 63") auto
qed

lemma sendIds_arith:
  "\<exists>k \<le> length ms. sendIds marshal ms sig = map (\<lambda>i. next_msg_id sig + of_nat (2 * (i + 1))) [0..<k]"
proof (induction ms arbitrary: sig)
  case Nil
  then show ?case by simp
next
  case (Cons m ms)
  obtain ack ch evt args where m: "m = (ack, ch, evt, args)" by (cases m)
  obtain sig' i r where s: "SendMsg marshal ack ch evt args sig = (sig', i, r)" by (cases "SendMsg marshal ack ch evt args sig")
  obtain k where k: "k \<le> length ms"
      "sendIds marshal ms sig' = map (\<lambda>i. next_msg_id sig' + of_nat (2 * (i + 1))) [0..<k]"
    using Cons.IH by blast
  show ?case
  proof (cases "length args \<le> 1")
    case True
    then have i: "i = Some (next_msg_id sig + 2)" "next_msg_id sig' = next_msg_id sig + 2"
      using SendMsg_id [OF True, of marshal ack ch evt sig] s by auto
    have "map (\<lambda>i. next_msg_id sig + of_nat (2 * (i + 1))) [0..<Suc k] =
        (next_msg_id sig + 2) # map (\<lambda>i. next_msg_id sig + 2 + of_nat (2 * (i + 1))) [0..<k]"
      by (simp add: upt_conv_Cons map_Suc_upt [symmetric] o_def algebra_simps del: upt_Suc map_Suc_upt)
    then show ?thesis using k i m s by (intro exI [of _ "Suc k"]) simp
  next
    case False
    then have "sig' = sig" "i = None" using s by (auto simp: SendMsg_def)
    then show ?thesis using k m s by (intro exI [of _ k]) simp
  qed
qed

lemma distinct_sendIds:
  assumes "length ms \<le> 2 ^ 63"
  shows "distinct (sendIds marshal ms sig)"
proof -
  obtain k where k: "k \<le> length ms"
      "sendIds marshal ms sig = map (\<lambda>i. next_msg_id sig + of_nat (2 * (i + 1))) [0..<k]"
    using sendIds_arith by blast
  have "inj_on (\<lambda>i. next_msg_id sig + of_nat (2 * (i + 1))) {0..<k}"
  proof (rule inj_onI)
    fix i j assume ij: "i \<in> {0..<k}" "j \<in> {0..<k}"
      and "next_msg_id sig + of_nat (2 * (i + 1)) = next_msg_id sig + of_nat (2 * (j + 1))"
    then have "(of_nat (2 * (i + 1)) :: 64 word) = of_nat (2 * (j + 1))" by (simp only: add_left_cancel)
    with ij k assms show "i = j" by (intro word_double_inject) auto
  qed
  then show ?thesis unfolding k(2) distinct_map by simp
qed

lemma custom_ack_flags [simp]: "isValidWsMsgFlag 0" "isValidWsMsgFlag 1" "isValidWsMsgFlag 2" "isValidWsMsgFlag 4"
  "is_ack 0" "is_ack 1" "\<not> is_ack 2" "\<not> is_ack 4" "\<not> is_err_ack 0" "is_err_ack 1" "need_ack 2" "\<not> need_ack 4"
  by (simp_all add: isValidWsMsgFlag_def is_ack_def is_normal_ack_def is_err_ack_def need_ack_def)

section \<open>Properties\<close>

text \<open>C33: a frame whose event name has no semicolon decodes to what was encoded, for every message id
  and valid flag, whatever the JSON text contains.\<close>

theorem ws_roundtrip:
  assumes "CHR '';'' \<notin> set evt" "isValidWsMsgFlag flag" "encodeWsTextData marshal evt msg_id flag data = Inr frame"
  shows "\<exists>data_str. marshal data = Inr data_str \<and> decodeWsTextData frame = Inr (Inr (evt, msg_id, flag, data_str))"
  using decode_frame [OF assms(1,2), of msg_id] assms(3) by (auto simp: encodeWsTextData_def bind_res_Inr_iff)

text \<open>C28: a request and its answer: the frame that \<open>SendMsg\<close> writes with an acknowledgement requested
  reaches the peer as the event with its data, and the frame with which the peer acknowledges it
  resolves the channel of exactly this request with the peer's answer and clears its entry.\<close>

theorem ws_request_reply:
  assumes evt: "CHR '';'' \<notin> set evt" "\<not> HasPrefix evt ''custom:''" "evt \<noteq> ''custom-ack''"
    and arg: "marshal (Some a) = Inr s" "json s = Some a" "s \<noteq> ''''"
    and reply: "marshal (Some b) = Inr t" "json t = Some b" "t \<noteq> ''''"
    and sent: "SendMsg marshal True ch evt [a] sig = (sig', Some msg_id, Inr frame)"
    and peer: "msg_cb peer \<noteq> None"
  shows "msg_handler json asErr frame peer = Inr (peer, EventMsg evt True (Some a)) \<and>
    (\<exists>answer. ackFrame marshal marshalErr msg_id [b] None = Inr answer \<and>
       msg_handler json asErr answer sig' = Inr (sig'\<lparr> acks := mdel msg_id (acks sig') \<rparr>, AckTo ch (Inr (Some b))))"
proof -
  have f: "frame = evt @ '';'' @ decimal (unat msg_id) @ '';'' @ decimal 2 @ '';'' @ s"
      and k: "mget (acks sig') msg_id = Some ch"
    using sent arg(1) by (auto simp: SendMsg_def encodeWsTextData_def Let_def gomap_simps)
  have e: "ackFrame marshal marshalErr msg_id [b] None = Inr ('''' @ '';'' @ decimal (unat msg_id) @ '';'' @ decimal 0 @ '';'' @ t)"
    using reply(1) by (simp add: ackFrame_def encodeWsTextData_def)
  have "decodeWsTextData frame = Inr (Inr (evt, msg_id, 2, s))"
    unfolding f by (rule decode_frame) (use evt in simp_all)
  then have "msg_handler json asErr frame peer = Inr (peer, EventMsg evt True (Some a))"
    using evt arg peer by (simp add: msg_handler_def Let_def)
  moreover have "decodeWsTextData ('''' @ '';'' @ decimal (unat msg_id) @ '';'' @ decimal 0 @ '';'' @ t) =
      Inr (Inr ('''', msg_id, 0, t))"
    by (rule decode_frame) simp_all
  ultimately show ?thesis
    unfolding e using k reply by (simp add: msg_handler_def Let_def del: append.simps)
qed

text \<open>no waiting channel is left behind by a message that is sent while its id is free: when the encoding
  or the write fails, and when the context ends first, the table of pending acknowledgements is
  what it was before; only the end of the connection leaves the entry in the table.\<close>

theorem SendMsg_releases:
  assumes "mget (acks sig) (next_msg_id sig + 2) = None" "length args \<le> 1"
    and "SendMsg marshal ack ch evt args sig = (sig', Some msg_id, r)"
  shows "(case r of
            Inl e \<Rightarrow> acks sig' = acks sig
          | Inr frame \<Rightarrow>
              acks (fst (SendMsg_wait ack msg_id (Some e1) (w :: 'd AckWait) sig')) = acks sig \<and>
              acks (fst (SendMsg_wait ack msg_id None (CtxDone e2 :: 'd AckWait) sig')) = acks sig \<and>
              acks (fst (SendMsg_wait ack msg_id None (ConnClosed e3 :: 'd AckWait) sig')) =
                (if ack then acks sig @ [(msg_id, ch)] else acks sig))"
proof -
  let ?i = "next_msg_id sig + 2"
  have u: "mput ?i ch (acks sig) = acks sig @ [(?i, ch)]"
    using assms(1) by (rule update_fresh)
  have d: "mdel ?i (acks sig @ [(?i, ch)]) = acks sig"
    using assms(1) by (simp add: delete_fresh_append)
  show ?thesis
    using assms(2,3) u d
    by (auto simp: SendMsg_def SendMsg_wait_def releaseAck_def Let_def split: sum.splits if_splits option.splits)
qed

theorem SendMsg_releases_witness:
  "acks (fst (SendMsg_wait True 2 None (CtxDone (PlainError ''e'') :: unit AckWait)
     (fst (SendMsg (\<lambda>_ :: unit option. Inr ''{}'') True 5 ''join'' [] (NewWebSocketSignal WS_SIGNAL_MODE_SERVER))))) = []"
proof -
  let ?m = "\<lambda>_ :: unit option. Inr ''{}'' :: go_err + string"
  have s: "SendMsg ?m True 5 ''join'' [] (NewWebSocketSignal WS_SIGNAL_MODE_SERVER) =
      ((NewWebSocketSignal WS_SIGNAL_MODE_SERVER)\<lparr> next_msg_id := 2, acks := [(2, 5)] \<rparr>, Some 2, Inr ''join;2;2;{}'')"
    by code_simp
  from SendMsg_releases [OF _ _ s, of "PlainError ''e''" "CtxDone (PlainError ''e'') :: unit AckWait" "PlainError ''e''" None] s show ?thesis
    by (simp add: NewWebSocketSignal_def)
qed

text \<open>the ids of up to \<open>2 ^ 63\<close> successive messages of one side are pairwise different, across the
  overflow of the 64-bit counter too, so no pending entry is overwritten.\<close>

theorem msg_ids_distinct:
  assumes "length ms \<le> 2 ^ 63"
  shows "distinct (sendIds marshal ms sig)"
  by (rule distinct_sendIds [OF assms])

text \<open>a frame whose message id is no number is not rejected: the error path itself panics.\<close>

theorem decode_bad_id_panics: "decodeWsTextData ''join;x;2;{}'' = Inl NilDeref"
  by code_simp

text \<open>a semicolon in the event name, which a client chooses freely for custom messages, injects
  the message id and the flag: the peer reads event, id and flag out of the name.\<close>

theorem ws_header_injection:
  "\<exists>frame. encodeWsTextData (\<lambda>_. Inr ''{}'') ''custom:a;7;2;b'' msg_id 4 () = Inr frame \<and>
     (\<exists>rest. decodeWsTextData frame = Inr (Inr (''custom:a'', 7, 2, rest)))"
proof -
  have n: "decimal 7 = ''7''" "decimal 2 = ''2''" by code_simp+
  have d: "''custom:a;7;2;b'' @ '';'' @ x = ''custom:a'' @ '';'' @ decimal (unat (7 :: 64 word)) @ '';'' @ decimal 2 @ '';'' @ (''b;'' @ x)" for x
    by (simp add: n)
  have "decodeWsTextData (''custom:a;7;2;b'' @ '';'' @ x) = Inr (Inr (''custom:a'', 7, 2, ''b;'' @ x))" for x
    unfolding d by (rule decode_frame) simp_all
  then show ?thesis unfolding encodeWsTextData_def bind_res_simps by blast
qed

theorem ws_roundtrip_witness:
  "decodeWsTextData ''ping;12;4;{}'' = Inr (Inr (''ping'', 12, 4, ''{}''))"
proof -
  have "encodeWsTextData (\<lambda>_ :: unit. Inr ''{}'') ''ping'' 12 4 () = Inr ''ping;12;4;{}''" by code_simp
  from ws_roundtrip [OF _ _ this] show ?thesis by simp
qed

theorem msg_ids_distinct_witness:
  "distinct (sendIds (\<lambda>_ :: unit option. Inr '''') [(True, 0, ''a'', []), (False, 0, ''b'', [])] (NewWebSocketSignal WS_SIGNAL_MODE_CLIENT))"
  by (rule msg_ids_distinct) simp

theorem ws_request_reply_witness:
  "\<exists>answer. ackFrame (\<lambda>d. Inr (case d of Some True \<Rightarrow> ''true'' | Some False \<Rightarrow> ''false'' | None \<Rightarrow> ''null'')) (\<lambda>_. '''') 3 [False] None = Inr answer \<and>
     msg_handler (\<lambda>x. if x = ''true'' then Some True else if x = ''false'' then Some False else None) (\<lambda>_. None) answer
       ((NewWebSocketSignal WS_SIGNAL_MODE_CLIENT)\<lparr> next_msg_id := 3, acks := [(3, 8)] \<rparr>) =
     Inr ((NewWebSocketSignal WS_SIGNAL_MODE_CLIENT)\<lparr> next_msg_id := 3, acks := [] \<rparr>, AckTo 8 (Inr (Some False)))"
proof -
  let ?m = "\<lambda>d. Inr (case d of Some True \<Rightarrow> ''true'' | Some False \<Rightarrow> ''false'' | None \<Rightarrow> ''null'') :: go_err + string"
  let ?j = "\<lambda>x. if x = ''true'' then Some True else if x = ''false'' then Some False else None"
  have s: "SendMsg ?m True 8 ''join'' [True] (NewWebSocketSignal WS_SIGNAL_MODE_CLIENT) =
      ((NewWebSocketSignal WS_SIGNAL_MODE_CLIENT)\<lparr> next_msg_id := 3, acks := [(3, 8)] \<rparr>, Some 3, Inr ''join;3;2;true'')"
    by code_simp
  have h: "\<not> HasPrefix ''join'' ''custom:''" by code_simp
  have p: "msg_cb (ws_On 0 (NewWebSocketSignal WS_SIGNAL_MODE_SERVER)) \<noteq> None" by (simp add: ws_On_def)
  from ws_request_reply [where evt = "''join''" and a = True and s = "''true''" and b = False and t = "''false''"
      and json = ?j and marshal = ?m and asErr = "\<lambda>_. None" and marshalErr = "\<lambda>_. ''''", OF _ h _ _ _ _ _ _ _ s p]
  show ?thesis by simp
qed

end
