(* ===== verification/SignalTracks.thy ===== *)
theory SignalTracks
  imports Messages WsCodec
begin

text \<open>
  Subscriptions and publications (\<open>signal/model.go\<close>): what a subscription accepts from the state
  messages of publishers, how it follows a changed pattern and closes; the tracks of a publication
  with their binding to the remote tracks of the WebRTC peer; and how a track is found again by its
  media id. The WebRTC peer and the attachment of a track to it are parameters: \<open>attach\<close> stands for
  \<open>router.AcceptTrack\<close>, \<open>peer.AddTrack\<close> and \<open>getMidFromSender\<close> on one track, the transceivers are
  data. \<open>ord\<close> is the order in which \<open>MatchTracks\<close> ranges over its groups.
\<close>

type_synonym GroupOrder = "(string \<times> Track list) list \<Rightarrow> (string \<times> Track list) list"

section \<open>Subscriptions\<close>

record SubscribedTrack =
  stPubTrack :: Track
  stSid :: string
  stAccepter :: nat
  stLocalId :: string
  stSender :: nat
  stBindId :: string
  stLabels :: "(string, string) gomap"

record Subscription =
  sbId :: string
  sbClosed :: bool
  sbReqTypes :: "string list"
  sbPattern :: PublicationPattern
  sbAcceptedPubId :: string
  sbAcceptedTrack :: "(string, SubscribedTrack) gomap"

text \<open>What attaching a track to the peer yields: the accepter with its local track, the sender, the
  media id.\<close>

record Attached =
  atAccepter :: nat
  atLocalId :: string
  atStreamId :: string
  atSender :: nat
  atMid :: string

text \<open>\<open>SubscribedTrack.Remove\<close>: the peer drops the sender and the entry of the track's own global id
  goes. The second component collects the dropped senders.\<close>

definition SubscribedTrack_Remove :: "SubscribedTrack \<Rightarrow> Subscription \<times> nat list \<Rightarrow> Subscription \<times> nat list" where
  "SubscribedTrack_Remove st s =
     ((fst s)\<lparr> sbAcceptedTrack := mdel (globalId (stPubTrack st)) (sbAcceptedTrack (fst s)) \<rparr>, snd s @ [stSender st])"

fun removeUnmatched :: "Track list \<Rightarrow> Subscription \<times> nat list \<Rightarrow> Subscription \<times> nat list" where
  "removeUnmatched [] s = s"
| "removeUnmatched (t # ts) s =
     removeUnmatched ts
       (case mget (sbAcceptedTrack (fst s)) (globalId t) of
          Some st \<Rightarrow> SubscribedTrack_Remove st s
        | None \<Rightarrow> s)"

text \<open>
  The loop over the matched tracks. It returns the subscription, the tracks told to the client, and
  the accepters bound (\<open>need_neg\<close> is that there is one). Where \<open>AddTrack\<close> fails the code panics.
\<close>

fun attachLoop :: "(Track \<Rightarrow> go_err + Attached) \<Rightarrow> Track list \<Rightarrow> Subscription \<Rightarrow> (Subscription \<times> Track list \<times> nat list) res" where
  "attachLoop attach [] s = Inr (s, [], [])"
| "attachLoop attach (matched # ms) s =
     (let track = CopyTrack matched
      in case mget (sbAcceptedTrack s) (globalId track) of
           None \<Rightarrow>
             (case attach track of
                Inl e \<Rightarrow> Inl (ErrorPanic e)
              | Inr a \<Rightarrow>
                  (let track' = track\<lparr> localId := atLocalId a, bindId := atMid a, streamId := atStreamId a \<rparr>;
                       st = \<lparr> stPubTrack = track', stSid = atStreamId a, stAccepter = atAccepter a, stLocalId = atLocalId a,
                              stSender = atSender a, stBindId = atMid a, stLabels = labels track \<rparr>;
                       s' = s\<lparr> sbAcceptedTrack := mput (globalId track) st (sbAcceptedTrack s) \<rparr>
                   in bind_res (attachLoop attach ms s') (\<lambda>(s'', ts, bound).
                        Inr (s'', track' # ts, atAccepter a # bound))))
         | Some st \<Rightarrow>
             (let track' = track\<lparr> localId := stLocalId st, bindId := stBindId st, streamId := stSid st \<rparr>
              in bind_res (attachLoop attach ms s) (\<lambda>(s'', ts, bound). Inr (s'', track' # ts, bound))))"

text \<open>What \<open>AcceptTrack\<close> sends when it attached a track: the select message's tracks for the publisher
  and the tracks of the \<open>subscribed\<close> message for the client.\<close>

record Negotiation =
  ngPubId :: string
  ngSelect :: "Track list"
  ngSubscribed :: "Track list"
  ngBound :: "nat list"

definition acceptMatched :: "go_err option \<Rightarrow> (Track \<Rightarrow> go_err + Attached) \<Rightarrow> StateMessage \<Rightarrow> Track list \<Rightarrow> Subscription \<times> nat list
    \<Rightarrow> (Subscription \<times> nat list \<times> Negotiation option) res" where
  "acceptMatched peerErr attach msg matcheds s =
     (case peerErr of
        Some e \<Rightarrow> Inl (ErrorPanic e)
      | None \<Rightarrow>
          bind_res (attachLoop attach matcheds ((fst s)\<lparr> sbAcceptedPubId := smPubId msg \<rparr>)) (\<lambda>(s', subTracks, bound).
            Inr (s', snd s,
                 if bound = [] then None
                 else Some \<lparr> ngPubId = smPubId msg, ngSelect = matcheds, ngSubscribed = subTracks, ngBound = bound \<rparr>)))"

definition Subscription_AcceptTrack :: "GroupOrder \<Rightarrow> go_err option \<Rightarrow> (Track \<Rightarrow> go_err + Attached) \<Rightarrow> StateMessage \<Rightarrow> Subscription
    \<Rightarrow> (Subscription \<times> nat list \<times> Negotiation option) res" where
  "Subscription_AcceptTrack ord peerErr attach msg s =
     (if sbClosed s then Inr (s, [], None)
      else if sbAcceptedPubId s \<noteq> '''' \<and> sbAcceptedPubId s \<noteq> smPubId msg then Inr (s, [], None)
      else
        bind_res (MatchTracks ord (sbPattern s) (smTracks msg) (sbReqTypes s)) (\<lambda>(matcheds, unmatcheds).
          if sbAcceptedPubId s = smPubId msg
          then (case removeUnmatched unmatcheds (s, []) of
                  (s', removed) \<Rightarrow>
                    if matcheds = [] then Inr (s'\<lparr> sbAcceptedPubId := '''' \<rparr>, removed, None)
                    else acceptMatched peerErr attach msg matcheds (s', removed))
          else if matcheds = [] then Inr (s, [], None)
          else acceptMatched peerErr attach msg matcheds (s, [])))"

definition UnbindAccepter :: "nat \<Rightarrow> Subscription \<Rightarrow> Subscription \<times> nat list" where
  "UnbindAccepter accepter s =
     fold SubscribedTrack_Remove (filter (\<lambda>st. stAccepter st = accepter) (map snd (sbAcceptedTrack s))) (s, [])"

definition UpdatePattern :: "GroupOrder \<Rightarrow> PublicationPattern \<Rightarrow> string list \<Rightarrow> Subscription \<Rightarrow> (Subscription \<times> nat list) res" where
  "UpdatePattern ord pattern reqTypes s =
     bind_res (MatchTracks ord pattern (map (\<lambda>(_, st). stPubTrack st) (sbAcceptedTrack s)) reqTypes) (\<lambda>(_, unmatched).
       case removeUnmatched unmatched (s, []) of
         (s', removed) \<Rightarrow> Inr (s'\<lparr> sbReqTypes := reqTypes, sbPattern := pattern \<rparr>, removed))"

text \<open>\<open>Close\<close>: the pairs are the calls \<open>router.UnbindSub(s.id, tid)\<close>; the entry in the context's map is
  deleted by the caller's theory.\<close>

definition Subscription_Close :: "Subscription \<Rightarrow> Subscription \<times> (string \<times> string) list \<times> nat list" where
  "Subscription_Close s =
     (s\<lparr> sbClosed := True, sbAcceptedTrack := [] \<rparr>,
      map (\<lambda>(tid, _). (sbId s, tid)) (sbAcceptedTrack s),
      map (\<lambda>(_, st). stSender st) (sbAcceptedTrack s))"

section \<open>Media ids\<close>

record TrackRemote =
  rtRef :: nat
  rtRid :: string
  rtStreamId :: string

text \<open>A transceiver with its sender and the tracks of its receiver (\<open>None\<close>: no receiver).\<close>

record RTPTransceiver =
  tvMid :: string
  tvSender :: nat
  tvReceiver :: "TrackRemote list option"

fun findTransiverBySender :: "RTPTransceiver list \<Rightarrow> nat \<Rightarrow> nat \<Rightarrow> (RTPTransceiver \<times> nat) option" where
  "findTransiverBySender [] i sender = None"
| "findTransiverBySender (tv # tvs) i sender =
     (if tvSender tv = sender then Some (tv, i) else findTransiverBySender tvs (Suc i) sender)"

definition getMidFromSender :: "RTPTransceiver list \<Rightarrow> nat \<Rightarrow> string" where
  "getMidFromSender tvs sender =
     (case findTransiverBySender tvs 0 sender of
        Some (tv, pos) \<Rightarrow> if tvMid tv \<noteq> '''' then tvMid tv else ''pos:'' @ decimal pos
      | None \<Rightarrow> '''')"

text \<open>The choice among the tracks of the transceiver that was found.\<close>

definition pickRemote :: "TrackRemote list \<Rightarrow> string \<Rightarrow> string \<Rightarrow> TrackRemote option" where
  "pickRemote tracks sid rd =
     (if length tracks > 1
      then (case find (\<lambda>t. rtRid t = rd) tracks of
              Some t \<Rightarrow> if rtStreamId t = sid then Some t else None
            | None \<Rightarrow> None)
      else (case tracks of
              [] \<Rightarrow> None
            | track # _ \<Rightarrow>
                if rd \<noteq> ''''
                then (if rtRid track = rd then (if rtStreamId track = sid then Some track else None) else None)
                else (if rtStreamId track = sid then Some track else None)))"

fun findAt :: "RTPTransceiver list \<Rightarrow> int \<Rightarrow> int \<Rightarrow> string \<Rightarrow> RTPTransceiver option" where
  "findAt [] i pos mid = None"
| "findAt (tv # tvs) i pos mid =
     (if (pos = -1 \<and> tvMid tv = mid) \<or> pos = i then Some tv else findAt tvs (i + 1) pos mid)"

definition findTracksRemoteByMidAndRid :: "RTPTransceiver list \<Rightarrow> string \<Rightarrow> string \<Rightarrow> string
    \<Rightarrow> (TrackRemote option \<times> RTPTransceiver option) res" where
  "findTracksRemoteByMidAndRid tvs sid mid rd =
     bind_res (if HasPrefix mid ''pos:''
               then (case Atoi (drop 4 mid) of None \<Rightarrow> Inl (ErrorPanic (PlainError ''invalid syntax'')) | Some p \<Rightarrow> Inr p)
               else Inr (-1)) (\<lambda>pos.
       case findAt tvs 0 pos mid of
         None \<Rightarrow> Inr (None, None)
       | Some tv \<Rightarrow> Inr (case tvReceiver tv of None \<Rightarrow> None | Some tracks \<Rightarrow> pickRemote tracks sid rd, Some tv))"

section \<open>Publications\<close>

record PublishedTrack =
  ptTrack :: Track
  ptRemote :: "nat option"

record Publication =
  pbId :: string
  pbClosed :: bool
  pbTracks :: "(string, PublishedTrack) gomap"
  pbRecordStart :: bool

definition isBind :: "PublishedTrack \<Rightarrow> bool" where
  "isBind pt = (ptRemote pt \<noteq> None)"

definition isAllBind :: "Publication \<Rightarrow> bool" where
  "isAllBind me = MapAllMatch (pbTracks me) (\<lambda>_ pt. isBind pt)"

definition Publication_State :: "GroupOrder \<Rightarrow> WantMessage \<Rightarrow> PublicationPattern \<Rightarrow> Publication \<Rightarrow> Track list res" where
  "Publication_State ord want pattern me =
     bind_res (MatchTracks ord pattern
                 (MapValuesTo (pbTracks me) (\<lambda>_ pt. if \<not> isBind pt then None else Some (ptTrack pt))) (wmReqTypes want))
       (\<lambda>(matched, _). Inr matched)"

text \<open>
  The inner function of \<open>PublishedTrack.Bind\<close>: \<open>codecOf\<close> is the codec of a remote track (\<open>None\<close> for an
  empty mime type) and \<open>idOf\<close> its id. The code reports the bound track to the client afterwards.
\<close>

definition bindRemote :: "(nat \<Rightarrow> RTPCodecParameters option) \<Rightarrow> (nat \<Rightarrow> string) \<Rightarrow> RTPTransceiver list \<Rightarrow> PublishedTrack
    \<Rightarrow> (PublishedTrack \<times> bool) res" where
  "bindRemote codecOf idOf tvs pt =
     bind_res (findTracksRemoteByMidAndRid tvs (streamId (ptTrack pt)) (bindId (ptTrack pt)) (rid (ptTrack pt))) (\<lambda>(found, _).
       case found of
         None \<Rightarrow> Inr (pt, False)
       | Some rt \<Rightarrow>
           if ptRemote pt = Some (rtRef rt) then Inr (pt, True)
           else (case codecOf (rtRef rt) of
                   None \<Rightarrow> Inr (pt, False)
                 | Some cdc \<Rightarrow>
                     Inr (\<lparr> ptTrack = (ptTrack pt)\<lparr> codec := Some cdc, localId := idOf (rtRef rt) \<rparr>,
                            ptRemote = Some (rtRef rt) \<rparr>, True)))"

definition Publication_Close :: "Publication \<Rightarrow> Publication res" where
  "Publication_Close me =
     (if pbClosed me then Inl (ErrorPanic (PlainError ''close of closed channel'')) else Inr (me\<lparr> pbClosed := True \<rparr>))"

section \<open>Lemmas on subscriptions\<close>

abbreviation accepted :: "Subscription \<Rightarrow> string set" where
  "accepted s \<equiv> dom (mget (sbAcceptedTrack s))"

text \<open>The invariant of a subscription: one entry per global id, filed under the id of its own track, and
  none once it is closed.\<close>

definition sub_ok :: "Subscription \<Rightarrow> bool" where
  "sub_ok s \<longleftrightarrow> mwf (sbAcceptedTrack s) \<and>
     (\<forall>g st. mget (sbAcceptedTrack s) g = Some st \<longrightarrow> globalId (stPubTrack st) = g) \<and>
     (sbClosed s \<longrightarrow> sbAcceptedTrack s = [])"

lemma sub_ok_Remove:
  assumes "sub_ok (fst s)" "mget (sbAcceptedTrack (fst s)) g = Some st"
  shows "sub_ok (fst (SubscribedTrack_Remove st s)) \<and>
    accepted (fst (SubscribedTrack_Remove st s)) = accepted (fst s) - {g}"
  using assms by (auto simp: sub_ok_def SubscribedTrack_Remove_def gomap_simps delete_conv' split: if_splits)

lemma Remove_fields [simp]:
  "sbAcceptedPubId (fst (SubscribedTrack_Remove st s)) = sbAcceptedPubId (fst s)"
  "sbPattern (fst (SubscribedTrack_Remove st s)) = sbPattern (fst s)"
  "sbReqTypes (fst (SubscribedTrack_Remove st s)) = sbReqTypes (fst s)"
  "sbClosed (fst (SubscribedTrack_Remove st s)) = sbClosed (fst s)"
  "sbId (fst (SubscribedTrack_Remove st s)) = sbId (fst s)"
  by (simp_all add: SubscribedTrack_Remove_def)

lemma removeUnmatched_ok:
  "sub_ok (fst s) \<Longrightarrow>
   sub_ok (fst (removeUnmatched ts s)) \<and>
   accepted (fst (removeUnmatched ts s)) = accepted (fst s) - globalId ` set ts \<and>
   sbAcceptedPubId (fst (removeUnmatched ts s)) = sbAcceptedPubId (fst s) \<and>
   sbClosed (fst (removeUnmatched ts s)) = sbClosed (fst s)"
proof (induction ts s rule: removeUnmatched.induct)
  case (1 s)
  then show ?case by simp
next
  case (2 t ts s)
  show ?case
  proof (cases "mget (sbAcceptedTrack (fst s)) (globalId t)")
    case None
    then have "globalId t \<notin> accepted (fst s)" by (simp add: domIff)
    then show ?thesis using 2 None by auto
  next
    case (Some st)
    have r: "sub_ok (fst (SubscribedTrack_Remove st s))"
        "accepted (fst (SubscribedTrack_Remove st s)) = accepted (fst s) - {globalId t}"
      using sub_ok_Remove [OF 2(2) Some] by blast+
    have e: "removeUnmatched (t # ts) s = removeUnmatched ts (SubscribedTrack_Remove st s)"
      using Some by simp
    have "sub_ok (fst (case mget (sbAcceptedTrack (fst s)) (globalId t) of
        Some st \<Rightarrow> SubscribedTrack_Remove st s | None \<Rightarrow> s))"
      using r(1) Some by simp
    from 2(1) [OF this] Some show ?thesis
      unfolding e r(2) by (simp add: r(2) Diff_insert2 [symmetric] insert_commute)
  qed
qed

lemma attachLoop_ok:
  assumes "\<And>t. \<exists>a. attach t = Inr a" "sub_ok s" "\<not> sbClosed s"
  shows "\<exists>s' ts bound. attachLoop attach ms s = Inr (s', ts, bound) \<and> sub_ok s' \<and> \<not> sbClosed s' \<and>
    accepted s' = accepted s \<union> globalId ` set ms \<and> sbAcceptedPubId s' = sbAcceptedPubId s \<and>
    (bound = [] \<longleftrightarrow> globalId ` set ms \<subseteq> accepted s) \<and> map globalId ts = map globalId ms"
  using assms(2,3)
proof (induction ms arbitrary: s)
  case Nil
  then show ?case by simp
next
  case (Cons m ms)
  show ?case
  proof (cases "mget (sbAcceptedTrack s) (globalId m)")
    case (Some st)
    then have g: "globalId m \<in> accepted s" by blast
    obtain s' ts bound where i: "attachLoop attach ms s = Inr (s', ts, bound)" "sub_ok s'" "\<not> sbClosed s'"
        "accepted s' = accepted s \<union> globalId ` set ms" "sbAcceptedPubId s' = sbAcceptedPubId s"
        "bound = [] \<longleftrightarrow> globalId ` set ms \<subseteq> accepted s" "map globalId ts = map globalId ms"
      using Cons.IH [OF Cons.prems] by (elim exE conjE) (rule that, assumption+)
    have e: "attachLoop attach (m # ms) s =
        Inr (s', m\<lparr> localId := stLocalId st, bindId := stBindId st, streamId := stSid st \<rparr> # ts, bound)"
      using Some i(1) by (simp add: Let_def)
    show ?thesis
    proof (intro exI conjI)
      show "accepted s' = accepted s \<union> globalId ` set (m # ms)" unfolding i(4) list.set(2) image_insert Un_insert_right using g by blast
      show "bound = [] \<longleftrightarrow> globalId ` set (m # ms) \<subseteq> accepted s" unfolding i(6) list.set(2) image_insert using g by blast
    qed (rule e | fact i | use i(7) in simp)+
  next
    case None
    obtain a where a: "attach m = Inr a" using assms(1) by blast
    let ?t = "m\<lparr> localId := atLocalId a, bindId := atMid a, streamId := atStreamId a \<rparr>"
    let ?s = "s\<lparr> sbAcceptedTrack := mput (globalId m)
        \<lparr> stPubTrack = ?t, stSid = atStreamId a, stAccepter = atAccepter a, stLocalId = atLocalId a,
          stSender = atSender a, stBindId = atMid a, stLabels = labels m \<rparr> (sbAcceptedTrack s) \<rparr>"
    have ok: "sub_ok ?s" "\<not> sbClosed ?s" using Cons.prems by (auto simp: sub_ok_def gomap_simps split: if_splits)
    have d: "accepted ?s = insert (globalId m) (accepted s)" by (auto simp: gomap_simps split: if_splits)
    have n: "globalId m \<notin> accepted s" using None by (simp add: domIff)
    obtain s' ts bound where i: "attachLoop attach ms ?s = Inr (s', ts, bound)" "sub_ok s'" "\<not> sbClosed s'"
        "accepted s' = accepted ?s \<union> globalId ` set ms" "sbAcceptedPubId s' = sbAcceptedPubId ?s"
        "map globalId ts = map globalId ms"
      using Cons.IH [OF ok] by (elim exE conjE) (rule that, assumption+)
    have e: "attachLoop attach (m # ms) s = Inr (s', ?t # ts, atAccepter a # bound)"
      using None a i(1) by (simp add: Let_def)
    show ?thesis
    proof (intro exI conjI)
      show "accepted s' = accepted s \<union> globalId ` set (m # ms)" unfolding i(4) d by simp
      show "atAccepter a # bound = [] \<longleftrightarrow> globalId ` set (m # ms) \<subseteq> accepted s" unfolding list.set(2) image_insert insert_subset using n by simp
      show "map globalId (?t # ts) = map globalId (m # ms)" using i(6) by simp
    qed (rule e | fact i | use i(5) in simp)+
  qed
qed

lemma map_globalId_set: "globalId ` set ts = set (map globalId ts)"
  by simp

text \<open>\<open>UpdatePattern\<close> keeps exactly the tracks that the new pattern matches.\<close>

lemma UpdatePattern_ok:
  assumes "sub_ok s" "Validate pattern = Inr ()" "\<And>g. mset (ord g) = mset g"
  shows "\<exists>s' removed. UpdatePattern ord pattern reqTypes s = Inr (s', removed) \<and> sub_ok s' \<and>
    sbPattern s' = pattern \<and> sbReqTypes s' = reqTypes \<and>
    (\<exists>matched unmatched.
       MatchTracks ord pattern (map (\<lambda>(_, st). stPubTrack st) (sbAcceptedTrack s)) reqTypes = Inr (matched, unmatched) \<and>
       accepted s' = accepted s - globalId ` set unmatched)"
proof -
  obtain matched unmatched where
      m: "MatchTracks ord pattern (map (\<lambda>(_, st). stPubTrack st) (sbAcceptedTrack s)) reqTypes = Inr (matched, unmatched)"
    using MatchTracks_spec [OF assms(2,3)] by blast
  obtain s' removed where r: "removeUnmatched unmatched (s, []) = (s', removed)" by fastforce
  have "sub_ok s'" "accepted s' = accepted s - globalId ` set unmatched"
    using removeUnmatched_ok [of "(s, [])" unmatched] assms(1) r by simp_all
  then show ?thesis
    using m r by (simp add: UpdatePattern_def sub_ok_def)
qed

section \<open>Properties of subscriptions\<close>

text \<open>C25: an open subscription that is free or follows the publication of a state message ends up with
  exactly these tracks: it drops the announced tracks that its pattern does not match (when it
  follows the publication), attaches every matched track once, keeps one entry per global id, and
  negotiates exactly when a track is new. No branch panics when the peer accepts the tracks.\<close>

theorem Subscription_AcceptTrack_correct:
  assumes "sub_ok s" "\<not> sbClosed s" "Validate (sbPattern s) = Inr ()" "\<And>g. mset (ord g) = mset g"
    and "\<And>t. \<exists>a. attach t = Inr a" "sbAcceptedPubId s = '''' \<or> sbAcceptedPubId s = smPubId msg"
  shows "\<exists>matched unmatched s' removed neg.
    MatchTracks ord (sbPattern s) (smTracks msg) (sbReqTypes s) = Inr (matched, unmatched) \<and>
    Subscription_AcceptTrack ord None attach msg s = Inr (s', removed, neg) \<and> sub_ok s' \<and>
    (let kept = (if sbAcceptedPubId s = smPubId msg then accepted s - globalId ` set unmatched else accepted s)
     in accepted s' = kept \<union> globalId ` set matched \<and>
        (neg = None \<longleftrightarrow> globalId ` set matched \<subseteq> kept)) \<and>
    sbAcceptedPubId s' =
      (if matched \<noteq> [] then smPubId msg else if sbAcceptedPubId s = smPubId msg then '''' else sbAcceptedPubId s)"
proof -
  obtain matched unmatched where
      m: "MatchTracks ord (sbPattern s) (smTracks msg) (sbReqTypes s) = Inr (matched, unmatched)"
    using MatchTracks_spec [OF assms(3,4)] by blast
  obtain s1 rem where r: "removeUnmatched unmatched (s, []) = (s1, rem)" by fastforce
  have s1: "sub_ok s1" "accepted s1 = accepted s - globalId ` set unmatched"
      "sbAcceptedPubId s1 = sbAcceptedPubId s" "sbClosed s1 = sbClosed s"
    using removeUnmatched_ok [of "(s, [])" unmatched] assms(1) r by simp_all
  let ?b = "if sbAcceptedPubId s = smPubId msg then (s1, rem) else (s, [])"
  let ?kept = "if sbAcceptedPubId s = smPubId msg then accepted s - globalId ` set unmatched else accepted s"
  let ?s2 = "(fst ?b)\<lparr> sbAcceptedPubId := smPubId msg \<rparr>"
  have b: "sub_ok (fst ?b)" "\<not> sbClosed (fst ?b)" "accepted (fst ?b) = ?kept" using s1 assms(1,2) by simp_all
  then have s2: "sub_ok ?s2" "\<not> sbClosed ?s2" by (simp_all add: sub_ok_def)
  obtain s' ts bound where a: "attachLoop attach matched ?s2 = Inr (s', ts, bound)" "sub_ok s'"
      "accepted s' = accepted ?s2 \<union> globalId ` set matched" "sbAcceptedPubId s' = sbAcceptedPubId ?s2"
      "bound = [] \<longleftrightarrow> globalId ` set matched \<subseteq> accepted ?s2"
    using attachLoop_ok [where attach = attach and ms = matched, OF assms(5) s2] by (elim exE conjE) (rule that, assumption+)
  show ?thesis
  proof (cases "matched = []")
    case True
    let ?f = "if sbAcceptedPubId s = smPubId msg then (fst ?b)\<lparr> sbAcceptedPubId := '''' \<rparr> else s"
    have e: "Subscription_AcceptTrack ord None attach msg s = Inr (?f, snd ?b, None)"
      using m r assms(2,6) True by (auto simp: Subscription_AcceptTrack_def)
    have f: "accepted ?f = ?kept" "sub_ok ?f" using s1(1,2) assms(1) by (simp_all add: sub_ok_def)
    show ?thesis
      by (rule exI [of _ matched], rule exI [of _ unmatched], rule exI [of _ ?f], rule exI [of _ "snd ?b"], rule exI [of _ None])
         (use m e f True in \<open>simp add: Let_def\<close>)
  next
    case False
    let ?n = "if bound = [] then None
      else Some \<lparr> ngPubId = smPubId msg, ngSelect = matched, ngSubscribed = ts, ngBound = bound \<rparr>"
    have e: "Subscription_AcceptTrack ord None attach msg s = Inr (s', snd ?b, ?n)"
      using m r a(1) assms(2,6) False by (auto simp: Subscription_AcceptTrack_def acceptMatched_def)
    have k: "accepted ?s2 = ?kept" using b(3) by simp
    have acc: "accepted s' = ?kept \<union> globalId ` set matched" using a(3) unfolding k .
    have neg: "(?n = None) = (globalId ` set matched \<subseteq> ?kept)" using a(5) unfolding k by simp
    have pub: "sbAcceptedPubId s' = smPubId msg" using a(4) by simp
    show ?thesis
      unfolding Let_def
      by (rule exI [of _ matched], rule exI [of _ unmatched], rule exI [of _ s'], rule exI [of _ "snd ?b"], rule exI [of _ ?n])
         (intro conjI m e a(2) acc neg, use pub False in simp)
  qed
qed

section \<open>Properties of media ids\<close>

lemma findTransiver_nth:
  "findTransiverBySender tvs i sender = Some (tv, pos) \<Longrightarrow>
   i \<le> pos \<and> pos < i + length tvs \<and> tvs ! (pos - i) = tv"
  by (induction tvs i sender rule: findTransiverBySender.induct)
     (fastforce simp: nth_Cons' Suc_diff_le split: if_splits)+

lemma findAt_pos:
  "int k < pos + 1 \<Longrightarrow> pos < int (k + length tvs) \<Longrightarrow> findAt tvs (int k) pos mid = Some (tvs ! nat (pos - int k))"
proof (induction tvs arbitrary: k)
  case Nil
  then show ?case by simp
next
  case (Cons tv tvs)
  show ?case
  proof (cases "pos = int k")
    case True
    then show ?thesis by simp
  next
    case False
    then have "int (Suc k) < pos + 1" "pos < int (Suc k + length tvs)" using Cons.prems by simp_all
    moreover have "nat (pos - int k) = Suc (nat (pos - int (Suc k)))" using False Cons.prems by simp
    ultimately show ?thesis using Cons.IH [of "Suc k"] False Cons.prems by (simp add: add.commute)
  qed
qed

lemma findAt_mid:
  assumes "tv \<in> set tvs" "\<forall>u \<in> set tvs. tvMid u = tvMid tv \<longrightarrow> u = tv" "0 \<le> i"
  shows "findAt tvs i (-1) (tvMid tv) = Some tv"
  using assms by (induction tvs arbitrary: i) auto

text \<open>the media id reported for a sender leads back to its transceiver: by its mid, or by its position
  while it has none, provided the mids of a peer are distinct and none looks like a position.\<close>

theorem mid_roundtrip:
  assumes "findTransiverBySender tvs 0 sender = Some (tv, pos)" "length tvs < 2 ^ 63"
    and "\<forall>u \<in> set tvs. tvMid u \<noteq> '''' \<longrightarrow> \<not> HasPrefix (tvMid u) ''pos:'' \<and> (\<forall>v \<in> set tvs. tvMid v = tvMid u \<longrightarrow> v = u)"
  shows "\<exists>rt. findTracksRemoteByMidAndRid tvs sid (getMidFromSender tvs sender) rd = Inr (rt, Some tv)"
proof -
  have p: "pos < length tvs" "tvs ! pos = tv" using findTransiver_nth [OF assms(1)] by simp_all
  then have tv: "tv \<in> set tvs" by auto
  show ?thesis
  proof (cases "tvMid tv = ''''")
    case True
    have "findAt tvs 0 (int pos) mid = Some tv" for mid
      using findAt_pos [of 0 "int pos" tvs mid] p by simp
    moreover have "Atoi (decimal pos) = Some (int pos)" using p(1) assms(2) by (intro Atoi_decimal) simp
    ultimately show ?thesis
      using assms(1) True by (simp add: findTracksRemoteByMidAndRid_def getMidFromSender_def HasPrefix_def)
  next
    case False
    then have "\<not> HasPrefix (tvMid tv) ''pos:''" "\<forall>v \<in> set tvs. tvMid v = tvMid tv \<longrightarrow> v = tv" using assms(3) tv by simp_all
    with findAt_mid [OF tv, of 0] show ?thesis
      using assms(1) False by (simp add: findTracksRemoteByMidAndRid_def getMidFromSender_def)
  qed
qed

text \<open>a publish request whose bind id is \<open>pos:x\<close> passes the validation, and binding its track, which
  happens on the goroutine of the peer's track event, panics.\<close>

theorem bind_id_panics:
  "PublishMessage_Validate \<lparr> pubOp = 0, pubMsgId = '''',
      pubTracks = [\<lparr> tpType = ''video'', tpBindId = ''pos:x'', tpRid = '''', tpSid = '''', tpLabels = [] \<rparr>] \<rparr> = Inr () \<and>
   bindRemote codecOf idOf tvs \<lparr> ptTrack = \<lparr> trackType = ''video'', pubId = ''p'', globalId = ''g'', localId = '''',
      bindId = ''pos:x'', rid = '''', streamId = '''', codec = None, labels = [] \<rparr>, ptRemote = None \<rparr> =
     Inl (ErrorPanic (PlainError ''invalid syntax''))"
proof -
  have "Atoi ''x'' = None" "HasPrefix ''pos:x'' ''pos:''" by code_simp+
  then show ?thesis by (simp add: PublishMessage_Validate_def bindRemote_def findTracksRemoteByMidAndRid_def)
qed

section \<open>A subscription of two publications\<close>

definition video_pattern :: PublicationPattern where
  "video_pattern = PublicationPattern OP_TRACK_TYPE [''video''] []"

definition demo_sub :: Subscription where
  "demo_sub = \<lparr> sbId = ''s'', sbClosed = False, sbReqTypes = [], sbPattern = video_pattern, sbAcceptedPubId = '''',
     sbAcceptedTrack = [] \<rparr>"

definition demo_pub_track :: "string \<Rightarrow> string \<Rightarrow> string \<Rightarrow> Track" where
  "demo_pub_track p g ty = \<lparr> trackType = ty, pubId = p, globalId = g, localId = '''', bindId = '''', rid = '''',
     streamId = '''', codec = None, labels = [] \<rparr>"

definition demo_state :: "string \<Rightarrow> Track list \<Rightarrow> StateMessage" where
  "demo_state p ts = \<lparr> smRouter = None, smPubId = p, smAddr = '''', smTracks = ts \<rparr>"

definition demo_attach :: "Track \<Rightarrow> go_err + Attached" where
  "demo_attach t = Inr \<lparr> atAccepter = 0, atLocalId = '''', atStreamId = '''', atSender = 0, atMid = ''0'' \<rparr>"

text \<open>The state messages of a history, one after the other.\<close>

definition acceptAll :: "StateMessage list \<Rightarrow> Subscription \<Rightarrow> Subscription res" where
  "acceptAll msgs s =
     fold_res (\<lambda>msg s. bind_res (Subscription_AcceptTrack (\<lambda>g. g) None demo_attach msg s) (\<lambda>(s', _, _). Inr s')) msgs s"

text \<open>a subscription can end up with tracks of two publications although it follows one: after the
  video track of the first publication is accepted, a state message about the audio track of the
  same publication (the answer to another subscriber) frees the subscription without removing the
  video track, and the next publication is accepted as well.\<close>

theorem subscription_mixes_publications:
  "\<exists>s. acceptAll [demo_state ''P1'' [demo_pub_track ''P1'' ''v1'' ''video''],
                  demo_state ''P1'' [demo_pub_track ''P1'' ''a1'' ''audio''],
                  demo_state ''P2'' [demo_pub_track ''P2'' ''v2'' ''video'']] demo_sub = Inr s \<and>
     map (\<lambda>(g, st). (g, pubId (stPubTrack st))) (sbAcceptedTrack s) = [(''v1'', ''P1''), (''v2'', ''P2'')]"
proof -
  let ?r = "acceptAll [demo_state ''P1'' [demo_pub_track ''P1'' ''v1'' ''video''],
                  demo_state ''P1'' [demo_pub_track ''P1'' ''a1'' ''audio''],
                  demo_state ''P2'' [demo_pub_track ''P2'' ''v2'' ''video'']] demo_sub"
  have "map_sum id (\<lambda>s. map (\<lambda>(g, st). (g, pubId (stPubTrack st))) (sbAcceptedTrack s)) ?r =
      Inr [(''v1'', ''P1''), (''v2'', ''P2'')]"
    by code_simp
  then show ?thesis by (cases ?r) simp_all
qed

section \<open>Witnesses\<close>

theorem Subscription_AcceptTrack_witness:
  "\<exists>s' removed neg. Subscription_AcceptTrack (\<lambda>g. g) None demo_attach (demo_state ''P1'' []) demo_sub = Inr (s', removed, neg) \<and> sub_ok s'"
proof -
  have 1: "sub_ok demo_sub" "\<not> sbClosed demo_sub" "sbAcceptedPubId demo_sub = ''''" by (simp_all add: demo_sub_def sub_ok_def)
  have 2: "Validate (sbPattern demo_sub) = Inr ()" by code_simp
  have 3: "\<exists>a. demo_attach t = Inr a" for t by (simp add: demo_attach_def)
  from Subscription_AcceptTrack_correct [of demo_sub "\<lambda>g. g" demo_attach "demo_state ''P1'' []", OF 1(1,2) 2 _ 3] 1(3)
  show ?thesis by blast
qed

theorem mid_roundtrip_witness:
  "\<exists>rt. findTracksRemoteByMidAndRid
      [\<lparr> tvMid = ''0'', tvSender = 4, tvReceiver = None \<rparr>, \<lparr> tvMid = '''', tvSender = 5, tvReceiver = None \<rparr>]
      ''s'' (getMidFromSender [\<lparr> tvMid = ''0'', tvSender = 4, tvReceiver = None \<rparr>, \<lparr> tvMid = '''', tvSender = 5, tvReceiver = None \<rparr>] 5) '''' =
    Inr (rt, Some \<lparr> tvMid = '''', tvSender = 5, tvReceiver = None \<rparr>)"
  by (rule mid_roundtrip [where pos = 1]) (simp_all add: HasPrefix_def)

end
