(* ===== verification/SignalRooms.thy ===== *)
theory SignalRooms
  imports Messager SignalTracks
begin

text \<open>
  The rooms of a signal context (\<open>signal/model.go\<close>): which rooms a client is in, \<open>JoinRoom\<close> and
  \<open>LeaveRoom\<close> with the messages they emit, \<open>clusterEmit\<close>, and the handlers that forward messages of
  the cluster to the client. An operation that emits returns the messages handed to
  \<open>Messager.Emit\<close> (which fix the sender and are otherwise independent of the answer: a failure is
  only logged), and a handler the events with their payload it sends to the client. \<open>node\<close> is the
  name of the node. A \<open>map[string]RoomInfo\<close> holds values, so \<open>info := ctx.rooms[room]\<close> is a copy.
\<close>

section \<open>State\<close>

record AuthInfo =
  Usage :: string
  Key :: string
  UID :: string
  UName :: string
  Role :: string
  authRooms :: "string list"
  AutoJoin :: bool
  Timestamp :: int
  Deadline :: nat
  Nonce :: int

record RoomInfo =
  riJoinId :: "32 word"
  riJoined :: bool

record SignalContext =
  scId :: string
  scAuth :: AuthInfo
  scRooms :: "(string, RoomInfo) gomap"
  scSdpMsgId :: "32 word"
  scSubscriptions :: "(string, Subscription) gomap"
  scPublications :: "(string, Publication) gomap"
  scInited :: bool
  scClosed :: bool
  scCloseCb :: bool
  scCloseCbDisabled :: bool
  scPeerClosed :: bool

definition newSignalContext :: "AuthInfo \<Rightarrow> string \<Rightarrow> SignalContext" where
  "newSignalContext ai uid =
     \<lparr> scId = uid, scAuth = ai, scRooms = [], scSdpMsgId = 0, scSubscriptions = [], scPublications = [],
       scInited = False, scClosed = False, scCloseCb = False, scCloseCbDisabled = False, scPeerClosed = False \<rparr>"

definition RoomPaterns :: "SignalContext \<Rightarrow> string list" where
  "RoomPaterns c = authRooms (scAuth c)"

definition Rooms :: "SignalContext \<Rightarrow> string list" where
  "Rooms c = map fst (filter (\<lambda>(rm, info). riJoined info) (scRooms c))"

definition JoinId :: "SignalContext \<Rightarrow> string \<Rightarrow> 32 word" where
  "JoinId c rm =
     (case mget (scRooms c) rm of Some info \<Rightarrow> if riJoined info then riJoinId info else 0 | None \<Rightarrow> 0)"

text \<open>An \<open>atomic.Int32\<close>; the result is its value as an \<open>int\<close>.\<close>

definition NextSdpMsgId :: "SignalContext \<Rightarrow> SignalContext \<times> int" where
  "NextSdpMsgId c = (c\<lparr> scSdpMsgId := scSdpMsgId c + 2 \<rparr>, sint (scSdpMsgId c + 2))"

definition CurrentSdpMsgId :: "SignalContext \<Rightarrow> int" where
  "CurrentSdpMsgId c = sint (scSdpMsgId c)"

section \<open>Emission to the cluster\<close>

definition clusterEmit :: "string \<Rightarrow> SignalContext \<Rightarrow> RoomMessage \<Rightarrow> RoomMessage list" where
  "clusterEmit node c message =
     (if GetRoom message \<noteq> '''' then [FixRouter (CopyPlain message) (GetRoom message) (scId c) node]
      else map (\<lambda>rm. FixRouter (CopyPlain message) rm (scId c) node) (Rooms c))"

section \<open>Joining and leaving\<close>

fun matchAny :: "string list \<Rightarrow> string \<Rightarrow> bool res" where
  "matchAny [] rm = Inr False"
| "matchAny (p # ps) rm = bind_res (MatchRoom p rm) (\<lambda>b. if b then Inr True else matchAny ps rm)"

definition hasRoomRight :: "SignalContext \<Rightarrow> string \<Rightarrow> bool res" where
  "hasRoomRight c rm = matchAny (RoomPaterns c) rm"

fun checkRights :: "SignalContext \<Rightarrow> string list \<Rightarrow> (go_err + unit) res" where
  "checkRights c [] = Inr (Inr ())"
| "checkRights c (rm # rms) =
     bind_res (hasRoomRight c rm) (\<lambda>b. if b then checkRights c rms else Inr (Inl RoomNoRight))"

text \<open>
  The loop under \<open>rooms_mux\<close>; where the entry exists and is not joined the code changes its copy
  \<open>info\<close> only, so the map stays as it is.
\<close>

fun joinLoop :: "string list \<Rightarrow> (string, RoomInfo) gomap \<Rightarrow> (string, RoomInfo) gomap \<times> string list" where
  "joinLoop [] rooms = (rooms, [])"
| "joinLoop (rm # rms) rooms =
     (case mget rooms rm of
        Some info \<Rightarrow>
          (if \<not> riJoined info then (case joinLoop rms rooms of (rooms', joined) \<Rightarrow> (rooms', rm # joined))
           else joinLoop rms rooms)
      | None \<Rightarrow>
          (case joinLoop rms (mput rm \<lparr> riJoinId = 1, riJoined = True \<rparr> rooms) of
             (rooms', joined) \<Rightarrow> (rooms', rm # joined)))"

definition joinMessage :: "SignalContext \<Rightarrow> string \<Rightarrow> 32 word \<Rightarrow> StateParticipantMessage" where
  "joinMessage c rm joinId =
     \<lparr> spRouter = Some (newRouter\<lparr> room := rm \<rparr>), spUserId = UID (scAuth c), spUserName = UName (scAuth c),
       spSocketId = scId c, spJoinId = joinId \<rparr>"

definition joinRooms :: "string \<Rightarrow> string list \<Rightarrow> SignalContext \<Rightarrow> SignalContext \<times> RoomMessage list" where
  "joinRooms node s_rooms c =
     (case joinLoop s_rooms (scRooms c) of
        (rooms', joined_rooms) \<Rightarrow>
          (let c' = c\<lparr> scRooms := rooms' \<rparr>
           in (c', concat (map (\<lambda>rm. if JoinId c' rm \<noteq> 0
                                     then clusterEmit node c' (MStateParticipant (joinMessage c' rm (JoinId c' rm)))
                                     else []) joined_rooms))))"

definition JoinRoom :: "string \<Rightarrow> string list \<Rightarrow> SignalContext \<Rightarrow> (SignalContext \<times> RoomMessage list \<times> (go_err + unit)) res" where
  "JoinRoom node rooms c =
     (if rooms = [] then
        (let s_rooms = filter (\<lambda>p. \<not> Contains p ''*'') (RoomPaterns c)
         in if s_rooms = [] then Inr (c, [], Inl (InvalidParam ''room is not provided''))
            else (case joinRooms node s_rooms c of (c', out) \<Rightarrow> Inr (c', out, Inr ())))
      else
        bind_res (checkRights c rooms) (\<lambda>r.
          case r of
            Inl e \<Rightarrow> Inr (c, [], Inl e)
          | Inr _ \<Rightarrow> (case joinRooms node rooms c of (c', out) \<Rightarrow> Inr (c', out, Inr ()))))"

text \<open>The map \<open>removed\<close>; \<open>info.Joined = false\<close> is a write to the copy.\<close>

fun leaveLoop :: "string list \<Rightarrow> (string, RoomInfo) gomap \<Rightarrow> (string, 32 word) gomap \<Rightarrow> (string, 32 word) gomap" where
  "leaveLoop [] rooms removed = removed"
| "leaveLoop (rm # rms) rooms removed =
     leaveLoop rms rooms
       (case mget rooms rm of
          Some info \<Rightarrow> if riJoined info then mput rm (riJoinId info) removed else removed
        | None \<Rightarrow> removed)"

definition leaveMessage :: "SignalContext \<Rightarrow> string \<Rightarrow> 32 word \<Rightarrow> StateLeaveMessage" where
  "leaveMessage c rm joinId =
     \<lparr> slRouter = Some (newRouter\<lparr> room := rm \<rparr>), slUserId = UID (scAuth c), slSocketId = scId c, slJoinId = joinId \<rparr>"

definition LeaveRoom :: "string \<Rightarrow> string list \<Rightarrow> SignalContext \<Rightarrow> SignalContext \<times> RoomMessage list" where
  "LeaveRoom node rooms c =
     (c, concat (map (\<lambda>(rm, joinId). clusterEmit node c (MStateLeave (leaveMessage c rm joinId)))
                     (leaveLoop rooms (scRooms c) [])))"

section \<open>Messages of the cluster\<close>

definition matchRoomMsg :: "SignalContext \<Rightarrow> RoomMessage \<Rightarrow> bool" where
  "matchRoomMsg c msg =
     (case GetRouter msg of
        None \<Rightarrow> False
      | Some router \<Rightarrow> if room router = '''' then False else JoinId c (room router) \<noteq> 0)"

definition matchSocketTo :: "SignalContext \<Rightarrow> RoomMessage \<Rightarrow> bool \<Rightarrow> bool" where
  "matchSocketTo c msg strict =
     (case GetRouter msg of
        None \<Rightarrow> False
      | Some router \<Rightarrow> if strict then socketTo router = scId c else socketTo router = '''' \<or> socketTo router = scId c)"

definition StateParticipants :: "string \<Rightarrow> SignalContext \<Rightarrow> WantParticipantMessage \<Rightarrow> RoomMessage list" where
  "StateParticipants node c message =
     (let rm = GetRoom (MWantParticipant message)
      in if rm = '''' then []
         else if JoinId c rm = 0 then []
         else clusterEmit node c (MStateParticipant
                \<lparr> spRouter = None, spUserId = UID (scAuth c), spUserName = UName (scAuth c),
                  spSocketId = scId c, spJoinId = JoinId c rm \<rparr>))"

type_synonym ClientEvent = "string \<times> ClientMessage"

definition AcceptParticipants :: "SignalContext \<Rightarrow> StateParticipantMessage \<Rightarrow> ClientEvent list" where
  "AcceptParticipants c message =
     (if \<not> matchRoomMsg c (MStateParticipant message) then []
      else [(''participant-join'', ToClientMessage (MStateParticipant message))])"

definition StateParticipantLeave :: "SignalContext \<Rightarrow> StateLeaveMessage \<Rightarrow> ClientEvent list" where
  "StateParticipantLeave c message =
     (if \<not> matchRoomMsg c (MStateLeave message) then []
      else [(''participant-leave'', ToClientMessage (MStateLeave message))])"

definition OnPingMessage :: "SignalContext \<Rightarrow> PingMessage \<Rightarrow> ClientEvent list" where
  "OnPingMessage c message =
     (if \<not> matchRoomMsg c (MPing message) \<or> \<not> matchSocketTo c (MPing message) True then []
      else [(''ping'', ToClientMessage (MPing message))])"

definition OnPongMessage :: "SignalContext \<Rightarrow> PongMessage \<Rightarrow> ClientEvent list" where
  "OnPongMessage c message =
     (if \<not> matchRoomMsg c (MPong message) \<or> \<not> matchSocketTo c (MPong message) True then []
      else [(''pong'', ToClientMessage (MPong message))])"

text \<open>A matching cluster message has a nested message, since its router is found there.\<close>

definition OnCustomMessage :: "SignalContext \<Rightarrow> CustomClusterMessage \<Rightarrow> ClientEvent list" where
  "OnCustomMessage c message =
     (if \<not> matchRoomMsg c (MCustomCluster message) \<or> \<not> matchSocketTo c (MCustomCluster message) False then []
      else (case ccMsg message of
              None \<Rightarrow> []
            | Some m \<Rightarrow> [(''custom:'' @ ccEvt message, ToClientMessage (MCustom m))]))"

definition OnCustomAckMessage :: "SignalContext \<Rightarrow> CustomAckMessage \<Rightarrow> ClientEvent list" where
  "OnCustomAckMessage c message =
     (if \<not> matchRoomMsg c (MCustomAck message) \<or> \<not> matchSocketTo c (MCustomAck message) True then []
      else [(''custom-ack'', ToClientMessage (MCustomAck message))])"

record UserInfo =
  uiKey :: string
  uiUserId :: string
  uiUserName :: string
  uiSocketId :: string
  uiRole :: string
  uiRooms :: "string list"

definition MakeUserInfo :: "SignalContext \<Rightarrow> UserInfo" where
  "MakeUserInfo c =
     \<lparr> uiKey = Key (scAuth c), uiUserId = UID (scAuth c), uiUserName = UName (scAuth c), uiSocketId = scId c,
       uiRole = Role (scAuth c), uiRooms = Rooms c \<rparr>"

section \<open>Lemmas\<close>

text \<open>What holds of the rooms map in every state the operations reach: distinct keys, and every
  entry is joined with the join id 1.\<close>

definition rooms_inv :: "(string, RoomInfo) gomap \<Rightarrow> bool" where
  "rooms_inv rooms \<longleftrightarrow> mwf rooms \<and> (\<forall>(rm, info) \<in> set rooms. info = \<lparr> riJoinId = 1, riJoined = True \<rparr>)"

lemma rooms_inv_empty [simp]: "rooms_inv []"
  by (simp add: rooms_inv_def)

lemma rooms_inv_alt:
  "rooms_inv rooms \<longleftrightarrow> mwf rooms \<and> (\<forall>rm info. mget rooms rm = Some info \<longrightarrow> info = \<lparr> riJoinId = 1, riJoined = True \<rparr>)"
  by (auto simp: rooms_inv_def mwf_def dest: map_of_SomeD map_of_is_SomeI)

lemma rooms_inv_get: "rooms_inv rooms \<Longrightarrow> mget rooms rm = Some info \<Longrightarrow> info = \<lparr> riJoinId = 1, riJoined = True \<rparr>"
  by (auto simp: rooms_inv_def dest: map_of_SomeD)

lemma rooms_inv_put: "rooms_inv rooms \<Longrightarrow> rooms_inv (mput rm \<lparr> riJoinId = 1, riJoined = True \<rparr> rooms)"
  by (auto simp: rooms_inv_alt gomap_simps split: if_splits)

lemma set_Rooms: "rooms_inv (scRooms c) \<Longrightarrow> set (Rooms c) = dom (mget (scRooms c))"
  by (force simp: Rooms_def rooms_inv_def dom_map_of_conv_image_fst)

lemma JoinId_inv: "rooms_inv (scRooms c) \<Longrightarrow> JoinId c rm = (if rm \<in> set (Rooms c) then 1 else 0)"
  by (auto simp: JoinId_def set_Rooms dest: rooms_inv_get split: option.splits)

text \<open>The rooms of a list that are new, each once, in the order of the list.\<close>

fun newRooms :: "string list \<Rightarrow> string set \<Rightarrow> string list" where
  "newRooms [] seen = []"
| "newRooms (rm # rms) seen = (if rm \<in> seen then newRooms rms seen else rm # newRooms rms (insert rm seen))"

lemma set_newRooms: "set (newRooms rms seen) = set rms - seen"
  by (induction rms seen rule: newRooms.induct) auto

lemma joinLoop_inv:
  assumes "rooms_inv rooms"
  shows "rooms_inv (fst (joinLoop rms rooms)) \<and>
    dom (mget (fst (joinLoop rms rooms))) = dom (mget rooms) \<union> set rms \<and>
    snd (joinLoop rms rooms) = newRooms rms (dom (mget rooms))"
  using assms
proof (induction rms rooms rule: joinLoop.induct)
  case (1 rooms)
  then show ?case by simp
next
  case (2 rm rms rooms)
  show ?case
  proof (cases "mget rooms rm")
    case None
    have i: "rooms_inv (mput rm \<lparr> riJoinId = 1, riJoined = True \<rparr> rooms)" using 2(4) by (rule rooms_inv_put)
    have d: "dom (mget (mput rm \<lparr> riJoinId = 1, riJoined = True \<rparr> rooms)) = insert rm (dom (mget rooms))"
      by (auto simp: gomap_simps split: if_splits)
    show ?thesis
      using 2(1) [OF None i, unfolded d] None
      by (cases "joinLoop rms (mput rm \<lparr> riJoinId = 1, riJoined = True \<rparr> rooms)") (simp add: domIff)
  next
    case (Some info)
    have "riJoined info" using rooms_inv_get [OF 2(4) Some] by simp
    then show ?thesis using 2(3) [OF Some _ 2(4)] Some by auto
  qed
qed

lemma clusterEmit_room:
  "rm \<noteq> '''' \<Longrightarrow> clusterEmit node c (MStateParticipant (joinMessage c rm j)) =
     [MStateParticipant ((joinMessage c rm j)\<lparr> spRouter := Some (newRouter\<lparr> room := rm, socketFrom := scId c, nodeFrom := node \<rparr>) \<rparr>)]"
  "rm \<noteq> '''' \<Longrightarrow> clusterEmit node c (MStateLeave (leaveMessage c rm j)) =
     [MStateLeave ((leaveMessage c rm j)\<lparr> slRouter := Some (newRouter\<lparr> room := rm, socketFrom := scId c, nodeFrom := node \<rparr>) \<rparr>)]"
  by (simp_all add: clusterEmit_def GetRoom_def joinMessage_def leaveMessage_def message_defs routerOrNew_def
      fixRouter_def newRouter_def)

lemma matchAny_True: "matchAny ps rm = Inr True \<Longrightarrow> \<exists>p \<in> set ps. MatchRoom p rm = Inr True"
  by (induction ps) (auto simp: bind_res_Inr_iff split: if_splits)

lemma checkRights_ok: "checkRights c rms = Inr (Inr ()) \<longleftrightarrow> (\<forall>rm \<in> set rms. hasRoomRight c rm = Inr True)"
  by (induction rms) (auto simp: bind_res_Inr_iff split: if_splits)

text \<open>The rooms that a request asks for: those of its list, or the star-free patterns of the token.\<close>

definition wanted :: "string list \<Rightarrow> SignalContext \<Rightarrow> string list" where
  "wanted rooms c = (if rooms = [] then filter (\<lambda>p. \<not> Contains p ''*'') (RoomPaterns c) else rooms)"

lemma JoinRoom_cases:
  assumes "JoinRoom node rooms c = Inr (c', out, r)"
  obtains (err) e where "r = Inl e" "c' = c" "out = []"
  | (ok) "r = Inr ()" "joinRooms node (wanted rooms c) c = (c', out)"
      "rooms = [] \<or> (\<forall>rm \<in> set rooms. hasRoomRight c rm = Inr True)"
proof (cases "rooms = []")
  case True
  then show thesis
    using assms that by (auto simp: JoinRoom_def wanted_def Let_def split: if_splits prod.splits)
next
  case False
  then obtain x where x: "checkRights c rooms = Inr x"
      "(case x of Inl e \<Rightarrow> Inr (c, [], Inl e)
        | Inr _ \<Rightarrow> (case joinRooms node rooms c of (c', out) \<Rightarrow> Inr (c', out, Inr ()))) = (Inr (c', out, r) :: _ res)"
    using assms by (auto simp: JoinRoom_def bind_res_Inr_iff)
  show thesis
  proof (cases x)
    case (Inl e)
    then show thesis using x(2) err [of e] by simp
  next
    case (Inr u)
    then show thesis
      using x ok False by (simp add: checkRights_ok wanted_def split: prod.splits)
  qed
qed

lemma joinRooms_state:
  assumes "rooms_inv (scRooms c)" "joinRooms node rms c = (c', out)"
  shows "rooms_inv (scRooms c')" "set (Rooms c') = set (Rooms c) \<union> set rms"
    "scAuth c' = scAuth c" "scId c' = scId c" "scSdpMsgId c' = scSdpMsgId c"
  using joinLoop_inv [OF assms(1), of rms] assms
  by (auto simp: joinRooms_def Let_def set_Rooms split: prod.splits)

lemma joinRooms_out:
  assumes "rooms_inv (scRooms c)" "joinRooms node rms c = (c', out)" "'''' \<notin> set rms"
  shows "out = map (\<lambda>rm. MStateParticipant ((joinMessage c rm 1)
      \<lparr> spRouter := Some (newRouter\<lparr> room := rm, socketFrom := scId c, nodeFrom := node \<rparr>) \<rparr>)) (newRooms rms (set (Rooms c)))"
proof -
  note st = joinRooms_state [OF assms(1,2)]
  have o: "out = concat (map (\<lambda>rm. if JoinId c' rm \<noteq> 0
      then clusterEmit node c' (MStateParticipant (joinMessage c' rm (JoinId c' rm))) else []) (newRooms rms (set (Rooms c))))"
    using assms(1,2) joinLoop_inv [OF assms(1), of rms] by (auto simp: joinRooms_def Let_def set_Rooms split: prod.splits)
  have "(if JoinId c' rm \<noteq> 0 then clusterEmit node c' (MStateParticipant (joinMessage c' rm (JoinId c' rm))) else []) =
      [MStateParticipant ((joinMessage c rm 1)\<lparr> spRouter := Some (newRouter\<lparr> room := rm, socketFrom := scId c, nodeFrom := node \<rparr>) \<rparr>)]"
    if rm: "rm \<in> set (newRooms rms (set (Rooms c)))" for rm
  proof -
    have "rm \<in> set (Rooms c')" "rm \<noteq> ''''" using rm st(2) assms(3) by (auto simp: set_newRooms)
    then show ?thesis using st by (simp add: JoinId_inv clusterEmit_room) (simp add: joinMessage_def)
  qed
  then show ?thesis unfolding o by (simp add: concat_map_singleton cong: map_cong)
qed

lemma leaveLoop_keys:
  assumes "rooms_inv rooms" "\<forall>(rm, j) \<in> set removed. j = 1"
  shows "(\<forall>(rm, j) \<in> set (leaveLoop rms rooms removed). j = 1) \<and>
    fst ` set (leaveLoop rms rooms removed) = fst ` set removed \<union> (set rms \<inter> dom (mget rooms))"
  using assms(2)
proof (induction rms arbitrary: removed)
  case Nil
  then show ?case by simp
next
  case (Cons rm rms)
  show ?case
  proof (cases "mget rooms rm")
    case None
    then show ?thesis using Cons by (auto simp: domIff)
  next
    case (Some info)
    then have i: "info = \<lparr> riJoinId = 1, riJoined = True \<rparr>" using rooms_inv_get [OF assms(1)] by simp
    have p: "\<forall>(rm', j) \<in> set (mput rm 1 removed). j = 1"
      using Cons.prems by (induction removed) auto
    have f: "fst ` set (mput rm (1 :: 32 word) removed) = insert rm (fst ` set removed)"
      using dom_update [of rm "1 :: 32 word" removed] by (simp add: dom_map_of_conv_image_fst)
    show ?thesis using Cons.IH [OF p] Some i by (auto simp: f)
  qed
qed

lemma distinct_leaveLoop: "distinct (map fst removed) \<Longrightarrow> distinct (map fst (leaveLoop rms rooms removed))"
  by (induction rms arbitrary: removed) (auto simp: distinct_update split: option.splits)

section \<open>Reachable states\<close>

text \<open>The states a context goes through: the operations that write its fields, in any order, with any
  arguments. A panic of a right check leaves the state as it is.\<close>

inductive room_reach :: "string \<Rightarrow> AuthInfo \<Rightarrow> string \<Rightarrow> SignalContext \<Rightarrow> bool" for node ai uid where
  start: "room_reach node ai uid (newSignalContext ai uid)"
| join: "room_reach node ai uid c \<Longrightarrow> JoinRoom node rooms c = Inr (c', out, r) \<Longrightarrow> room_reach node ai uid c'"
| leave: "room_reach node ai uid c \<Longrightarrow> LeaveRoom node rooms c = (c', out) \<Longrightarrow> room_reach node ai uid c'"
| sdp: "room_reach node ai uid c \<Longrightarrow> NextSdpMsgId c = (c', i) \<Longrightarrow> room_reach node ai uid c'"

inductive_cases room_reachE: "room_reach node ai uid c"

definition granted :: "AuthInfo \<Rightarrow> string \<Rightarrow> bool" where
  "granted ai rm \<longleftrightarrow> (\<exists>p \<in> set (authRooms ai). p = rm \<and> \<not> Contains p ''*'' \<or> MatchRoom p rm = Inr True)"

lemma granted_wanted:
  assumes "rooms = [] \<or> (\<forall>rm \<in> set rooms. hasRoomRight c rm = Inr True)" "rm \<in> set (wanted rooms c)"
  shows "granted (scAuth c) rm"
  using assms by (auto simp: wanted_def granted_def RoomPaterns_def hasRoomRight_def split: if_splits dest!: matchAny_True)

lemma room_reach_inv:
  "room_reach node ai uid c \<Longrightarrow>
   rooms_inv (scRooms c) \<and> scAuth c = ai \<and> scId c = uid \<and> (\<forall>rm \<in> set (Rooms c). granted ai rm)"
proof (induction rule: room_reach.induct)
  case start
  then show ?case by (simp add: newSignalContext_def Rooms_def)
next
  case (join c rooms c' out r)
  from join(2) show ?case
  proof (cases rule: JoinRoom_cases)
    case (err e)
    then show ?thesis using join.IH by simp
  next
    case ok
    then show ?thesis
      using joinRooms_state [OF _ ok(2)] join.IH granted_wanted [OF ok(3)] by auto
  qed
next
  case (leave c rooms c' out)
  then show ?case by (simp add: LeaveRoom_def)
next
  case (sdp c c' i)
  then have "c' = c\<lparr> scSdpMsgId := scSdpMsgId c + 2 \<rparr>" by (auto simp: NextSdpMsgId_def)
  with sdp.IH show ?case by (simp add: Rooms_def)
qed

section \<open>Properties\<close>

text \<open>C2: whatever requests a client sends, it is only ever in rooms its token grants: rooms that one of
  the token's patterns matches, or that the token names literally.\<close>

theorem rooms_granted:
  "room_reach node ai uid c \<Longrightarrow> rm \<in> set (Rooms c) \<Longrightarrow> granted ai rm"
  using room_reach_inv by blast

text \<open>C24: joining rooms the client has the right to succeeds, adds exactly these rooms, and announces
  each room that is new, once and in the order of the request, with join id 1, under the client's
  own user, socket and node.\<close>

theorem JoinRoom_correct:
  assumes "room_reach node ai uid c" "rooms \<noteq> []" "\<forall>rm \<in> set rooms. hasRoomRight c rm = Inr True"
  shows "\<exists>c' out. JoinRoom node rooms c = Inr (c', out, Inr ()) \<and>
    set (Rooms c') = set (Rooms c) \<union> set rooms \<and>
    out = map (\<lambda>rm. MStateParticipant
        \<lparr> spRouter = Some \<lparr> room = rm, nodeFrom = node, nodeTo = '''', socketFrom = uid, socketTo = '''' \<rparr>,
          spUserId = UID ai, spUserName = UName ai, spSocketId = uid, spJoinId = 1 \<rparr>)
      (newRooms rooms (set (Rooms c)))"
proof -
  note i = room_reach_inv [OF assms(1)]
  obtain c' out where j: "joinRooms node rooms c = (c', out)" by fastforce
  have "checkRights c rooms = Inr (Inr ())" using assms(3) by (simp add: checkRights_ok)
  then have J: "JoinRoom node rooms c = Inr (c', out, Inr ())" using assms(2) j by (simp add: JoinRoom_def)
  have "\<not> MatchRoom p '''' = Inr True" for p
    by (auto simp: MatchRoom_def CheckRoom_def bind_res_Inr_iff)
  then have n: "'''' \<notin> set rooms" using assms(3) by (auto simp: hasRoomRight_def dest!: matchAny_True)
  show ?thesis
    using J joinRooms_state [OF conjunct1 [OF i] j] joinRooms_out [OF conjunct1 [OF i] j n] i
    by (simp add: joinMessage_def newRouter_def)
qed

text \<open>a refused request changes nothing and announces nothing, and it is refused with no right as
  soon as one room is not granted and the checks before it passed.\<close>

theorem JoinRoom_refused:
  assumes "\<forall>x \<in> set pre. hasRoomRight c x = Inr True" "hasRoomRight c rm = Inr False"
  shows "JoinRoom node (pre @ rm # rms) c = Inr (c, [], Inl RoomNoRight) \<and>
    (\<forall>rooms c' out e. JoinRoom node rooms c = Inr (c', out, Inl e) \<longrightarrow> c' = c \<and> out = [])"
proof -
  have "checkRights c (pre @ rm # rms) = Inr (Inl RoomNoRight)"
    using assms by (induction pre) simp_all
  then have "JoinRoom node (pre @ rm # rms) c = Inr (c, [], Inl RoomNoRight)"
    by (simp add: JoinRoom_def)
  moreover have "c' = c \<and> out = []" if "JoinRoom node rooms c = Inr (c', out, Inl e)" for rooms c' out e
    using that by (cases rule: JoinRoom_cases) auto
  ultimately show ?thesis by blast
qed

text \<open>leaving does not leave. \<open>LeaveRoom\<close> announces the departure from every room of the request
  the client is in, but its state is unchanged: the client stays in the rooms, keeps receiving
  their messages, and joining them again announces nothing.\<close>

theorem LeaveRoom_ineffective:
  assumes "room_reach node ai uid c" "rm \<in> set (Rooms c)" "rm \<noteq> ''''" "hasRoomRight c rm = Inr True"
  shows "fst (LeaveRoom node [rm] c) = c \<and>
    snd (LeaveRoom node [rm] c) = [MStateLeave
      \<lparr> slRouter = Some \<lparr> room = rm, nodeFrom = node, nodeTo = '''', socketFrom = uid, socketTo = '''' \<rparr>,
        slUserId = UID ai, slSocketId = uid, slJoinId = 1 \<rparr>] \<and>
    matchRoomMsg c (MStateLeave \<lparr> slRouter = Some (newRouter\<lparr> room := rm \<rparr>), slUserId = u, slSocketId = s, slJoinId = j \<rparr>) \<and>
    JoinRoom node [rm] (fst (LeaveRoom node [rm] c)) = Inr (c, [], Inr ())"
proof -
  note i = room_reach_inv [OF assms(1)]
  have inv: "rooms_inv (scRooms c)" using i by blast
  obtain info where "mget (scRooms c) rm = Some info"
    using assms(2) unfolding set_Rooms [OF inv] by blast
  then have info: "mget (scRooms c) rm = Some \<lparr> riJoinId = 1, riJoined = True \<rparr>"
    using rooms_inv_get [OF inv] by metis
  have L: "LeaveRoom node [rm] c = (c, [MStateLeave ((leaveMessage c rm 1)
      \<lparr> slRouter := Some (newRouter\<lparr> room := rm, socketFrom := scId c, nodeFrom := node \<rparr>) \<rparr>)])"
    using info assms(3) by (simp add: LeaveRoom_def clusterEmit_room)
  have J: "JoinRoom node [rm] c = Inr (c, [], Inr ())"
    using info assms(4) by (simp add: JoinRoom_def joinRooms_def Let_def)
  have "JoinId c rm = 1" using assms(2) by (simp add: JoinId_inv [OF inv])
  then have M: "matchRoomMsg c (MStateLeave \<lparr> slRouter = Some (newRouter\<lparr> room := rm \<rparr>), slUserId = u, slSocketId = s, slJoinId = j \<rparr>)"
    using assms(3) by (simp add: matchRoomMsg_def)
  show ?thesis
    using i M unfolding L J fst_conv snd_conv by (simp add: leaveMessage_def newRouter_def J)
qed

text \<open>the answer to the question who is in one room goes to every room the client is in, with the
  join id of the room that was asked for.\<close>

theorem StateParticipants_all_rooms:
  assumes "room_reach node ai uid c" "wpRouter message = Some r" "room r \<in> set (Rooms c)" "room r \<noteq> ''''"
  shows "map GetRoom (StateParticipants node c message) = Rooms c"
proof -
  have "JoinId c (room r) = 1" using room_reach_inv [OF assms(1)] assms(3) by (simp add: JoinId_inv)
  then show ?thesis
    using assms(2,4)
    by (simp add: StateParticipants_def GetRoom_def clusterEmit_def message_defs routerOrNew_def fixRouter_def newRouter_def
        comp_def)
qed

section \<open>Witnesses\<close>

definition demo_auth :: AuthInfo where
  "demo_auth = \<lparr> Usage = ''conference'', Key = ''k'', UID = ''u'', UName = ''n'', Role = ''r'', authRooms = [''a.*''],
     AutoJoin = False, Timestamp = 0, Deadline = 0, Nonce = 0 \<rparr>"

definition demo_ctx :: SignalContext where
  "demo_ctx = (newSignalContext demo_auth ''s'')\<lparr> scRooms := [(''a.b'', \<lparr> riJoinId = 1, riJoined = True \<rparr>)] \<rparr>"

lemma demo_rights:
  "hasRoomRight (newSignalContext demo_auth ''s'') ''a.b'' = Inr True"
  "hasRoomRight demo_ctx ''a.b'' = Inr True"
  "hasRoomRight demo_ctx ''c'' = Inr False"
  by code_simp+

lemma demo_reach: "room_reach ''n1'' demo_auth ''s'' demo_ctx"
proof (rule room_reach.join [OF room_reach.start])
  show "JoinRoom ''n1'' [''a.b''] (newSignalContext demo_auth ''s'') =
      Inr (demo_ctx, snd (joinRooms ''n1'' [''a.b''] (newSignalContext demo_auth ''s'')), Inr ())"
    by code_simp
qed

lemma demo_rooms: "Rooms demo_ctx = [''a.b'']"
  by code_simp

theorem rooms_granted_witness: "granted demo_auth ''a.b''"
  by (rule rooms_granted [OF demo_reach]) (simp add: demo_rooms)

theorem JoinRoom_correct_witness:
  "\<exists>c' out. JoinRoom ''n1'' [''a.b'', ''a.b''] (newSignalContext demo_auth ''s'') = Inr (c', out, Inr ()) \<and>
     set (Rooms c') = {''a.b''} \<and> length out = 1"
  using JoinRoom_correct [OF room_reach.start, where rooms = "[''a.b'', ''a.b'']" and ai = demo_auth and uid = "''s''" and node = "''n1''"]
    demo_rights(1)
  by (auto simp: newSignalContext_def Rooms_def)

theorem JoinRoom_refused_witness:
  "JoinRoom ''n1'' [''a.b'', ''c'', ''a.b''] demo_ctx = Inr (demo_ctx, [], Inl RoomNoRight)"
  using JoinRoom_refused [of "[''a.b'']" demo_ctx "''c''" "''n1''" "[''a.b'']"] demo_rights by simp

theorem LeaveRoom_ineffective_witness:
  "fst (LeaveRoom ''n1'' [''a.b''] demo_ctx) = demo_ctx \<and> length (snd (LeaveRoom ''n1'' [''a.b''] demo_ctx)) = 1 \<and>
   JoinRoom ''n1'' [''a.b''] (fst (LeaveRoom ''n1'' [''a.b''] demo_ctx)) = Inr (demo_ctx, [], Inr ())"
  using LeaveRoom_ineffective [OF demo_reach _ _ demo_rights(2), where u = "''''" and s = "''''" and j = 0] by (auto simp: demo_rooms)

theorem StateParticipants_all_rooms_witness:
  "map GetRoom (StateParticipants ''n1'' demo_ctx \<lparr> wpRouter = Some (newRouter\<lparr> room := ''a.b'' \<rparr>) \<rparr>) = [''a.b'']"
  using StateParticipants_all_rooms [OF demo_reach, of "\<lparr> wpRouter = Some (newRouter\<lparr> room := ''a.b'' \<rparr>) \<rparr>" "newRouter\<lparr> room := ''a.b'' \<rparr>"]
  by (simp add: demo_rooms)

end
