(* ===== verification/SignalContexts.thy ===== *)
theory SignalContexts
  imports SignalRooms
begin

text \<open>
  The requests of a client about media (\<open>signal/model.go\<close>): \<open>Subscribe\<close> and \<open>Publish\<close> with the maps of
  subscriptions and publications of a signal context, the answers to the want and state
  messages of the cluster, and the sending of an event with its retries. Random ids are a
  parameter: \<open>uuids i\<close> is the \<open>i\<close>-th id the uuid package draws. A loop that draws ids until one is free
  is a partial function; the result \<open>None\<close> means that it does not return. \<open>tp\<close> is the transport id of
  the node's router and \<open>addr\<close> its address.
\<close>

section \<open>Fresh ids\<close>

partial_function (option) newId :: "(nat \<Rightarrow> string) \<Rightarrow> nat \<Rightarrow> (string, 'v) gomap \<Rightarrow> string option" where
  "newId uuids i m = (if mget m (uuids i) = None then Some (uuids i) else newId uuids (Suc i) m)"

declare newId.simps [code]

lemma newId_least:
  assumes "mget m (uuids k) = None" "i \<le> k"
  shows "\<exists>y. newId uuids i m = Some y \<and> mget m y = None \<and> y \<in> range uuids"
  using assms(2)
proof (induction "k - i" arbitrary: i)
  case 0
  then have "i = k" by simp
  then show ?case using assms(1) by (subst newId.simps) simp
next
  case (Suc d)
  show ?case
  proof (cases "mget m (uuids i) = None")
    case True
    then show ?thesis by (subst newId.simps) simp
  next
    case False
    have "newId uuids i m = newId uuids (Suc i) m" using False by (subst newId.simps) auto
    with Suc show ?thesis by auto
  qed
qed

text \<open>A generator without repetition always finds a free id: the map is finite.\<close>

lemma newId_returns:
  assumes "inj uuids"
  shows "\<exists>y. newId uuids i m = Some y \<and> mget m y = None \<and> y \<in> range uuids"
proof -
  have "infinite (uuids ` {i..})" using assms by (simp add: finite_image_iff inj_on_subset infinite_Ici)
  then have "\<not> uuids ` {i..} \<subseteq> dom (mget m)" using finite_dom_map_of finite_subset by blast
  then obtain k where "i \<le> k" "mget m (uuids k) = None" by auto
  then show ?thesis by (intro newId_least)
qed

section \<open>Subscribe\<close>

record SubscribeResult =
  srContext :: SignalContext
  srEmitted :: "RoomMessage list"
  srUnbound :: "(string \<times> string) list"
  srDropped :: "nat list"
  srAnswer :: "go_err + string"

definition wantMessage :: "string \<Rightarrow> SubscribeMessage \<Rightarrow> RoomMessage" where
  "wantMessage tp message =
     MWant \<lparr> wmRouter = Some (newRouter\<lparr> room := subRoom message \<rparr>), wmReqTypes = [], wmPattern = subPattern message, wmTransportId = tp \<rparr>"

definition subscribeAdd :: "string \<Rightarrow> string \<Rightarrow> SubscribeMessage \<Rightarrow> PublicationPattern \<Rightarrow> string \<Rightarrow> SignalContext \<Rightarrow> SubscribeResult" where
  "subscribeAdd node tp message pattern subId c =
     (let sub = \<lparr> sbId = subId, sbClosed = False, sbReqTypes = subReqTypes message, sbPattern = pattern,
                  sbAcceptedPubId = '''', sbAcceptedTrack = [] \<rparr>;
          c' = c\<lparr> scSubscriptions := mput subId sub (scSubscriptions c) \<rparr>
      in \<lparr> srContext = c', srEmitted = clusterEmit node c' (wantMessage tp message), srUnbound = [], srDropped = [],
           srAnswer = Inr subId \<rparr>)"

definition subscribeUpdate :: "string \<Rightarrow> string \<Rightarrow> GroupOrder \<Rightarrow> SubscribeMessage \<Rightarrow> PublicationPattern \<Rightarrow> SignalContext \<Rightarrow> SubscribeResult res" where
  "subscribeUpdate node tp ord message pattern c =
     (case mget (scSubscriptions c) (subMsgId message) of
        None \<Rightarrow> Inr \<lparr> srContext = c, srEmitted = [], srUnbound = [], srDropped = [], srAnswer = Inl SubNotExist \<rparr>
      | Some sub \<Rightarrow>
          bind_res (UpdatePattern ord pattern (subReqTypes message) sub) (\<lambda>(sub', removed).
            let c' = c\<lparr> scSubscriptions := mput (subMsgId message) sub' (scSubscriptions c) \<rparr>
            in Inr \<lparr> srContext = c', srEmitted = clusterEmit node c' (wantMessage tp message), srUnbound = [], srDropped = removed,
                     srAnswer = Inr (sbId sub) \<rparr>))"

definition subscribeRemove :: "SubscribeMessage \<Rightarrow> SignalContext \<Rightarrow> SubscribeResult" where
  "subscribeRemove message c =
     (case mget (scSubscriptions c) (subMsgId message) of
        None \<Rightarrow> \<lparr> srContext = c, srEmitted = [], srUnbound = [], srDropped = [], srAnswer = Inl SubNotExist \<rparr>
      | Some sub \<Rightarrow>
          (case Subscription_Close sub of
             (_, unbound, dropped) \<Rightarrow>
               \<lparr> srContext = c\<lparr> scSubscriptions := mdel (sbId sub) (mdel (subMsgId message) (scSubscriptions c)) \<rparr>,
                 srEmitted = [], srUnbound = unbound, srDropped = dropped, srAnswer = Inr (sbId sub) \<rparr>))"

text \<open>A validated add or update request has a pattern; the default branch of the switch panics.\<close>

definition Subscribe :: "string \<Rightarrow> string \<Rightarrow> GroupOrder \<Rightarrow> (nat \<Rightarrow> string) \<Rightarrow> SubscribeMessage \<Rightarrow> SignalContext \<Rightarrow> SubscribeResult res option" where
  "Subscribe node tp ord uuids message c =
     (case SubscribeMessage_Validate message of
        Inl p \<Rightarrow> Some (Inl p)
      | Inr (Inl e) \<Rightarrow> Some (Inr \<lparr> srContext = c, srEmitted = [], srUnbound = [], srDropped = [], srAnswer = Inl e \<rparr>)
      | Inr (Inr _) \<Rightarrow>
          if subOp message = 0
          then (case subPattern message of
                  None \<Rightarrow> Some (Inl NilDeref)
                | Some pattern \<Rightarrow>
                    map_option (\<lambda>subId. Inr (subscribeAdd node tp message pattern subId c)) (newId uuids 0 (scSubscriptions c)))
          else if subOp message = 1
          then (case subPattern message of
                  None \<Rightarrow> Some (Inl NilDeref)
                | Some pattern \<Rightarrow> Some (subscribeUpdate node tp ord message pattern c))
          else if subOp message = 2 then Some (Inr (subscribeRemove message c))
          else Some (Inl (ErrorPanic ThisIsImpossible)))"

section \<open>Publish\<close>

definition publishedTrack :: "string \<Rightarrow> string \<Rightarrow> TrackToPublish \<Rightarrow> PublishedTrack" where
  "publishedTrack pid tid t =
     \<lparr> ptTrack = \<lparr> trackType = tpType t, pubId = pid, globalId = tid, localId = '''', bindId = tpBindId t, rid = tpRid t,
                   streamId = tpSid t, codec = None, labels = tpLabels t \<rparr>,
       ptRemote = None \<rparr>"

text \<open>\<open>tids\<close> are the ids drawn for the tracks; the entries of the map are put one by one.\<close>

definition publishedTracks :: "(nat \<Rightarrow> string) \<Rightarrow> string \<Rightarrow> TrackToPublish list \<Rightarrow> (string, PublishedTrack) gomap" where
  "publishedTracks tids pid ts =
     foldl (\<lambda>m (i, t). mput (tids i) (publishedTrack pid (tids i) t) m) [] (enumerate 0 ts)"

definition Publish :: "(nat \<Rightarrow> string) \<Rightarrow> (nat \<Rightarrow> string) \<Rightarrow> PublishMessage \<Rightarrow> SignalContext \<Rightarrow> (SignalContext \<times> (go_err + string)) res option" where
  "Publish uuids tids message c =
     (case PublishMessage_Validate message of
        Inl e \<Rightarrow> Some (Inr (c, Inl e))
      | Inr _ \<Rightarrow>
          if pubOp message = 0
          then map_option (\<lambda>pid.
                 Inr (c\<lparr> scPublications :=
                           mput pid \<lparr> pbId = pid, pbClosed = False, pbTracks = publishedTracks tids pid (pubTracks message), pbRecordStart = False \<rparr>
                             (scPublications c) \<rparr>, Inr pid))
                 (newId uuids 0 (scPublications c))
          else if pubOp message = 1
          then (case mget (scPublications c) (pubMsgId message) of
                  None \<Rightarrow> Some (Inr (c, Inr ''''))
                | Some pub \<Rightarrow>
                    Some (bind_res (Publication_Close pub) (\<lambda>_.
                      Inr (c\<lparr> scPublications := mdel (pbId pub) (scPublications c) \<rparr>, Inr (pubMsgId message)))))
          else Some (Inl (ErrorPanic ThisIsImpossible)))"

section \<open>Messages about tracks\<close>

text \<open>The pattern of a want message is a pointer; a publication with a bound track evaluates it.\<close>

definition stateOf :: "GroupOrder \<Rightarrow> WantMessage \<Rightarrow> Publication \<Rightarrow> Track list res" where
  "stateOf ord want pub =
     (case wmPattern want of
        Some pattern \<Rightarrow> Publication_State ord want pattern pub
      | None \<Rightarrow> if list_ex (\<lambda>(_, pt). isBind pt) (pbTracks pub) then Inl NilDeref else Inr [])"

definition StateWant :: "string \<Rightarrow> string \<Rightarrow> GroupOrder \<Rightarrow> SignalContext \<Rightarrow> WantMessage \<Rightarrow> RoomMessage list res" where
  "StateWant node addr ord c message =
     (if \<not> matchRoomMsg c (MWant message) then Inr []
      else fold_res (\<lambda>(_, pub) out.
             bind_res (stateOf ord message pub) (\<lambda>satified.
               Inr (out @ (if satified \<noteq> []
                           then clusterEmit node c (MState \<lparr> smRouter = None, smPubId = pbId pub, smAddr = addr, smTracks = satified \<rparr>)
                           else [])))) (scPublications c) [])"

text \<open>
  A state message goes to every subscription of the context; for each that attached a track the next
  sdp id is drawn and a select message is emitted.
\<close>

definition acceptOne :: "string \<Rightarrow> string \<Rightarrow> GroupOrder \<Rightarrow> go_err option \<Rightarrow> (Track \<Rightarrow> go_err + Attached) \<Rightarrow> StateMessage
    \<Rightarrow> string \<times> Subscription \<Rightarrow> SignalContext \<times> RoomMessage list \<Rightarrow> (SignalContext \<times> RoomMessage list) res" where
  "acceptOne node tp ord peerErr attach msg entry st =
     bind_res (Subscription_AcceptTrack ord peerErr attach msg (snd entry)) (\<lambda>(sub', _, neg).
       let c = (fst st)\<lparr> scSubscriptions := mput (fst entry) sub' (scSubscriptions (fst st)) \<rparr>
       in case neg of
            None \<Rightarrow> Inr (c, snd st)
          | Some ng \<Rightarrow>
              (let c' = fst (NextSdpMsgId c)
               in Inr (c', snd st @ clusterEmit node c' (MSelect
                    \<lparr> selRouter = None, selPubId = ngPubId ng, selTransportId = tp, selTracks = ngSelect ng \<rparr>))))"

definition AcceptTrackMsg :: "string \<Rightarrow> string \<Rightarrow> GroupOrder \<Rightarrow> go_err option \<Rightarrow> (Track \<Rightarrow> go_err + Attached) \<Rightarrow> SignalContext \<Rightarrow> StateMessage
    \<Rightarrow> (SignalContext \<times> RoomMessage list) res" where
  "AcceptTrackMsg node tp ord peerErr attach c msg =
     (if \<not> matchRoomMsg c (MState msg) then Inr (c, [])
      else fold_res (acceptOne node tp ord peerErr attach msg) (scSubscriptions c) (c, []))"

section \<open>Sending with retries\<close>

text \<open>
  \<open>_emit\<close>: \<open>send i\<close> is the answer of the \<open>i\<close>-th attempt of \<open>Signal.SendMsg\<close>. With an acknowledgement the
  attempt is repeated up to \<open>retries\<close> times, a negative number counting as none; the result is the
  answer of the last attempt, and the number of attempts.
\<close>

fun emitLoop :: "(nat \<Rightarrow> go_err + 'a) \<Rightarrow> nat \<Rightarrow> nat \<Rightarrow> (go_err + 'a) \<times> nat" where
  "emitLoop send i 0 = (send i, Suc i)"
| "emitLoop send i (Suc left) =
     (case send i of Inr x \<Rightarrow> (Inr x, Suc i) | Inl e \<Rightarrow> emitLoop send (Suc i) left)"

definition emitEvent :: "(nat \<Rightarrow> go_err + 'a) \<Rightarrow> bool \<Rightarrow> int \<Rightarrow> (go_err + 'a) \<times> nat" where
  "emitEvent send ack retries = (if ack then emitLoop send 0 (nat retries) else (send 0, 1))"

section \<open>The invariant of the maps\<close>

text \<open>Subscriptions are filed under their own id, open, well-formed and with a valid pattern;
  publications are filed under their own id and open.\<close>

definition media_ok :: "SignalContext \<Rightarrow> bool" where
  "media_ok c \<longleftrightarrow> mwf (scSubscriptions c) \<and> mwf (scPublications c) \<and>
     (\<forall>k sub. mget (scSubscriptions c) k = Some sub \<longrightarrow>
        sbId sub = k \<and> sub_ok sub \<and> \<not> sbClosed sub \<and> Validate (sbPattern sub) = Inr ()) \<and>
     (\<forall>k pub. mget (scPublications c) k = Some pub \<longrightarrow> pbId pub = k \<and> \<not> pbClosed pub)"

lemma media_ok_new: "media_ok (newSignalContext ai uid)"
  by (simp add: media_ok_def newSignalContext_def)

lemma media_ok_put_sub:
  "media_ok c \<Longrightarrow> sbId sub = k \<Longrightarrow> sub_ok sub \<Longrightarrow> \<not> sbClosed sub \<Longrightarrow> Validate (sbPattern sub) = Inr () \<Longrightarrow>
   media_ok (c\<lparr> scSubscriptions := mput k sub (scSubscriptions c) \<rparr>)"
  by (auto simp: media_ok_def gomap_simps)

lemma media_ok_del_sub: "media_ok c \<Longrightarrow> media_ok (c\<lparr> scSubscriptions := mdel k (scSubscriptions c) \<rparr>)"
  by (auto simp: media_ok_def gomap_simps)

lemma media_ok_put_pub:
  "media_ok c \<Longrightarrow> pbId pub = k \<Longrightarrow> \<not> pbClosed pub \<Longrightarrow> media_ok (c\<lparr> scPublications := mput k pub (scPublications c) \<rparr>)"
  by (auto simp: media_ok_def gomap_simps)

lemma media_ok_del_pub: "media_ok c \<Longrightarrow> media_ok (c\<lparr> scPublications := mdel k (scPublications c) \<rparr>)"
  by (auto simp: media_ok_def gomap_simps)

lemma media_ok_sdp: "media_ok (fst (NextSdpMsgId c)) \<longleftrightarrow> media_ok c"
  by (simp add: media_ok_def NextSdpMsgId_def)

lemma UpdatePattern_fields:
  assumes "UpdatePattern ord pattern reqTypes s = Inr (s', removed)" "sub_ok s"
  shows "sbId s' = sbId s \<and> sbClosed s' = sbClosed s \<and> sbPattern s' = pattern"
proof -
  have k: "sbId (fst (removeUnmatched ts p)) = sbId (fst p) \<and> sbClosed (fst (removeUnmatched ts p)) = sbClosed (fst p)" for ts p
    by (induction ts p rule: removeUnmatched.induct) (auto split: option.splits)
  obtain matched unmatched where
      m: "MatchTracks ord pattern (map (\<lambda>(_, st). stPubTrack st) (sbAcceptedTrack s)) reqTypes = Inr (matched, unmatched)"
    using assms(1) by (auto simp: UpdatePattern_def bind_res_Inr_iff)
  obtain s1 rem where "removeUnmatched unmatched (s, []) = (s1, rem)" by fastforce
  with assms(1) m k [of unmatched "(s, [])"] show ?thesis by (auto simp: UpdatePattern_def)
qed

lemma Validate_subscribe:
  "SubscribeMessage_Validate message = Inr (Inr u) \<Longrightarrow>
   subOp message = 2 \<or> (subOp message = 0 \<or> subOp message = 1) \<and> (\<exists>p. subPattern message = Some p \<and> Validate p = Inr ())"
  by (auto simp: SubscribeMessage_Validate_def ValidatePtr_def split: if_splits option.splits)

lemma subscribeUpdate_ok:
  assumes "media_ok c" "Validate pattern = Inr ()" "\<And>g. mset (ord g) = mset g"
  shows "\<exists>r. subscribeUpdate node tp ord message pattern c = Inr r \<and> media_ok (srContext r)"
proof (cases "mget (scSubscriptions c) (subMsgId message)")
  case None
  then show ?thesis using assms(1) by (simp add: subscribeUpdate_def)
next
  case (Some sub)
  then have s: "sub_ok sub" "sbId sub = subMsgId message" "\<not> sbClosed sub" using assms(1) by (auto simp: media_ok_def)
  obtain s' removed where u: "UpdatePattern ord pattern (subReqTypes message) sub = Inr (s', removed)" "sub_ok s'"
    using UpdatePattern_ok [OF s(1) assms(2,3)] by blast
  have "media_ok (c\<lparr> scSubscriptions := mput (subMsgId message) s' (scSubscriptions c) \<rparr>)"
    using UpdatePattern_fields [OF u(1) s(1)] u(2) s assms(2) by (intro media_ok_put_sub [OF assms(1)]) simp_all
  then show ?thesis using Some u(1) by (simp add: subscribeUpdate_def Let_def)
qed

lemma subscribeAdd_ok:
  "media_ok c \<Longrightarrow> Validate pattern = Inr () \<Longrightarrow> media_ok (srContext (subscribeAdd node tp message pattern subId c))"
  by (auto simp: subscribeAdd_def Let_def sub_ok_def intro!: media_ok_put_sub)

lemma subscribeRemove_ok: "media_ok c \<Longrightarrow> media_ok (srContext (subscribeRemove message c))"
  by (auto simp: subscribeRemove_def media_ok_def gomap_simps split: option.splits prod.splits)

section \<open>Properties\<close>

lemma Subscribe_answer:
  assumes "media_ok c" "inj uuids" "\<And>g. mset (ord g) = mset g" "subOp message = 2 \<or> subPattern message \<noteq> None"
  shows "\<exists>r. Subscribe node tp ord uuids message c = Some (Inr r) \<and> media_ok (srContext r) \<and>
    (\<forall>e. srAnswer r = Inl e \<longrightarrow> srContext r = c \<and> srEmitted r = [])"
proof -
  have "\<exists>v. SubscribeMessage_Validate message = Inr v"
    using assms(4) by (auto simp: SubscribeMessage_Validate_def ValidatePtr_def)
  then obtain v where v: "SubscribeMessage_Validate message = Inr v" ..
  show ?thesis
  proof (cases v)
    case (Inl e)
    then show ?thesis using v assms(1) by (simp add: Subscribe_def)
  next
    case (Inr u)
    consider (rm) "subOp message = 2" | (add) p where "subOp message = 0" "subPattern message = Some p" "Validate p = Inr ()"
      | (upd) p where "subOp message = 1" "subPattern message = Some p" "Validate p = Inr ()"
      using Validate_subscribe [OF v [unfolded Inr]] by blast
    then show ?thesis
    proof cases
      case rm
      then have "Subscribe node tp ord uuids message c = Some (Inr (subscribeRemove message c))"
        using v Inr by (simp add: Subscribe_def)
      then show ?thesis
        using subscribeRemove_ok [OF assms(1)] by (simp add: subscribeRemove_def split: option.splits prod.splits)
    next
      case (add p)
      obtain subId where "newId uuids 0 (scSubscriptions c) = Some subId" using newId_returns [OF assms(2)] by blast
      then have "Subscribe node tp ord uuids message c = Some (Inr (subscribeAdd node tp message p subId c))"
        using v Inr add by (simp add: Subscribe_def)
      then show ?thesis using subscribeAdd_ok [OF assms(1) add(3)] by (simp add: subscribeAdd_def Let_def)
    next
      case (upd p)
      obtain r where r: "subscribeUpdate node tp ord message p c = Inr r" "media_ok (srContext r)"
        using subscribeUpdate_ok [OF assms(1) upd(3) assms(3)] by blast
      have "srContext r = c \<and> srEmitted r = []" if "srAnswer r = Inl e" for e
        using r(1) that by (auto simp: subscribeUpdate_def bind_res_Inr_iff Let_def split: option.splits)
      then show ?thesis using r v Inr upd by (auto simp: Subscribe_def)
    qed
  qed
qed

text \<open>a subscribe request with a pattern always gets an answer: with ids that do not repeat the loop
  that draws one returns, no branch panics, and the context's subscriptions stay well formed,
  open and with valid patterns; a refused request changes and emits nothing.\<close>

theorem Subscribe_total:
  assumes "media_ok c" "inj uuids" "\<And>g. mset (ord g) = mset g" "subOp message = 2 \<or> subPattern message \<noteq> None"
  shows "\<exists>r. Subscribe node tp ord uuids message c = Some (Inr r) \<and> media_ok (srContext r) \<and>
    (\<forall>e. srAnswer r = Inl e \<longrightarrow> srContext r = c \<and> srEmitted r = [])"
  by (rule Subscribe_answer) (use assms in auto)

lemma publishedTracks_keys:
  "mget (publishedTracks tids pid ts) k = Some pt \<Longrightarrow> globalId (ptTrack pt) = k \<and> pubId (ptTrack pt) = pid \<and> \<not> isBind pt"
proof -
  have "\<forall>k pt. mget (foldl (\<lambda>m (i, t). mput (tids i) (publishedTrack pid (tids i) t) m) m (enumerate n ts)) k = Some pt \<longrightarrow>
      globalId (ptTrack pt) = k \<and> pubId (ptTrack pt) = pid \<and> \<not> isBind pt"
    if "\<forall>k pt. mget m k = Some pt \<longrightarrow> globalId (ptTrack pt) = k \<and> pubId (ptTrack pt) = pid \<and> \<not> isBind pt" for m n
    using that
  proof (induction ts arbitrary: m n)
    case Nil
    then show ?case by simp
  next
    case (Cons t ts)
    have "\<forall>k pt. mget (mput (tids n) (publishedTrack pid (tids n) t) m) k = Some pt \<longrightarrow>
        globalId (ptTrack pt) = k \<and> pubId (ptTrack pt) = pid \<and> \<not> isBind pt"
      using Cons.prems by (auto simp: gomap_simps publishedTrack_def isBind_def)
    from Cons.IH [OF this] show ?case by simp
  qed
  from this [of "[]" 0] show "mget (publishedTracks tids pid ts) k = Some pt \<Longrightarrow>
      globalId (ptTrack pt) = k \<and> pubId (ptTrack pt) = pid \<and> \<not> isBind pt"
    by (simp add: publishedTracks_def)
qed

lemma Publish_answer:
  assumes "media_ok c" "inj uuids"
  shows "\<exists>c' a. Publish uuids tids message c = Some (Inr (c', a)) \<and> media_ok c' \<and>
    (case PublishMessage_Validate message of
       Inl e \<Rightarrow> c' = c \<and> a = Inl e
     | Inr _ \<Rightarrow>
         if pubOp message = 0
         then (\<exists>pid pub. a = Inr pid \<and> mget (scPublications c) pid = None \<and> mget (scPublications c') pid = Some pub \<and>
                 \<not> pbClosed pub \<and> (\<forall>k pt. mget (pbTracks pub) k = Some pt \<longrightarrow> pubId (ptTrack pt) = pid \<and> \<not> isBind pt))
         else mget (scPublications c') (pubMsgId message) = None \<and>
              a = Inr (if mget (scPublications c) (pubMsgId message) = None then '''' else pubMsgId message))"
proof (cases "PublishMessage_Validate message")
  case (Inl e)
  then show ?thesis using assms(1) by (simp add: Publish_def)
next
  case (Inr u)
  then consider (add) "pubOp message = 0" | (rm) "pubOp message = 1"
    by (auto simp: PublishMessage_Validate_def split: if_splits)
  then show ?thesis
  proof cases
    case add
    obtain pid where "newId uuids 0 (scPublications c) = Some pid" "mget (scPublications c) pid = None"
      using newId_returns [OF assms(2)] by blast
    then show ?thesis
      using Inr add publishedTracks_keys [of tids pid "pubTracks message"]
      by (auto simp: Publish_def gomap_simps intro!: media_ok_put_pub [OF assms(1)])
  next
    case rm
    show ?thesis
    proof (cases "mget (scPublications c) (pubMsgId message)")
      case None
      then show ?thesis using Inr rm assms(1) by (simp add: Publish_def)
    next
      case (Some pub)
      then have "pbId pub = pubMsgId message" "\<not> pbClosed pub" using assms(1) by (auto simp: media_ok_def)
      then show ?thesis
        using Inr rm Some media_ok_del_pub [OF assms(1)] by (simp add: Publish_def Publication_Close_def gomap_simps)
    qed
  qed
qed

text \<open>a publish request is answered without a panic and keeps the maps well formed. An accepted
  addition files a new, open publication under the id in the answer, whose tracks carry that id
  and are not bound; a removal takes the publication away, and one of an unknown publication is
  answered with an empty id instead of an error.\<close>

theorem Publish_total:
  assumes "media_ok c" "inj uuids"
  shows "\<exists>c' a. Publish uuids tids message c = Some (Inr (c', a)) \<and> media_ok c' \<and>
    (case PublishMessage_Validate message of
       Inl e \<Rightarrow> c' = c \<and> a = Inl e
     | Inr _ \<Rightarrow>
         if pubOp message = 0
         then (\<exists>pid pub. a = Inr pid \<and> mget (scPublications c) pid = None \<and> mget (scPublications c') pid = Some pub \<and>
                 \<not> pbClosed pub \<and> (\<forall>k pt. mget (pbTracks pub) k = Some pt \<longrightarrow> pubId (ptTrack pt) = pid \<and> \<not> isBind pt))
         else mget (scPublications c') (pubMsgId message) = None \<and>
              a = Inr (if mget (scPublications c) (pubMsgId message) = None then '''' else pubMsgId message))"
  by (rule Publish_answer) (use assms in auto)

text \<open>an event with acknowledgement is tried at most once more than the configured retries, and at
  least once; it succeeds exactly when one of these attempts does, and no attempt follows a
  success.\<close>

theorem emitEvent_retries:
  "snd (emitEvent send True retries) \<le> nat retries + 1 \<and> 1 \<le> snd (emitEvent send True retries) \<and>
   (isl (fst (emitEvent send True retries)) \<longleftrightarrow> list_all (\<lambda>i. isl (send i)) [0..<nat retries + 1]) \<and>
   list_all (\<lambda>i. isl (send i)) [0..<snd (emitEvent send True retries) - 1]"
proof -
  have "i < snd (emitLoop send i left) \<and> snd (emitLoop send i left) \<le> i + left + 1 \<and>
      (isl (fst (emitLoop send i left)) \<longleftrightarrow> (\<forall>j \<in> {i..i + left}. isl (send j))) \<and>
      (\<forall>j \<in> {i..<snd (emitLoop send i left) - 1}. isl (send j))" for i left
  proof (induction left arbitrary: i)
    case 0
    then show ?case by simp
  next
    case (Suc left)
    show ?case
    proof (cases "send i")
      case (Inr x)
      then show ?thesis by (auto intro!: bexI [of _ i])
    next
      case (Inl e)
      have r: "{i..i + Suc left} = insert i {Suc i..Suc i + left}" by auto
      have q: "j \<in> {Suc i..<n} \<or> j = i" if "j \<in> {i..<n}" for j n using that by auto
      show ?thesis using Suc.IH [of "Suc i"] Inl unfolding r by (auto dest!: q)
    qed
  qed
  from this [of 0 "nat retries"] show ?thesis
    by (auto simp: emitEvent_def list_all_iff Suc_le_eq)
qed

section \<open>Witnesses\<close>

lemma inj_decimal: "inj decimal"
proof (rule injI)
  fix m n assume "decimal m = decimal n"
  then show "m = n" using decimal_props [of m] decimal_props [of n] by metis
qed

theorem Subscribe_total_witness:
  "\<exists>r. Subscribe ''n'' ''tp'' (\<lambda>g. g) decimal
     \<lparr> subOp = 0, subMsgId = '''', subReqTypes = [], subPattern = Some video_pattern, subRoom = '''' \<rparr>
     (newSignalContext demo_auth ''s'') = Some (Inr r) \<and> media_ok (srContext r)"
  using Subscribe_total [OF media_ok_new [of demo_auth "''s''"] inj_decimal, of "\<lambda>g. g"
      "\<lparr> subOp = 0, subMsgId = '''', subReqTypes = [], subPattern = Some video_pattern, subRoom = '''' \<rparr>" "''n''" "''tp''"] by auto

theorem Publish_total_witness:
  "\<exists>c' a. Publish decimal decimal \<lparr> pubOp = 0, pubMsgId = '''',
      pubTracks = [\<lparr> tpType = ''video'', tpBindId = ''0'', tpRid = '''', tpSid = '''', tpLabels = [] \<rparr>] \<rparr>
     (newSignalContext demo_auth ''s'') = Some (Inr (c', a)) \<and> media_ok c'"
  using Publish_total [OF media_ok_new [of demo_auth "''s''"] inj_decimal] by fast

end
