(* ===== verification/SignalNode.thy ===== *)
theory SignalNode
  imports SignalContexts
begin

text \<open>
  A node with its signal contexts (\<open>signal/global.go\<close>, \<open>signal/main.go\<close> and \<open>SelfClose\<close> of
  \<open>signal/model.go\<close>): the registry of contexts, the registration of a context's handlers with the
  messager when it is initialised and their removal when it closes, the emission of messages with
  the deliveries they start, and the delivery of a room message to the clients. A context is an
  object: the registry and the handlers hold references to it (numbers), and the heap of the node
  says what they stand for. The start callback's answer is a parameter.
\<close>

section \<open>Handlers\<close>

datatype HandlerKind =
    HAcceptTrack | HStateWant | HSatifySelect | HStateParticipants | HAcceptParticipants
  | HStateParticipantLeave | HOnPing | HOnPong | HOnCustom | HOnCustomAck

type_synonym Handler = "nat \<times> HandlerKind"

text \<open>The ten registrations of \<open>InitSignal\<close> and the ten removals of \<open>SelfClose\<close>, in their order.\<close>

definition registerHandlers :: "Handler Messager \<Rightarrow> string \<Rightarrow> nat \<Rightarrow> string list \<Rightarrow> Handler Messager res" where
  "registerHandlers m uid ref ps =
     bind_res (OnState m uid (ref, HAcceptTrack) ps) (\<lambda>m.
     bind_res (OnWant m uid (ref, HStateWant) ps) (\<lambda>m.
     bind_res (OnSelect m uid (ref, HSatifySelect) ps) (\<lambda>m.
     bind_res (OnWantParticipant m uid (ref, HStateParticipants) ps) (\<lambda>m.
     bind_res (OnStateParticipant m uid (ref, HAcceptParticipants) ps) (\<lambda>m.
     bind_res (OnStateLeave m uid (ref, HStateParticipantLeave) ps) (\<lambda>m.
     bind_res (OnPing m uid (ref, HOnPing) ps) (\<lambda>m.
     bind_res (OnPong m uid (ref, HOnPong) ps) (\<lambda>m.
     bind_res (OnCustom m uid (ref, HOnCustom) ps) (\<lambda>m.
     OnCustomAck m uid (ref, HOnCustomAck) ps)))))))))"

definition unregisterHandlers :: "Handler Messager \<Rightarrow> string \<Rightarrow> string list \<Rightarrow> Handler Messager res" where
  "unregisterHandlers m uid ps =
     bind_res (OffState m uid ps) (\<lambda>m.
     bind_res (OffWant m uid ps) (\<lambda>m.
     bind_res (OffSelect m uid ps) (\<lambda>m.
     bind_res (OffWantParticipant m uid ps) (\<lambda>m.
     bind_res (OffStateParticipant m uid ps) (\<lambda>m.
     bind_res (OffStateLeave m uid ps) (\<lambda>m.
     bind_res (OffPing m uid ps) (\<lambda>m.
     bind_res (OffPong m uid ps) (\<lambda>m.
     bind_res (OffCustom m uid ps) (\<lambda>m.
     OffCustomAck m uid ps)))))))))"

section \<open>The registry\<close>

record Node =
  ndMessager :: "Handler Messager"
  ndHeap :: "(nat, SignalContext) gomap"
  ndSigMap :: "(string, nat) gomap"
  ndSigMapByUser :: "(string, nat list) gomap"

definition ctxOf :: "Node \<Rightarrow> nat \<Rightarrow> SignalContext" where
  "ctxOf nd ref = (case mget (ndHeap nd) ref of Some c \<Rightarrow> c | None \<Rightarrow> newSignalContext
     \<lparr> Usage = '''', Key = '''', UID = '''', UName = '''', Role = '''', authRooms = [], AutoJoin = False, Timestamp = 0, Deadline = 0, Nonce = 0 \<rparr> '''')"

definition setCtx :: "nat \<Rightarrow> SignalContext \<Rightarrow> Node \<Rightarrow> Node" where
  "setCtx ref c nd = nd\<lparr> ndHeap := mput ref c (ndHeap nd) \<rparr>"

definition RegisterSignalContext :: "nat \<Rightarrow> Node \<Rightarrow> Node" where
  "RegisterSignalContext ref nd =
     (let c = ctxOf nd ref; uid = UID (scAuth c)
      in nd\<lparr> ndSigMapByUser :=
               (case mget (ndSigMapByUser nd) uid of
                  None \<Rightarrow> mput uid [ref] (ndSigMapByUser nd)
                | Some ctxs \<Rightarrow> mput uid (ctxs @ [ref]) (ndSigMapByUser nd)),
             ndSigMap := mput (scId c) ref (ndSigMap nd) \<rparr>)"

definition FindSignalContextById :: "string \<Rightarrow> Node \<Rightarrow> nat option" where
  "FindSignalContextById uid nd = mget (ndSigMap nd) uid"

definition FindSignalContextByUser :: "string \<Rightarrow> Node \<Rightarrow> nat list" where
  "FindSignalContextByUser uid nd = (case mget (ndSigMapByUser nd) uid of Some ctxs \<Rightarrow> ctxs | None \<Rightarrow> [])"

section \<open>Closing and initialising\<close>

text \<open>
  \<open>SelfClose\<close>: the departure messages, the messager without the handlers, the subscriptions unbound
  from the router, and whether the close callback is called. The maps are emptied by the \<open>Close\<close> of
  their elements; closing the peer, cancelling the context and closing the signal end the
  connection. \<open>RoomPaterns\<close> are valid for a registered context; the removal panics otherwise.
\<close>

definition closeMedia :: "SignalContext \<Rightarrow> SignalContext \<times> (string \<times> string) list" where
  "closeMedia c =
     (c\<lparr> scPeerClosed := True, scPublications := [], scSubscriptions := [] \<rparr>,
      concat (map (\<lambda>(_, sub). fst (snd (Subscription_Close sub))) (scSubscriptions c)))"

definition SelfClose :: "bool \<Rightarrow> nat \<Rightarrow> Node \<Rightarrow> (Node \<times> RoomMessage list \<times> (string \<times> string) list \<times> bool) res" where
  "SelfClose disableCloseCallback ref nd =
     (let c = ctxOf nd ref
      in if scClosed c then Inr (nd, [], [], False)
         else
           (let c1 = c\<lparr> scClosed := True \<rparr>;
                (c2, out) = LeaveRoom (nodeName (ndMessager nd)) (Rooms c1) c1;
                c3 = (if disableCloseCallback then c2\<lparr> scCloseCbDisabled := True \<rparr> else c2)
            in bind_res (unregisterHandlers (ndMessager nd) (scId c3) (RoomPaterns c3)) (\<lambda>m.
                 let (c4, unbound) = closeMedia c3;
                     call = (\<not> scCloseCbDisabled c4 \<and> scCloseCb c4);
                     c5 = (if call then c4\<lparr> scCloseCb := False \<rparr> else c4)
                 in Inr (setCtx ref c5 (nd\<lparr> ndMessager := m \<rparr>), out, unbound, call))))"

definition CloseSignalContext :: "string \<Rightarrow> bool \<Rightarrow> Node \<Rightarrow> (Node \<times> RoomMessage list \<times> (string \<times> string) list \<times> bool) res" where
  "CloseSignalContext uid disableCloseCallback nd =
     (case mget (ndSigMap nd) uid of
        None \<Rightarrow> Inr (nd, [], [], False)
      | Some ref \<Rightarrow>
          (let user = UID (scAuth (ctxOf nd ref));
               nd1 = nd\<lparr> ndSigMap := mdel uid (ndSigMap nd) \<rparr>;
               nd2 = (case mget (ndSigMapByUser nd1) user of
                        None \<Rightarrow> nd1
                      | Some ctxs \<Rightarrow>
                          (let ctxs' = snd (SliceRemoveIfIgnoreOrder ctxs (\<lambda>v. scId (ctxOf nd v) = uid))
                           in if ctxs' = [] then nd1\<lparr> ndSigMapByUser := mdel user (ndSigMapByUser nd1) \<rparr>
                              else nd1\<lparr> ndSigMapByUser := mput user ctxs' (ndSigMapByUser nd1) \<rparr>))
           in SelfClose disableCloseCallback ref nd2))"

text \<open>
  \<open>InitSignal\<close> up to the requests' handlers: \<open>start\<close> is the answer of the start callback (status 0: no
  url). The result holds the messages emitted and the error.
\<close>

definition InitSignal :: "go_err + int \<Rightarrow> nat \<Rightarrow> Node \<Rightarrow> (Node \<times> RoomMessage list \<times> (go_err + unit)) res" where
  "InitSignal start ref nd =
     (let c = ctxOf nd ref; node = nodeName (ndMessager nd)
      in if scInited c then Inr (nd, [], Inr ())
         else
           (let c1 = c\<lparr> scInited := True \<rparr>; nd1 = setCtx ref c1 nd
            in bind_res (if AutoJoin (scAuth c1) then JoinRoom node [] c1 else Inr (c1, [], Inr ())) (\<lambda>(c2, out, r).
                 case r of
                   Inl e \<Rightarrow> bind_res (SelfClose True ref (setCtx ref c2 nd1)) (\<lambda>(nd', out', _, _). Inr (nd', out @ out', Inl e))
                 | Inr _ \<Rightarrow>
                     (let nd2 = setCtx ref c2 nd1
                      in case start of
                           Inl e \<Rightarrow> bind_res (SelfClose True ref nd2) (\<lambda>(nd', out', _, _).
                             Inr (nd', out @ out', Inl (FatalError ''start callback invoked failed with error %v, so close the singal context.'')))
                         | Inr st \<Rightarrow>
                             if st \<noteq> 0 \<and> st \<noteq> 200
                             then bind_res (SelfClose True ref nd2) (\<lambda>(nd', out', _, _).
                               Inr (nd', out @ out', Inl (FatalError ''start callback return status code %v, so close the singal context.'')))
                             else
                               (let nd3 = RegisterSignalContext ref (setCtx ref (c2\<lparr> scCloseCb := True \<rparr>) nd2)
                                in bind_res (registerHandlers (ndMessager nd3) (scId c2) ref (RoomPaterns c2)) (\<lambda>m.
                                     Inr (nd3\<lparr> ndMessager := m \<rparr>, out, Inr ())))))))"

section \<open>Emission and delivery\<close>

text \<open>
  The messages of \<open>clusterEmit\<close>, handed to \<open>Emit\<close> one after the other: an error is logged, a panic (an
  invalid room) ends the loop. The result holds the handlers started with their message, the
  records for Kafka and the panic.
\<close>

fun emitAll :: "(RoomMessage \<Rightarrow> byte list option) \<Rightarrow> (KafkaRecord \<Rightarrow> go_err + unit) \<Rightarrow> Handler Messager \<Rightarrow> RoomMessage list
    \<Rightarrow> (Handler \<times> RoomMessage) list \<times> KafkaRecord list \<times> go_panic option" where
  "emitAll marshal broker m [] = ([], [], None)"
| "emitAll marshal broker m (x # xs) =
     (case Emit marshal broker m x of
        Inl p \<Rightarrow> ([], [], Some p)
      | Inr (x', funs, sent, _) \<Rightarrow>
          (case emitAll marshal broker m xs of (ds, recs, p) \<Rightarrow> (map (\<lambda>f. (f, x')) funs @ ds, sent @ recs, p)))"

text \<open>What a started handler sends to its client.\<close>

fun runHandler :: "SignalContext \<Rightarrow> HandlerKind \<Rightarrow> RoomMessage \<Rightarrow> ClientEvent list" where
  "runHandler c HAcceptParticipants (MStateParticipant x) = AcceptParticipants c x"
| "runHandler c HStateParticipantLeave (MStateLeave x) = StateParticipantLeave c x"
| "runHandler c HOnPing (MPing x) = OnPingMessage c x"
| "runHandler c HOnPong (MPong x) = OnPongMessage c x"
| "runHandler c HOnCustom (MCustomCluster x) = OnCustomMessage c x"
| "runHandler c HOnCustomAck (MCustomAck x) = OnCustomAckMessage c x"
| "runHandler c _ _ = []"

definition clientEvents :: "Node \<Rightarrow> (Handler \<times> RoomMessage) list \<Rightarrow> (nat \<times> ClientEvent) list" where
  "clientEvents nd ds =
     concat (map (\<lambda>((ref, kind), x). map (\<lambda>ev. (ref, ev)) (runHandler (ctxOf nd ref) kind x)) ds)"

section \<open>The handlers of a context\<close>

fun cbMap :: "HandlerKind \<Rightarrow> 'f Messager \<Rightarrow> 'f FuncBoxes PatternMap" where
  "cbMap HAcceptTrack m = onStateCallbacks m"
| "cbMap HStateWant m = onWantCallbacks m"
| "cbMap HSatifySelect m = onSelectCallbacks m"
| "cbMap HStateParticipants m = onWantParticipantCallbacks m"
| "cbMap HAcceptParticipants m = onStateParticipantCallbacks m"
| "cbMap HStateParticipantLeave m = onStateLeaveCallbacks m"
| "cbMap HOnPing m = onPingCallbacks m"
| "cbMap HOnPong m = onPongCallbacks m"
| "cbMap HOnCustom m = onCustomCallbacks m"
| "cbMap HOnCustomAck m = onCustomAckCallbacks m"

definition withMaps :: "(HandlerKind \<Rightarrow> 'f FuncBoxes PatternMap) \<Rightarrow> 'f Messager \<Rightarrow> 'f Messager" where
  "withMaps G m = m\<lparr> onStateCallbacks := G HAcceptTrack, onWantCallbacks := G HStateWant, onSelectCallbacks := G HSatifySelect,
     onWantParticipantCallbacks := G HStateParticipants, onStateParticipantCallbacks := G HAcceptParticipants,
     onStateLeaveCallbacks := G HStateParticipantLeave, onPingCallbacks := G HOnPing, onPongCallbacks := G HOnPong,
     onCustomCallbacks := G HOnCustom, onCustomAckCallbacks := G HOnCustomAck \<rparr>"

lemma cbMap_withMaps [simp]: "cbMap kind (withMaps G m) = G kind" "nodeName (withMaps G m) = nodeName m" "kafka (withMaps G m) = kafka m"
  by (cases kind) (simp_all add: withMaps_def)

lemmas on_defs = OnState_def OnWant_def OnSelect_def OnWantParticipant_def OnStateParticipant_def OnStateLeave_def
  OnPing_def OnPong_def OnCustom_def OnCustomAck_def

lemmas off_defs = OffState_def OffWant_def OffSelect_def OffWantParticipant_def OffStateParticipant_def OffStateLeave_def
  OffPing_def OffPong_def OffCustom_def OffCustomAck_def

lemma registerHandlers_maps:
  assumes "\<And>kind. onMessage (cbMap kind m) uid (ref, kind) ps = Inr (G kind)"
  shows "registerHandlers m uid ref ps = Inr (withMaps G m)"
  using assms [of HAcceptTrack] assms [of HStateWant] assms [of HSatifySelect] assms [of HStateParticipants]
    assms [of HAcceptParticipants] assms [of HStateParticipantLeave] assms [of HOnPing] assms [of HOnPong]
    assms [of HOnCustom] assms [of HOnCustomAck]
  by (simp add: registerHandlers_def on_defs withMaps_def)

lemma unregisterHandlers_maps:
  assumes "\<And>kind. offMessage (cbMap kind m) uid ps = Inr (G kind)"
  shows "unregisterHandlers m uid ps = Inr (withMaps G m)"
  using assms [of HAcceptTrack] assms [of HStateWant] assms [of HSatifySelect] assms [of HStateParticipants]
    assms [of HAcceptParticipants] assms [of HStateParticipantLeave] assms [of HOnPing] assms [of HOnPong]
    assms [of HOnCustom] assms [of HOnCustomAck]
  by (simp add: unregisterHandlers_def off_defs withMaps_def)

definition valid_patterns :: "string list \<Rightarrow> bool" where
  "valid_patterns ps = list_all (\<lambda>p. CheckPattern p = Inr ()) ps"

lemma registerHandlers_ok:
  assumes "\<And>kind. cb_ok (F kind) (cbMap kind m)" "valid_patterns ps" "\<And>kind. F kind uid = (ref, kind)"
  shows "\<exists>m'. registerHandlers m uid ref ps = Inr m' \<and> nodeName m' = nodeName m \<and>
    (\<forall>kind. cb_ok (F kind) (cbMap kind m') \<and>
       registered (cbMap kind m') = registered (cbMap kind m) \<union> {(uid, p) |p. p \<in> set ps})"
proof -
  have "\<forall>kind. \<exists>pm'. onMessage (cbMap kind m) uid (ref, kind) ps = Inr pm' \<and> cb_ok (F kind) pm' \<and>
      registered pm' = registered (cbMap kind m) \<union> {(uid, p) |p. p \<in> set ps}"
    using onMessage_registered [OF assms(1) assms(2) [unfolded valid_patterns_def]] assms(3) by metis
  then obtain G where G: "\<And>kind. onMessage (cbMap kind m) uid (ref, kind) ps = Inr (G kind)"
      "\<And>kind. cb_ok (F kind) (G kind)"
      "\<And>kind. registered (G kind) = registered (cbMap kind m) \<union> {(uid, p) |p. p \<in> set ps}"
    by metis
  then show ?thesis using registerHandlers_maps [of m uid ref ps G] by auto
qed

lemma unregisterHandlers_ok:
  assumes "\<And>kind. cb_ok (F kind) (cbMap kind m)" "valid_patterns ps"
  shows "\<exists>m'. unregisterHandlers m uid ps = Inr m' \<and> nodeName m' = nodeName m \<and>
    (\<forall>kind. cb_ok (F kind) (cbMap kind m') \<and>
       registered (cbMap kind m') = registered (cbMap kind m) - {(uid, p) |p. p \<in> set ps})"
proof -
  have "\<forall>kind. \<exists>pm'. offMessage (cbMap kind m) uid ps = Inr pm' \<and> cb_ok (F kind) pm' \<and>
      registered pm' = registered (cbMap kind m) - {(uid, p) |p. p \<in> set ps}"
    using offMessage_registered [OF assms(1) assms(2) [unfolded valid_patterns_def]] by metis
  then obtain G where G: "\<And>kind. offMessage (cbMap kind m) uid ps = Inr (G kind)"
      "\<And>kind. cb_ok (F kind) (G kind)"
      "\<And>kind. registered (G kind) = registered (cbMap kind m) - {(uid, p) |p. p \<in> set ps}"
    by metis
  then show ?thesis using unregisterHandlers_maps [of m uid ps G] by auto
qed

text \<open>The callbacks may be described by another function that agrees on the registered ids.\<close>

lemma cb_ok_cong:
  assumes "cb_ok F pm" "\<And>k p. (k, p) \<in> registered pm \<Longrightarrow> F k = G k"
  shows "cb_ok G pm"
  using assms unfolding cb_ok_def registered_def by fastforce

section \<open>The invariant of a node\<close>

text \<open>
  The contexts of the registry are on the heap under their own id, their rooms are granted by their
  tokens, and the messager holds for every kind of message exactly their handlers, under exactly
  their patterns.
\<close>

definition ctx_ok :: "SignalContext \<Rightarrow> bool" where
  "ctx_ok c \<longleftrightarrow> \<not> scClosed c \<and> rooms_inv (scRooms c) \<and> valid_patterns (RoomPaterns c) \<and> (\<forall>rm \<in> set (Rooms c). granted (scAuth c) rm)"

definition live :: "Node \<Rightarrow> (string \<times> string) set" where
  "live nd = {(uid, p). \<exists>ref. mget (ndSigMap nd) uid = Some ref \<and> p \<in> set (RoomPaterns (ctxOf nd ref))}"

definition handlerFun :: "Node \<Rightarrow> HandlerKind \<Rightarrow> string \<Rightarrow> Handler" where
  "handlerFun nd kind uid = (the (mget (ndSigMap nd) uid), kind)"

definition node_ok :: "Node \<Rightarrow> bool" where
  "node_ok nd \<longleftrightarrow>
     (\<forall>uid ref. mget (ndSigMap nd) uid = Some ref \<longrightarrow>
        mget (ndHeap nd) ref \<noteq> None \<and> scId (ctxOf nd ref) = uid \<and> ctx_ok (ctxOf nd ref)) \<and>
     (\<forall>kind. cb_ok (handlerFun nd kind) (cbMap kind (ndMessager nd)) \<and> registered (cbMap kind (ndMessager nd)) = live nd)"

lemma node_okD:
  assumes "node_ok nd"
  shows "mget (ndSigMap nd) uid = Some ref \<Longrightarrow> mget (ndHeap nd) ref \<noteq> None \<and> scId (ctxOf nd ref) = uid \<and> ctx_ok (ctxOf nd ref)"
    and "cb_ok (handlerFun nd kind) (cbMap kind (ndMessager nd))"
    and "registered (cbMap kind (ndMessager nd)) = live nd"
  using assms by (simp_all add: node_ok_def)

lemma ctxOf_setCtx [simp]: "ctxOf (setCtx ref c nd) ref' = (if ref = ref' then c else ctxOf nd ref')"
  by (simp add: ctxOf_def setCtx_def gomap_simps)

lemma setCtx_fields [simp]:
  "ndSigMap (setCtx ref c nd) = ndSigMap nd" "ndMessager (setCtx ref c nd) = ndMessager nd"
  "ndSigMapByUser (setCtx ref c nd) = ndSigMapByUser nd"
  "ndHeap (setCtx ref c nd) = mput ref c (ndHeap nd)"
  by (simp_all add: setCtx_def)

lemma ctxOf_messager [simp]:
  "ctxOf (nd\<lparr> ndMessager := m \<rparr>) = ctxOf nd" "ctxOf (nd\<lparr> ndSigMap := s \<rparr>) = ctxOf nd" "ctxOf (nd\<lparr> ndSigMapByUser := u \<rparr>) = ctxOf nd"
  by (simp_all add: ctxOf_def fun_eq_iff)

text \<open>Replacing a context by one with the same id and token, and with granted rooms.\<close>

lemma node_ok_setCtx:
  assumes "node_ok nd" "scId c = scId (ctxOf nd ref)" "scAuth c = scAuth (ctxOf nd ref)" "ctx_ok c"
  shows "node_ok (setCtx ref c nd)"
proof -
  have "live (setCtx ref c nd) = live nd" using assms(3) by (auto simp: live_def RoomPaterns_def split: if_splits)
  moreover have "handlerFun (setCtx ref c nd) = handlerFun nd" by (simp add: handlerFun_def fun_eq_iff)
  ultimately show ?thesis
    using assms unfolding node_ok_def by (auto simp: gomap_simps)
qed

text \<open>A context that the registry does not know may be written at will.\<close>

lemma node_ok_setCtx_unknown:
  assumes "node_ok nd" "ref \<notin> ran (mget (ndSigMap nd))"
  shows "node_ok (setCtx ref c nd)"
proof -
  have "live (setCtx ref c nd) = live nd" using assms(2) by (auto simp: live_def ran_def split: if_splits)
  moreover have "handlerFun (setCtx ref c nd) = handlerFun nd" by (simp add: handlerFun_def fun_eq_iff)
  ultimately show ?thesis
    using assms unfolding node_ok_def by (auto simp: gomap_simps ran_def)
qed

lemma ctx_ok_JoinRoom:
  assumes "ctx_ok c" "JoinRoom node rooms c = Inr (c', out, r)"
  shows "ctx_ok c' \<and> scId c' = scId c \<and> scAuth c' = scAuth c"
  using assms(2)
proof (cases rule: JoinRoom_cases)
  case (err e)
  then show ?thesis using assms(1) by simp
next
  case ok
  have i: "rooms_inv (scRooms c)" using assms(1) by (simp add: ctx_ok_def)
  note st = joinRooms_state [OF i ok(2)]
  have "granted (scAuth c) rm" if "rm \<in> set (Rooms c')" for rm
    using that st(2) granted_wanted [OF ok(3)] assms(1) by (auto simp: ctx_ok_def)
  moreover have "scClosed c' = scClosed c" using ok(2) by (auto simp: joinRooms_def Let_def split: prod.splits)
  ultimately show ?thesis using st assms(1) by (simp add: ctx_ok_def RoomPaterns_def)
qed

lemma SelfClose_fields:
  assumes "SelfClose b ref nd = Inr (nd', out, unbound, call)"
  shows "ndSigMap nd' = ndSigMap nd \<and> scId (ctxOf nd' ref) = scId (ctxOf nd ref) \<and>
    scAuth (ctxOf nd' ref) = scAuth (ctxOf nd ref) \<and> scRooms (ctxOf nd' ref) = scRooms (ctxOf nd ref) \<and>
    (\<forall>r. r \<noteq> ref \<longrightarrow> ctxOf nd' r = ctxOf nd r) \<and>
    (\<forall>r. mget (ndHeap nd) r \<noteq> None \<longrightarrow> mget (ndHeap nd') r \<noteq> None)"
  using assms
  by (auto simp: SelfClose_def Let_def LeaveRoom_def closeMedia_def bind_res_Inr_iff gomap_simps split: if_splits)

lemma SelfClose_handlers:
  assumes "\<And>kind. cb_ok (F kind) (cbMap kind (ndMessager nd))" "valid_patterns (RoomPaterns (ctxOf nd ref))"
    and "\<not> scClosed (ctxOf nd ref)"
  shows "\<exists>nd' out unbound call. SelfClose b ref nd = Inr (nd', out, unbound, call) \<and>
    nodeName (ndMessager nd') = nodeName (ndMessager nd) \<and>
    (\<forall>kind. cb_ok (F kind) (cbMap kind (ndMessager nd')) \<and>
       registered (cbMap kind (ndMessager nd')) =
         registered (cbMap kind (ndMessager nd)) - {(scId (ctxOf nd ref), p) |p. p \<in> set (RoomPaterns (ctxOf nd ref))})"
proof -
  let ?c = "ctxOf nd ref"
  let ?c3 = "if b then ?c\<lparr> scClosed := True, scCloseCbDisabled := True \<rparr> else ?c\<lparr> scClosed := True \<rparr>"
  have p: "RoomPaterns ?c3 = RoomPaterns ?c" "scId ?c3 = scId ?c" by (simp_all add: RoomPaterns_def)
  obtain m' where m': "unregisterHandlers (ndMessager nd) (scId ?c) (RoomPaterns ?c) = Inr m'" "nodeName m' = nodeName (ndMessager nd)"
      "\<forall>kind. cb_ok (F kind) (cbMap kind m') \<and>
         registered (cbMap kind m') = registered (cbMap kind (ndMessager nd)) - {(scId ?c, p) |p. p \<in> set (RoomPaterns ?c)}"
    using unregisterHandlers_ok [of F "ndMessager nd", OF assms(1,2)] by blast
  have "\<exists>nd' out unbound call. SelfClose b ref nd = Inr (nd', out, unbound, call) \<and> ndMessager nd' = m'"
    using assms(3) m'(1) p by (simp add: SelfClose_def Let_def LeaveRoom_def closeMedia_def RoomPaterns_def split del: if_split)
  then show ?thesis using m'(2,3) by blast
qed

lemma node_ok_close:
  assumes "node_ok nd" "CloseSignalContext uid b nd = Inr (nd', out, unbound, call)"
  shows "node_ok nd' \<and> mget (ndSigMap nd') uid = None"
proof (cases "mget (ndSigMap nd) uid")
  case None
  then show ?thesis using assms by (simp add: CloseSignalContext_def)
next
  case (Some ref)
  note okr = node_okD(1) [OF assms(1) Some]
  obtain u where u: "CloseSignalContext uid b nd = SelfClose b ref (nd\<lparr> ndSigMap := mdel uid (ndSigMap nd), ndSigMapByUser := u \<rparr>)"
  proof -
    have "\<exists>u. CloseSignalContext uid b nd = SelfClose b ref (nd\<lparr> ndSigMap := mdel uid (ndSigMap nd), ndSigMapByUser := u \<rparr>)"
    proof (cases "mget (ndSigMapByUser nd) (UID (scAuth (ctxOf nd ref)))")
      case None
      have "CloseSignalContext uid b nd = SelfClose b ref (nd\<lparr> ndSigMap := mdel uid (ndSigMap nd) \<rparr>)"
        using Some None by (simp add: CloseSignalContext_def Let_def)
      also have "nd\<lparr> ndSigMap := mdel uid (ndSigMap nd) \<rparr> =
          nd\<lparr> ndSigMap := mdel uid (ndSigMap nd), ndSigMapByUser := ndSigMapByUser nd \<rparr>" by simp
      finally show ?thesis by (rule exI)
    next
      case (Some ctxs)
      then show ?thesis
        using \<open>mget (ndSigMap nd) uid = Some ref\<close> by (simp add: CloseSignalContext_def Let_def) metis
    qed
    then show ?thesis using that by blast
  qed
  let ?n = "nd\<lparr> ndSigMap := mdel uid (ndSigMap nd), ndSigMapByUser := u \<rparr>"
  have c: "ctxOf ?n = ctxOf nd" "ndMessager ?n = ndMessager nd" by (simp_all add: ctxOf_def fun_eq_iff)
  have s: "SelfClose b ref ?n = Inr (nd', out, unbound, call)" using assms(2) u by simp
  note f = SelfClose_fields [OF s]
  have valid: "valid_patterns (RoomPaterns (ctxOf ?n ref))" "\<not> scClosed (ctxOf ?n ref)" using okr c by (simp_all add: ctx_ok_def)
  have h: "cb_ok (handlerFun nd kind) (cbMap kind (ndMessager nd'))"
      "registered (cbMap kind (ndMessager nd')) = live nd - {(uid, p) |p. p \<in> set (RoomPaterns (ctxOf nd ref))}" for kind
    using SelfClose_handlers [of "handlerFun nd" ?n ref b, OF _ valid] node_okD(2,3) [OF assms(1)] s c okr by auto
  have sm: "mget (ndSigMap nd') k = (if k = uid then None else mget (ndSigMap nd) k)" for k
    using f by (simp add: gomap_simps)
  have other: "ctxOf nd' r = ctxOf nd r" if "mget (ndSigMap nd') k = Some r" for k r
  proof -
    have "k \<noteq> uid" "mget (ndSigMap nd) k = Some r" using that sm by (simp_all split: if_splits)
    then have "r \<noteq> ref" using node_okD(1) [OF assms(1), of k r] okr by auto
    then show ?thesis using f c by simp
  qed
  have L: "live nd' = live nd - {(uid, p) |p. p \<in> set (RoomPaterns (ctxOf nd ref))}"
    using Some other by (auto simp: live_def sm split: if_splits)
  have "cb_ok (handlerFun nd' kind) (cbMap kind (ndMessager nd'))" for kind
    by (rule cb_ok_cong [OF h(1)]) (auto simp: h(2) handlerFun_def sm live_def Some)
  moreover have "mget (ndHeap nd') r \<noteq> None \<and> scId (ctxOf nd' r) = k \<and> ctx_ok (ctxOf nd' r)"
    if k: "mget (ndSigMap nd') k = Some r" for k r
    using node_okD(1) [OF assms(1), of k r] k other [OF k] f sm by (auto split: if_splits)
  ultimately show ?thesis using h(2) L sm by (simp add: node_ok_def)
qed

lemma node_ok_SelfClose_unknown:
  assumes "node_ok nd" "ref \<notin> ran (mget (ndSigMap nd))" "mget (ndSigMap nd) (scId (ctxOf nd ref)) = None"
    and "valid_patterns (RoomPaterns (ctxOf nd ref))" "SelfClose b ref nd = Inr (nd', out, unbound, call)"
  shows "node_ok nd'"
proof (cases "scClosed (ctxOf nd ref)")
  case True
  then show ?thesis using assms(1,5) by (simp add: SelfClose_def)
next
  case False
  note f = SelfClose_fields [OF assms(5)]
  have h: "cb_ok (handlerFun nd kind) (cbMap kind (ndMessager nd'))"
      "registered (cbMap kind (ndMessager nd')) = live nd" for kind
    using SelfClose_handlers [of "handlerFun nd" nd ref b, OF _ assms(4) False] node_okD(2,3) [OF assms(1)] assms(3,5)
    by (auto simp: live_def)
  have other: "ctxOf nd' r = ctxOf nd r" if "mget (ndSigMap nd) k = Some r" for k r
    using f assms(2) that by (auto simp: ran_def)
  have L: "live nd' = live nd" using f other by (auto simp: live_def)
  have "handlerFun nd' = handlerFun nd" using f by (simp add: handlerFun_def fun_eq_iff)
  moreover have "mget (ndHeap nd') r \<noteq> None \<and> scId (ctxOf nd' r) = k \<and> ctx_ok (ctxOf nd' r)"
    if k: "mget (ndSigMap nd') k = Some r" for k r
  proof -
    have k': "mget (ndSigMap nd) k = Some r" using k f by simp
    have "mget (ndHeap nd') r \<noteq> None" using node_okD(1) [OF assms(1) k'] f by blast
    then show ?thesis using node_okD(1) [OF assms(1) k'] other [OF k'] by simp
  qed
  ultimately show ?thesis using h L by (simp add: node_ok_def)
qed

lemma node_ok_register:
  assumes "node_ok nd" "ref \<notin> ran (mget (ndSigMap nd))" "mget (ndSigMap nd) (scId c) = None" "ctx_ok c"
  shows "\<exists>m. registerHandlers (ndMessager nd) (scId c) ref (RoomPaterns c) = Inr m \<and>
    node_ok ((RegisterSignalContext ref (setCtx ref c nd))\<lparr> ndMessager := m \<rparr>)"
proof -
  let ?n = "RegisterSignalContext ref (setCtx ref c nd)"
  have sm: "mget (ndSigMap ?n) k = (if k = scId c then Some ref else mget (ndSigMap nd) k)" for k
    by (simp add: RegisterSignalContext_def Let_def gomap_simps)
  have cx: "ctxOf ?n r = (if r = ref then c else ctxOf nd r)" for r
    by (simp add: RegisterSignalContext_def Let_def ctxOf_def gomap_simps)
  have hp: "ndHeap ?n = mput ref c (ndHeap nd)" by (simp add: RegisterSignalContext_def Let_def)
  have 1: "cb_ok (handlerFun ?n kind) (cbMap kind (ndMessager nd))" for kind
    by (rule cb_ok_cong [OF node_okD(2) [OF assms(1)]])
       (use assms(3) in \<open>auto simp: node_okD(3) [OF assms(1)] live_def handlerFun_def sm\<close>)
  have 2: "valid_patterns (RoomPaterns c)" using assms(4) by (simp add: ctx_ok_def)
  obtain m where m: "registerHandlers (ndMessager nd) (scId c) ref (RoomPaterns c) = Inr m"
      "\<forall>kind. cb_ok (handlerFun ?n kind) (cbMap kind m) \<and>
         registered (cbMap kind m) = registered (cbMap kind (ndMessager nd)) \<union> {(scId c, p) |p. p \<in> set (RoomPaterns c)}"
    using registerHandlers_ok [of "handlerFun ?n" "ndMessager nd" "RoomPaterns c" "scId c" ref, OF 1 2] sm
    by (auto simp: handlerFun_def)
  have "live (?n\<lparr> ndMessager := m \<rparr>) = live nd \<union> {(scId c, p) |p. p \<in> set (RoomPaterns c)}"
    using assms(2,3) by (auto simp: live_def sm cx ran_def split: if_splits)
  moreover have "handlerFun (?n\<lparr> ndMessager := m \<rparr>) = handlerFun ?n" by (simp add: handlerFun_def fun_eq_iff)
  moreover have "mget (ndHeap ?n) r \<noteq> None \<and> scId (ctxOf ?n r) = k \<and> ctx_ok (ctxOf ?n r)"
    if "mget (ndSigMap ?n) k = Some r" for k r
    using that assms(2,4) node_okD(1) [OF assms(1), of k r] by (auto simp: sm cx hp gomap_simps ran_def split: if_splits)
  ultimately show ?thesis
    using m node_okD(3) [OF assms(1)] by (auto simp: node_ok_def)
qed

lemma InitSignal_new:
  assumes "valid_patterns (authRooms ai)"
  obtains c2 out r where "ctx_ok c2" "scId c2 = uid" "scAuth c2 = ai"
    "(if AutoJoin ai then JoinRoom node [] ((newSignalContext ai uid)\<lparr> scInited := True \<rparr>)
      else Inr ((newSignalContext ai uid)\<lparr> scInited := True \<rparr>, [], Inr ())) = Inr (c2, out, r)"
proof -
  let ?c = "(newSignalContext ai uid)\<lparr> scInited := True \<rparr>"
  have c: "ctx_ok ?c" "scId ?c = uid" "scAuth ?c = ai"
    using assms by (simp_all add: ctx_ok_def newSignalContext_def RoomPaterns_def Rooms_def)
  show ?thesis
  proof (cases "AutoJoin ai")
    case True
    have "\<exists>c2 out r. JoinRoom node [] ?c = Inr (c2, out, r)"
      by (auto simp: JoinRoom_def Let_def split: prod.splits)
    then obtain c2 out r where j: "JoinRoom node [] ?c = Inr (c2, out, r)" by blast
    then show ?thesis using that [of c2 out r] ctx_ok_JoinRoom [OF c(1) j] c True by simp
  next
    case False
    then show ?thesis using that [of ?c "[]" "Inr ()"] c by simp
  qed
qed

lemma setCtx_setCtx [simp]: "mget (ndHeap (setCtx ref c (setCtx ref c' nd))) k = mget (ndHeap (setCtx ref c nd)) k"
  by (simp add: gomap_simps)

lemma node_ok_connect:
  assumes "node_ok nd" "mget (ndHeap nd) ref = None" "mget (ndSigMap nd) uid = None" "valid_patterns (authRooms ai)"
    and "InitSignal start ref (setCtx ref (newSignalContext ai uid) nd) = Inr (nd', out, r)"
  shows "node_ok nd'"
proof -
  let ?node = "nodeName (ndMessager nd)"
  obtain c2 out2 r2 where j: "ctx_ok c2" "scId c2 = uid" "scAuth c2 = ai"
      "(if AutoJoin ai then JoinRoom ?node [] ((newSignalContext ai uid)\<lparr> scInited := True \<rparr>)
        else Inr ((newSignalContext ai uid)\<lparr> scInited := True \<rparr>, [], Inr ())) = Inr (c2, out2, r2)"
    using InitSignal_new [OF assms(4)] .
  have ran: "ref \<notin> ran (mget (ndSigMap nd))"
    using node_okD(1) [OF assms(1)] assms(2) unfolding ran_def by fastforce
  define n1 where "n1 = setCtx ref ((newSignalContext ai uid)\<lparr> scInited := True \<rparr>) (setCtx ref (newSignalContext ai uid) nd)"
  define n2 where "n2 = setCtx ref c2 n1"
  have n1: "node_ok n1" unfolding n1_def using ran by (intro node_ok_setCtx_unknown assms(1)) simp_all
  have n2: "node_ok n2" unfolding n2_def using ran by (intro node_ok_setCtx_unknown n1) (simp add: n1_def)
  have r2: "ref \<notin> ran (mget (ndSigMap n2))" "mget (ndSigMap n2) uid = None" "ctxOf n2 ref = c2"
    using ran assms(3) by (simp_all add: n2_def n1_def)
  have i: "scInited (newSignalContext ai uid) = False" "scAuth (newSignalContext ai uid) = ai" by (simp_all add: newSignalContext_def)
  have I: "InitSignal start ref (setCtx ref (newSignalContext ai uid) nd) =
     (case r2 of
        Inl e \<Rightarrow> bind_res (SelfClose True ref n2) (\<lambda>(nd', out', _, _). Inr (nd', out2 @ out', Inl e))
      | Inr _ \<Rightarrow>
          (case start of
             Inl e \<Rightarrow> bind_res (SelfClose True ref n2) (\<lambda>(nd', out', _, _).
               Inr (nd', out2 @ out', Inl (FatalError ''start callback invoked failed with error %v, so close the singal context.'')))
           | Inr st \<Rightarrow>
               if st \<noteq> 0 \<and> st \<noteq> 200
               then bind_res (SelfClose True ref n2) (\<lambda>(nd', out', _, _).
                 Inr (nd', out2 @ out', Inl (FatalError ''start callback return status code %v, so close the singal context.'')))
               else
                 (let nd3 = RegisterSignalContext ref (setCtx ref (c2\<lparr> scCloseCb := True \<rparr>) n2)
                  in bind_res (registerHandlers (ndMessager nd3) (scId c2) ref (RoomPaterns c2)) (\<lambda>m.
                       Inr (nd3\<lparr> ndMessager := m \<rparr>, out2, Inr ())))))"
    using j(4) i unfolding n2_def n1_def by (simp add: InitSignal_def Let_def)
  have closed: "node_ok nd'" if "SelfClose True ref n2 = Inr (nd', o', ub, cl)" for o' ub cl
    using node_ok_SelfClose_unknown [OF n2 r2(1) _ _ that] r2(2,3) j(1,2) by (simp add: ctx_ok_def)
  have reg: "node_ok nd'" if "registerHandlers (ndMessager n2) (scId c2) ref (RoomPaterns c2) = Inr m"
      "nd' = (RegisterSignalContext ref (setCtx ref (c2\<lparr> scCloseCb := True \<rparr>) n2))\<lparr> ndMessager := m \<rparr>" for m
  proof -
    have "ctx_ok (c2\<lparr> scCloseCb := True \<rparr>)" "RoomPaterns (c2\<lparr> scCloseCb := True \<rparr>) = RoomPaterns c2"
      using j(1) by (simp_all add: ctx_ok_def RoomPaterns_def Rooms_def)
    then show ?thesis
      using node_ok_register [OF n2 r2(1), of "c2\<lparr> scCloseCb := True \<rparr>"] r2(2) j(2) that by simp
  qed
  have m: "ndMessager (RegisterSignalContext ref (setCtx ref (c2\<lparr> scCloseCb := True \<rparr>) n2)) = ndMessager n2"
    by (simp add: RegisterSignalContext_def Let_def)
  show ?thesis
    using assms(5) closed reg unfolding I
    by (auto simp: bind_res_Inr_iff Let_def m split: sum.splits if_splits)
qed

section \<open>Reachable nodes\<close>

text \<open>
  The steps of a node: a client connects with a valid token under an id that is not in use, a
  registered client joins or leaves rooms, a context is closed.
\<close>

inductive node_step :: "Node \<Rightarrow> Node \<Rightarrow> bool" where
  connect: "mget (ndHeap nd) ref = None \<Longrightarrow> mget (ndSigMap nd) uid = None \<Longrightarrow> valid_patterns (authRooms ai) \<Longrightarrow>
     InitSignal start ref (setCtx ref (newSignalContext ai uid) nd) = Inr (nd', out, r) \<Longrightarrow> node_step nd nd'"
| joins: "mget (ndSigMap nd) uid = Some ref \<Longrightarrow>
     JoinRoom (nodeName (ndMessager nd)) rooms (ctxOf nd ref) = Inr (c', out, r) \<Longrightarrow> node_step nd (setCtx ref c' nd)"
| leaves: "mget (ndSigMap nd) uid = Some ref \<Longrightarrow>
     LeaveRoom (nodeName (ndMessager nd)) rooms (ctxOf nd ref) = (c', out) \<Longrightarrow> node_step nd (setCtx ref c' nd)"
| closes: "CloseSignalContext uid b nd = Inr (nd', out, unbound, call) \<Longrightarrow> node_step nd nd'"

definition newNode :: "string \<Rightarrow> KafkaConfigure option \<Rightarrow> Node" where
  "newNode name k = \<lparr> ndMessager = NewMessager name k, ndHeap = [], ndSigMap = [], ndSigMapByUser = [] \<rparr>"

inductive node_reach :: "string \<Rightarrow> KafkaConfigure option \<Rightarrow> Node \<Rightarrow> bool" for name k where
  start: "node_reach name k (newNode name k)"
| step: "node_reach name k nd \<Longrightarrow> node_step nd nd' \<Longrightarrow> node_reach name k nd'"

lemma node_step_ok: "node_step nd nd' \<Longrightarrow> node_ok nd \<Longrightarrow> node_ok nd'"
proof (induction rule: node_step.induct)
  case (connect nd ref uid ai start nd' out r)
  then show ?case using node_ok_connect by blast
next
  case (joins nd uid ref rooms c' out r)
  have "ctx_ok (ctxOf nd ref)" using node_okD(1) [OF joins(3,1)] by simp
  from ctx_ok_JoinRoom [OF this joins(2)] show ?case by (intro node_ok_setCtx joins(3)) simp_all
next
  case (leaves nd uid ref rooms c' out)
  have "ctx_ok (ctxOf nd ref)" using node_okD(1) [OF leaves(3,1)] by simp
  with leaves show ?case by (auto simp: LeaveRoom_def intro!: node_ok_setCtx)
next
  case (closes uid b nd nd' out unbound call)
  then show ?case using node_ok_close by blast
qed

lemma cbMap_New: "cbMap kind (NewMessager name k) = NewPatternMap"
  by (cases kind) (simp_all add: NewMessager_def)

lemma node_reach_ok: "node_reach name k nd \<Longrightarrow> node_ok nd"
proof (induction rule: node_reach.induct)
  case start
  then show ?case by (simp add: node_ok_def newNode_def cbMap_New cb_ok_New live_def)
next
  case (step nd nd')
  then show ?case using node_step_ok by blast
qed

lemma registerHandlers_name: "registerHandlers m uid ref ps = Inr m' \<Longrightarrow> nodeName m' = nodeName m"
  by (auto simp: registerHandlers_def on_defs bind_res_Inr_iff)

lemma unregisterHandlers_name: "unregisterHandlers m uid ps = Inr m' \<Longrightarrow> nodeName m' = nodeName m"
  by (auto simp: unregisterHandlers_def off_defs bind_res_Inr_iff)

lemma SelfClose_name:
  "SelfClose b ref nd = Inr (nd', out, unbound, call) \<Longrightarrow> nodeName (ndMessager nd') = nodeName (ndMessager nd)"
  by (auto simp: SelfClose_def Let_def LeaveRoom_def closeMedia_def bind_res_Inr_iff gomap_simps
      dest: unregisterHandlers_name split: if_splits)

lemma InitSignal_name:
  assumes "InitSignal start ref nd = Inr (nd', out, r)"
  shows "nodeName (ndMessager nd') = nodeName (ndMessager nd)"
proof (cases "scInited (ctxOf nd ref)")
  case False
  let ?c = "(ctxOf nd ref)\<lparr> scInited := True \<rparr>"
  obtain j where "(if AutoJoin (scAuth ?c) then JoinRoom (nodeName (ndMessager nd)) [] ?c else Inr (?c, [], Inr ())) = Inr j"
    using assms unfolding InitSignal_def Let_def if_not_P [OF False] bind_res_Inr_iff by blast
  then obtain c2 o2 r2 where j:
      "(if AutoJoin (scAuth ?c) then JoinRoom (nodeName (ndMessager nd)) [] ?c else Inr (?c, [], Inr ())) = Inr (c2, o2, r2)"
    by (cases j) auto
  show ?thesis
    using assms
    unfolding InitSignal_def Let_def if_not_P [OF False] j bind_res_simps prod.case
    by (cases r2; cases start)
      (auto simp: bind_res_Inr_iff RegisterSignalContext_def Let_def dest!: SelfClose_name registerHandlers_name split: if_splits)
qed (use assms in \<open>simp add: InitSignal_def Let_def\<close>)

lemma CloseSignalContext_name:
  "CloseSignalContext uid b nd = Inr (nd', out, unbound, call) \<Longrightarrow> nodeName (ndMessager nd') = nodeName (ndMessager nd)"
  by (auto simp: CloseSignalContext_def Let_def dest!: SelfClose_name split: option.splits if_splits)

lemma node_reach_name: "node_reach name k nd \<Longrightarrow> nodeName (ndMessager nd) = name"
proof (induction rule: node_reach.induct)
  case start
  then show ?case by (simp add: newNode_def NewMessager_def)
next
  case (step nd nd')
  from step(2) have "nodeName (ndMessager nd') = nodeName (ndMessager nd)"
    by (cases rule: node_step.cases) (auto dest: InitSignal_name CloseSignalContext_name)
  with step.IH show ?case by simp
qed

section \<open>Delivery to the clients\<close>

fun eventKind :: "RoomMessage \<Rightarrow> HandlerKind option" where
  "eventKind (MStateParticipant x) = Some HAcceptParticipants"
| "eventKind (MStateLeave x) = Some HStateParticipantLeave"
| "eventKind (MPing x) = Some HOnPing"
| "eventKind (MPong x) = Some HOnPong"
| "eventKind (MCustomCluster x) = Some HOnCustom"
| "eventKind (MCustomAck x) = Some HOnCustomAck"
| "eventKind _ = None"

text \<open>To whom a message is addressed: to everybody, to one socket, or to one socket if it names one.\<close>

fun addressed :: "RoomMessage \<Rightarrow> string \<Rightarrow> bool" where
  "addressed (MStateParticipant x) uid = True"
| "addressed (MStateLeave x) uid = True"
| "addressed (MCustomCluster x) uid \<longleftrightarrow>
     socketTo (routerOrNew (GetRouter (MCustomCluster x))) = '''' \<or> socketTo (routerOrNew (GetRouter (MCustomCluster x))) = uid"
| "addressed x uid \<longleftrightarrow> socketTo (routerOrNew (GetRouter x)) = uid"

fun eventOf :: "RoomMessage \<Rightarrow> ClientEvent" where
  "eventOf (MStateParticipant x) = (''participant-join'', ToClientMessage (MStateParticipant x))"
| "eventOf (MStateLeave x) = (''participant-leave'', ToClientMessage (MStateLeave x))"
| "eventOf (MPing x) = (''ping'', ToClientMessage (MPing x))"
| "eventOf (MPong x) = (''pong'', ToClientMessage (MPong x))"
| "eventOf (MCustomCluster x) = (''custom:'' @ ccEvt x, ToClientMessage (MCustom (the (ccMsg x))))"
| "eventOf x = (''custom-ack'', ToClientMessage x)"

lemma runHandler_event:
  assumes "eventKind x = Some kind" "GetRouter x = Some r" "room r \<noteq> ''''" "rooms_inv (scRooms c)"
  shows "runHandler c kind x = (if room r \<in> set (Rooms c) \<and> addressed x (scId c) then [eventOf x] else [])"
proof -
  have "matchRoomMsg c x \<longleftrightarrow> room r \<in> set (Rooms c)"
    using assms(2,3) JoinId_inv [OF assms(4)] by (simp add: matchRoomMsg_def)
  then show ?thesis
    using assms(1,2)
    by (cases x) (auto simp: AcceptParticipants_def StateParticipantLeave_def OnPingMessage_def OnPongMessage_def
        OnCustomMessage_def OnCustomAckMessage_def matchSocketTo_def CustomClusterMessage_GetRouter_def split: option.splits)
qed

lemma consumeTyped_cbMap:
  "eventKind x = Some kind \<Longrightarrow> consumeTyped m x = consumeMessage (cbMap kind m) x (nodeName m)"
  by (cases x) (auto simp: consumeStateParticipant_def consumeStateLeave_def consumePing_def consumePong_def consumeCustom_def consumeCustomAck_def)

lemma eventKind_topic: "eventKind x = Some kind \<Longrightarrow> \<exists>t. topicOf x = Some t"
  by (cases x) auto

lemma granted_matches:
  assumes "granted ai rm" "CheckRoom rm = Inr ()"
  shows "\<exists>p \<in> set (authRooms ai). MatchRoom p rm = Inr True"
proof -
  obtain p where p: "p \<in> set (authRooms ai)" "p = rm \<and> \<not> Contains p ''*'' \<or> MatchRoom p rm = Inr True"
    using assms(1) by (auto simp: granted_def)
  have "CheckPattern rm = Inr ()" using assms(2) by (auto simp: CheckRoom_def CheckPattern_def split: if_splits)
  then have "MatchRoom rm rm = Inr True" using assms(2) by (simp add: MatchRoom_def)
  then show ?thesis using p by auto
qed

lemma mset_events:
  "mset (concat (map (\<lambda>f. if P f then [g f] else []) fs)) = image_mset g (filter_mset P (mset fs))"
  by (induction fs) simp_all


section \<open>Witnesses\<close>

definition demo_start :: Node where
  "demo_start = setCtx 0 (newSignalContext demo_auth ''s'') (newNode ''n1'' None)"

definition demo_connected :: Node where
  "demo_connected = (case InitSignal (Inr 200) 0 demo_start of Inr (nd, _, _) \<Rightarrow> nd | Inl _ \<Rightarrow> demo_start)"

definition demo_joined :: Node where
  "demo_joined = (case JoinRoom ''n1'' [''a.b''] (ctxOf demo_connected 0) of
     Inr (c, _, _) \<Rightarrow> setCtx 0 c demo_connected | Inl _ \<Rightarrow> demo_connected)"

definition demo_custom :: RoomMessage where
  "demo_custom = MCustomCluster \<lparr> ccEvt = ''hi'', ccMsg = Some (newCustomMessage\<lparr>
     cmRouter := Some (newRouter\<lparr> room := ''a.b'', nodeFrom := ''n1'' \<rparr>) \<rparr>) \<rparr>"

lemma demo_reach_node: "node_reach ''n1'' None demo_joined"
proof -
  have "case InitSignal (Inr 200) 0 demo_start of Inr _ \<Rightarrow> True | Inl _ \<Rightarrow> False" by code_simp
  then obtain out r where i: "InitSignal (Inr 200) 0 demo_start = Inr (demo_connected, out, r)"
    unfolding demo_connected_def by (auto split: sum.splits)
  have "case JoinRoom ''n1'' [''a.b''] (ctxOf demo_connected 0) of Inr _ \<Rightarrow> True | Inl _ \<Rightarrow> False" by code_simp
  then obtain c out' r' where j: "JoinRoom ''n1'' [''a.b''] (ctxOf demo_connected 0) = Inr (c, out', r')"
      "demo_joined = setCtx 0 c demo_connected"
    unfolding demo_joined_def by (auto split: sum.splits)
  have c: "mget (ndHeap (newNode ''n1'' None)) 0 = None" "mget (ndSigMap (newNode ''n1'' None)) ''s'' = None"
      "valid_patterns (authRooms demo_auth)" "mget (ndSigMap demo_connected) ''s'' = Some 0"
      "nodeName (ndMessager demo_connected) = ''n1''" by code_simp+
  have "node_step (newNode ''n1'' None) demo_connected"
    by (rule node_step.connect [OF c(1-3)]) (use i in \<open>simp add: demo_start_def\<close>)
  moreover have "node_step demo_connected demo_joined"
    unfolding j(2) by (rule node_step.joins [OF c(4)]) (use j(1) c(5) in simp)
  ultimately show ?thesis by (blast intro: node_reach.start node_reach.step)
qed

lemma demo_custom_router: "GetRouter demo_custom = Some (newRouter\<lparr> room := ''a.b'', nodeFrom := ''n1'' \<rparr>)"
  by (simp add: demo_custom_def CustomClusterMessage_GetRouter_def newCustomMessage_def)


end
