(* ===== verification/Packets.thy ===== *)
theory Packets
  imports Collections
begin

text \<open>
  The datagrams that nodes exchange (\<open>signal/router.go\<close>): setup and acknowledgement packets, data
  and end-of-track packets, their encoders, tests and decoders, and the reader of an outgoing
  connection. The uuid package is a parameter: \<open>parse\<close> is \<open>uuid.Parse\<close> and \<open>str\<close> the \<open>String\<close>
  method; a UUID is its 16 bytes. A packet of the pool is zeroed when it is put back, so a fresh one
  holds zeros. A slice expression out of range is the panic \<open>SliceBounds\<close>.
\<close>

section \<open>Bytes\<close>

definition bytesOf :: "string \<Rightarrow> byte list" where
  "bytesOf s = map (\<lambda>c. of_nat (of_char c)) s"

definition MAGIC_SETUP :: string where "MAGIC_SETUP = ''consetup''"
definition MAGIC_ARK :: string where "MAGIC_ARK = ''conneark''"
definition MAGIC_PACKET :: string where "MAGIC_PACKET = ''subr''"
definition MAGIC_EOF :: string where "MAGIC_EOF = ''eofp''"

definition PACKET_MAGIC_SIZE :: nat where "PACKET_MAGIC_SIZE = 4"
definition PACKET_TRACK_HEADER_SIZE :: nat where "PACKET_TRACK_HEADER_SIZE = PACKET_MAGIC_SIZE + 16"
definition PACKET_MAX_SIZE :: nat where "PACKET_MAX_SIZE = 1600"

text \<open>\<open>copy(out[i:j], src)\<close>: as many bytes as fit, and \<open>b[i:j]\<close> with its bounds check.\<close>

definition copyAt :: "byte list \<Rightarrow> nat \<Rightarrow> nat \<Rightarrow> byte list \<Rightarrow> byte list" where
  "copyAt out i j src = (let n = min (j - i) (length src) in take i out @ take n src @ drop (i + n) out)"

definition subSlice :: "byte list \<Rightarrow> nat \<Rightarrow> nat \<Rightarrow> byte list res" where
  "subSlice b i j = (if i \<le> j \<and> j \<le> length b then Inr (take (j - i) (drop i b)) else Inl SliceBounds)"

section \<open>Setup packets\<close>

definition NewSetupPacketBuf :: "byte list \<Rightarrow> byte list" where
  "NewSetupPacketBuf uid = copyAt (copyAt (replicate 24 0) 0 24 (bytesOf MAGIC_SETUP)) 8 24 uid"

definition NewSetupArkPacketBuf :: "byte list \<Rightarrow> byte list" where
  "NewSetupArkPacketBuf uid = copyAt (copyAt (replicate 24 0) 0 24 (bytesOf MAGIC_ARK)) 8 24 uid"

definition IsSetup :: "byte list \<Rightarrow> bool" where
  "IsSetup data = (if length data < 24 then False else take 8 data = bytesOf MAGIC_SETUP)"

definition IsSetupArk :: "byte list \<Rightarrow> bool" where
  "IsSetupArk data = (if length data < 24 then False else take 8 data = bytesOf MAGIC_ARK)"

definition IsSetupId :: "byte list \<Rightarrow> byte list \<Rightarrow> bool" where
  "IsSetupId data uid = (if length data < 24 then False else take 16 (drop 8 data) = uid)"

text \<open>The decoders return the transport id; \<open>n\<close> is the number of bytes read into \<open>buf\<close>.\<close>

definition DecodeSetupPacket :: "byte list \<Rightarrow> nat \<Rightarrow> (go_err + byte list) res" where
  "DecodeSetupPacket buf n =
     (if n \<noteq> 24 then Inr (Inl (BadPacket ''Invalid connect setup packet, wrong size''))
      else bind_res (subSlice buf 0 8) (\<lambda>magic.
        if magic = bytesOf MAGIC_SETUP then bind_res (subSlice buf 8 24) (\<lambda>t. Inr (Inr t))
        else Inr (Inl (BadPacket ''Invalid connect setup packet, wrong magic''))))"

definition DecodeSetupArkPacket :: "byte list \<Rightarrow> nat \<Rightarrow> (go_err + byte list) res" where
  "DecodeSetupArkPacket buf n =
     (if n \<noteq> 24 then Inr (Inl (BadPacket ''Invalid connect setup ark packet, wrong size''))
      else bind_res (subSlice buf 0 8) (\<lambda>magic.
        if magic = bytesOf MAGIC_ARK then bind_res (subSlice buf 8 24) (\<lambda>t. Inr (Inr t))
        else Inr (Inl (BadPacket ''Invalid connect setup ark packet, wrong magic''))))"

record SetupPacket =
  spMagic :: "byte list"
  spTransportId :: "byte list"

definition NewSetupPacket :: "byte list option \<Rightarrow> SetupPacket" where
  "NewSetupPacket uid =
     \<lparr> spMagic = copyAt (replicate 8 0) 0 8 (bytesOf MAGIC_SETUP),
       spTransportId = (case uid of None \<Rightarrow> replicate 16 0 | Some b \<Rightarrow> copyAt (replicate 16 0) 0 16 b) \<rparr>"

definition NewSetupArkPacket :: "byte list option \<Rightarrow> SetupPacket" where
  "NewSetupArkPacket uid =
     \<lparr> spMagic = copyAt (replicate 8 0) 0 8 (bytesOf MAGIC_ARK),
       spTransportId = (case uid of None \<Rightarrow> replicate 16 0 | Some b \<Rightarrow> copyAt (replicate 16 0) 0 16 b) \<rparr>"

definition SetupArkPacket_Marshal :: "SetupPacket \<Rightarrow> byte list" where
  "SetupArkPacket_Marshal p = copyAt (copyAt (replicate 24 0) 0 24 (spMagic p)) 8 24 (spTransportId p)"

section \<open>Track packets\<close>

record Packet =
  pkTrackId :: string
  pkData :: "byte list"
  pkN :: nat

definition getPacketAllocationFromPool :: Packet where
  "getPacketAllocationFromPool = \<lparr> pkTrackId = '''', pkData = replicate PACKET_MAX_SIZE 0, pkN = 0 \<rparr>"

definition putHeader :: "string \<Rightarrow> byte list \<Rightarrow> byte list \<Rightarrow> byte list" where
  "putHeader magic uid data =
     copyAt (copyAt data 0 PACKET_MAGIC_SIZE (bytesOf magic)) PACKET_MAGIC_SIZE PACKET_TRACK_HEADER_SIZE uid"

definition NewEOFPacket :: "(string \<Rightarrow> byte list option) \<Rightarrow> string \<Rightarrow> go_err + Packet" where
  "NewEOFPacket parse trackId =
     (case parse trackId of
        None \<Rightarrow> Inl (PlainError ''invalid UUID'')
      | Some uid \<Rightarrow>
          (let p = getPacketAllocationFromPool
           in Inr \<lparr> pkTrackId = trackId, pkData = putHeader MAGIC_EOF uid (pkData p), pkN = PACKET_TRACK_HEADER_SIZE \<rparr>))"

text \<open>\<open>raw\<close> is what \<open>MarshalTo\<close> writes for the RTP packet: its bytes, or an error; \<open>MarshalSize\<close> is
  their number.\<close>

definition NewDataPacket :: "(string \<Rightarrow> byte list option) \<Rightarrow> string \<Rightarrow> nat \<Rightarrow> (go_err + byte list) \<Rightarrow> go_err + Packet" where
  "NewDataPacket parse trackId marshalSize raw =
     (case parse trackId of
        None \<Rightarrow> Inl (PlainError ''invalid UUID'')
      | Some uid \<Rightarrow>
          if marshalSize > PACKET_MAX_SIZE - PACKET_TRACK_HEADER_SIZE then Inl (FatalError ''Too big rtp packet'')
          else (case raw of
                  Inl e \<Rightarrow> Inl e
                | Inr bs \<Rightarrow>
                    Inr \<lparr> pkTrackId = trackId,
                          pkData = putHeader MAGIC_PACKET uid
                            (copyAt (pkData getPacketAllocationFromPool) PACKET_TRACK_HEADER_SIZE PACKET_MAX_SIZE bs),
                          pkN = length bs + PACKET_TRACK_HEADER_SIZE \<rparr>))"

definition NewPacketFromBuf :: "(string \<Rightarrow> byte list option) \<Rightarrow> string \<Rightarrow> byte list \<Rightarrow> go_err + Packet" where
  "NewPacketFromBuf parse trackId buf =
     (case parse trackId of
        None \<Rightarrow> Inl (PlainError ''invalid UUID'')
      | Some uid \<Rightarrow>
          Inr \<lparr> pkTrackId = trackId,
                pkData = copyAt (putHeader MAGIC_PACKET uid (pkData getPacketAllocationFromPool))
                           PACKET_TRACK_HEADER_SIZE PACKET_MAX_SIZE buf,
                pkN = length buf + PACKET_TRACK_HEADER_SIZE \<rparr>)"

definition IsDataPacket :: "byte list \<Rightarrow> bool" where
  "IsDataPacket data = (if length data \<le> 20 then False else take 4 data = bytesOf MAGIC_PACKET)"

definition IsEofPacket :: "byte list \<Rightarrow> bool" where
  "IsEofPacket data = (if length data \<noteq> PACKET_TRACK_HEADER_SIZE then False else take PACKET_MAGIC_SIZE data = bytesOf MAGIC_EOF)"

text \<open>\<open>p.data[:p.n]\<close>, which every use of a packet takes.\<close>

definition wire :: "Packet \<Rightarrow> byte list res" where
  "wire p = subSlice (pkData p) 0 (pkN p)"

definition Packet_IsEOF :: "Packet \<Rightarrow> bool res" where
  "Packet_IsEOF p = bind_res (wire p) (\<lambda>d. Inr (IsEofPacket d))"

definition Packet_IsData :: "Packet \<Rightarrow> bool res" where
  "Packet_IsData p = bind_res (wire p) (\<lambda>d. Inr (IsDataPacket d))"

text \<open>The result data of a bare header is nil, here the empty list.\<close>

definition ExtractPacket :: "(byte list \<Rightarrow> string) \<Rightarrow> byte list \<Rightarrow> (string \<times> byte list) res" where
  "ExtractPacket str data =
     bind_res (subSlice data PACKET_MAGIC_SIZE PACKET_TRACK_HEADER_SIZE) (\<lambda>uid.
       Inr (str uid, if length data > PACKET_TRACK_HEADER_SIZE then drop PACKET_TRACK_HEADER_SIZE data else []))"

section \<open>The reader of an outgoing connection\<close>

text \<open>What \<open>makeSureExternelConn\<close>'s reader does with a datagram.\<close>

datatype WireAction = WriteTo string "byte list" | SetupDone | CloseTrack string | IgnorePacket

definition onDatagram :: "(byte list \<Rightarrow> string) \<Rightarrow> byte list \<Rightarrow> WireAction res" where
  "onDatagram str s =
     (if IsDataPacket s then bind_res (ExtractPacket str s) (\<lambda>(trackId, rtpData). Inr (WriteTo trackId rtpData))
      else if IsSetupArk s then (if IsSetup s then Inr SetupDone else Inr IgnorePacket)
      else if IsEofPacket s then bind_res (ExtractPacket str s) (\<lambda>(trackId, _). Inr (CloseTrack trackId))
      else Inr IgnorePacket)"

section \<open>Lemmas\<close>

lemmas packet_sizes = PACKET_MAGIC_SIZE_def PACKET_TRACK_HEADER_SIZE_def PACKET_MAX_SIZE_def

lemma length_bytesOf [simp]: "length (bytesOf s) = length s"
  by (simp add: bytesOf_def)

lemma length_magics [simp]:
  "length MAGIC_SETUP = 8" "length MAGIC_ARK = 8" "length MAGIC_PACKET = 4" "length MAGIC_EOF = 4"
  by (simp_all add: MAGIC_SETUP_def MAGIC_ARK_def MAGIC_PACKET_def MAGIC_EOF_def)

text \<open>The magics differ already in their first bytes, so no datagram is of two kinds.\<close>

lemma magics_differ:
  "bytesOf MAGIC_SETUP \<noteq> bytesOf MAGIC_ARK" "bytesOf MAGIC_PACKET \<noteq> bytesOf MAGIC_EOF"
  "take 4 (bytesOf MAGIC_SETUP) \<noteq> bytesOf MAGIC_PACKET" "take 4 (bytesOf MAGIC_ARK) \<noteq> bytesOf MAGIC_PACKET"
  by code_simp+

text \<open>Copying a piece that fits behind a prefix of the buffer.\<close>

lemma copyAt_fit:
  "length pre = i \<Longrightarrow> j = i + length src \<Longrightarrow> length src \<le> length rest \<Longrightarrow>
   copyAt (pre @ rest) i j src = pre @ src @ drop (length src) rest"
  by (simp add: copyAt_def Let_def)

lemma putHeader_zeros:
  assumes "length uid = 16" "length m = 4"
  shows "putHeader m uid (pkData getPacketAllocationFromPool) = bytesOf m @ uid @ replicate 1580 0"
proof -
  have 1: "copyAt (replicate 1600 0) 0 4 (bytesOf m) = bytesOf m @ replicate 1596 0"
    using assms(2) copyAt_fit [of "[]" 0 4 "bytesOf m" "replicate 1600 0"] by simp
  show ?thesis
    using assms copyAt_fit [of "bytesOf m" 4 20 uid "replicate 1596 0"]
    by (simp add: putHeader_def getPacketAllocationFromPool_def packet_sizes 1)
qed

lemma NewPacketFromBuf_data:
  assumes "parse trackId = Some uid" "length uid = 16" "NewPacketFromBuf parse trackId buf = Inr p"
  shows "pkN p = length buf + 20 \<and> pkTrackId p = trackId \<and>
    pkData p = bytesOf MAGIC_PACKET @ uid @ take 1580 buf @ replicate (1580 - length buf) 0"
proof -
  have h: "putHeader MAGIC_PACKET uid (pkData getPacketAllocationFromPool) = (bytesOf MAGIC_PACKET @ uid) @ replicate 1580 0"
    using putHeader_zeros [OF assms(2), of MAGIC_PACKET] by simp
  have "copyAt ((bytesOf MAGIC_PACKET @ uid) @ replicate 1580 0) 20 1600 buf =
      (bytesOf MAGIC_PACKET @ uid) @ take 1580 buf @ replicate (1580 - length buf) 0"
    using assms(2) by (simp add: copyAt_def Let_def min_def)
  then show ?thesis
    using assms(1,3) by (auto simp: NewPacketFromBuf_def h packet_sizes)
qed

lemma wire_fit:
  assumes "parse trackId = Some uid" "length uid = 16" "NewPacketFromBuf parse trackId buf = Inr p" "length buf \<le> 1580"
  shows "wire p = Inr (bytesOf MAGIC_PACKET @ uid @ buf)"
  using NewPacketFromBuf_data [OF assms(1-3)] assms(2,4) by (simp add: wire_def subSlice_def)

lemma wire_eof:
  assumes "parse trackId = Some uid" "length uid = 16" "NewEOFPacket parse trackId = Inr p"
  shows "wire p = Inr (bytesOf MAGIC_EOF @ uid)"
  using assms putHeader_zeros [OF assms(2), of MAGIC_EOF]
  by (auto simp: NewEOFPacket_def Let_def wire_def subSlice_def PACKET_TRACK_HEADER_SIZE_def PACKET_MAGIC_SIZE_def)

lemma setup_buf:
  "length uid = 16 \<Longrightarrow> NewSetupPacketBuf uid = bytesOf MAGIC_SETUP @ uid"
  "length uid = 16 \<Longrightarrow> NewSetupArkPacketBuf uid = bytesOf MAGIC_ARK @ uid"
  by (simp_all add: NewSetupPacketBuf_def NewSetupArkPacketBuf_def copyAt_def Let_def)

section \<open>Properties\<close>

text \<open>C32: what a node sends for a track, its peer reads back: a data packet with up to 1580 bytes of RTP
  arrives as a write of these bytes to the track, the end packet as its end, for every track id
  the uuid package prints as it was parsed.\<close>

theorem packet_roundtrip:
  assumes "parse trackId = Some uid" "length uid = 16" "str uid = trackId"
    and "NewPacketFromBuf parse trackId buf = Inr p" "buf \<noteq> []" "length buf \<le> 1580" "NewEOFPacket parse trackId = Inr q"
  shows "bind_res (wire p) (onDatagram str) = Inr (WriteTo trackId buf) \<and>
    bind_res (wire q) (onDatagram str) = Inr (CloseTrack trackId)"
proof -
  have "onDatagram str (bytesOf MAGIC_PACKET @ uid @ buf) = Inr (WriteTo trackId buf)"
    using assms(2,3,5)
    by (simp add: onDatagram_def IsDataPacket_def ExtractPacket_def subSlice_def packet_sizes)
  moreover have "onDatagram str (bytesOf MAGIC_EOF @ uid) = Inr (CloseTrack trackId)"
    using assms(2,3)
    by (simp add: onDatagram_def IsDataPacket_def IsSetupArk_def IsEofPacket_def ExtractPacket_def subSlice_def packet_sizes)
  ultimately show ?thesis
    by (simp add: wire_fit [OF assms(1,2,4,6)] wire_eof [OF assms(1,2,7)])
qed

text \<open>the setup handshake: the setup packet of a node decodes to its transport id, the answer is
  recognised as an acknowledgement of this id, and each decoder refuses the other's packet.\<close>

theorem setup_roundtrip:
  assumes "length uid = 16"
  shows "DecodeSetupPacket (NewSetupPacketBuf uid) 24 = Inr (Inr uid) \<and>
    IsSetupArk (NewSetupArkPacketBuf uid) \<and> IsSetupId (NewSetupArkPacketBuf uid) uid \<and>
    DecodeSetupArkPacket (NewSetupArkPacketBuf uid) 24 = Inr (Inr uid) \<and>
    SetupArkPacket_Marshal (NewSetupArkPacket (Some uid)) = NewSetupArkPacketBuf uid \<and>
    (\<exists>e. DecodeSetupPacket (NewSetupArkPacketBuf uid) 24 = Inr (Inl e)) \<and>
    (\<exists>e. DecodeSetupArkPacket (NewSetupPacketBuf uid) 24 = Inr (Inl e))"
proof -
  have "SetupArkPacket_Marshal (NewSetupArkPacket (Some uid)) = bytesOf MAGIC_ARK @ uid"
    using assms by (simp add: SetupArkPacket_Marshal_def NewSetupArkPacket_def copyAt_def Let_def)
  then show ?thesis
    using assms magics_differ(1)
    by (simp add: setup_buf DecodeSetupPacket_def DecodeSetupArkPacket_def subSlice_def IsSetupArk_def IsSetupId_def)
qed

text \<open>the setup is never seen to be done: the reader asks for a datagram that is an acknowledgement
  and a setup packet at once, which none is, so the sender repeats its setup packet for ever.\<close>

theorem setup_never_done: "onDatagram str s \<noteq> Inr SetupDone"
proof -
  have "\<not> (IsSetupArk s \<and> IsSetup s)" using magics_differ(1) by (auto simp: IsSetupArk_def IsSetup_def)
  then show ?thesis
    by (auto simp: onDatagram_def bind_res_def split: sum.splits)
qed

text \<open>a buffer of 1581 to 1600 bytes, which the reader of a remote track can deliver, makes a packet
  whose length is past its data, and every use of the packet panics.\<close>

theorem oversized_packet_panics:
  assumes "parse trackId = Some uid" "length uid = 16" "NewPacketFromBuf parse trackId buf = Inr p" "1580 < length buf"
  shows "wire p = Inl SliceBounds \<and> Packet_IsEOF p = Inl SliceBounds \<and> Packet_IsData p = Inl SliceBounds"
  using NewPacketFromBuf_data [OF assms(1-3)] assms(2,4)
  by (simp add: wire_def subSlice_def Packet_IsEOF_def Packet_IsData_def)

section \<open>Witnesses\<close>

definition demo_uuid_parse :: "string \<Rightarrow> byte list option" where
  "demo_uuid_parse s = (if s = ''t'' then Some (replicate 16 7) else None)"

definition demo_uuid_str :: "byte list \<Rightarrow> string" where
  "demo_uuid_str b = (if b = replicate 16 7 then ''t'' else '''')"

theorem packet_roundtrip_witness:
  "\<exists>p q. bind_res (wire p) (onDatagram demo_uuid_str) = Inr (WriteTo ''t'' [1, 2]) \<and>
     bind_res (wire q) (onDatagram demo_uuid_str) = Inr (CloseTrack ''t'')"
proof -
  have parse: "demo_uuid_parse ''t'' = Some (replicate 16 7)" "demo_uuid_str (replicate 16 7) = ''t''"
    by (simp_all add: demo_uuid_parse_def demo_uuid_str_def)
  obtain p q where "NewPacketFromBuf demo_uuid_parse ''t'' [1, 2] = Inr p" "NewEOFPacket demo_uuid_parse ''t'' = Inr q"
    using parse by (simp add: NewPacketFromBuf_def NewEOFPacket_def Let_def)
  from packet_roundtrip [where parse = demo_uuid_parse and str = demo_uuid_str and trackId = "''t''", OF parse(1) _ parse(2) this(1) _ _ this(2)] show ?thesis by auto
qed

theorem setup_roundtrip_witness: "DecodeSetupPacket (NewSetupPacketBuf (replicate 16 7)) 24 = Inr (Inr (replicate 16 7))"
  using setup_roundtrip [of "replicate 16 7"] by simp

theorem oversized_packet_witness:
  "\<exists>p. NewPacketFromBuf demo_uuid_parse ''t'' (replicate 1600 0) = Inr p \<and> wire p = Inl SliceBounds"
proof -
  have parse: "demo_uuid_parse ''t'' = Some (replicate 16 7)" by (simp add: demo_uuid_parse_def)
  obtain p where p: "NewPacketFromBuf demo_uuid_parse ''t'' (replicate 1600 0) = Inr p"
    using parse by (simp add: NewPacketFromBuf_def)
  from oversized_packet_panics [OF parse _ p] p show ?thesis by simp
qed

end
