(* ===== verification/RouterNode.thy ===== *)
theory RouterNode
  imports Packets PubPattern
begin

text \<open>
  The media router of a node (\<open>signal/router.go\<close>): accepters, which forward the packets of a track to
  its subscribers and are shared by reference count; the tables of transports and accepters; the
  assignment of channels; the handling of setup datagrams and of packets; and the consumer that
  feeds a published track into the router (\<open>PublishedTrack.SatifySelect\<close> of \<open>signal/model.go\<close>).
  Sockets, RTP tracks and the concurrency of the tables are not modelled: an operation is one step.
\<close>

section \<open>Accepters\<close>

text \<open>\<open>subs\<close> are the ids of the bound subscriptions; a nil map is the empty one.\<close>

record Accepter =
  acClosed :: bool
  acSubs :: "string list"
  acRefCount :: int

definition NewAccepter :: Accepter where
  "NewAccepter = \<lparr> acClosed = False, acSubs = [], acRefCount = 1 \<rparr>"

definition BindSub :: "string \<Rightarrow> Accepter \<Rightarrow> Accepter" where
  "BindSub sub a = (if sub \<in> set (acSubs a) then a else a\<lparr> acSubs := acSubs a @ [sub] \<rparr>)"

definition Accepter_UnbindSub :: "string \<Rightarrow> Accepter \<Rightarrow> Accepter" where
  "Accepter_UnbindSub sub a = a\<lparr> acSubs := filter (\<lambda>x. x \<noteq> sub) (acSubs a) \<rparr>"

definition Ref :: "Accepter \<Rightarrow> Accepter option" where
  "Ref a = (if acClosed a then None else Some (a\<lparr> acRefCount := acRefCount a + 1 \<rparr>))"

text \<open>The subscriptions that \<open>Close\<close> tells to drop the track, and whether it really closed.\<close>

definition Accepter_Close :: "bool \<Rightarrow> Accepter \<Rightarrow> Accepter \<times> string list \<times> bool" where
  "Accepter_Close force a =
     (let rc = (if force then 0 else acRefCount a - 1)
      in if rc = 0 then (a\<lparr> acRefCount := 0, acClosed := True, acSubs := [] \<rparr>, acSubs a, True)
         else (a\<lparr> acRefCount := rc \<rparr>, [], False))"

text \<open>\<open>wr\<close> is the answer of the local track's \<open>Write\<close>.\<close>

definition Accepter_Write :: "(byte list \<Rightarrow> go_err option) \<Rightarrow> byte list \<Rightarrow> Accepter \<Rightarrow> go_err option" where
  "Accepter_Write wr buf a =
     (if acClosed a then Some (PlainError ''io: read/write on closed pipe'')
      else case wr buf of Some e \<Rightarrow> Some (PlainError ''unable to write to the static local track, %w'') | None \<Rightarrow> None)"

section \<open>The router\<close>

definition CHAN_COUNT :: nat where "CHAN_COUNT = 4"

record Router =
  rtId :: string
  curChan :: nat
  track2transports :: "(string, string list) gomap"
  track2accepters :: "(string, Accepter) gomap"
  addrMap :: "(string, string) gomap"
  externalTransports :: "(string, nat) gomap"

definition NewRouter :: "string \<Rightarrow> Router" where
  "NewRouter uid = \<lparr> rtId = uid, curChan = 0, track2transports = [], track2accepters = [], addrMap = [], externalTransports = [] \<rparr>"

text \<open>\<open>PublishTrack\<close> returns the channel the packets of the track are to be sent on.\<close>

definition PublishTrack :: "string \<Rightarrow> string \<Rightarrow> Router \<Rightarrow> Router \<times> nat" where
  "PublishTrack trackId transportId r =
     (let r1 = (if transportId \<noteq> rtId r
                then (let ts = (case mget (track2transports r) trackId of Some ts \<Rightarrow> ts | None \<Rightarrow> [])
                      in r\<lparr> track2transports :=
                              mput trackId (if transportId \<in> set ts then ts else ts @ [transportId]) (track2transports r) \<rparr>)
                else r)
      in (r1\<lparr> curChan := (curChan r1 + 1) mod CHAN_COUNT \<rparr>, curChan r1))"

definition RemoveTrack :: "string \<Rightarrow> Router \<Rightarrow> Router" where
  "RemoveTrack trackId r = r\<lparr> track2transports := mdel trackId (track2transports r) \<rparr>"

text \<open>
  \<open>AcceptTrack\<close> loops until it gets an accepter it can use. Where the table holds a closed one, a
  step of the loop changes nothing, so the loop goes on for ever: the result is \<open>None\<close>.
\<close>

partial_function (option) AcceptTrack :: "string \<Rightarrow> Router \<Rightarrow> (Router \<times> Accepter) option" where
  "AcceptTrack trackId r =
     (case mget (track2accepters r) trackId of
        None \<Rightarrow> Some (r\<lparr> track2accepters := mput trackId NewAccepter (track2accepters r) \<rparr>, NewAccepter)
      | Some a \<Rightarrow>
          (case Ref a of
             Some a' \<Rightarrow> Some (r\<lparr> track2accepters := mput trackId a' (track2accepters r) \<rparr>, a')
           | None \<Rightarrow> AcceptTrack trackId r))"

declare AcceptTrack.simps [code]

text \<open>\<open>accepter.BindSub(s)\<close> on the accepter of a track, which the table shares.\<close>

definition bindTrack :: "string \<Rightarrow> string \<Rightarrow> Router \<Rightarrow> Router" where
  "bindTrack sub trackId r =
     (case mget (track2accepters r) trackId of
        None \<Rightarrow> r
      | Some a \<Rightarrow> r\<lparr> track2accepters := mput trackId (BindSub sub a) (track2accepters r) \<rparr>)"

definition Router_UnbindSub :: "string \<Rightarrow> string \<Rightarrow> Router \<Rightarrow> Router \<times> string list" where
  "Router_UnbindSub sub trackId r =
     (case mget (track2accepters r) trackId of
        None \<Rightarrow> (r, [])
      | Some a \<Rightarrow>
          (case Accepter_Close False (Accepter_UnbindSub sub a) of
             (a', told, _) \<Rightarrow> (r\<lparr> track2accepters := mput trackId a' (track2accepters r) \<rparr>, told)))"

text \<open>The end of a track, from an end packet of the own node or of another one.\<close>

definition endTrack :: "string \<Rightarrow> Router \<Rightarrow> Router \<times> string list" where
  "endTrack trackId r =
     (case mget (track2accepters r) trackId of
        None \<Rightarrow> (r, [])
      | Some a \<Rightarrow>
          (case Accepter_Close True a of
             (a', told, _) \<Rightarrow> (r\<lparr> track2accepters := mput trackId a' (track2accepters r) \<rparr>, told)))"

section \<open>The server loop\<close>

text \<open>
  A setup datagram of \<open>n\<close> bytes from \<open>addr\<close>: the address is filed under the printed transport id and
  acknowledged; anything else is logged.
\<close>

definition onSetup :: "(byte list \<Rightarrow> string) \<Rightarrow> byte list \<Rightarrow> nat \<Rightarrow> string \<Rightarrow> Router \<Rightarrow> (Router \<times> byte list option) res" where
  "onSetup str buf n addr r =
     bind_res (DecodeSetupPacket buf n) (\<lambda>d.
       case d of
         Inl _ \<Rightarrow> Inr (r, None)
       | Inr tid \<Rightarrow> Inr (r\<lparr> addrMap := mput (str tid) addr (addrMap r) \<rparr>, Some (NewSetupArkPacketBuf tid)))"

text \<open>The datagrams that go out for a packet: one per transport of the track with a known address.\<close>

definition destinations :: "string \<Rightarrow> Router \<Rightarrow> string list" where
  "destinations trackId r =
     (case mget (track2transports r) trackId of
        None \<Rightarrow> []
      | Some ts \<Rightarrow> List.map_filter (mget (addrMap r)) ts)"

text \<open>
  A packet from one of the channels: it is sent to the other nodes, and the local accepter gets its
  payload or ends. The result holds the datagrams, the subscriptions told about the end and the
  payload written locally. A failed write is ignored when the accepter is closed and panics
  otherwise; \<open>errors.Ignore\<close> lets the panics of closed pipes pass.
\<close>

definition onPacket :: "Packet \<Rightarrow> Router \<Rightarrow> (Router \<times> (string \<times> byte list) list \<times> string list \<times> byte list option) res" where
  "onPacket p r =
     bind_res (if destinations (pkTrackId p) r = [] then Inr []
               else bind_res (wire p) (\<lambda>d. Inr (map (\<lambda>addr. (addr, d)) (destinations (pkTrackId p) r)))) (\<lambda>sent.
       case mget (track2accepters r) (pkTrackId p) of
         None \<Rightarrow> Inr (r, sent, [], None)
       | Some a \<Rightarrow>
           bind_res (Packet_IsEOF p) (\<lambda>eof.
             if eof then (case endTrack (pkTrackId p) r of (r', told) \<Rightarrow> Inr (r', sent, told, None))
             else bind_res (subSlice (pkData p) PACKET_TRACK_HEADER_SIZE (pkN p)) (\<lambda>payload.
               Inr (r, sent, [], if acClosed a then None else Some payload))))"

text \<open>
  The consumer that \<open>SatifySelect\<close> registers for a published track: it gets the data that was read, or
  the error \<open>rd = Inl eof\<close> (\<open>eof\<close>: the track ended). It returns the packet it sends on the channel and
  whether it stops. \<open>pubClosed\<close>: the publication was closed.
\<close>

definition consumeRTP :: "(string \<Rightarrow> byte list option) \<Rightarrow> string \<Rightarrow> bool \<Rightarrow> bool + byte list \<Rightarrow> Router \<Rightarrow> (Router \<times> Packet option \<times> bool) res" where
  "consumeRTP parse trackId pubClosed rd r =
     (case rd of
        Inl eof \<Rightarrow>
          (if eof then (case NewEOFPacket parse trackId of
                          Inl e \<Rightarrow> Inl (ErrorPanic e)
                        | Inr p \<Rightarrow> Inr (RemoveTrack trackId r, Some p, True))
           else Inl (ErrorPanic (PlainError ''read'')))
      | Inr data \<Rightarrow>
          if pubClosed
          then (case NewEOFPacket parse trackId of
                  Inl e \<Rightarrow> Inl (ErrorPanic e)
                | Inr p \<Rightarrow> Inr (RemoveTrack trackId r, Some p, True))
          else if data = [] then Inr (r, None, False)
          else (case NewPacketFromBuf parse trackId data of
                  Inl e \<Rightarrow> Inl (ErrorPanic e)
                | Inr p \<Rightarrow> Inr (r, Some p, False)))"

section \<open>Accepting a track\<close>

lemma AcceptTrack_new:
  "mget (track2accepters r) trackId = None \<Longrightarrow>
   AcceptTrack trackId r = Some (r\<lparr> track2accepters := mput trackId NewAccepter (track2accepters r) \<rparr>, NewAccepter)"
  by (simp add: AcceptTrack.simps)

lemma AcceptTrack_open:
  "mget (track2accepters r) trackId = Some a \<Longrightarrow> \<not> acClosed a \<Longrightarrow>
   AcceptTrack trackId r = Some (r\<lparr> track2accepters := mput trackId (a\<lparr> acRefCount := acRefCount a + 1 \<rparr>) (track2accepters r) \<rparr>,
     a\<lparr> acRefCount := acRefCount a + 1 \<rparr>)"
  by (subst AcceptTrack.simps) (simp add: Ref_def)

text \<open>The loop returns only when the table holds no closed accepter for the track.\<close>

lemma AcceptTrack_returns:
  assumes "AcceptTrack trackId r = Some res"
  shows "\<forall>a. mget (track2accepters r) trackId = Some a \<longrightarrow> \<not> acClosed a"
  by (rule AcceptTrack.raw_induct [OF _ assms]) (auto simp: Ref_def split: option.splits if_splits)

lemma AcceptTrack_hangs:
  "mget (track2accepters r) trackId = Some a \<Longrightarrow> acClosed a \<Longrightarrow> AcceptTrack trackId r = None"
  using AcceptTrack_returns [of trackId r] by (cases "AcceptTrack trackId r") auto

section \<open>Reachable states\<close>

text \<open>
  The steps of a router: a subscription accepts and binds a track it has not bound, unbinds a track
  it has bound, a track ends, a track is published to a transport or removed, a node sets up its
  transport.
\<close>

definition boundTo :: "string \<Rightarrow> Router \<Rightarrow> string list" where
  "boundTo trackId r = (case mget (track2accepters r) trackId of None \<Rightarrow> [] | Some a \<Rightarrow> acSubs a)"

inductive router_step :: "(byte list \<Rightarrow> string) \<Rightarrow> Router \<Rightarrow> Router \<Rightarrow> bool" for str where
  accept: "sub \<notin> set (boundTo trackId r) \<Longrightarrow> AcceptTrack trackId r = Some (r', a) \<Longrightarrow>
     router_step str r (bindTrack sub trackId r')"
| unbind: "sub \<in> set (boundTo trackId r) \<Longrightarrow> router_step str r (fst (Router_UnbindSub sub trackId r))"
| ended: "router_step str r (fst (endTrack trackId r))"
| publish: "router_step str r (fst (PublishTrack trackId transportId r))"
| remove: "router_step str r (RemoveTrack trackId r)"
| setupConn: "onSetup str buf n addr r = Inr (r', ark) \<Longrightarrow> router_step str r r'"

inductive router_reach :: "(byte list \<Rightarrow> string) \<Rightarrow> string \<Rightarrow> Router \<Rightarrow> bool" for str uid where
  start: "router_reach str uid (NewRouter uid)"
| step: "router_reach str uid r \<Longrightarrow> router_step str r r' \<Longrightarrow> router_reach str uid r'"

definition accepter_ok :: "Accepter \<Rightarrow> bool" where
  "accepter_ok a \<longleftrightarrow> distinct (acSubs a) \<and>
     (if acClosed a then acSubs a = [] else acSubs a \<noteq> [] \<and> acRefCount a = int (length (acSubs a)))"

definition router_ok :: "Router \<Rightarrow> bool" where
  "router_ok r \<longleftrightarrow> curChan r < CHAN_COUNT \<and>
     (\<forall>t a. mget (track2accepters r) t = Some a \<longrightarrow> accepter_ok a)"

lemma router_ok_put:
  "router_ok r \<Longrightarrow> accepter_ok a \<Longrightarrow> router_ok (r\<lparr> track2accepters := mput t a (track2accepters r) \<rparr>)"
  by (auto simp: router_ok_def gomap_simps)

lemma bind_accepted_ok:
  assumes "router_ok r" "sub \<notin> set (boundTo t r)" "AcceptTrack t r = Some (r', a)"
  shows "router_ok (bindTrack sub t r')"
proof (cases "mget (track2accepters r) t")
  case None
  have "accepter_ok (BindSub sub NewAccepter)" by (simp add: accepter_ok_def BindSub_def NewAccepter_def)
  moreover have "r' = r\<lparr> track2accepters := mput t NewAccepter (track2accepters r) \<rparr>"
    using assms(3) AcceptTrack_new [OF None] by simp
  ultimately show ?thesis
    using assms(1) by (auto simp: bindTrack_def router_ok_def gomap_simps split: if_splits)
next
  case (Some b)
  then have o: "\<not> acClosed b" using AcceptTrack_returns [OF assms(3)] by simp
  have "accepter_ok b" using assms(1) Some by (auto simp: router_ok_def)
  then have "accepter_ok (BindSub sub (b\<lparr> acRefCount := acRefCount b + 1 \<rparr>))"
    using o assms(2) Some by (simp add: accepter_ok_def BindSub_def boundTo_def)
  moreover have "r' = r\<lparr> track2accepters := mput t (b\<lparr> acRefCount := acRefCount b + 1 \<rparr>) (track2accepters r) \<rparr>"
    using assms(3) AcceptTrack_open [OF Some o] by auto
  ultimately show ?thesis
    using assms(1) by (auto simp: bindTrack_def router_ok_def gomap_simps split: if_splits)
qed

lemma length_filter_distinct:
  "distinct xs \<Longrightarrow> x \<in> set xs \<Longrightarrow> Suc (length (filter (\<lambda>y. y \<noteq> x) xs)) = length xs"
  by (induction xs) (auto intro!: arg_cong [where f = length] filter_True)

lemma unbind_ok:
  assumes "router_ok r" "sub \<in> set (boundTo t r)"
  shows "router_ok (fst (Router_UnbindSub sub t r))"
proof -
  obtain a where a: "mget (track2accepters r) t = Some a" "sub \<in> set (acSubs a)"
    using assms(2) that by (cases "mget (track2accepters r) t") (auto simp: boundTo_def)
  have ok: "accepter_ok a" using assms(1) a(1) by (auto simp: router_ok_def)
  then have o: "\<not> acClosed a" "acRefCount a = int (length (acSubs a))" "distinct (acSubs a)"
    using a(2) by (auto simp: accepter_ok_def split: if_splits)
  have l: "length (acSubs a) = Suc (length (filter (\<lambda>x. x \<noteq> sub) (acSubs a)))"
    using length_filter_distinct [OF o(3) a(2)] by simp
  have "accepter_ok (fst (Accepter_Close False (Accepter_UnbindSub sub a)))"
    using o l by (auto simp: accepter_ok_def Accepter_Close_def Accepter_UnbindSub_def Let_def)
  then show ?thesis
    using a(1) router_ok_put [OF assms(1)] by (auto simp: Router_UnbindSub_def split: prod.splits)
qed

lemma router_step_ok: "router_step str r r' \<Longrightarrow> router_ok r \<Longrightarrow> router_ok r'"
proof (induction rule: router_step.induct)
  case (accept sub trackId r r' a)
  then show ?case by (intro bind_accepted_ok)
next
  case (unbind sub trackId r)
  then show ?case by (intro unbind_ok)
next
  case (ended r trackId)
  then show ?case
    by (auto simp: endTrack_def Accepter_Close_def Let_def accepter_ok_def split: option.splits intro!: router_ok_put)
next
  case (setupConn buf n addr r r' ark)
  then have "curChan r' = curChan r \<and> track2accepters r' = track2accepters r"
    by (auto simp: onSetup_def bind_res_def split: sum.splits)
  then show ?case using setupConn by (simp add: router_ok_def)
qed (auto simp: router_ok_def PublishTrack_def RemoveTrack_def CHAN_COUNT_def Let_def)

lemma router_reach_ok: "router_reach str uid r \<Longrightarrow> router_ok r"
  by (induction rule: router_reach.induct)
     (auto simp: router_step_ok, simp add: router_ok_def NewRouter_def CHAN_COUNT_def)

section \<open>Properties\<close>



lemma set_map_filter: "set (List.map_filter f xs) = {y. \<exists>x \<in> set xs. f x = Some y}"
  by (force simp: map_filter_def)

lemma onPacket_sent:
  assumes "wire p = Inr d" "Packet_IsEOF p = Inr False" "subSlice (pkData p) PACKET_TRACK_HEADER_SIZE (pkN p) = Inr payload"
  shows "\<exists>r' told w. onPacket p r = Inr (r', map (\<lambda>addr. (addr, d)) (destinations (pkTrackId p) r), told, w)"
  using assms by (auto simp: onPacket_def split: option.splits)

text \<open>C19: the data of a published track reaches the node that selected it: when that node's transport has
  been registered by \<open>PublishTrack\<close> and its setup packet has arrived from \<open>addr\<close>, the packet made of up
  to 1580 bytes read from the track is sent to \<open>addr\<close>, and its reader there takes exactly these
  bytes as data of this track.\<close>

theorem data_forwarded:
  assumes "parse trackId = Some uid" "length uid = 16" "str uid = trackId"
    and "length tuid = 16" "str tuid \<noteq> rtId r" "data \<noteq> []" "length data \<le> 1580"
    and "r1 = fst (PublishTrack trackId (str tuid) r)"
  shows "\<exists>r2 ark p r3 sent told w d.
    onSetup str (NewSetupPacketBuf tuid) 24 addr r1 = Inr (r2, Some ark) \<and> IsSetupArk ark \<and> IsSetupId ark tuid \<and>
    consumeRTP parse trackId False (Inr data) r2 = Inr (r2, Some p, False) \<and>
    onPacket p r2 = Inr (r3, sent, told, w) \<and> (addr, d) \<in> set sent \<and>
    onDatagram str d = Inr (WriteTo trackId data)"
proof -
  let ?r2 = "r1\<lparr> addrMap := mput (str tuid) addr (addrMap r1) \<rparr>"
  have s: "onSetup str (NewSetupPacketBuf tuid) 24 addr r1 = Inr (?r2, Some (NewSetupArkPacketBuf tuid))"
    using assms(4) by (simp add: onSetup_def DecodeSetupPacket_def setup_buf subSlice_def)
  have k: "IsSetupArk (NewSetupArkPacketBuf tuid)" "IsSetupId (NewSetupArkPacketBuf tuid) tuid"
    using assms(4) by (simp_all add: setup_buf IsSetupArk_def IsSetupId_def)
  obtain p where p: "NewPacketFromBuf parse trackId data = Inr p" using assms(1) by (simp add: NewPacketFromBuf_def)
  have c: "consumeRTP parse trackId False (Inr data) ?r2 = Inr (?r2, Some p, False)"
    using p assms(6) by (simp add: consumeRTP_def)
  note w = wire_fit [OF assms(1,2) p assms(7)]
  note dat = NewPacketFromBuf_data [OF assms(1,2) p]
  let ?d = "bytesOf MAGIC_PACKET @ uid @ data"
  have e: "Packet_IsEOF p = Inr False" using w assms(2,6) by (simp add: Packet_IsEOF_def IsEofPacket_def packet_sizes)
  have b: "subSlice (pkData p) PACKET_TRACK_HEADER_SIZE (pkN p) = Inr data"
    using dat assms(2,7) by (simp add: subSlice_def packet_sizes)
  have "onDatagram str ?d = Inr (WriteTo trackId data)"
    using assms(2,3,6) by (simp add: onDatagram_def IsDataPacket_def ExtractPacket_def subSlice_def packet_sizes)
  moreover have "addr \<in> set (destinations (pkTrackId p) ?r2)"
    using dat assms(5,8)
    by (auto simp: destinations_def PublishTrack_def Let_def gomap_simps set_map_filter split: option.splits)
  moreover obtain r3 told w' where "onPacket p ?r2 = Inr (r3, map (\<lambda>addr. (addr, ?d)) (destinations (pkTrackId p) ?r2), told, w')"
    using onPacket_sent [OF w e b] by blast
  ultimately show ?thesis using s k c by fastforce
qed

text \<open>the end of a track is not told to the other nodes: the consumer removes the transports of the
  track before it queues the end packet, so the packet is sent nowhere.\<close>

theorem eof_not_forwarded:
  assumes "consumeRTP parse trackId pubClosed rd r = Inr (r', Some p, True)"
  shows "pkTrackId p = trackId \<and> destinations (pkTrackId p) r' = [] \<and>
    (\<forall>r'' sent told w. onPacket p r' = Inr (r'', sent, told, w) \<longrightarrow> sent = [])"
proof -
  have p: "NewEOFPacket parse trackId = Inr p" "r' = RemoveTrack trackId r"
    using assms by (auto simp: consumeRTP_def split: sum.splits if_splits)
  then have t: "pkTrackId p = trackId" by (auto simp: NewEOFPacket_def Let_def split: option.splits)
  have "destinations trackId r' = []" using p(2) by (simp add: destinations_def RemoveTrack_def gomap_simps)
  then show ?thesis
    using t by (auto simp: onPacket_def bind_res_def split: option.splits sum.splits if_splits prod.splits)
qed

section \<open>Witnesses\<close>

definition demo_router :: Router where
  "demo_router = (NewRouter ''me'')\<lparr> track2accepters := [(''t'', \<lparr> acClosed = False, acSubs = [''s''], acRefCount = 1 \<rparr>)] \<rparr>"

lemma demo_router_reach: "router_reach str ''me'' demo_router"
proof -
  let ?r = "(NewRouter ''me'')\<lparr> track2accepters := [(''t'', NewAccepter)] \<rparr>"
  have a: "AcceptTrack ''t'' (NewRouter ''me'') = Some (?r, NewAccepter)"
    by (simp add: AcceptTrack_new NewRouter_def)
  have "demo_router = bindTrack ''s'' ''t'' ?r"
    by (simp add: demo_router_def bindTrack_def NewRouter_def BindSub_def NewAccepter_def)
  then show ?thesis
    using router_reach.step [OF router_reach.start router_step.accept [OF _ a, of "''s''"]]
    by (simp add: boundTo_def NewRouter_def)
qed



theorem data_forwarded_witness:
  "\<exists>d. onDatagram (\<lambda>b. if b = replicate 16 7 then ''t'' else ''n2'') d = Inr (WriteTo ''t'' [1, 2])"
proof -
  let ?str = "\<lambda>b :: byte list. if b = replicate 16 7 then ''t'' else ''n2''"
  have 1: "demo_uuid_parse ''t'' = Some (replicate 16 7)" by (simp add: demo_uuid_parse_def)
  have 2: "?str (replicate 16 8) \<noteq> rtId (NewRouter ''me'')" by (simp add: NewRouter_def replicate_eq_replicate)
  from data_forwarded [where parse = demo_uuid_parse and trackId = "''t''" and uid = "replicate 16 7" and str = ?str
      and tuid = "replicate 16 8" and r = "NewRouter ''me''" and data = "[1, 2]" and addr = "''a''", OF 1 _ _ _ 2 _ _ refl]
  show ?thesis by fastforce
qed

theorem eof_not_forwarded_witness:
  "\<exists>r p. consumeRTP demo_uuid_parse ''t'' False (Inl True) (NewRouter ''me'') = Inr (r, Some p, True) \<and> destinations ''t'' r = []"
proof -
  obtain p where p: "NewEOFPacket demo_uuid_parse ''t'' = Inr p" by (simp add: NewEOFPacket_def demo_uuid_parse_def Let_def)
  then have "consumeRTP demo_uuid_parse ''t'' False (Inl True) (NewRouter ''me'') = Inr (RemoveTrack ''t'' (NewRouter ''me''), Some p, True)"
    by (simp add: consumeRTP_def)
  with eof_not_forwarded [OF this] show ?thesis by auto
qed

end
