(* ===== verification/PubBind.thy ===== *)
theory PubBind
  imports SignalContexts RouterNode
begin

text \<open>
  The life of a published track (\<open>PublishedTrack\<close>, \<open>Publication.Bind\<close>, \<open>Publication.SatifySelect\<close> and
  \<open>SignalContext.Bind\<close> of \<open>signal/model.go\<close>): it is bound to a remote track of the peer, announced
  with its publication, selected by other nodes, and its RTP packets are handed to its consumers.
  The peer is a parameter: its transceivers, the codecs and ids of its remote tracks, and the error
  of \<open>makeSurePeer\<close>. The acknowledgements of the client are a parameter too.
\<close>

section \<open>Binding\<close>

text \<open>
  What the binding uses of the world: the error of \<open>makeSurePeer\<close>, the transceivers, codec and id of
  remote tracks, whether a published message is acknowledged, whether recording is enabled and
  the error of \<open>makeSegmenter\<close>.
\<close>

record PeerView =
  pvErr :: "go_err option"
  pvTransceivers :: "RTPTransceiver list"
  pvCodec :: "nat \<Rightarrow> RTPCodecParameters option"
  pvId :: "nat \<Rightarrow> string"
  pvAcked :: "Track \<Rightarrow> bool"
  pvRecord :: bool
  pvSegmenter :: "go_err option"

text \<open>\<open>PublishedTrack.Bind\<close>: the track after it, the published messages sent, and the success.\<close>

definition PublishedTrack_Bind :: "PeerView \<Rightarrow> PublishedTrack \<Rightarrow> (PublishedTrack \<times> Track list \<times> bool) res" where
  "PublishedTrack_Bind pv pt =
     (case pvErr pv of
        Some e \<Rightarrow> Inl (ErrorPanic e)
      | None \<Rightarrow>
          bind_res (bindRemote (pvCodec pv) (pvId pv) (pvTransceivers pv) pt) (\<lambda>(pt', success).
            if success then Inr (pt', [ptTrack pt'], pvAcked pv (ptTrack pt')) else Inr (pt', [], False)))"

fun bindTracks :: "PeerView \<Rightarrow> (string \<times> PublishedTrack) list \<Rightarrow> ((string \<times> PublishedTrack) list \<times> Track list) res" where
  "bindTracks pv [] = Inr ([], [])"
| "bindTracks pv ((k, pt) # ts) =
     bind_res (PublishedTrack_Bind pv pt) (\<lambda>(pt', sent, _).
     bind_res (bindTracks pv ts) (\<lambda>(ts', sent'). Inr ((k, pt') # ts', sent @ sent')))"

text \<open>\<open>startRecord\<close> up to the creation of the segmenter.\<close>

definition startRecord :: "PeerView \<Rightarrow> Publication \<Rightarrow> Publication res" where
  "startRecord pv me =
     (if \<not> pvRecord pv \<or> pbRecordStart me then Inr me
      else case pvSegmenter pv of Some e \<Rightarrow> Inl (ErrorPanic e) | None \<Rightarrow> Inr (me\<lparr> pbRecordStart := True \<rparr>))"

definition Publication_Bind :: "string \<Rightarrow> string \<Rightarrow> PeerView \<Rightarrow> SignalContext \<Rightarrow> Publication
    \<Rightarrow> (Publication \<times> Track list \<times> RoomMessage list \<times> bool) res" where
  "Publication_Bind node addr pv c me =
     bind_res (bindTracks pv (pbTracks me)) (\<lambda>(ts, sent).
       let me1 = me\<lparr> pbTracks := ts \<rparr>
       in if isAllBind me1
          then bind_res (startRecord pv me1) (\<lambda>me2.
                 Inr (me2, sent, clusterEmit node c (MState \<lparr> smRouter = None, smPubId = pbId me2, smAddr = addr,
                   smTracks = MapValuesTo (pbTracks me2) (\<lambda>_ pt. Some (ptTrack pt)) \<rparr>), True))
          else Inr (me1, sent, [], False))"

text \<open>
  \<open>SignalContext.Bind\<close>, called for every track event of the peer: the loop over the publications
  stops at the first that is all bound.
\<close>

fun bindPubs :: "string \<Rightarrow> string \<Rightarrow> PeerView \<Rightarrow> SignalContext \<Rightarrow> (string \<times> Publication) list
    \<Rightarrow> ((string \<times> Publication) list \<times> Track list \<times> RoomMessage list) res" where
  "bindPubs node addr pv c [] = Inr ([], [], [])"
| "bindPubs node addr pv c ((k, pub) # ps) =
     bind_res (Publication_Bind node addr pv c pub) (\<lambda>(pub', sent, out, bound).
       if bound then Inr ((k, pub') # ps, sent, out)
       else bind_res (bindPubs node addr pv c ps) (\<lambda>(ps', sent', out'). Inr ((k, pub') # ps', sent @ sent', out @ out')))"

definition Context_Bind :: "string \<Rightarrow> string \<Rightarrow> PeerView \<Rightarrow> SignalContext \<Rightarrow> (SignalContext \<times> Track list \<times> RoomMessage list) res" where
  "Context_Bind node addr pv c =
     bind_res (bindPubs node addr pv c (scPublications c)) (\<lambda>(ps, sent, out).
       Inr (c\<lparr> scPublications := ps \<rparr>, sent, out))"

section \<open>Consumers of RTP packets\<close>

text \<open>
  The consumers of a published track, by identity (they are pointers), with whether the goroutine
  that reads the remote track is told to run (\<open>consumerChan\<close> is open). \<open>run\<close> calls a consumer on what
  was read; it changes a state and says whether the consumer stops.
\<close>

record RtpReader =
  rrConsumers :: "nat list"
  rrOpen :: bool

definition removeConsumer :: "nat \<Rightarrow> RtpReader \<Rightarrow> RtpReader res" where
  "removeConsumer k me =
     bind_res (SliceRemoveByValue (rrConsumers me) True k) (\<lambda>(_, cs).
       if cs = [] then (if rrOpen me then Inr \<lparr> rrConsumers = cs, rrOpen = False \<rparr> else Inl (ErrorPanic (PlainError ''close of nil channel'')))
       else Inr (me\<lparr> rrConsumers := cs \<rparr>))"

text \<open>The result says whether a new reading goroutine starts.\<close>

definition OnRTPPacket :: "nat \<Rightarrow> RtpReader \<Rightarrow> RtpReader \<times> bool" where
  "OnRTPPacket k me =
     (let cs = rrConsumers me @ [k]
      in if length cs = 1 then (\<lparr> rrConsumers = cs, rrOpen = True \<rparr>, True) else (me\<lparr> rrConsumers := cs \<rparr>, False))"

fun consumes :: "(nat \<Rightarrow> 's \<Rightarrow> ('s \<times> bool) res) \<Rightarrow> nat list \<Rightarrow> RtpReader \<Rightarrow> 's \<Rightarrow> (RtpReader \<times> 's) res" where
  "consumes run [] me s = Inr (me, s)"
| "consumes run (k # ks) me s =
     bind_res (run k s) (\<lambda>(s', stop).
     bind_res (if stop then removeConsumer k me else Inr me) (\<lambda>me'.
     consumes run ks me' s'))"

text \<open>The call on one read: the slice of consumers is the one before the first call.\<close>

definition onRead :: "(nat \<Rightarrow> 's \<Rightarrow> ('s \<times> bool) res) \<Rightarrow> RtpReader \<Rightarrow> 's \<Rightarrow> (RtpReader \<times> 's) res" where
  "onRead run me s = consumes run (rrConsumers me) me s"

section \<open>Selection\<close>

text \<open>
  \<open>PublishedTrack.SatifySelect\<close>: \<open>k\<close> is the new consumer. The router, the consumers and the answer.
\<close>

definition PublishedTrack_SatifySelect :: "PeerView \<Rightarrow> bool \<Rightarrow> string \<Rightarrow> nat \<Rightarrow> PublishedTrack \<Rightarrow> RouterNode.Router \<times> RtpReader
    \<Rightarrow> ((RouterNode.Router \<times> RtpReader) \<times> bool) res" where
  "PublishedTrack_SatifySelect pv pubClosed transportId k me st =
     (if pubClosed then Inr (st, False)
      else case pvErr pv of
             Some e \<Rightarrow> Inl (ErrorPanic e)
           | None \<Rightarrow>
               bind_res (findTracksRemoteByMidAndRid (pvTransceivers pv) (streamId (ptTrack me)) (bindId (ptTrack me)) (rid (ptTrack me)))
                 (\<lambda>(tr, _).
                   if tr = None then Inr (st, False)
                   else Inr ((fst (PublishTrack (globalId (ptTrack me)) transportId (fst st)), fst (OnRTPPacket k (snd st))), True)))"

text \<open>The readers of the tracks are filed by global id; \<open>n\<close> numbers the consumers.\<close>

fun selectTracks :: "PeerView \<Rightarrow> Publication \<Rightarrow> string \<Rightarrow> Track list \<Rightarrow> RouterNode.Router \<times> (string, RtpReader) gomap \<times> nat
    \<Rightarrow> (RouterNode.Router \<times> (string, RtpReader) gomap \<times> nat) res" where
  "selectTracks pv pub transportId [] st = Inr st"
| "selectTracks pv pub transportId (t # ts) (r, rds, n) =
     (case mget (pbTracks pub) (globalId t) of
        None \<Rightarrow> selectTracks pv pub transportId ts (r, rds, n)
      | Some pt \<Rightarrow>
          (let rd = (case mget rds (globalId t) of Some rd \<Rightarrow> rd | None \<Rightarrow> \<lparr> rrConsumers = [], rrOpen = False \<rparr>)
           in bind_res (PublishedTrack_SatifySelect pv (pbClosed pub) transportId n pt (r, rd)) (\<lambda>((r', rd'), _).
                selectTracks pv pub transportId ts (r', mput (globalId t) rd' rds, Suc n))))"

definition SatifySelect :: "PeerView \<Rightarrow> SignalContext \<Rightarrow> SelectMessage \<Rightarrow> RouterNode.Router \<times> (string, RtpReader) gomap \<times> nat
    \<Rightarrow> (RouterNode.Router \<times> (string, RtpReader) gomap \<times> nat) res" where
  "SatifySelect pv c message st =
     (if \<not> matchRoomMsg c (MSelect message) then Inr st
      else case mget (scPublications c) (selPubId message) of
             None \<Rightarrow> Inr st
           | Some pub \<Rightarrow> selectTracks pv pub (selTransportId message) (selTracks message) st)"

section \<open>Lemmas on binding\<close>

definition track_ok :: "PublishedTrack \<Rightarrow> bool" where
  "track_ok pt \<longleftrightarrow> (isBind pt \<longrightarrow> codec (ptTrack pt) \<noteq> None)"

lemma bindRemote_ok:
  assumes "bindRemote co io tvs pt = Inr (pt', success)"
  shows "(isBind pt \<longrightarrow> isBind pt') \<and> (track_ok pt \<longrightarrow> track_ok pt') \<and> globalId (ptTrack pt') = globalId (ptTrack pt) \<and>
    (success \<longrightarrow> isBind pt')"
proof -
  obtain found where f: "findTracksRemoteByMidAndRid tvs (streamId (ptTrack pt)) (bindId (ptTrack pt)) (rid (ptTrack pt)) = Inr found"
    using assms unfolding bindRemote_def bind_res_Inr_iff by blast
  obtain rt tv where "found = (rt, tv)" by fastforce
  with assms f show ?thesis
    by (auto simp: bindRemote_def isBind_def track_ok_def split: option.splits if_splits)
qed

lemma bindTracks_ok:
  assumes "bindTracks pv ts = Inr (ts', sent)"
  shows "map fst ts' = map fst ts \<and>
    list_all2 (\<lambda>x y. (isBind (snd x) \<longrightarrow> isBind (snd y)) \<and> (track_ok (snd x) \<longrightarrow> track_ok (snd y))) ts ts' \<and>
    (\<forall>t \<in> set sent. \<exists>x \<in> set ts'. isBind (snd x) \<and> t = ptTrack (snd x))"
  using assms
proof (induction ts arbitrary: ts' sent)
  case Nil
  then show ?case by simp
next
  case (Cons x ts)
  obtain k pt where x: "x = (k, pt)" by fastforce
  obtain pt' ss b where b: "bindRemote (pvCodec pv) (pvId pv) (pvTransceivers pv) pt = Inr (pt', b)"
      "ss = (if b then [ptTrack pt'] else [])"
      and r: "\<exists>ts'' sent'. bindTracks pv ts = Inr (ts'', sent') \<and> ts' = (k, pt') # ts'' \<and> sent = ss @ sent'"
    using Cons.prems x by (auto simp: PublishedTrack_Bind_def bind_res_Inr_iff split: option.splits if_splits)
  then obtain ts'' sent' where t: "bindTracks pv ts = Inr (ts'', sent')" "ts' = (k, pt') # ts''" "sent = ss @ sent'" by blast
  show ?case using Cons.IH [OF t(1)] bindRemote_ok [OF b(1)] b(2) t(2,3) x by auto
qed

lemma MapValuesTo_Some: "MapValuesTo m (\<lambda>_ v. Some (f v)) = map (\<lambda>x. f (snd x)) m"
  by (induction m) auto

lemma MapAllMatch_iff: "MapAllMatch m f \<longleftrightarrow> (\<forall>x \<in> set m. f (fst x) (snd x))"
  by (induction m) (auto split: if_splits)

lemma isAllBind_iff: "isAllBind me \<longleftrightarrow> (\<forall>x \<in> set (pbTracks me). isBind (snd x))"
  by (simp add: isAllBind_def MapAllMatch_iff)

section \<open>Properties of the binding\<close>

text \<open>C31: when a publication is bound, its tracks stay bound that were, the client is told only about bound
  tracks, and the publication is announced to the rooms exactly when all its tracks are bound: the
  announcement holds all of them, each with its codec.\<close>

theorem Publication_Bind_correct:
  assumes "Publication_Bind node addr pv c me = Inr (me', sent, out, bound)" "\<forall>x \<in> set (pbTracks me). track_ok (snd x)"
  shows "map fst (pbTracks me') = map fst (pbTracks me) \<and>
    list_all2 (\<lambda>x y. isBind (snd x) \<longrightarrow> isBind (snd y)) (pbTracks me) (pbTracks me') \<and>
    (\<forall>t \<in> set sent. \<exists>x \<in> set (pbTracks me'). isBind (snd x) \<and> t = ptTrack (snd x)) \<and>
    (bound \<longleftrightarrow> (\<forall>x \<in> set (pbTracks me'). isBind (snd x))) \<and>
    out = (if bound then clusterEmit node c (MState \<lparr> smRouter = None, smPubId = pbId me, smAddr = addr,
             smTracks = map (\<lambda>x. ptTrack (snd x)) (pbTracks me') \<rparr>) else []) \<and>
    (\<forall>x \<in> set (pbTracks me'). track_ok (snd x))"
proof -
  obtain ts where t: "bindTracks pv (pbTracks me) = Inr (ts, sent)"
      and r: "if isAllBind (me\<lparr> pbTracks := ts \<rparr>)
        then bound \<and> startRecord pv (me\<lparr> pbTracks := ts \<rparr>) = Inr me' \<and> out = clusterEmit node c (MState \<lparr> smRouter = None, smPubId = pbId me', smAddr = addr,
                   smTracks = map (\<lambda>x. ptTrack (snd x)) (pbTracks me') \<rparr>)
        else \<not> bound \<and> me' = me\<lparr> pbTracks := ts \<rparr> \<and> out = []"
    using assms(1) by (auto simp: Publication_Bind_def bind_res_Inr_iff Let_def MapValuesTo_Some split: if_splits)
  note ok = bindTracks_ok [OF t]
  have tok: "\<forall>x \<in> set ts. track_ok (snd x)"
    using ok assms(2) by (fastforce simp: list_all2_conv_all_nth in_set_conv_nth)
  have mono: "list_all2 (\<lambda>x y. isBind (snd x) \<longrightarrow> isBind (snd y)) (pbTracks me) ts"
    using ok by (auto elim: list_all2_mono)
  have m: "pbTracks me' = ts" "pbId me' = pbId me"
    using r by (auto simp: startRecord_def split: if_splits option.splits)
  show ?thesis using r ok tok mono m by (auto simp: isAllBind_iff split: if_splits)
qed

lemma bindTracks_rebind:
  assumes "pvErr pv = None"
    and "\<forall>x \<in> set ts. \<exists>rt tv. findTracksRemoteByMidAndRid (pvTransceivers pv) (streamId (ptTrack (snd x))) (bindId (ptTrack (snd x)))
      (rid (ptTrack (snd x))) = Inr (Some rt, tv) \<and> ptRemote (snd x) = Some (rtRef rt)"
  shows "bindTracks pv ts = Inr (ts, map (\<lambda>x. ptTrack (snd x)) ts)"
  using assms(2)
proof (induction ts)
  case (Cons x ts)
  obtain k pt where x: "x = (k, pt)" by fastforce
  obtain rt tv where "findTracksRemoteByMidAndRid (pvTransceivers pv) (streamId (ptTrack pt)) (bindId (ptTrack pt)) (rid (ptTrack pt)) =
      Inr (Some rt, tv)" "ptRemote pt = Some (rtRef rt)"
    using Cons.prems x by auto
  then have "PublishedTrack_Bind pv pt = Inr (pt, [ptTrack pt], pvAcked pv (ptTrack pt))"
    using assms(1) by (simp add: PublishedTrack_Bind_def bindRemote_def)
  then show ?case using Cons x by simp
qed simp

text \<open>a publication that is all bound starves those after it: while its tracks are still received, a
  track event of the peer only tells the client about them again and announces it again, and
  the context stays as it is, whatever tracks have arrived for the other publications.\<close>

theorem Bind_starves:
  assumes "scPublications c = (k, pub) # ps" "pvErr pv = None" "\<not> pvRecord pv \<or> pbRecordStart pub"
    and "\<forall>x \<in> set (pbTracks pub). \<exists>rt tv. findTracksRemoteByMidAndRid (pvTransceivers pv) (streamId (ptTrack (snd x)))
      (bindId (ptTrack (snd x))) (rid (ptTrack (snd x))) = Inr (Some rt, tv) \<and> ptRemote (snd x) = Some (rtRef rt)"
  shows "\<exists>out. Context_Bind node addr pv c = Inr (c, map (\<lambda>x. ptTrack (snd x)) (pbTracks pub), out) \<and>
    length out = length (clusterEmit node c (MState \<lparr> smRouter = None, smPubId = pbId pub, smAddr = addr,
      smTracks = map (\<lambda>x. ptTrack (snd x)) (pbTracks pub) \<rparr>))"
proof -
  have "isAllBind pub" using assms(4) by (auto simp: isAllBind_iff isBind_def)
  moreover have "startRecord pv pub = Inr pub" using assms(3) by (auto simp: startRecord_def)
  moreover have "c\<lparr> scPublications := (k, pub) # ps \<rparr> = c" by (simp flip: assms(1))
  ultimately show ?thesis
    using bindTracks_rebind [OF assms(2,4)]
    by (simp add: Context_Bind_def assms(1) Publication_Bind_def Let_def MapValuesTo_Some)
qed

section \<open>Properties of the consumers\<close>

definition reader_ok :: "RtpReader \<Rightarrow> bool" where
  "reader_ok me \<longleftrightarrow> distinct (rrConsumers me) \<and> (rrOpen me \<longleftrightarrow> rrConsumers me \<noteq> [])"

lemma removeConsumer_ok:
  assumes "reader_ok me" "k \<in> set (rrConsumers me)"
  shows "\<exists>me'. removeConsumer k me = Inr me' \<and> reader_ok me' \<and> rrConsumers me' = filter (\<lambda>j. j \<noteq> k) (rrConsumers me)"
proof -
  obtain arr where "SliceRemoveByValue (rrConsumers me) True k = Inr (arr, filter (\<lambda>j. j \<noteq> k) (rrConsumers me))"
    using SliceRemoveByValue_out [of "rrConsumers me" True k] by (cases "SliceRemoveByValue (rrConsumers me) True k") auto
  moreover have "rrOpen me" using assms by (auto simp: reader_ok_def)
  ultimately show ?thesis using assms(1) by (auto simp: removeConsumer_def reader_ok_def)
qed

lemma consumes_ok:
  assumes "reader_ok me" "distinct ks" "set ks \<subseteq> set (rrConsumers me)"
  shows "\<exists>me'. consumes (\<lambda>k s. Inr (f k s, stop k)) ks me s = Inr (me', fold f ks s) \<and> reader_ok me' \<and>
    rrConsumers me' = filter (\<lambda>j. \<not> (j \<in> set ks \<and> stop j)) (rrConsumers me)"
  using assms
proof (induction ks arbitrary: me s)
  case Nil
  then show ?case by simp
next
  case (Cons k ks)
  obtain me1 where m1: "(if stop k then removeConsumer k me else Inr me) = Inr me1" "reader_ok me1"
      "rrConsumers me1 = filter (\<lambda>j. \<not> (j = k \<and> stop j)) (rrConsumers me)"
  proof (cases "stop k")
    case True
    then have "(\<lambda>j. \<not> (j = k \<and> stop j)) = (\<lambda>j. j \<noteq> k)" by auto
    then show ?thesis using removeConsumer_ok [OF Cons.prems(1), of k] Cons.prems(3) True that by auto
  next
    case False
    then have "(\<lambda>j. \<not> (j = k \<and> stop j)) = (\<lambda>_. True)" by auto
    then show ?thesis using False that [of me] Cons.prems(1) by simp
  qed
  have "distinct ks" "set ks \<subseteq> set (rrConsumers me1)" using Cons.prems(2,3) m1(3) by auto
  from Cons.IH [OF m1(2) this, of "f k s"] obtain me' where
      "consumes (\<lambda>k s. Inr (f k s, stop k)) ks me1 (f k s) = Inr (me', fold f ks (f k s))" "reader_ok me'"
      "rrConsumers me' = filter (\<lambda>j. \<not> (j \<in> set ks \<and> stop j)) (rrConsumers me1)" by blast
  moreover have "(\<lambda>j. \<not> (j = k \<and> stop j) \<and> \<not> (j \<in> set ks \<and> stop j)) = (\<lambda>j. \<not> (j \<in> set (k # ks) \<and> stop j))" by auto
  ultimately show ?case using m1 by (simp add: conj_commute)
qed

lemma onRead_ok:
  assumes "reader_ok me"
  shows "\<exists>me'. onRead (\<lambda>k s. Inr (f k s, stop k)) me s = Inr (me', fold f (rrConsumers me) s) \<and>
    rrConsumers me' = filter (\<lambda>k. \<not> stop k) (rrConsumers me) \<and> (rrOpen me' \<longleftrightarrow> rrConsumers me' \<noteq> []) \<and> reader_ok me'"
proof -
  have "distinct (rrConsumers me)" using assms by (simp add: reader_ok_def)
  from consumes_ok [OF assms this subset_refl, where s = s and f = f and stop = stop] show ?thesis
    unfolding onRead_def by (auto simp: reader_ok_def cong: filter_cong)
qed

text \<open>what is read from a remote track goes to each consumer of the track once, in the order of
  their registration, and exactly the consumers that ask to stop are removed; the reading goroutine is
  told to end exactly when none is left.\<close>

theorem onRead_correct:
  assumes "reader_ok me"
  shows "\<exists>me'. onRead (\<lambda>k s. Inr (f k s, stop k)) me s = Inr (me', fold f (rrConsumers me) s) \<and>
    rrConsumers me' = filter (\<lambda>k. \<not> stop k) (rrConsumers me) \<and> (rrOpen me' \<longleftrightarrow> rrConsumers me' \<noteq> []) \<and> reader_ok me'"
  using onRead_ok [OF assms] .

text \<open>The consumer that a selection registers, with the packets it queues.\<close>

definition feed :: "(string \<Rightarrow> byte list option) \<Rightarrow> string \<Rightarrow> byte list \<Rightarrow> nat \<Rightarrow> RouterNode.Router \<times> Packet list
    \<Rightarrow> ((RouterNode.Router \<times> Packet list) \<times> bool) res" where
  "feed parse trackId data k s =
     bind_res (consumeRTP parse trackId False (Inr data) (fst s)) (\<lambda>(r, p, stop).
       Inr ((r, snd s @ (case p of Some q \<Rightarrow> [q] | None \<Rightarrow> [])), stop))"

lemma select_consumer:
  assumes "PublishedTrack_SatifySelect pv False tp k pt (r, rd) = Inr ((r', rd'), True)" "reader_ok rd" "k \<notin> set (rrConsumers rd)"
  shows "reader_ok rd' \<and> rrConsumers rd' = rrConsumers rd @ [k] \<and> r' = fst (PublishTrack (globalId (ptTrack pt)) tp r)"
  using assms
  by (auto simp: PublishedTrack_SatifySelect_def bind_res_Inr_iff OnRTPPacket_def Let_def reader_ok_def split: option.splits if_splits)

text \<open>a track that two nodes have selected is forwarded twice to each: every selection registers
  its own consumer, each consumer queues every packet, and each queued packet is sent to all the
  transports of the track with a known address.\<close>

theorem duplicate_forwarding:
  assumes "PublishedTrack_SatifySelect pv False t1 k1 pt (r, \<lparr> rrConsumers = [], rrOpen = False \<rparr>) = Inr ((r1, rd1), True)"
    and "PublishedTrack_SatifySelect pv False t2 k2 pt (r1, rd1) = Inr ((r2, rd2), True)" "k1 \<noteq> k2"
    and "parse (globalId (ptTrack pt)) = Some uid" "length uid = 16" "data \<noteq> []" "length data \<le> 1580"
  shows "\<exists>p d. onRead (feed parse (globalId (ptTrack pt)) data) rd2 (r2, []) = Inr (rd2, r2, [p, p]) \<and>
    (\<exists>r3 told w. onPacket p r2 = Inr (r3, map (\<lambda>addr. (addr, d)) (destinations (globalId (ptTrack pt)) r2), told, w))"
proof -
  let ?g = "globalId (ptTrack pt)"
  have c1: "reader_ok rd1" "rrConsumers rd1 = [k1]" using select_consumer [OF assms(1)] by (simp_all add: reader_ok_def)
  have c2: "reader_ok rd2" "rrConsumers rd2 = [k1, k2]" using select_consumer [OF assms(2) c1(1)] c1(2) assms(3) by simp_all
  obtain p where p: "NewPacketFromBuf parse ?g data = Inr p" using assms(4) by (simp add: NewPacketFromBuf_def)
  have f: "feed parse ?g data = (\<lambda>k s. Inr ((fst s, snd s @ [p]), False))"
    using p assms(6) by (simp add: feed_def consumeRTP_def fun_eq_iff)
  from onRead_ok [OF c2(1), where s = "(r2, [])" and f = "\<lambda>k s. (fst s, snd s @ [p])" and stop = "\<lambda>_. False"] obtain me' where
      me: "onRead (feed parse ?g data) rd2 (r2, []) = Inr (me', fold (\<lambda>k s. (fst s, snd s @ [p])) (rrConsumers rd2) (r2, []))"
        "rrConsumers me' = rrConsumers rd2" "rrOpen me' \<longleftrightarrow> rrConsumers me' \<noteq> []" unfolding f by auto
  have "me' = rd2" using me(2,3) c2(1) by (simp add: reader_ok_def)
  with me(1) have "onRead (feed parse ?g data) rd2 (r2, []) = Inr (rd2, r2, [p, p])" by (simp add: c2(2))
  moreover note w = wire_fit [OF assms(4,5) p assms(7)]
  moreover have "Packet_IsEOF p = Inr False" using w assms(5,6) by (simp add: Packet_IsEOF_def IsEofPacket_def packet_sizes)
  moreover have "subSlice (pkData p) PACKET_TRACK_HEADER_SIZE (pkN p) = Inr data" "pkTrackId p = ?g"
    using NewPacketFromBuf_data [OF assms(4,5) p] assms(5,7) by (simp_all add: subSlice_def packet_sizes)
  ultimately show ?thesis using onPacket_sent [OF w, of data r2] by metis
qed

section \<open>Witnesses\<close>

definition demo_view :: PeerView where
  "demo_view = \<lparr> pvErr = None,
     pvTransceivers = [\<lparr> tvMid = ''0'', tvSender = 4, tvReceiver = Some [\<lparr> rtRef = 7, rtRid = '''', rtStreamId = ''st'' \<rparr>] \<rparr>],
     pvCodec = (\<lambda>_. Some \<lparr> mimeType = ''video/H264'', clockRate = 90000, channels = 0, sdpFmtpLine = '''', rtcpFeedback = [], payloadType = 102 \<rparr>),
     pvId = (\<lambda>_. ''local''), pvAcked = (\<lambda>_. True), pvRecord = False, pvSegmenter = None \<rparr>"

definition demo_pt :: PublishedTrack where
  "demo_pt = publishedTrack ''p'' ''t'' \<lparr> tpType = ''video'', tpBindId = ''0'', tpRid = '''', tpSid = ''st'', tpLabels = [] \<rparr>"

definition demo_pub :: "PublishedTrack \<Rightarrow> Publication" where
  "demo_pub pt = \<lparr> pbId = ''p'', pbClosed = False, pbTracks = [(''t'', pt)], pbRecordStart = False \<rparr>"

definition demo_ctx2 :: SignalContext where
  "demo_ctx2 = demo_ctx\<lparr> scPublications := [(''p'', demo_pub (demo_pt\<lparr> ptRemote := Some 7 \<rparr>)), (''q'', demo_pub demo_pt)] \<rparr>"

lemma demo_find:
  "findTracksRemoteByMidAndRid (pvTransceivers demo_view) (streamId (ptTrack demo_pt)) (bindId (ptTrack demo_pt)) (rid (ptTrack demo_pt)) =
    Inr (Some \<lparr> rtRef = 7, rtRid = '''', rtStreamId = ''st'' \<rparr>,
      Some \<lparr> tvMid = ''0'', tvSender = 4, tvReceiver = Some [\<lparr> rtRef = 7, rtRid = '''', rtStreamId = ''st'' \<rparr>] \<rparr>)"
  by code_simp

theorem Publication_Bind_correct_witness:
  "\<exists>me' sent out. Publication_Bind ''n1'' ''addr'' demo_view demo_ctx (demo_pub demo_pt) = Inr (me', sent, out, True) \<and>
     (\<forall>x \<in> set (pbTracks me'). isBind (snd x))"
proof -
  have "case Publication_Bind ''n1'' ''addr'' demo_view demo_ctx (demo_pub demo_pt) of Inr (_, _, _, b) \<Rightarrow> b | _ \<Rightarrow> False" by code_simp
  then obtain me' sent out where b: "Publication_Bind ''n1'' ''addr'' demo_view demo_ctx (demo_pub demo_pt) = Inr (me', sent, out, True)"
    by (auto split: sum.splits)
  have "\<forall>x \<in> set (pbTracks (demo_pub demo_pt)). track_ok (snd x)" by code_simp
  from Publication_Bind_correct [OF b this] b show ?thesis by blast
qed

theorem Bind_starves_witness:
  "\<exists>out. Context_Bind ''n1'' ''addr'' demo_view demo_ctx2 = Inr (demo_ctx2, [ptTrack demo_pt], out) \<and>
     \<not> isAllBind (the (mget (scPublications demo_ctx2) ''q''))"
proof -
  have v: "pvErr demo_view = None" "\<not> pvRecord demo_view" "\<not> isAllBind (the (mget (scPublications demo_ctx2) ''q''))" by code_simp+
  show ?thesis
    using Bind_starves [where c = demo_ctx2 and k = "''p''" and pub = "demo_pub (demo_pt\<lparr> ptRemote := Some 7 \<rparr>)" and ps = "[(''q'', demo_pub demo_pt)]"
        and pv = demo_view and node = "''n1''" and addr = "''addr''"] v demo_find
    by (auto simp: demo_ctx2_def demo_pub_def)
qed

theorem onRead_correct_witness:
  "\<exists>me'. onRead (\<lambda>k s. Inr (s @ [k], k = 1)) \<lparr> rrConsumers = [1, 2], rrOpen = True \<rparr> [] = Inr (me', [1, 2]) \<and> rrConsumers me' = [2]"
  using onRead_correct [of "\<lparr> rrConsumers = [1, 2], rrOpen = True \<rparr>" "\<lambda>k s. s @ [k]" "\<lambda>k. k = 1" "[]"]
  by (auto simp: reader_ok_def)

theorem duplicate_forwarding_witness:
  "\<exists>r2 rd2 p. onRead (feed demo_uuid_parse ''t'' [1, 2]) rd2 (r2, []) = Inr (rd2, r2, [p, p])"
proof -
  let ?rd = "\<lparr> rrConsumers = [], rrOpen = False \<rparr>"
  have s: "\<exists>r' rd'. PublishedTrack_SatifySelect demo_view False tp k demo_pt (r, rd) = Inr ((r', rd'), True)" for tp k r rd
    using demo_find by (simp add: PublishedTrack_SatifySelect_def) (simp add: demo_view_def)
  obtain r1 rd1 where 1: "PublishedTrack_SatifySelect demo_view False ''n2'' 0 demo_pt (NewRouter ''me'', ?rd) = Inr ((r1, rd1), True)"
    using s by blast
  obtain r2 rd2 where 2: "PublishedTrack_SatifySelect demo_view False ''n3'' 1 demo_pt (r1, rd1) = Inr ((r2, rd2), True)"
    using s by blast
  have g: "globalId (ptTrack demo_pt) = ''t''" by (simp add: demo_pt_def publishedTrack_def)
  from duplicate_forwarding [OF 1 2, where parse = demo_uuid_parse and uid = "replicate 16 7" and data = "[1, 2]"] g
  show ?thesis by (auto simp: demo_uuid_parse_def)
qed

end
