(* ===== verification/SampleBuilder.thy ===== *)
theory SampleBuilder
  imports Prelude "HOL-Library.Word"
begin

unbundle bit_operations_syntax

text \<open>
  The sample builder (\<open>pkg/samplebuilder/samplebuilder.go\<close>): a circular buffer that puts RTP packets
  into the order of their 16-bit sequence numbers and cuts complete frames out of it. Indices are
  natural numbers with the wrap-around of \<open>uint16\<close> written out where the code adds two of them;
  sequence numbers and timestamps are words. The depacketizer is a parameter with a state of its
  own; calls of the release handler are logged in \<open>sbReleased\<close>. A loop gets as much fuel as the array has
  slots; running out of it is the outcome \<open>OutOfFuel\<close>.
\<close>

section \<open>Data\<close>

record rtpPacket =
  SequenceNumber :: "16 word"
  rtpTimestamp :: "32 word"
  Marker :: bool
  Payload :: "8 word list"

text \<open>A slot; \<open>packet0\<close> is the zero value. \<open>pBuff\<close> is the pointer to the buffer of the packet.\<close>

record packet =
  pStart :: bool
  pEnd :: bool
  pPacket :: "rtpPacket option"
  pBuff :: nat

definition packet0 :: packet where
  "packet0 = \<lparr> pStart = False, pEnd = False, pPacket = None, pBuff = 0 \<rparr>"

record 'd Depacketizer =
  IsPartitionHead :: "'d \<Rightarrow> 8 word list \<Rightarrow> bool"
  IsPartitionTail :: "'d \<Rightarrow> bool \<Rightarrow> 8 word list \<Rightarrow> bool"
  Unmarshal :: "'d \<Rightarrow> 8 word list \<Rightarrow> 'd \<times> (go_err + 8 word list)"

record 'd SampleBuilder =
  packets :: "packet list"
  head :: nat
  tail :: nat
  maxLate :: "16 word"
  depacketizer :: "'d Depacketizer"
  dpState :: 'd
  hasHandler :: bool
  sbReleased :: "(rtpPacket \<times> nat) list"
  sampleRate :: "32 word"
  lastSeqnoValid :: bool
  lastSeqno :: "16 word"
  lastTimestampValid :: bool
  lastTimestamp :: "32 word"

record Sample =
  Data :: "8 word list"
  PacketTimestamp :: "32 word"
  Samples :: "32 word"

datatype failure = Panics go_panic | OutOfFuel

type_synonym 'a run = "failure + 'a"

definition u16 :: "nat \<Rightarrow> nat" where
  "u16 n = n mod 65536"

text \<open>Evaluation of \<open>uint16\<close> terms over binary integers.\<close>

lemma u16_code [code]: "u16 n = nat (int n mod 65536)"
  by (simp add: u16_def nat_mod_distrib)

definition sub16 :: "nat \<Rightarrow> nat \<Rightarrow> nat" where
  "sub16 a b = u16 (a + 65536 - b)"

lemma sub16_code [code]: "sub16 a b = (let d = int a + 65536 - int b in if d < 0 then 0 else nat (d mod 65536))"
  by (auto simp: sub16_def u16_def Let_def nat_mod_distrib nat_diff_distrib nat_add_distrib of_nat_diff zmod_int)

lemma sub16_unfold [code_unfold]: "u16 (a + 65536 - b) = sub16 a b" "u16 (a + 65536 - b + 1) = u16 (sub16 a b + 1)"
  by (simp_all add: sub16_def u16_def mod_simps)

text \<open>The test \<open>x & 0x8000 == 0\<close> on a difference of sequence numbers.\<close>

definition nonneg :: "16 word \<Rightarrow> bool" where
  "nonneg x \<longleftrightarrow> x AND 0x8000 = 0"

text \<open>\<open>New\<close>: the array has \<open>2*maxLate+1\<close> slots, computed in 16 bits.\<close>

definition New :: "16 word \<Rightarrow> 'd Depacketizer \<Rightarrow> 'd \<Rightarrow> 32 word \<Rightarrow> bool \<Rightarrow> 'd SampleBuilder" where
  "New late dp d rate handler =
     (let m1 = (if late < 2 then 2 else late); m = (if m1 > 0x7FFF then 0x7FFF else m1)
      in \<lparr> packets = replicate (unat (2 * m + 1)) packet0, head = 0, tail = 0, maxLate = m, depacketizer = dp, dpState = d,
           hasHandler = handler, sbReleased = [], sampleRate = rate, lastSeqnoValid = False, lastSeqno = 0,
           lastTimestampValid = False, lastTimestamp = 0 \<rparr>)"

section \<open>Indices\<close>

definition sbLen :: "'d SampleBuilder \<Rightarrow> nat" where
  "sbLen s = (if tail s \<le> head s then head s - tail s else u16 (u16 (head s + length (packets s)) + 65536 - tail s))"

definition cap :: "'d SampleBuilder \<Rightarrow> nat" where
  "cap s = length (packets s) - 1"

definition inc :: "'d SampleBuilder \<Rightarrow> nat \<Rightarrow> nat" where
  "inc s n = (if n < length (packets s) - 1 then n + 1 else 0)"

definition dec :: "'d SampleBuilder \<Rightarrow> nat \<Rightarrow> nat" where
  "dec s n = (if n > 0 then n - 1 else length (packets s) - 1)"

text \<open>A slot. The indices the code uses are in range in every reachable state; the access to one that
  is not would panic, as the use of the missing packet does here.\<close>

definition slot :: "'d SampleBuilder \<Rightarrow> nat \<Rightarrow> packet" where
  "slot s i = (if i < length (packets s) then packets s ! i else packet0)"

definition setSlot :: "nat \<Rightarrow> packet \<Rightarrow> 'd SampleBuilder \<Rightarrow> 'd SampleBuilder" where
  "setSlot i e s = s\<lparr> packets := (packets s)[i := e] \<rparr>"

definition isStart :: "'d SampleBuilder \<Rightarrow> rtpPacket \<Rightarrow> bool" where
  "isStart s p = IsPartitionHead (depacketizer s) (dpState s) (Payload p)"

definition isEnd :: "'d SampleBuilder \<Rightarrow> rtpPacket \<Rightarrow> bool" where
  "isEnd s p = IsPartitionTail (depacketizer s) (dpState s) (Marker p) (Payload p)"

definition packetAt :: "'d SampleBuilder \<Rightarrow> nat \<Rightarrow> rtpPacket run" where
  "packetAt s i = (case pPacket (slot s i) of None \<Rightarrow> Inl (Panics NilDeref) | Some p \<Rightarrow> Inr p)"

definition oldestPacket :: "'d SampleBuilder \<Rightarrow> rtpPacket run" where
  "oldestPacket s = packetAt s (tail s)"

definition callHandler :: "rtpPacket \<Rightarrow> nat \<Rightarrow> 'd SampleBuilder \<Rightarrow> 'd SampleBuilder" where
  "callHandler p buf s = (if hasHandler s then s\<lparr> sbReleased := sbReleased s @ [(p, buf)] \<rparr> else s)"

section \<open>Release and drop\<close>

fun skipMissing :: "nat \<Rightarrow> 'd SampleBuilder \<Rightarrow> 'd SampleBuilder run" where
  "skipMissing fuel s =
     (if tail s \<noteq> head s \<and> pPacket (slot s (tail s)) = None
      then (case fuel of 0 \<Rightarrow> Inl OutOfFuel | Suc n \<Rightarrow> skipMissing n (s\<lparr> tail := inc s (tail s) \<rparr>))
      else Inr s)"

declare skipMissing.simps [simp del]

definition release :: "'d SampleBuilder \<Rightarrow> ('d SampleBuilder \<times> bool) run" where
  "release s =
     (if head s = tail s then Inr (s, False)
      else bind_res (oldestPacket s) (\<lambda>p.
        let s1 = s\<lparr> lastSeqnoValid := True, lastSeqno := SequenceNumber p \<rparr>;
            s2 = callHandler p (pBuff (slot s1 (tail s1))) s1;
            s3 = setSlot (tail s2) packet0 s2;
            s4 = s3\<lparr> tail := inc s3 (tail s3) \<rparr>
        in bind_res (skipMissing (length (packets s4)) s4) (\<lambda>s5.
             Inr (if tail s5 = head s5 then s5\<lparr> head := 0, tail := 0 \<rparr> else s5, True))))"

fun releaseAllLoop :: "nat \<Rightarrow> 'd SampleBuilder \<Rightarrow> 'd SampleBuilder run" where
  "releaseAllLoop fuel s =
     (if tail s \<noteq> head s
      then (case fuel of
              0 \<Rightarrow> Inl OutOfFuel
            | Suc n \<Rightarrow> bind_res (release s) (\<lambda>(s', _). releaseAllLoop n s'))
      else Inr s)"

declare releaseAllLoop.simps [simp del]

definition releaseAll :: "'d SampleBuilder \<Rightarrow> 'd SampleBuilder run" where
  "releaseAll s = releaseAllLoop (length (packets s)) s"

fun dropLoop :: "nat \<Rightarrow> 32 word \<Rightarrow> 'd SampleBuilder \<Rightarrow> 'd SampleBuilder run" where
  "dropLoop fuel ts s =
     (if tail s \<noteq> head s
      then (if pStart (slot s (tail s)) then Inr s
            else bind_res (oldestPacket s) (\<lambda>p.
              if rtpTimestamp p \<noteq> ts then Inr s
              else (case fuel of
                      0 \<Rightarrow> Inl OutOfFuel
                    | Suc n \<Rightarrow> bind_res (release s) (\<lambda>(s', _). dropLoop n ts s'))))
      else Inr s)"

declare dropLoop.simps [simp del]

definition drop_frame :: "'d SampleBuilder \<Rightarrow> ('d SampleBuilder \<times> 32 word option) run" where
  "drop_frame s =
     (if tail s = head s then Inr (s, None)
      else bind_res (oldestPacket s) (\<lambda>p.
        let ts = rtpTimestamp p
        in bind_res (release s) (\<lambda>(s1, _).
           bind_res (dropLoop (length (packets s1)) ts s1) (\<lambda>s2.
             Inr (if \<not> lastTimestampValid s2 then s2\<lparr> lastTimestamp := ts, lastTimestampValid := True \<rparr> else s2, Some ts)))))"

section \<open>Push\<close>

text \<open>The check against the last sequence number; \<open>None\<close> is the return on a late packet.\<close>

definition pushLate :: "rtpPacket \<Rightarrow> 'd SampleBuilder \<Rightarrow> 'd SampleBuilder option run" where
  "pushLate p s =
     (if lastSeqnoValid s
      then (if nonneg (lastSeqno s - SequenceNumber p)
            then (if lastSeqno s - SequenceNumber p > maxLate s then Inr (Some (s\<lparr> lastSeqnoValid := False \<rparr>)) else Inr None)
            else (let last = SequenceNumber p - maxLate s
                  in if nonneg (last - lastSeqno s)
                     then bind_res (if head s \<noteq> tail s
                                    then bind_res (oldestPacket s) (\<lambda>o1.
                                           let seqno = SequenceNumber o1 - 1
                                           in Inr (if nonneg (last - seqno) then seqno else last))
                                    else Inr last) (\<lambda>last'. Inr (Some (s\<lparr> lastSeqno := last' \<rparr>)))
                     else Inr (Some s)))
      else Inr (Some s))"

definition newSlot :: "'d SampleBuilder \<Rightarrow> bool \<Rightarrow> bool \<Rightarrow> rtpPacket \<Rightarrow> nat \<Rightarrow> packet" where
  "newSlot s st en p buf = \<lparr> pStart = st, pEnd = en, pPacket = Some p, pBuff = buf \<rparr>"

definition pushEmpty :: "rtpPacket \<Rightarrow> nat \<Rightarrow> 'd SampleBuilder \<Rightarrow> 'd SampleBuilder" where
  "pushEmpty p buf s = (setSlot 0 (newSlot s (isStart s p) (isEnd s p) p buf) s)\<lparr> tail := 0, head := 1 \<rparr>"

definition setEnd :: "nat \<Rightarrow> 'd SampleBuilder \<Rightarrow> 'd SampleBuilder" where
  "setEnd i s = setSlot i ((slot s i)\<lparr> pEnd := True \<rparr>) s"

definition setStart :: "nat \<Rightarrow> 'd SampleBuilder \<Rightarrow> 'd SampleBuilder" where
  "setStart i s = setSlot i ((slot s i)\<lparr> pStart := True \<rparr>) s"

text \<open>The packet after the newest one; \<open>newest\<close> is computed before a frame is dropped.\<close>

definition putSequential :: "nat \<Rightarrow> rtpPacket \<Rightarrow> nat \<Rightarrow> 'd SampleBuilder \<Rightarrow> 'd SampleBuilder run" where
  "putSequential newest p buf s =
     bind_res (if tail s \<noteq> head s
               then (if pEnd (slot s newest) then Inr True
                     else bind_res (packetAt s newest) (\<lambda>q. Inr (rtpTimestamp q \<noteq> rtpTimestamp p \<or> isStart s p)))
               else Inr (isStart s p)) (\<lambda>st.
       let s1 = (if tail s \<noteq> head s \<and> st then setEnd newest s else s);
           s2 = setSlot (head s1) (newSlot s1 st (isEnd s1 p) p buf) s1
       in Inr (s2\<lparr> head := inc s2 (head s2) \<rparr>))"

definition pushSequential :: "nat \<Rightarrow> rtpPacket \<Rightarrow> nat \<Rightarrow> 'd SampleBuilder \<Rightarrow> 'd SampleBuilder run" where
  "pushSequential newest p buf s =
     (if tail s = inc s (head s)
      then bind_res (drop_frame s) (\<lambda>(s1, dropped).
             if dropped = Some (rtpTimestamp p)
             then (if tail s1 \<noteq> head s1 then Inl (Panics (ErrorPanic (PlainError ''this is impossible'')))
                   else Inr (callHandler p buf s1))
             else putSequential newest p buf s1)
      else putSequential newest p buf s)"

text \<open>The loop that makes room; \<open>None\<close> is the return when nothing could be dropped.\<close>

fun makeRoom :: "nat \<Rightarrow> nat \<Rightarrow> 'd SampleBuilder \<Rightarrow> ('d SampleBuilder \<times> bool) run" where
  "makeRoom fuel cnt s =
     (if u16 (sbLen s + cnt) > cap s
      then (case fuel of
              0 \<Rightarrow> Inl OutOfFuel
            | Suc n \<Rightarrow> bind_res (drop_frame s) (\<lambda>(s', dropped). if dropped = None then Inr (s', False) else makeRoom n cnt s'))
      else Inr (s, True))"

declare makeRoom.simps [simp del]

definition putFuture :: "nat \<Rightarrow> rtpPacket \<Rightarrow> nat \<Rightarrow> 'd SampleBuilder \<Rightarrow> 'd SampleBuilder" where
  "putFuture offset p buf s =
     (if tail s = head s then pushEmpty p buf s
      else (let index = u16 (head s + offset) mod length (packets s);
                s1 = setSlot index (newSlot s (isStart s p) (isEnd s p) p buf) s
            in s1\<lparr> head := inc s1 index \<rparr>))"

text \<open>A packet before the newest one: \<open>offset\<close> is its distance from the head.\<close>

definition extendTail :: "nat \<Rightarrow> 'd SampleBuilder \<Rightarrow> 'd SampleBuilder" where
  "extendTail index s =
     (if tail s < head s
      then (if index < tail s \<or> index > head s then s\<lparr> tail := index \<rparr> else s)
      else (if index < tail s \<and> index > head s then s\<lparr> tail := index \<rparr> else s))"

definition linkPrev :: "nat \<Rightarrow> rtpPacket \<Rightarrow> 'd SampleBuilder \<Rightarrow> 'd SampleBuilder \<times> bool" where
  "linkPrev index p s =
     (let start = isStart s p; prev = dec s index
      in if index \<noteq> tail s
         then (case pPacket (slot s prev) of
                 None \<Rightarrow> (s, start)
               | Some q \<Rightarrow>
                   (let start1 = (start \<or> rtpTimestamp q \<noteq> rtpTimestamp p)
                    in if \<not> start1 then (s, pEnd (slot s prev)) else (setEnd prev s, start1)))
         else (s, start))"

definition linkNext :: "nat \<Rightarrow> rtpPacket \<Rightarrow> 'd SampleBuilder \<Rightarrow> 'd SampleBuilder \<times> bool" where
  "linkNext index p s =
     (let en = isEnd s p; nxt = inc s index
      in case pPacket (slot s nxt) of
           None \<Rightarrow> (s, en)
         | Some q \<Rightarrow>
             (let end1 = (en \<or> rtpTimestamp q \<noteq> rtpTimestamp p)
              in if \<not> end1 then (s, pStart (slot s nxt)) else (setStart nxt s, end1)))"

definition pushPast :: "nat \<Rightarrow> rtpPacket \<Rightarrow> nat \<Rightarrow> 'd SampleBuilder \<Rightarrow> 'd SampleBuilder" where
  "pushPast offset p buf s =
     (if offset \<ge> cap s then callHandler p buf s
      else
        (let index = (if head s \<ge> offset then head s - offset else u16 (u16 (head s + length (packets s)) + 65536 - offset));
             s1 = extendTail index s
         in if pPacket (slot s1 index) \<noteq> None then callHandler p buf s1
            else
              (let (s2, st) = linkPrev index p s1; (s3, en) = linkNext index p s2
               in setSlot index (newSlot s3 st en p buf) s3)))"

fun pushFuel :: "nat \<Rightarrow> rtpPacket \<Rightarrow> nat \<Rightarrow> 'd SampleBuilder \<Rightarrow> 'd SampleBuilder run" where
  "pushFuel fuel p buf s0 =
     bind_res (pushLate p s0) (\<lambda>r.
       case r of
         None \<Rightarrow> Inr s0
       | Some s \<Rightarrow>
           if head s = tail s then Inr (pushEmpty p buf s)
           else
             (let newest = dec s (head s)
              in bind_res (packetAt s newest) (\<lambda>q.
                   let seqno = SequenceNumber p; newestSeqno = SequenceNumber q
                   in if seqno = newestSeqno then Inr (callHandler p buf s)
                      else if seqno = newestSeqno + 1 then pushSequential newest p buf s
                      else if nonneg (seqno - newestSeqno)
                      then
                        (let offset = unat (seqno - newestSeqno - 1); cnt = u16 (offset + 1)
                         in if cnt > cap s
                            then (case fuel of
                                    0 \<Rightarrow> Inl OutOfFuel
                                  | Suc n \<Rightarrow> bind_res (releaseAll s) (\<lambda>s1. pushFuel n p buf s1))
                            else bind_res (makeRoom (length (packets s)) cnt s) (\<lambda>(s1, ok).
                                   Inr (if ok then putFuture offset p buf s1 else callHandler p buf s1)))
                      else Inr (pushPast (unat (newestSeqno - seqno + 1)) p buf s))))"

declare pushFuel.simps [simp del]

definition Push :: "rtpPacket \<Rightarrow> nat \<Rightarrow> 'd SampleBuilder \<Rightarrow> 'd SampleBuilder run" where
  "Push p buf s = pushFuel 1 p buf s"

section \<open>Pop\<close>

text \<open>The search for the end of the frame at the tail: its index, or the head, or the first missing packet.\<close>

datatype endSearch = EndAt nat | NoEnd | MissingAt nat

fun findEnd :: "nat \<Rightarrow> 'd SampleBuilder \<Rightarrow> nat \<Rightarrow> endSearch run" where
  "findEnd fuel s lst =
     (if lst \<noteq> head s \<and> \<not> pEnd (slot s lst)
      then (if pPacket (slot s lst) = None then Inr (MissingAt lst)
            else (case fuel of 0 \<Rightarrow> Inl OutOfFuel | Suc n \<Rightarrow> findEnd n s (inc s lst)))
      else Inr (if lst = head s then NoEnd else EndAt lst))"

declare findEnd.simps [simp del]

text \<open>The loop that takes \<open>count\<close> packets out; \<open>None\<close> is the return on an error of the depacketizer.\<close>

fun takeFrame :: "nat \<Rightarrow> 8 word list \<Rightarrow> 'd SampleBuilder \<Rightarrow> ('d SampleBuilder \<times> 8 word list option) run" where
  "takeFrame 0 data s = Inr (s, Some data)"
| "takeFrame (Suc n) data s =
     bind_res (packetAt s (tail s)) (\<lambda>p.
       let (d', r) = Unmarshal (depacketizer s) (dpState s) (Payload p)
       in bind_res (release (s\<lparr> dpState := d' \<rparr>)) (\<lambda>(s', _).
            case r of Inl _ \<Rightarrow> Inr (s', None) | Inr buf \<Rightarrow> takeFrame n (data @ buf) s'))"

definition frameCount :: "'d SampleBuilder \<Rightarrow> nat \<Rightarrow> nat" where
  "frameCount s lst =
     (if lst < tail s then u16 (u16 (cap s + lst) + 65536 - tail s + 1) else u16 (lst + 65536 - tail s + 1))"

definition popFrame :: "nat \<Rightarrow> 32 word \<Rightarrow> 'd SampleBuilder \<Rightarrow> ('d SampleBuilder \<times> Sample option) run" where
  "popFrame lst ts s =
     bind_res (takeFrame (frameCount s lst) [] s) (\<lambda>(s1, r).
       case r of
         None \<Rightarrow> Inr (s1, None)
       | Some data \<Rightarrow>
           Inr (s1\<lparr> lastTimestampValid := True, lastTimestamp := ts \<rparr>,
                Some \<lparr> Data = data, PacketTimestamp = ts,
                       Samples = (if lastTimestampValid s1 then ts - lastTimestamp s1 else 0) \<rparr>))"

fun popFuel :: "nat \<Rightarrow> bool \<Rightarrow> 'd SampleBuilder \<Rightarrow> ('d SampleBuilder \<times> Sample option) run" where
  "popFuel fuel force s =
     (if tail s = head s then Inr (s, None)
      else
        (let again = (case fuel of 0 \<Rightarrow> Inl OutOfFuel | Suc n \<Rightarrow> bind_res (drop_frame s) (\<lambda>(s', _). popFuel n force s'))
         in if \<not> pStart (slot s (tail s))
            then bind_res (packetAt s (dec s (head s))) (\<lambda>q.
                 bind_res (oldestPacket s) (\<lambda>o1.
                   if force \<or> SequenceNumber q - SequenceNumber o1 > maxLate s then again else Inr (s, None)))
            else bind_res (oldestPacket s) (\<lambda>o1.
                   if \<not> force \<and> lastSeqnoValid s \<and> lastSeqno s + 1 \<noteq> SequenceNumber o1 then Inr (s, None)
                   else bind_res (findEnd (length (packets s)) s (tail s)) (\<lambda>r.
                          case r of
                            MissingAt _ \<Rightarrow> if force then again else Inr (s, None)
                          | NoEnd \<Rightarrow> Inr (s, None)
                          | EndAt lst \<Rightarrow> popFrame lst (rtpTimestamp o1) s))))"

declare popFuel.simps [simp del]

definition pop :: "bool \<Rightarrow> 'd SampleBuilder \<Rightarrow> ('d SampleBuilder \<times> Sample option) run" where
  "pop force s = popFuel (length (packets s)) force s"

definition Pop :: "'d SampleBuilder \<Rightarrow> ('d SampleBuilder \<times> Sample option) run" where
  "Pop s = pop False s"

definition ForcePop :: "'d SampleBuilder \<Rightarrow> ('d SampleBuilder \<times> Sample option) run" where
  "ForcePop s = pop True s"

definition Close :: "'d SampleBuilder \<Rightarrow> 'd SampleBuilder run" where
  "Close s = releaseAll s"

section \<open>The check of the code\<close>

text \<open>\<open>check\<close>, which the code offers for tests: each violated invariant is a panic.\<close>

definition fails :: "string \<Rightarrow> 'a run" where
  "fails msg = Inl (Panics (ValuePanic msg))"

definition checkSlot :: "'d SampleBuilder \<Rightarrow> 16 word \<Rightarrow> nat \<Rightarrow> unit \<Rightarrow> unit run" where
  "checkSlot s tailSeqno i u =
     (let index = u16 (tail s + i) mod length (packets s); e = slot s index
      in case pPacket e of
           None \<Rightarrow> Inr ()
         | Some p \<Rightarrow>
             if SequenceNumber p \<noteq> tailSeqno + of_nat i then fails ''wrong seqno''
             else if index \<noteq> tail s \<and> \<not> pStart e \<and>
                     (case pPacket (slot s (dec s index)) of None \<Rightarrow> False | Some q \<Rightarrow> rtpTimestamp q \<noteq> rtpTimestamp p)
             then fails ''start is not set''
             else if index \<noteq> dec s (head s) \<and> \<not> pEnd e \<and>
                     (case pPacket (slot s (inc s index)) of None \<Rightarrow> False | Some q \<Rightarrow> rtpTimestamp q \<noteq> rtpTimestamp p)
             then fails ''end is not set''
             else Inr ())"

fun checkOutside :: "nat \<Rightarrow> 'd SampleBuilder \<Rightarrow> nat \<Rightarrow> unit run" where
  "checkOutside fuel s i =
     (if i \<noteq> tail s
      then (if pPacket (slot s i) \<noteq> None then fails ''packet is set''
            else (case fuel of 0 \<Rightarrow> Inl OutOfFuel | Suc n \<Rightarrow> checkOutside n s (inc s i)))
      else Inr ())"

declare checkOutside.simps [simp del]

definition check :: "'d SampleBuilder \<Rightarrow> unit run" where
  "check s =
     (if head s = tail s then Inr ()
      else if pPacket (slot s (tail s)) = None then fails ''tail is missing''
      else if pPacket (slot s (dec s (head s))) = None then fails ''head is missing''
      else bind_res (oldestPacket s) (\<lambda>o1.
        let diff = SequenceNumber o1 - lastSeqno s
        in if lastSeqnoValid s \<and> (diff = 0 \<or> \<not> nonneg diff) then fails ''lastSeqno is after tail''
           else bind_res (fold_res (checkSlot s (SequenceNumber o1)) [0..<sbLen s] ()) (\<lambda>_.
                checkOutside (length (packets s)) s (head s))))"

end
