(* ===== verification/SampleWindow.thy ===== *)
theory SampleWindow
  imports SampleBuilder "HOL-Library.Multiset"
begin

text \<open>
  Properties of the sample builder. The circular array is seen as a window: the list of the slots from
  the tail to the head. Every operation is described by its effect on the window; the invariant of the
  window is the one the code states in \<open>check\<close>.
\<close>

section \<open>The window\<close>

definition winAt :: "'d SampleBuilder \<Rightarrow> nat \<Rightarrow> packet" where
  "winAt s i = packets s ! ((tail s + i) mod length (packets s))"

definition win :: "'d SampleBuilder \<Rightarrow> packet list" where
  "win s = map (winAt s) [0..<sbLen s]"

definition geo :: "'d SampleBuilder \<Rightarrow> bool" where
  "geo s \<longleftrightarrow> length (packets s) = 2 * unat (maxLate s) + 1 \<and> 2 \<le> unat (maxLate s) \<and> unat (maxLate s) \<le> 10922 \<and>
     head s < length (packets s) \<and> tail s < length (packets s) \<and>
     (\<forall>i < length (packets s). sbLen s \<le> i \<longrightarrow> winAt s i = packet0)"

lemma geoD:
  assumes "geo s"
  shows "5 \<le> length (packets s)" "length (packets s) \<le> 32767" "head s < length (packets s)" "tail s < length (packets s)"
    "length (packets s) = 2 * unat (maxLate s) + 1" "i < length (packets s) \<Longrightarrow> sbLen s \<le> i \<Longrightarrow> winAt s i = packet0"
    "2 \<le> unat (maxLate s)" "unat (maxLate s) \<le> 10922"
  using assms by (auto simp: geo_def)

lemma sbLen_eq:
  assumes "head s < length (packets s)" "tail s < length (packets s)" "length (packets s) \<le> 32767"
  shows "sbLen s = (if tail s \<le> head s then head s - tail s else head s + length (packets s) - tail s)"
proof (cases "tail s \<le> head s")
  case False
  have w: "u16 n = n" "u16 (n + 65536) = n" if "n < 65536" for n using that by (simp_all add: u16_def)
  have e: "head s + length (packets s) + 65536 - tail s = (head s + length (packets s) - tail s) + 65536" using assms by linarith
  have l: "head s + length (packets s) < 65536" "head s + length (packets s) - tail s < 65536" using assms by linarith+
  show ?thesis using False unfolding sbLen_def w(1) [OF l(1)] e w(2) [OF l(2)] by simp
qed (simp add: sbLen_def)

lemma geo_sbLen:
  assumes "geo s"
  shows "sbLen s < length (packets s)" "head s = (tail s + sbLen s) mod length (packets s)" "sbLen s = 0 \<longleftrightarrow> head s = tail s"
  using sbLen_eq [OF geoD(3) [OF assms] geoD(4) [OF assms] geoD(2) [OF assms]] geoD(3,4) [OF assms]
  by (auto simp: mod_if)

lemma length_win [simp]: "length (win s) = sbLen s"
  by (simp add: win_def)

lemma win_nth [simp]: "i < sbLen s \<Longrightarrow> win s ! i = winAt s i"
  by (simp add: win_def)

lemma win_empty: "geo s \<Longrightarrow> win s = [] \<longleftrightarrow> head s = tail s"
  using geo_sbLen(3) [of s] by (metis length_0_conv length_win)

lemma win_Nil: "win s = [] \<longleftrightarrow> sbLen s = 0"
  by (metis length_0_conv length_win)

lemma mod_index_inj: "(t + i) mod n = (t + j) mod n \<Longrightarrow> t < n \<Longrightarrow> i < n \<Longrightarrow> j < n \<Longrightarrow> i = (j :: nat)"
  by (auto simp: mod_if split: if_splits)

lemma mod_twice: "x < 2 * n \<Longrightarrow> x mod n = (if x < n then x else x - n)" for x n :: nat
  by (cases "x < n") (simp_all add: le_mod_geq)

lemma mod_round: "(x + n + y) mod n = (x + y) mod n" "(x + (n + y)) mod n = (x + y) mod n" for x n y :: nat
  by (metis add.assoc add.commute mod_add_self2)+

lemma suc_mod: "n < m \<Longrightarrow> (if n < m - 1 then n + 1 else 0) = Suc n mod m"
  by (cases "Suc n = m") auto

lemma pred_mod:
  assumes "h < n" "t < n" "l = (if t \<le> h then h - t else h + n - t)" "0 < l"
  shows "(if h > 0 then h - 1 else n - 1) = (t + (l - 1)) mod (n :: nat)"
proof (cases "t \<le> h")
  case True
  then have "t + (l - 1) = h - 1" "0 < h" using assms by auto
  then show ?thesis using assms(1) by simp
next
  case False
  then have e: "t + (l - 1) = h + n - 1" using assms by auto
  show ?thesis
  proof (cases h)
    case 0
    then show ?thesis using e assms(1) by simp
  next
    case (Suc k)
    then show ?thesis using e assms(1) by simp
  qed
qed

lemma inc_mod: "n < length (packets s) \<Longrightarrow> inc s n = Suc n mod length (packets s)"
  unfolding inc_def by (rule suc_mod)

lemma geo_mod: "geo s \<Longrightarrow> i mod length (packets s) < length (packets s)"
  using geoD(1) [of s] by (intro mod_less_divisor) linarith

lemma inc_win: "geo s \<Longrightarrow> inc s ((tail s + i) mod length (packets s)) = (tail s + Suc i) mod length (packets s)"
  by (simp only: inc_mod [OF geo_mod] mod_Suc_eq add_Suc_right)

lemma slot_win: "geo s \<Longrightarrow> slot s ((tail s + i) mod length (packets s)) = winAt s i"
  by (simp only: slot_def winAt_def geo_mod if_True)

lemma slot_tail: "geo s \<Longrightarrow> slot s (tail s) = winAt s 0"
  using geoD(4) [of s] by (simp add: slot_def winAt_def)

lemma dec_head: "geo s \<Longrightarrow> 0 < sbLen s \<Longrightarrow> dec s (head s) = (tail s + (sbLen s - 1)) mod length (packets s)"
  unfolding dec_def by (rule pred_mod) (use geoD(2-4) [of s] sbLen_eq [of s] in auto)

lemma slot_newest: "geo s \<Longrightarrow> 0 < sbLen s \<Longrightarrow> slot s (dec s (head s)) = winAt s (sbLen s - 1)"
  by (simp only: dec_head slot_win)

lemma win_hd: "0 < sbLen s \<Longrightarrow> hd (win s) = winAt s 0"
  by (simp add: hd_conv_nth flip: length_0_conv)

lemma win_last: "0 < sbLen s \<Longrightarrow> List.last (win s) = winAt s (sbLen s - 1)"
  by (simp add: last_conv_nth flip: length_0_conv)

text \<open>Writing a slot.\<close>

lemma setSlot_simps [simp]:
  "length (packets (setSlot i e s)) = length (packets s)" "head (setSlot i e s) = head s" "tail (setSlot i e s) = tail s"
  "maxLate (setSlot i e s) = maxLate s" "depacketizer (setSlot i e s) = depacketizer s" "dpState (setSlot i e s) = dpState s"
  "hasHandler (setSlot i e s) = hasHandler s" "sbReleased (setSlot i e s) = sbReleased s" "lastSeqnoValid (setSlot i e s) = lastSeqnoValid s"
  "lastSeqno (setSlot i e s) = lastSeqno s" "lastTimestampValid (setSlot i e s) = lastTimestampValid s"
  "lastTimestamp (setSlot i e s) = lastTimestamp s" "sampleRate (setSlot i e s) = sampleRate s"
  "sbLen (setSlot i e s) = sbLen s" "inc (setSlot i e s) = inc s" "dec (setSlot i e s) = dec s" "cap (setSlot i e s) = cap s"
  by (simp_all add: setSlot_def sbLen_def inc_def dec_def cap_def fun_eq_iff)

lemma winAt_setSlot:
  assumes "geo s" "i < length (packets s)" "j < length (packets s)"
  shows "winAt (setSlot ((tail s + j) mod length (packets s)) e s) i = (if i = j then e else winAt s i)"
proof -
  have "(tail s + j) mod length (packets s) < length (packets s)" by (rule geo_mod [OF assms(1)])
  then show ?thesis
    using mod_index_inj [OF _ geoD(4) [OF assms(1)] assms(2,3)] by (auto simp: winAt_def setSlot_def nth_list_update)
qed

lemma geo_setSlot: "geo s \<Longrightarrow> j < sbLen s \<Longrightarrow> geo (setSlot ((tail s + j) mod length (packets s)) e s)"
  using geo_sbLen(1) [of s] winAt_setSlot [of s _ j e] unfolding geo_def setSlot_simps by simp

lemma win_setSlot: "geo s \<Longrightarrow> j < sbLen s \<Longrightarrow> win (setSlot ((tail s + j) mod length (packets s)) e s) = (win s)[j := e]"
  using geo_sbLen(1) [of s] by (intro nth_equalityI) (auto simp: winAt_setSlot nth_list_update win_def)

text \<open>Dropping the slot at the tail, when it is empty.\<close>

lemma advance:
  assumes "geo s" "0 < sbLen s" "winAt s 0 = packet0" "s' = s\<lparr> tail := inc s (tail s) \<rparr>"
  shows "geo s'" "sbLen s' = sbLen s - 1" "win s' = tl (win s)"
proof -
  let ?n = "length (packets s)"
  note g = geoD(1-4) [OF assms(1)]
  have t: "tail s' = Suc (tail s) mod ?n" "tail s' < ?n" and f: "head s' = head s" "packets s' = packets s" "maxLate s' = maxLate s"
    using inc_mod [OF g(4)] geo_mod [OF assms(1)] assms(4) by simp_all
  have le: "sbLen s = (if tail s \<le> head s then head s - tail s else head s + ?n - tail s)"
    using sbLen_eq g by blast
  have le': "sbLen s' = (if tail s' \<le> head s then head s - tail s' else head s + ?n - tail s')"
    using sbLen_eq [of s'] g t(2) by (simp add: f)
  show l: "sbLen s' = sbLen s - 1"
  proof -
    have "tail s' = (if Suc (tail s) = ?n then 0 else Suc (tail s))" using t(1) g(4) by simp
    then show ?thesis using assms(2) g(3,4) unfolding le le' by auto
  qed
  have w: "winAt s' i = winAt s (Suc i)" for i
    using t(1) by (simp add: winAt_def f mod_add_left_eq)
  have z: "winAt s ?n = winAt s 0" by (simp add: winAt_def)
  have "winAt s' i = packet0" if "i < ?n" "sbLen s' \<le> i" for i
  proof (cases "Suc i = ?n")
    case True
    then show ?thesis using z assms(3) w [of i] by simp
  next
    case False
    then show ?thesis using that geoD(6) [OF assms(1), of "Suc i"] assms(2) l w [of i] by simp
  qed
  then show "geo s'" using assms(1) t(2) by (simp add: geo_def f)
  show "win s' = tl (win s)" by (rule nth_equalityI) (simp_all add: l w win_def nth_tl)
qed

text \<open>Putting a packet behind the window, with empty slots before it.\<close>

lemma grow:
  assumes "geo s" "sbLen s \<le> j" "j + 1 < length (packets s)"
    and "s' = (setSlot ((tail s + j) mod length (packets s)) e s)\<lparr> head := (tail s + Suc j) mod length (packets s) \<rparr>"
  shows "geo s'" "sbLen s' = Suc j" "win s' = win s @ replicate (j - sbLen s) packet0 @ [e]"
proof -
  let ?n = "length (packets s)"
  note g = geoD(1-4) [OF assms(1)]
  have f: "head s' = (tail s + Suc j) mod ?n" "tail s' = tail s" "maxLate s' = maxLate s" "length (packets s') = ?n"
    using assms(4) by simp_all
  have h: "head s' < ?n" unfolding f by (rule geo_mod [OF assms(1)])
  have m: "(tail s + Suc j) mod ?n = (if tail s + Suc j < ?n then tail s + Suc j else tail s + Suc j - ?n)"
    by (rule mod_twice) (use g(4) assms(3) in linarith)
  have "sbLen s' = (if tail s' \<le> head s' then head s' - tail s' else head s' + ?n - tail s')"
    using sbLen_eq [of s'] g h unfolding f by blast
  then show l: "sbLen s' = Suc j" unfolding f m using assms(3) g(4) by auto
  have w: "winAt s' i = (if i = j then e else winAt s i)" if "i < ?n" for i
    using winAt_setSlot [OF assms(1) that, of j e] assms(3) by (simp add: assms(4) winAt_def)
  have "winAt s' i = packet0" if "i < ?n" "sbLen s' \<le> i" for i
    using that geoD(6) [OF assms(1), of i] assms(2) l w [of i] by simp
  then show "geo s'" using assms(1) h by (simp add: geo_def f)
  show "win s' = win s @ replicate (j - sbLen s) packet0 @ [e]"
  proof (rule nth_equalityI)
    show "length (win s') = length (win s @ replicate (j - sbLen s) packet0 @ [e])" using l assms(2) by simp
    fix i assume "i < length (win s')"
    then have i: "i \<le> j" "i < ?n" using l assms(3) by simp_all
    show "win s' ! i = (win s @ replicate (j - sbLen s) packet0 @ [e]) ! i"
      using i w [OF i(2)] l assms(2) geoD(6) [OF assms(1) i(2)] by (auto simp: nth_append)
  qed
qed

text \<open>Moving the tail back over empty slots.\<close>

lemma growBack:
  assumes "geo s" "sbLen s + k < length (packets s)" "0 < sbLen s"
    and "s' = s\<lparr> tail := (tail s + length (packets s) - k) mod length (packets s) \<rparr>"
  shows "geo s'" "sbLen s' = sbLen s + k" "win s' = replicate k packet0 @ win s"
    "i < length (packets s) \<Longrightarrow> (tail s' + (k + i)) mod length (packets s) = (tail s + i) mod length (packets s)"
proof -
  let ?n = "length (packets s)"
  note g = geoD(1-4) [OF assms(1)]
  have f: "head s' = head s" "maxLate s' = maxLate s" "packets s' = packets s" using assms(4) by simp_all
  have t: "tail s' < ?n" unfolding assms(4) using geo_mod [OF assms(1)] by simp
  have m: "tail s' = (if k \<le> tail s then tail s - k else tail s + ?n - k)"
  proof -
    have "(tail s + ?n - k) mod ?n = (if tail s + ?n - k < ?n then tail s + ?n - k else tail s + ?n - k - ?n)"
      by (rule mod_twice) (use g(4) in linarith)
    then show ?thesis using assms(2,4) by auto
  qed
  have "sbLen s' = (if tail s' \<le> head s then head s - tail s' else head s + ?n - tail s')"
    using sbLen_eq [of s'] g t unfolding f by simp
  moreover have "sbLen s = (if tail s \<le> head s then head s - tail s else head s + ?n - tail s)" using sbLen_eq g by blast
  ultimately show l: "sbLen s' = sbLen s + k" using assms(2,3) g(3,4) unfolding m by (auto split: if_splits)
  have x: "(tail s' + (k + i)) mod ?n = (tail s + i) mod ?n" for i
    unfolding m using assms(2) by (auto simp: mod_round)
  then show "i < ?n \<Longrightarrow> (tail s' + (k + i)) mod ?n = (tail s + i) mod ?n" .
  have w: "winAt s' (k + i) = winAt s i" for i using x [of i] by (simp add: winAt_def f)
  have b: "winAt s' i = packet0" if "i < k" for i
  proof -
    have "winAt s' i = winAt s (?n - k + i)"
      using w [of "?n - k + i"] assms(2) by (simp add: winAt_def f mod_round)
    then show ?thesis using that assms(2) geoD(6) [OF assms(1), of "?n - k + i"] by simp
  qed
  have "winAt s' i = packet0" if "i < ?n" "sbLen s' \<le> i" for i
  proof -
    have "winAt s' (k + (i - k)) = packet0" unfolding w using that l by (intro geoD(6) [OF assms(1)]) simp_all
    then show ?thesis using that l by simp
  qed
  then show "geo s'" using assms(1) t by (simp add: geo_def f)
  show "win s' = replicate k packet0 @ win s"
  proof (rule nth_equalityI)
    show "length (win s') = length (replicate k packet0 @ win s)" using l by simp
    fix i assume "i < length (win s')"
    then show "win s' ! i = (replicate k packet0 @ win s) ! i"
      using l b [of i] w [of "i - k"] by (cases "i < k") (auto simp: nth_append)
  qed
qed

text \<open>An empty window may be anywhere.\<close>

lemma empty_slots:
  assumes "geo s" "head s = tail s" "j < length (packets s)"
  shows "packets s ! j = packet0"
proof -
  have "winAt s ((j + length (packets s) - tail s) mod length (packets s)) = packet0"
    using geoD(6) [OF assms(1) geo_mod [OF assms(1)]] geo_sbLen(3) [OF assms(1)] assms(2) by simp
  moreover have "(tail s + (j + length (packets s) - tail s) mod length (packets s)) mod length (packets s) = j"
    using geoD(4) [OF assms(1)] assms(3) by (simp add: mod_add_right_eq)
  ultimately show ?thesis by (simp add: winAt_def)
qed

lemma reset:
  assumes "geo s" "head s = tail s" "s' = s\<lparr> head := 0, tail := 0 \<rparr>"
  shows "geo s'" "win s' = []"
proof -
  have l: "sbLen s' = 0" using assms(3) by (simp add: sbLen_def)
  have "winAt s' i = packet0" if "i < length (packets s)" for i
    using empty_slots [OF assms(1,2) that] that assms(3) by (simp add: winAt_def)
  then show "geo s'" using assms(1,3) geoD(1) [OF assms(1)] by (auto simp: geo_def)
  show "win s' = []" by (simp add: win_def l)
qed

section \<open>The invariant of the window\<close>

definition present :: "packet \<Rightarrow> bool" where
  "present e \<longleftrightarrow> pPacket e \<noteq> None"

definition seqOf :: "packet \<Rightarrow> 16 word" where
  "seqOf e = SequenceNumber (the (pPacket e))"

definition tsOf :: "packet \<Rightarrow> 32 word" where
  "tsOf e = rtpTimestamp (the (pPacket e))"

definition flags_ok :: "packet \<Rightarrow> packet \<Rightarrow> bool" where
  "flags_ok e e' \<longleftrightarrow> (present e \<longrightarrow> present e' \<longrightarrow> tsOf e \<noteq> tsOf e' \<longrightarrow> pEnd e \<and> pStart e')"

definition frames_ok :: "packet list \<Rightarrow> bool" where
  "frames_ok w \<longleftrightarrow>
     (w \<noteq> [] \<longrightarrow> present (hd w) \<and> present (List.last w)) \<and> (\<forall>e \<in> set w. \<not> present e \<longrightarrow> e = packet0) \<and>
     (\<forall>i < length w. present (w ! i) \<longrightarrow> seqOf (w ! i) = seqOf (hd w) + of_nat i) \<and>
     (\<forall>i. Suc i < length w \<longrightarrow> flags_ok (w ! i) (w ! Suc i))"

lemma frames_okD:
  assumes "frames_ok w"
  shows "w \<noteq> [] \<Longrightarrow> present (hd w)" "w \<noteq> [] \<Longrightarrow> present (List.last w)" "e \<in> set w \<Longrightarrow> \<not> present e \<Longrightarrow> e = packet0"
    "i < length w \<Longrightarrow> present (w ! i) \<Longrightarrow> seqOf (w ! i) = seqOf (hd w) + of_nat i"
    "Suc i < length w \<Longrightarrow> flags_ok (w ! i) (w ! Suc i)"
  using assms by (auto simp: frames_ok_def)

lemma frames_ok_Nil [simp]: "frames_ok []"
  by (simp add: frames_ok_def)

lemma frames_ok_drop:
  assumes "frames_ok w" "drop k w \<noteq> [] \<Longrightarrow> present (hd (drop k w))"
  shows "frames_ok (drop k w)"
proof (cases "k < length w")
  case True
  have h: "hd (drop k w) = w ! k" using True by (simp add: hd_drop_conv_nth)
  have "seqOf (drop k w ! i) = seqOf (hd (drop k w)) + of_nat i" if "i < length (drop k w)" "present (drop k w ! i)" for i
    using that True frames_okD(4) [OF assms(1), of k] frames_okD(4) [OF assms(1), of "k + i"] assms(2) h by simp
  moreover have "flags_ok (drop k w ! i) (drop k w ! Suc i)" if "Suc i < length (drop k w)" for i
    using that True frames_okD(5) [OF assms(1), of "k + i"] by simp
  moreover have "present (List.last (drop k w))" using True frames_okD(2) [OF assms(1)] by (cases "w = []") auto
  ultimately show ?thesis using assms(2) frames_okD(3) [OF assms(1)] True
    unfolding frames_ok_def by (auto dest: in_set_dropD)
qed simp

lemma frames_ok_skip:
  assumes "frames_ok w"
  shows "frames_ok (dropWhile (\<lambda>e. \<not> present e) (drop k w))"
  unfolding dropWhile_eq_drop drop_drop
  by (rule frames_ok_drop [OF assms]) (metis drop_drop dropWhile_eq_drop hd_dropWhile)

section \<open>Release\<close>

lemma skipMissing_win:
  assumes "geo s" "\<forall>e \<in> set (win s). \<not> present e \<longrightarrow> e = packet0" "sbLen s \<le> fuel"
  shows "\<exists>t. skipMissing fuel s = Inr (s\<lparr> tail := t \<rparr>) \<and> geo (s\<lparr> tail := t \<rparr>) \<and>
    win (s\<lparr> tail := t \<rparr>) = dropWhile (\<lambda>e. \<not> present e) (win s)"
  using assms
proof (induction fuel arbitrary: s)
  case 0
  then have "head s = tail s" "win s = []" using geo_sbLen(3) [of s] win_empty [of s] by simp_all
  then show ?case using 0 by (intro exI [of _ "tail s"]) (simp add: skipMissing.simps)
next
  case (Suc n)
  show ?case
  proof (cases "tail s \<noteq> head s \<and> \<not> present (winAt s 0)")
    case True
    let ?s = "s\<lparr> tail := inc s (tail s) \<rparr>"
    have l: "0 < sbLen s" using geo_sbLen(3) [OF Suc.prems(1)] True by auto
    then have w: "win s = winAt s 0 # tl (win s)" by (metis length_0_conv length_win list.exhaust_sel not_gr_zero win_hd)
    then have z: "winAt s 0 = packet0" using Suc.prems(2) True by (metis list.set_intros(1))
    note a = advance [OF Suc.prems(1) l z refl]
    have "\<forall>e \<in> set (win ?s). \<not> present e \<longrightarrow> e = packet0" using Suc.prems(2) a(3) w by (metis list.set_intros(2))
    moreover have "sbLen ?s \<le> n" using a(2) Suc.prems(3) by linarith
    ultimately obtain t where
      "skipMissing n ?s = Inr (?s\<lparr> tail := t \<rparr>)" "geo (?s\<lparr> tail := t \<rparr>)" "win (?s\<lparr> tail := t \<rparr>) = dropWhile (\<lambda>e. \<not> present e) (win ?s)" using Suc.IH [OF a(1)] by auto
    moreover have "dropWhile (\<lambda>e. \<not> present e) (win s) = dropWhile (\<lambda>e. \<not> present e) (win ?s)"
      unfolding a(3) using w True by (metis dropWhile.simps(2))
    moreover have "skipMissing (Suc n) s = skipMissing n ?s"
      using True slot_tail [OF Suc.prems(1)] by (simp add: skipMissing.simps [of "Suc n" s] present_def)
    ultimately show ?thesis by (intro exI [of _ t]) simp
  next
    case False
    then have "skipMissing (Suc n) s = Inr s"
      using slot_tail [OF Suc.prems(1)] by (auto simp: skipMissing.simps [of "Suc n" s] present_def)
    moreover have "dropWhile (\<lambda>e. \<not> present e) (win s) = win s"
      using False win_empty [OF Suc.prems(1)] geo_sbLen(3) [OF Suc.prems(1)] win_hd [of s] by (cases "win s") auto
    ultimately show ?thesis using Suc.prems(1) by (intro exI [of _ "tail s"]) simp
  qed
qed

lemma view_cong:
  assumes "packets s' = packets s" "head s' = head s" "tail s' = tail s" "maxLate s' = maxLate s"
  shows "geo s' \<longleftrightarrow> geo s" "win s' = win s" "sbLen s' = sbLen s"
  unfolding geo_def win_def winAt_def sbLen_def assms by (rule refl)+

lemma upd_view [simp]:
  "win (s\<lparr> lastSeqnoValid := v \<rparr>) = win s" "geo (s\<lparr> lastSeqnoValid := v \<rparr>) = geo s"
  "win (s\<lparr> lastSeqno := l \<rparr>) = win s" "geo (s\<lparr> lastSeqno := l \<rparr>) = geo s"
  "win (s\<lparr> lastTimestampValid := v \<rparr>) = win s" "geo (s\<lparr> lastTimestampValid := v \<rparr>) = geo s"
  "win (s\<lparr> lastTimestamp := t \<rparr>) = win s" "geo (s\<lparr> lastTimestamp := t \<rparr>) = geo s"
  "win (s\<lparr> dpState := d \<rparr>) = win s" "geo (s\<lparr> dpState := d \<rparr>) = geo s"
  by (rule view_cong; simp)+

text \<open>What a release changes besides the window, for the packet at the tail.\<close>

definition freed :: "packet \<Rightarrow> 'd SampleBuilder \<Rightarrow> 'd SampleBuilder" where
  "freed e s = callHandler (the (pPacket e)) (pBuff e) (s\<lparr> lastSeqnoValid := True, lastSeqno := seqOf e \<rparr>)"

lemma callHandler_simps [simp]:
  "packets (callHandler p b s) = packets s" "head (callHandler p b s) = head s" "tail (callHandler p b s) = tail s"
  "maxLate (callHandler p b s) = maxLate s" "depacketizer (callHandler p b s) = depacketizer s" "dpState (callHandler p b s) = dpState s"
  "hasHandler (callHandler p b s) = hasHandler s" "lastSeqnoValid (callHandler p b s) = lastSeqnoValid s"
  "lastSeqno (callHandler p b s) = lastSeqno s" "lastTimestampValid (callHandler p b s) = lastTimestampValid s"
  "lastTimestamp (callHandler p b s) = lastTimestamp s" "sampleRate (callHandler p b s) = sampleRate s"
  "sbLen (callHandler p b s) = sbLen s" "win (callHandler p b s) = win s" "geo (callHandler p b s) = geo s"
  "inc (callHandler p b s) = inc s" "dec (callHandler p b s) = dec s" "cap (callHandler p b s) = cap s"
  by (auto simp: callHandler_def sbLen_def win_def geo_def winAt_def inc_def dec_def cap_def fun_eq_iff)

text \<open>States that differ from \<open>s\<close> in the array and its ends only.\<close>

definition buf_upd :: "'d SampleBuilder \<Rightarrow> 'd SampleBuilder \<Rightarrow> bool" where
  "buf_upd s s' \<longleftrightarrow> s'\<lparr> packets := [], head := 0, tail := 0 \<rparr> = s\<lparr> packets := [], head := 0, tail := 0 \<rparr>"

lemma buf_updD:
  assumes "buf_upd s s'"
  shows "maxLate s' = maxLate s" "depacketizer s' = depacketizer s" "dpState s' = dpState s" "hasHandler s' = hasHandler s"
    "sbReleased s' = sbReleased s" "lastSeqnoValid s' = lastSeqnoValid s" "lastSeqno s' = lastSeqno s"
    "lastTimestampValid s' = lastTimestampValid s" "lastTimestamp s' = lastTimestamp s"
  using assms [unfolded buf_upd_def, THEN arg_cong, of maxLate] assms [unfolded buf_upd_def, THEN arg_cong, of depacketizer]
    assms [unfolded buf_upd_def, THEN arg_cong, of dpState] assms [unfolded buf_upd_def, THEN arg_cong, of hasHandler]
    assms [unfolded buf_upd_def, THEN arg_cong, of sbReleased] assms [unfolded buf_upd_def, THEN arg_cong, of lastSeqnoValid]
    assms [unfolded buf_upd_def, THEN arg_cong, of lastSeqno] assms [unfolded buf_upd_def, THEN arg_cong, of lastTimestampValid]
    assms [unfolded buf_upd_def, THEN arg_cong, of lastTimestamp]
  by simp_all

lemma release_empty: "geo s \<Longrightarrow> win s = [] \<Longrightarrow> release s = Inr (s, False)"
  using win_empty [of s] by (simp add: release_def)

lemma release_win:
  assumes "geo s" "frames_ok (win s)" "win s = e # w"
  shows "\<exists>s'. release s = Inr (s', True) \<and> geo s' \<and> win s' = dropWhile (\<lambda>e. \<not> present e) w \<and> buf_upd (freed e s) s' \<and>
    (win s' \<noteq> [] \<longrightarrow> head s' = head s)"
proof -
  have l: "0 < sbLen s" using assms(3) length_win [of s] by simp
  have e: "winAt s 0 = e" using win_hd [OF l] assms(3) by simp
  obtain p where p: "pPacket e = Some p" using frames_okD(1) [OF assms(2)] assms(3) by (auto simp: present_def)
  have h: "head s \<noteq> tail s" using geo_sbLen(3) [OF assms(1)] l by simp
  define s2 where "s2 = freed e s"
  define s3 where "s3 = setSlot (tail s2) packet0 s2"
  have s2: "geo s2" "win s2 = win s" "sbLen s2 = sbLen s" "tail s2 = tail s" "head s2 = head s"
    using assms(1) view_cong [of s2 s] by (simp_all add: s2_def freed_def)
  have t: "tail s2 mod length (packets s2) = tail s2" using geoD(4) [OF s2(1)] by simp
  have g3: "geo s3" "win s3 = packet0 # w" "sbLen s3 = sbLen s"
    using geo_setSlot [OF s2(1), of 0 packet0] win_setSlot [OF s2(1), of 0 packet0] l s2(2,3) assms(3)
    unfolding s3_def by (simp_all add: t)
  have w0: "winAt s3 0 = packet0" using win_hd [of s3] g3(2,3) l by simp
  define s4 where "s4 = s3\<lparr> tail := inc s3 (tail s3) \<rparr>"
  have g4: "geo s4" "win s4 = w" "sbLen s4 = sbLen s - 1" using advance [OF g3(1) _ w0 s4_def] l g3(2,3) by simp_all
  have n4: "\<forall>e \<in> set (win s4). \<not> present e \<longrightarrow> e = packet0" using frames_okD(3) [OF assms(2)] assms(3) g4(2) by simp
  obtain t5 where s5: "skipMissing (length (packets s4)) s4 = Inr (s4\<lparr> tail := t5 \<rparr>)" "geo (s4\<lparr> tail := t5 \<rparr>)"
      "win (s4\<lparr> tail := t5 \<rparr>) = dropWhile (\<lambda>e. \<not> present e) w"
    using skipMissing_win [OF g4(1) n4 less_imp_le [OF geo_sbLen(1) [OF g4(1)]]] g4(2) by auto
  let ?s5 = "s4\<lparr> tail := t5 \<rparr>"
  let ?s6 = "if tail ?s5 = head ?s5 then ?s5\<lparr> head := 0, tail := 0 \<rparr> else ?s5"
  have r: "release s = Inr (?s6, True)"
  proof -
    have "s2 = callHandler p (pBuff (slot (s\<lparr> lastSeqnoValid := True, lastSeqno := SequenceNumber p \<rparr>) (tail s))) (s\<lparr> lastSeqnoValid := True, lastSeqno := SequenceNumber p \<rparr>)"
    proof -
      have "slot (s\<lparr> lastSeqnoValid := True, lastSeqno := SequenceNumber p \<rparr>) (tail s) = e"
        using slot_tail [OF assms(1)] e unfolding slot_def by (simp split: if_splits)
      then show ?thesis using p by (simp add: s2_def freed_def seqOf_def)
    qed
    then show ?thesis
      using h p e slot_tail [OF assms(1)] s5(1)
      by (simp add: release_def oldestPacket_def packetAt_def Let_def s4_def s3_def)
  qed
  have b: "buf_upd s2 ?s6" unfolding buf_upd_def s4_def s3_def setSlot_def by simp
  have "geo ?s6 \<and> win ?s6 = dropWhile (\<lambda>e. \<not> present e) w"
  proof (cases "tail ?s5 = head ?s5")
    case True
    then have "win ?s5 = []" using win_empty [OF s5(2)] by simp
    then have d: "dropWhile (\<lambda>e. \<not> present e) w = []" unfolding s5(3) .
    show ?thesis unfolding if_P [OF True] d using reset [OF s5(2) True [symmetric] refl] by blast
  next
    case False
    then show ?thesis using s5(2,3) by simp
  qed
  moreover have "head ?s6 = head s" if "win ?s6 \<noteq> []"
    using that reset(2) [OF s5(2)] s2(5) unfolding s4_def s3_def by (cases "t5 = head s2") auto
  ultimately show ?thesis using r b s2_def by blast
qed

section \<open>Releasing from the tail\<close>

definition handed :: "packet list \<Rightarrow> (rtpPacket \<times> nat) list" where
  "handed w = map (\<lambda>e. (the (pPacket e), pBuff e)) (filter present w)"

lemma handed_simps [simp]:
  "handed [] = []" "handed (e # w) = (if present e then [(the (pPacket e), pBuff e)] else []) @ handed w"
  "handed (v @ w) = handed v @ handed w"
  by (simp_all add: handed_def)

text \<open>The first \<open>k\<close> slots of the window are released, in order, and the release handler gets their packets.\<close>

definition shrinks :: "nat \<Rightarrow> 'd SampleBuilder \<Rightarrow> 'd SampleBuilder \<Rightarrow> bool" where
  "shrinks k s s' \<longleftrightarrow> k \<le> length (win s) \<and> geo s' \<and> frames_ok (win s') \<and> win s' = drop k (win s) \<and> maxLate s' = maxLate s \<and>
     depacketizer s' = depacketizer s \<and> dpState s' = dpState s \<and> hasHandler s' = hasHandler s \<and>
     sbReleased s' = sbReleased s @ (if hasHandler s then handed (take k (win s)) else []) \<and>
     (if k = 0 then lastSeqnoValid s' = lastSeqnoValid s \<and> lastSeqno s' = lastSeqno s
      else lastSeqnoValid s' \<and> lastSeqno s' = seqOf (List.last (filter present (take k (win s))))) \<and>
     (win s' \<noteq> [] \<longrightarrow> head s' = head s)"

lemma shrinksD:
  assumes "shrinks k s s'"
  shows "geo s'" "frames_ok (win s')" "win s' = drop k (win s)" "k \<le> length (win s)" "hasHandler s' = hasHandler s"
    "sbReleased s' = sbReleased s @ (if hasHandler s then handed (take k (win s)) else [])" "maxLate s' = maxLate s"
    "depacketizer s' = depacketizer s" "dpState s' = dpState s" "win s' \<noteq> [] \<Longrightarrow> head s' = head s"
  using assms unfolding shrinks_def by blast+

lemma shrinks_refl: "geo s \<Longrightarrow> frames_ok (win s) \<Longrightarrow> shrinks 0 s s"
  by (simp add: shrinks_def)

lemma seqOf_drop: "frames_ok w \<Longrightarrow> k < length w \<Longrightarrow> present (hd (drop k w)) \<Longrightarrow> seqOf (hd (drop k w)) = seqOf (hd w) + of_nat k"
  using frames_okD(4) [of w k] by (simp add: hd_drop_conv_nth)

lemma shrinks_trans:
  assumes "shrinks k s s1" "shrinks k' s1 s2" "frames_ok (win s)"
  shows "shrinks (k + k') s s2"
proof -
  note a = shrinksD(4,3,5,2,6) [OF assms(1)]
  note b = shrinksD(4,6) [OF assms(2)]
  have "sbReleased s2 = sbReleased s @ (if hasHandler s then handed (take (k + k') (win s)) else [])"
    by (simp add: b(2) a(3,5) take_add a(2))
  moreover have "lastSeqno s2 = seqOf (List.last (filter present (take (k + k') (win s))))" if k': "k' \<noteq> 0"
  proof -
    have "win s1 \<noteq> []" using b(1) k' a(2) by auto
    then have "filter present (take k' (win s1)) \<noteq> []"
      using frames_okD(1) [OF a(4)] k' by (cases "win s1"; cases k') auto
    then show ?thesis using assms(2) k' by (simp add: shrinks_def take_add flip: a(2))
  qed
  moreover have "lastSeqno s2 = seqOf (List.last (filter present (take (k + k') (win s))))" if "k' = 0" "k \<noteq> 0"
    using assms that by (auto simp: shrinks_def)
  moreover have "win s2 = drop (k + k') (win s)" "k + k' \<le> length (win s)"
    using a(1,2) b(1) shrinksD(3) [OF assms(2)] by (simp_all add: add.commute)
  moreover have "head s2 = head s" if "win s2 \<noteq> []"
    using that shrinksD(10) [OF assms(2)] shrinksD(10) [OF assms(1)] shrinksD(3) [OF assms(2)] by fastforce
  moreover note shrinksD(1,2,5,7-9) [OF assms(2)] shrinksD(5,7-9) [OF assms(1)]
  ultimately show ?thesis using assms(1,2) unfolding shrinks_def by (auto split: if_splits)
qed

lemma release_shrinks:
  assumes "geo s" "frames_ok (win s)" "win s \<noteq> []"
  shows "\<exists>s' k. release s = Inr (s', True) \<and> shrinks (Suc k) s s' \<and> lastTimestampValid s' = lastTimestampValid s \<and> lastTimestamp s' = lastTimestamp s"
proof -
  obtain e w where w: "win s = e # w" using assms(3) by (cases "win s") auto
  obtain s' where r: "release s = Inr (s', True)" "geo s'" "win s' = dropWhile (\<lambda>e. \<not> present e) w" "buf_upd (freed e s) s'"
      "win s' \<noteq> [] \<longrightarrow> head s' = head s"
    using release_win [OF assms(1,2) w] by blast
  let ?k = "length (takeWhile (\<lambda>e. \<not> present e) w)"
  have p: "present e" using frames_okD(1) [OF assms(2)] w by simp
  have wd: "win s' = drop (Suc ?k) (win s)" using r(3) w by (simp add: dropWhile_eq_drop)
  have f: "frames_ok (win s')" using frames_ok_skip [OF assms(2), of 1] r(3) w by simp
  have "filter present (takeWhile (\<lambda>e. \<not> present e) w) = []" by (auto simp: filter_empty_conv dest: set_takeWhileD)
  then have "handed (take (Suc ?k) (win s)) = [(the (pPacket e), pBuff e)]"
    using w p by (simp add: handed_def flip: takeWhile_eq_take)
  moreover have "filter present (take (Suc ?k) (win s)) = [e]"
    using w p \<open>filter present (takeWhile (\<lambda>e. \<not> present e) w) = []\<close> by (simp flip: takeWhile_eq_take)
  ultimately have "shrinks (Suc ?k) s s'"
    using r(2,5) f wd buf_updD [OF r(4)] w length_takeWhile_le [of _ w]
    by (auto simp: shrinks_def freed_def callHandler_def)
  then show ?thesis using r(1) buf_updD [OF r(4)] by (intro exI [of _ s'] exI [of _ ?k]) (simp add: freed_def)
qed

lemma releaseAllLoop_shrinks:
  assumes "geo s" "frames_ok (win s)" "length (win s) \<le> fuel"
  shows "\<exists>s'. releaseAllLoop fuel s = Inr s' \<and> shrinks (length (win s)) s s'"
  using assms
proof (induction fuel arbitrary: s)
  case 0
  then show ?case using win_empty [of s] win_Nil [of s] shrinks_refl [of s] by (simp add: releaseAllLoop.simps)
next
  case (Suc n)
  show ?case
  proof (cases "win s = []")
    case True
    then show ?thesis using Suc.prems win_empty [of s] shrinks_refl [of s] by (auto simp: releaseAllLoop.simps)
  next
    case False
    obtain s1 k where r: "release s = Inr (s1, True)" "shrinks (Suc k) s s1" using release_shrinks [OF Suc.prems(1,2) False] by blast
    note d = shrinksD [OF r(2)]
    have sh: "length (win s1) \<le> n" using d(3) Suc.prems(3) by simp
    obtain s2 where s2: "releaseAllLoop n s1 = Inr s2" "shrinks (length (win s1)) s1 s2"
      using Suc.IH [OF d(1,2) sh] by blast
    have "shrinks (length (win s)) s s2" using shrinks_trans [OF r(2) s2(2) Suc.prems(2)] d(3,4) by simp
    moreover have "tail s \<noteq> head s" using win_empty [OF Suc.prems(1)] False by simp
    ultimately show ?thesis using r(1) s2(1) by (subst releaseAllLoop.simps) simp
  qed
qed

lemma releaseAll_shrinks: "geo s \<Longrightarrow> frames_ok (win s) \<Longrightarrow> \<exists>s'. releaseAll s = Inr s' \<and> shrinks (length (win s)) s s'"
  using geo_sbLen(1) [of s] unfolding releaseAll_def by (intro releaseAllLoop_shrinks) simp_all

lemma dropLoop_shrinks:
  assumes "geo s" "frames_ok (win s)" "length (win s) \<le> fuel"
  shows "\<exists>s' k. dropLoop fuel ts s = Inr s' \<and> shrinks k s s' \<and> lastTimestampValid s' = lastTimestampValid s \<and> lastTimestamp s' = lastTimestamp s \<and>
    (win s' \<noteq> [] \<longrightarrow> pStart (hd (win s')) \<or> tsOf (hd (win s')) \<noteq> ts)"
  using assms
proof (induction fuel arbitrary: s)
  case 0
  then show ?case using win_empty [of s] win_Nil [of s] shrinks_refl [of s] by (intro exI [of _ s] exI [of _ 0]) (simp add: dropLoop.simps)
next
  case (Suc n)
  show ?case
  proof (cases "win s = [] \<or> pStart (hd (win s)) \<or> tsOf (hd (win s)) \<noteq> ts")
    case True
    have "0 < sbLen s \<Longrightarrow> slot s (tail s) = hd (win s)" using slot_tail [OF Suc.prems(1)] win_hd [of s] by simp
    moreover have "0 < sbLen s \<Longrightarrow> present (hd (win s))" using frames_okD(1) [OF Suc.prems(2)] win_Nil [of s] by simp
    ultimately have "dropLoop (Suc n) ts s = Inr s"
      using True win_empty [OF Suc.prems(1)] geo_sbLen(3) [OF Suc.prems(1)]
      by (subst dropLoop.simps) (auto simp: oldestPacket_def packetAt_def present_def tsOf_def)
    then show ?thesis using True shrinks_refl [OF Suc.prems(1,2)] by (intro exI [of _ s] exI [of _ 0]) auto
  next
    case False
    have l: "0 < sbLen s" using False win_Nil [of s] by simp
    have sl: "slot s (tail s) = hd (win s)" using slot_tail [OF Suc.prems(1)] win_hd [OF l] by simp
    obtain s1 k where r: "release s = Inr (s1, True)" "shrinks (Suc k) s s1" "lastTimestampValid s1 = lastTimestampValid s" "lastTimestamp s1 = lastTimestamp s"
      using release_shrinks [OF Suc.prems(1,2)] False by blast
    note d = shrinksD [OF r(2)]
    have sh: "length (win s1) \<le> n" using d(3) Suc.prems(3) by simp
    obtain s2 k2 where s2: "dropLoop n ts s1 = Inr s2" "shrinks k2 s1 s2" "lastTimestampValid s2 = lastTimestampValid s1" "lastTimestamp s2 = lastTimestamp s1"
        "win s2 \<noteq> [] \<longrightarrow> pStart (hd (win s2)) \<or> tsOf (hd (win s2)) \<noteq> ts"
      using Suc.IH [OF d(1,2) sh] by blast
    have "tail s \<noteq> head s" using win_empty [OF Suc.prems(1)] False by simp
    moreover have "present (hd (win s))" using frames_okD(1) [OF Suc.prems(2)] False by simp
    ultimately have "dropLoop (Suc n) ts s = dropLoop n ts s1"
      using r(1) sl False by (subst dropLoop.simps) (auto simp: oldestPacket_def packetAt_def present_def tsOf_def)
    then show ?thesis using s2 r(3,4) shrinks_trans [OF r(2) s2(2) Suc.prems(2)] by (intro exI [of _ s2] exI [of _ "Suc k + k2"]) simp
  qed
qed

lemma shrinks_cong:
  assumes "shrinks k s s1" "packets s2 = packets s1" "head s2 = head s1" "tail s2 = tail s1" "maxLate s2 = maxLate s1"
    "depacketizer s2 = depacketizer s1" "dpState s2 = dpState s1" "hasHandler s2 = hasHandler s1" "sbReleased s2 = sbReleased s1"
    "lastSeqnoValid s2 = lastSeqnoValid s1" "lastSeqno s2 = lastSeqno s1"
  shows "shrinks k s s2"
  using assms(1) unfolding shrinks_def view_cong [OF assms(2-5)] assms(3,5-11) .

lemma drop_frame_shrinks:
  assumes "geo s" "frames_ok (win s)" "win s \<noteq> []"
  shows "\<exists>s' k. drop_frame s = Inr (s', Some (tsOf (hd (win s)))) \<and> shrinks (Suc k) s s' \<and>
    (win s' \<noteq> [] \<longrightarrow> pStart (hd (win s')) \<or> tsOf (hd (win s')) \<noteq> tsOf (hd (win s)))"
proof -
  let ?ts = "tsOf (hd (win s))"
  obtain s1 k where r: "release s = Inr (s1, True)" "shrinks (Suc k) s s1" using release_shrinks [OF assms] by blast
  note d = shrinksD [OF r(2)]
  obtain s2 k2 where s2: "dropLoop (length (packets s1)) ?ts s1 = Inr s2" "shrinks k2 s1 s2"
      "win s2 \<noteq> [] \<longrightarrow> pStart (hd (win s2)) \<or> tsOf (hd (win s2)) \<noteq> ?ts"
    using dropLoop_shrinks [OF d(1,2), of "length (packets s1)" ?ts] geo_sbLen(1) [OF d(1)] by auto
  let ?s3 = "if \<not> lastTimestampValid s2 then s2\<lparr> lastTimestamp := ?ts, lastTimestampValid := True \<rparr> else s2"
  have l: "0 < sbLen s" using assms(3) win_Nil [of s] by simp
  have o: "oldestPacket s = Inr (the (pPacket (hd (win s))))"
    using slot_tail [OF assms(1)] win_hd [OF l] frames_okD(1) [OF assms(2,3)] by (auto simp: oldestPacket_def packetAt_def present_def)
  have "drop_frame s = Inr (?s3, Some ?ts)"
    using win_empty [OF assms(1)] assms(3) o r(1) s2(1) by (simp add: drop_frame_def Let_def tsOf_def)
  moreover have "shrinks (Suc k + k2) s ?s3"
    by (rule shrinks_cong [OF shrinks_trans [OF r(2) s2(2) assms(2)]]) simp_all
  moreover have "win ?s3 = win s2" by (rule view_cong) simp_all
  ultimately show ?thesis using s2(3) by (intro exI [of _ ?s3] exI [of _ "k + k2"]) simp
qed

lemma makeRoom_shrinks:
  assumes "geo s" "frames_ok (win s)" "cnt \<le> cap s" "length (win s) \<le> fuel"
  shows "\<exists>s' k. makeRoom fuel cnt s = Inr (s', True) \<and> shrinks k s s' \<and> sbLen s' + cnt \<le> cap s"
  using assms
proof (induction fuel arbitrary: s)
  case 0
  then have "makeRoom 0 cnt s = Inr (s, True)" by (simp add: makeRoom.simps u16_def)
  then show ?case using 0 shrinks_refl [of s] by (intro exI [of _ s] exI [of _ 0]) simp
next
  case (Suc n)
  have u: "u16 (sbLen s + cnt) = sbLen s + cnt"
    using Suc.prems(3) geo_sbLen(1) [OF Suc.prems(1)] geoD(2) [OF Suc.prems(1)] by (simp add: u16_def cap_def)
  show ?case
  proof (cases "sbLen s + cnt \<le> cap s")
    case True
    then have "makeRoom (Suc n) cnt s = Inr (s, True)" using u by (simp add: makeRoom.simps)
    then show ?thesis using True shrinks_refl [OF Suc.prems(1,2)] by (intro exI [of _ s] exI [of _ 0]) simp
  next
    case False
    then have "win s \<noteq> []" using Suc.prems(3) win_Nil [of s] by auto
    from drop_frame_shrinks [OF Suc.prems(1,2) this] obtain s1 k ts where
        r: "drop_frame s = Inr (s1, Some ts)" "shrinks (Suc k) s s1" by blast
    note d = shrinksD [OF r(2)]
    have c: "cap s1 = cap s" using geoD(5) [OF d(1)] geoD(5) [OF Suc.prems(1)] d(7) by (simp add: cap_def)
    have sh: "length (win s1) \<le> n" using d(3) Suc.prems(4) by simp
    obtain s2 k2 where s2: "makeRoom n cnt s1 = Inr (s2, True)" "shrinks k2 s1 s2" "sbLen s2 + cnt \<le> cap s"
      using Suc.IH [OF d(1,2) _ sh] Suc.prems(3) c by auto
    have "makeRoom (Suc n) cnt s = Inr (s2, True)" using r(1) s2(1) False u by (subst makeRoom.simps) simp
    then show ?thesis using s2(3) shrinks_trans [OF r(2) s2(2) Suc.prems(2)] by blast
  qed
qed

section \<open>Windows after an insertion\<close>

lemma seqOf_last: "frames_ok w \<Longrightarrow> w \<noteq> [] \<Longrightarrow> seqOf (List.last w) = seqOf (hd w) + of_nat (length w - 1)"
  using frames_okD(2,4) [of w] by (simp add: last_conv_nth)

lemma frames_ok_single: "present e \<Longrightarrow> frames_ok [e]"
  by (simp add: frames_ok_def)

lemma frames_ok_append:
  assumes "frames_ok w" "w \<noteq> []" "present e" "seqOf e = seqOf (hd w) + of_nat (length w + g)"
    and "g = 0 \<Longrightarrow> flags_ok (List.last w) e"
  shows "frames_ok (w @ replicate g packet0 @ [e])"
proof -
  let ?v = "w @ replicate g packet0 @ [e]"
  have n: "?v ! i = (if i < length w then w ! i else if i < length w + g then packet0 else e)" if "i < length ?v" for i
    using that by (auto simp: nth_append)
  have p0: "\<not> present packet0" by (simp add: present_def packet0_def)
  have "seqOf (?v ! i) = seqOf (hd ?v) + of_nat i" if "i < length ?v" "present (?v ! i)" for i
  proof (cases "i < length w + g")
    case True
    then show ?thesis using that n [OF that(1)] p0 frames_okD(4) [OF assms(1), of i] assms(2) by (auto split: if_splits)
  next
    case False
    then have i: "i = length w + g" using that(1) by simp
    then have "?v ! i = e" using n [OF that(1)] by simp
    then show ?thesis using assms(2,4) unfolding i by simp
  qed
  moreover have "flags_ok (?v ! i) (?v ! Suc i)" if "Suc i < length ?v" for i
  proof (cases "Suc i < length w")
    case True
    then show ?thesis using frames_okD(5) [OF assms(1), of i] by (simp add: nth_append)
  next
    case False
    show ?thesis
    proof (cases "g = 0")
      case True
      then have "Suc i = length w" using that False by simp
      then have "?v ! i = List.last w" "?v ! Suc i = e" using assms(2) True by (simp_all add: nth_append last_conv_nth flip: \<open>Suc i = length w\<close>)
      then show ?thesis using assms(5) True by simp
    next
      case g: False
      then have "?v ! i = packet0 \<or> ?v ! Suc i = packet0" using that False n [of i] n [of "Suc i"] by auto
      then show ?thesis using p0 by (auto simp: flags_ok_def)
    qed
  qed
  ultimately show ?thesis
    using assms(2,3) frames_okD(1) [OF assms(1)] frames_okD(3) [OF assms(1)] unfolding frames_ok_def by auto
qed

text \<open>Replacing a packet by one with more flags.\<close>

definition same_packet :: "packet \<Rightarrow> packet \<Rightarrow> bool" where
  "same_packet e e' \<longleftrightarrow> pPacket e' = pPacket e \<and> pBuff e' = pBuff e \<and> (pStart e \<longrightarrow> pStart e') \<and> (pEnd e \<longrightarrow> pEnd e')"

lemma frames_ok_flags:
  assumes "frames_ok w" "i < length w" "present (w ! i)" "same_packet (w ! i) e"
  shows "frames_ok (w[i := e])"
proof -
  have e: "present e" "seqOf e = seqOf (w ! i)" "tsOf e = tsOf (w ! i)" "pStart (w ! i) \<Longrightarrow> pStart e" "pEnd (w ! i) \<Longrightarrow> pEnd e"
    using assms(3,4) by (auto simp: same_packet_def present_def seqOf_def tsOf_def)
  have h: "present (hd (w[i := e])) = present (hd w)" "seqOf (hd (w[i := e])) = seqOf (hd w)"
    using assms(2,3) e(1,2) by (cases w; cases i; simp)+
  have "present (List.last (w[i := e]))"
    using assms(2) e(1) frames_okD(2) [OF assms(1)] by (cases "w = []") (simp_all add: last_list_update)
  moreover have "flags_ok (w[i := e] ! j) (w[i := e] ! Suc j)" if "Suc j < length w" for j
    using frames_okD(5) [OF assms(1) that] e assms(3) that by (cases "j = i"; cases "Suc j = i") (auto simp: flags_ok_def)
  moreover have "seqOf (w[i := e] ! j) = seqOf (hd w) + of_nat j" if "j < length w" "present (w[i := e] ! j)" for j
    using that frames_okD(4) [OF assms(1)] e assms(2,3) by (auto simp: nth_list_update split: if_splits)
  moreover have "\<forall>x \<in> set (w[i := e]). \<not> present x \<longrightarrow> x = packet0"
    using frames_okD(3) [OF assms(1)] e(1) set_update_subset_insert [of w i e] by blast
  ultimately show ?thesis using frames_okD(1) [OF assms(1)] assms(2) h unfolding frames_ok_def by auto
qed

text \<open>Filling a hole.\<close>

lemma frames_ok_fill:
  assumes "frames_ok w" "i < length w" "\<not> present (w ! i)" "present e" "seqOf e = seqOf (hd w) + of_nat i"
    and "flags_ok (w ! (i - 1)) e" "flags_ok e (w ! Suc i)"
  shows "0 < i" "Suc i < length w" "frames_ok (w[i := e])"
proof -
  have ne: "w \<noteq> []" using assms(2) by auto
  show i0: "0 < i"
    using frames_okD(1) [OF assms(1) ne] assms(3) hd_conv_nth [OF ne] by (cases i) auto
  show i1: "Suc i < length w"
  proof (rule ccontr)
    assume "\<not> Suc i < length w"
    then have "i = length w - 1" using assms(2) by simp
    then show False using frames_okD(2) [OF assms(1) ne] assms(3) last_conv_nth [OF ne] by simp
  qed
  have "hd (w[i := e]) = hd w" "List.last (w[i := e]) = List.last w"
    using i0 i1 ne by (simp_all add: hd_conv_nth last_conv_nth nth_list_update)
  moreover have "flags_ok (w[i := e] ! j) (w[i := e] ! Suc j)" if "Suc j < length w" for j
    using frames_okD(5) [OF assms(1) that] assms(6,7) that by (cases "j = i"; cases "Suc j = i") (auto simp: nth_list_update)
  moreover have "seqOf (w[i := e] ! j) = seqOf (hd w) + of_nat j" if "j < length w" "present (w[i := e] ! j)" for j
    using that frames_okD(4) [OF assms(1)] assms(2,5) by (auto simp: nth_list_update split: if_splits)
  moreover have "\<forall>x \<in> set (w[i := e]). \<not> present x \<longrightarrow> x = packet0"
    using frames_okD(3) [OF assms(1)] assms(4) set_update_subset_insert [of w i e] by blast
  ultimately show "frames_ok (w[i := e])" using frames_okD(1,2) [OF assms(1) ne] unfolding frames_ok_def by auto
qed

text \<open>Putting a packet before the window.\<close>

lemma frames_ok_front:
  assumes "frames_ok w" "w \<noteq> []" "present e" "seqOf (hd w) = seqOf e + of_nat (Suc g)" "g = 0 \<Longrightarrow> flags_ok e (hd w)"
  shows "frames_ok (e # replicate g packet0 @ w)"
proof -
  let ?v = "e # replicate g packet0 @ w"
  have p0: "\<not> present packet0" by (simp add: present_def packet0_def)
  have n: "?v ! i = (if i = 0 then e else if i \<le> g then packet0 else w ! (i - Suc g))" if "i < length ?v" for i
    using that by (auto simp: nth_Cons' nth_append)
  have "seqOf (?v ! i) = seqOf (hd ?v) + of_nat i" if "i < length ?v" "present (?v ! i)" for i
  proof (cases "i \<le> g")
    case True
    then show ?thesis using that n [OF that(1)] p0 by (auto split: if_splits)
  next
    case False
    then obtain j where j: "i = Suc g + j" by (metis Suc_leI add_Suc le_iff_add not_le)
    then have "?v ! i = w ! j" "j < length w" using n [OF that(1)] that(1) by simp_all
    then show ?thesis using that(2) frames_okD(4) [OF assms(1), of j] assms(4) unfolding j by (simp add: add.assoc)
  qed
  moreover have "flags_ok (?v ! i) (?v ! Suc i)" if "Suc i < length ?v" for i
  proof (cases "Suc i \<le> g")
    case True
    then show ?thesis using n [of "Suc i"] that p0 by (simp add: flags_ok_def)
  next
    case False
    show ?thesis
    proof (cases "i = 0")
      case True
      then show ?thesis using False n [of "Suc i"] that assms(2,5) by (simp add: hd_conv_nth)
    next
      case i: False
      show ?thesis
      proof (cases "i \<le> g")
        case True
        then show ?thesis using n [of i] i that p0 by (simp add: flags_ok_def)
      next
        case g: False
        then have "Suc (i - Suc g) = i - g" using i by simp
        then show ?thesis using g n [of i] n [of "Suc i"] that i frames_okD(5) [OF assms(1), of "i - Suc g"] by simp
      qed
    qed
  qed
  ultimately show ?thesis
    using assms(2,3) frames_okD(2) [OF assms(1)] frames_okD(3) [OF assms(1)] unfolding frames_ok_def by auto
qed

text \<open>The last packet released is before the rest of the window.\<close>

lemma last_released:
  assumes "frames_ok w" "0 < k" "k \<le> length w"
  shows "\<exists>j < k. seqOf (List.last (filter present (take k w))) = seqOf (hd w) + of_nat j"
proof -
  have "w \<noteq> []" using assms by auto
  then have "filter present (take k w) \<noteq> []" using frames_okD(1) [OF assms(1)] assms(2) by (cases w; cases k) auto
  then have "List.last (filter present (take k w)) \<in> set (filter present (take k w))" by (rule last_in_set)
  then obtain j where "j < k" "j < length w" "w ! j = List.last (filter present (take k w))" "present (w ! j)"
    by (auto simp: in_set_conv_nth)
  then show ?thesis using frames_okD(4) [OF assms(1), of j] by auto
qed

lemma last_released_all: "frames_ok w \<Longrightarrow> w \<noteq> [] \<Longrightarrow> List.last (filter present w) = List.last w"
  using frames_okD(2) [of w] by (cases w rule: rev_cases) auto

end
