(* ===== verification/SampleProps.thy ===== *)
theory SampleProps
  imports SampleWindow
begin

unbundle bit_operations_syntax

text \<open>
  The properties of the sample builder: \<open>Push\<close> and \<open>Pop\<close> keep the invariant that the code states in
  \<open>check\<close>, return in every state that can be reached, and hand every buffer back once.
\<close>

section \<open>The order of sequence numbers\<close>

lemma nonneg_iff: "nonneg x \<longleftrightarrow> unat x < 32768"
proof -
  have "x AND 0x8000 = 0 \<longleftrightarrow> \<not> bit x 15"
    using and_exp_eq_0_iff_not_bit [of x 15] by simp
  moreover have "bit x 15 \<longleftrightarrow> odd (unat x div 32768)"
  proof -
    have "bit x 15 \<longleftrightarrow> bit (unat x) 15" by (simp add: bit_unsigned_iff)
    then show ?thesis by (simp add: bit_iff_odd)
  qed
  moreover have "unat x < 65536" using unsigned_less [of x, where ?'a = nat] by simp
  then have "unat x div 32768 = (if unat x < 32768 then 0 else 1)" by (auto intro: div_nat_eqI)
  then have "odd (unat x div 32768) \<longleftrightarrow> 32768 \<le> unat x" by simp
  ultimately show ?thesis by (auto simp: nonneg_def)
qed

definition before :: "16 word \<Rightarrow> 16 word \<Rightarrow> bool" where
  "before a b \<longleftrightarrow> b - a \<noteq> 0 \<and> nonneg (b - a)"

lemma before_iff: "before a b \<longleftrightarrow> 0 < unat (b - a) \<and> unat (b - a) < 32768"
  by (auto simp: before_def nonneg_iff unat_gt_0)

lemma unat_of_nat16: "n < 65536 \<Longrightarrow> unat (of_nat n :: 16 word) = n"
  by (simp add: unat_of_nat)

text \<open>The invariant: the window is in order and the last sequence number is before it.\<close>

definition sb_inv :: "'d SampleBuilder \<Rightarrow> bool" where
  "sb_inv s \<longleftrightarrow> geo s \<and> frames_ok (win s) \<and> (win s \<noteq> [] \<longrightarrow> lastSeqnoValid s \<longrightarrow> before (lastSeqno s) (seqOf (hd (win s))))"

lemma sb_invD:
  assumes "sb_inv s"
  shows "geo s" "frames_ok (win s)" "win s \<noteq> [] \<Longrightarrow> lastSeqnoValid s \<Longrightarrow> before (lastSeqno s) (seqOf (hd (win s)))"
  using assms by (auto simp: sb_inv_def)

lemma shrinks_inv:
  assumes "sb_inv s" "shrinks k s s'"
  shows "sb_inv s'"
proof -
  note i = sb_invD [OF assms(1)] and d = shrinksD [OF assms(2)]
  have "before (lastSeqno s') (seqOf (hd (win s')))" if v: "win s' \<noteq> []" "lastSeqnoValid s'"
  proof (cases "k = 0")
    case True
    then show ?thesis using assms(2) i(3) v by (auto simp: shrinks_def)
  next
    case False
    then obtain j where j: "j < k" "lastSeqno s' = seqOf (hd (win s)) + of_nat j"
      using assms(2) last_released [OF i(2) _ d(4)] by (auto simp: shrinks_def)
    have k: "k < length (win s)" "length (win s) < 32768" using v(1) d(3) geo_sbLen(1) [OF i(1)] geoD(2) [OF i(1)] by auto
    have "seqOf (hd (win s')) = seqOf (hd (win s)) + of_nat k"
      using seqOf_drop [OF i(2) k(1)] frames_okD(1) [OF d(2) v(1)] d(3) by simp
    then have "seqOf (hd (win s')) - lastSeqno s' = of_nat (k - j)" using j by (simp add: of_nat_diff)
    then show ?thesis using j(1) k unat_of_nat16 [of "k - j"] by (simp add: before_iff)
  qed
  then show ?thesis using d(1,2) by (simp add: sb_inv_def)
qed

lemma oldest_win: "geo s \<Longrightarrow> frames_ok (win s) \<Longrightarrow> win s \<noteq> [] \<Longrightarrow> oldestPacket s = Inr (the (pPacket (hd (win s))))"
  using slot_tail [of s] win_hd [of s] win_Nil [of s] frames_okD(1) [of "win s"]
  by (auto simp: oldestPacket_def packetAt_def present_def)

lemma newest_win: "geo s \<Longrightarrow> frames_ok (win s) \<Longrightarrow> win s \<noteq> [] \<Longrightarrow> packetAt s (dec s (head s)) = Inr (the (pPacket (List.last (win s))))"
  using slot_newest [of s] win_last [of s] win_Nil [of s] frames_okD(2) [of "win s"]
  by (auto simp: packetAt_def present_def)

section \<open>Push\<close>

text \<open>The sequence number \<open>p\<close> may become the first of the window.\<close>

definition fits :: "16 word \<Rightarrow> packet list \<Rightarrow> bool" where
  "fits q w \<longleftrightarrow> (w = [] \<or> (\<exists>k. 0 < k \<and> k < 21844 \<and> seqOf (hd w) = q + of_nat k))"

lemma unat16: "unat (x :: 16 word) < 65536"
  using unsigned_less [of x, where ?'a = nat] by simp

lemmas unat_diff16 = unat_sub_if' [where ?'a = 16, simplified]

text \<open>The arithmetic of the check, relative to the last sequence number: \<open>q\<close> is the new packet, \<open>h\<close> the
  first of the window and \<open>m\<close> the bound.\<close>

lemma not_late: "\<not> nonneg (0 - q) \<longleftrightarrow> 0 < unat q \<and> unat q \<le> 32768"
  unfolding nonneg_iff unat_diff16 using unat16 [of q] by auto

lemma late_cap:
  assumes "0 < unat q" "unat q \<le> 32768" "nonneg (q - m)" "before 0 h" "\<not> nonneg (q - m - (h - 1))" "2 \<le> unat m" "unat m \<le> 10922"
  shows "before (q - m) h"
proof -
  have h: "0 < unat h" "unat h < 32768" using assms(4) by (simp_all add: before_iff)
  have h1: "unat (h - 1) = unat h - 1" using h(1) by (intro unat_minus_one) (auto simp: unat_gt_0)
  have m: "unat m \<le> unat q" "unat (q - m) = unat q - unat m"
    using assms(1-3,6,7) unfolding nonneg_iff unat_diff16 by (auto split: if_splits)
  have "unat q - unat m < unat h - 1"
    using assms(2,5,6) h unfolding nonneg_iff unat_diff16 [of "q - m"] m(2) h1 by (auto split: if_splits)
  then show ?thesis using m h unfolding before_iff unat_diff16 [of h] m(2) by auto
qed

lemma late_before:
  assumes "0 < unat q" "unat q \<le> 32768" "\<not> nonneg (q - m)" "2 \<le> unat m" "unat m \<le> 10922"
  shows "before 0 q"
proof -
  have "unat q < unat m" using assms unfolding nonneg_iff unat_diff16 by (simp split: if_splits)
  then show ?thesis using assms by (simp add: before_iff)
qed

lemma late_front:
  assumes "0 < unat q" "unat q \<le> 32768" "before 0 h" "0 < k" "k < 21844" "h = q + of_nat k" "2 \<le> unat m" "unat m \<le> 10922"
  shows "before 0 q" "\<not> nonneg (q - m - (h - 1))"
proof -
  have k: "unat (of_nat k :: 16 word) = k" using assms(5) by (intro unat_of_nat16) simp
  have hq: "unat h = unat q + k" using assms(2,5) unfolding assms(6) unat_plus_if' k by simp
  then show b: "before 0 q" using assms(1,3,4) by (simp add: before_iff)
  have e: "q - m - (h - 1) = 0 - (m + of_nat (k - 1))" using assms(4,6) by (simp add: of_nat_diff)
  have u: "unat (m + of_nat (k - 1)) = unat m + (k - 1)"
  proof -
    have "unat (of_nat (k - 1) :: 16 word) = k - 1" using assms(5) by (intro unat_of_nat16) simp
    then show ?thesis using assms(5,8) unfolding unat_plus_if' by auto
  qed
  show "\<not> nonneg (q - m - (h - 1))" unfolding e not_late u using assms(5,7,8) by auto
qed

lemma pushLate_ok:
  assumes "sb_inv s"
  shows "pushLate p s = Inr None \<and> lastSeqnoValid s \<or>
    (\<exists>v l. pushLate p s = Inr (Some (s\<lparr> lastSeqnoValid := v, lastSeqno := l \<rparr>)) \<and> sb_inv (s\<lparr> lastSeqnoValid := v, lastSeqno := l \<rparr>) \<and>
       (v \<longrightarrow> fits (SequenceNumber p) (win s) \<longrightarrow> before l (SequenceNumber p)))"
proof -
  note i = sb_invD [OF assms]
  note m = geoD(7,8) [OF i(1)]
  let ?a = "lastSeqno s" and ?q = "SequenceNumber p" and ?m = "maxLate s" and ?h = "seqOf (hd (win s))"
  have inv: "sb_inv (s\<lparr> lastSeqnoValid := v, lastSeqno := l \<rparr>)" if "win s \<noteq> [] \<Longrightarrow> v \<Longrightarrow> before l ?h" for v l
    using i(1,2) that by (simp add: sb_inv_def)
  have shift: "before x y = before (x - ?a) (y - ?a)" for x y by (simp add: before_def)
  show ?thesis
  proof (cases "lastSeqnoValid s \<and> \<not> nonneg (?a - ?q)")
    case False
    have same: "s = s\<lparr> lastSeqnoValid := lastSeqnoValid s, lastSeqno := lastSeqno s \<rparr>" by simp
    show ?thesis
    proof (cases "lastSeqnoValid s")
      case True
      have "sb_inv (s\<lparr> lastSeqnoValid := False, lastSeqno := lastSeqno s \<rparr>)" by (rule inv) simp
      then show ?thesis using True False by (auto simp: pushLate_def intro!: exI [of _ False] exI [of _ "lastSeqno s"])
    next
      case v: False
      have "sb_inv (s\<lparr> lastSeqnoValid := False, lastSeqno := lastSeqno s \<rparr>)" by (rule inv) simp
      then show ?thesis using v by (auto simp: pushLate_def intro!: exI [of _ False] exI [of _ "lastSeqno s"])
    qed
  next
    case True
    then have "\<not> nonneg (0 - (?q - ?a))" by simp
    then have q: "0 < unat (?q - ?a)" "unat (?q - ?a) \<le> 32768" unfolding not_late by simp_all
    have hb: "before 0 (?h - ?a)" if "win s \<noteq> []" using i(3) [OF that] True shift [of ?a ?h] by simp
    show ?thesis
    proof (cases "nonneg (?q - ?m - ?a)")
      case no: False
      have "before ?a ?q" using late_before [OF q, of ?m] no m shift [of ?a ?q] by (simp add: algebra_simps)
      moreover have "pushLate p s = Inr (Some (s\<lparr> lastSeqnoValid := True, lastSeqno := ?a \<rparr>))" using True no by (simp add: pushLate_def Let_def)
      ultimately show ?thesis using inv [of True ?a] i(3) True by blast
    next
      case yes: True
      let ?l = "if win s \<noteq> [] \<and> nonneg (?q - ?m - (?h - 1)) then ?h - 1 else ?q - ?m"
      have P: "pushLate p s = Inr (Some (s\<lparr> lastSeqnoValid := True, lastSeqno := ?l \<rparr>))"
        using True yes win_empty [OF i(1)] oldest_win [OF i(1,2)] by (auto simp: pushLate_def Let_def seqOf_def)
      have "before (?q - ?m) ?h" if "win s \<noteq> []" "\<not> nonneg (?q - ?m - (?h - 1))"
        using late_cap [OF q, of ?m "?h - ?a"] yes hb [OF that(1)] that(2) m shift [of "?q - ?m" ?h] by (simp add: algebra_simps)
      moreover have "before (?h - 1) ?h" by (simp add: before_iff)
      ultimately have I: "sb_inv (s\<lparr> lastSeqnoValid := True, lastSeqno := ?l \<rparr>)" by (intro inv) auto
      have "before ?l ?q" if f: "fits ?q (win s)"
      proof -
        have "\<not> nonneg (?q - ?m - (?h - 1))" if w: "win s \<noteq> []"
        proof -
          obtain k where "0 < k" "k < 21844" "?h = ?q + of_nat k" using f w by (auto simp: fits_def)
          then show ?thesis using late_front(2) [OF q hb [OF w], of k ?m] m by (simp add: algebra_simps)
        qed
        moreover have "before (?q - ?m) ?q" using m by (simp add: before_iff)
        ultimately show ?thesis by auto
      qed
      then show ?thesis using P I by blast
    qed
  qed
qed

lemma newSlot_present [simp]: "present (newSlot s st en p buf)" "seqOf (newSlot s st en p buf) = SequenceNumber p"
  "tsOf (newSlot s st en p buf) = rtpTimestamp p" "pStart (newSlot s st en p buf) = st" "pEnd (newSlot s st en p buf) = en"
  "pPacket (newSlot s st en p buf) = Some p" "pBuff (newSlot s st en p buf) = buf"
  by (simp_all add: newSlot_def present_def seqOf_def tsOf_def)

lemma buf_upd_refl [simp]: "buf_upd s s"
  by (simp add: buf_upd_def)

lemma buf_upd_trans: "buf_upd s s1 \<Longrightarrow> buf_upd s1 s2 \<Longrightarrow> buf_upd s s2"
  by (simp add: buf_upd_def)

lemma buf_upd_put [simp]:
  "buf_upd s (setSlot i e s)" "buf_upd s ((setSlot i e s)\<lparr> head := h \<rparr>)" "buf_upd s ((setSlot i e s)\<lparr> tail := t, head := h \<rparr>)"
  "buf_upd s (s\<lparr> tail := t \<rparr>)"
  by (simp_all add: buf_upd_def setSlot_def)

text \<open>
  The packet \<open>p\<close> has been put into the window; the packets that were there before are kept. It may have
  become the first one.
\<close>

definition pushed :: "rtpPacket \<Rightarrow> nat \<Rightarrow> 'd SampleBuilder \<Rightarrow> 'd SampleBuilder \<Rightarrow> bool" where
  "pushed p buf s s' \<longleftrightarrow> geo s' \<and> frames_ok (win s') \<and> buf_upd s s' \<and> mset (handed (win s')) = add_mset (p, buf) (mset (handed (win s))) \<and>
     (fits (SequenceNumber p) (win s) \<and> seqOf (hd (win s')) = SequenceNumber p \<or> win s \<noteq> [] \<and> seqOf (hd (win s')) = seqOf (hd (win s)))"

lemma pushed_inv:
  assumes "sb_inv s" "pushed p buf s s'" "lastSeqnoValid s \<Longrightarrow> fits (SequenceNumber p) (win s) \<Longrightarrow> before (lastSeqno s) (SequenceNumber p)"
  shows "sb_inv s'"
  using assms sb_invD(3) [OF assms(1)] buf_updD(6,7) [of s s'] by (auto simp: pushed_def sb_inv_def)

lemma pushEmpty_pushed:
  assumes "geo s" "win s = []"
  shows "pushed p buf s (pushEmpty p buf s)"
proof -
  let ?e = "newSlot s (isStart s p) (isEnd s p) p buf"
  define s0 where "s0 = s\<lparr> head := 0, tail := 0 \<rparr>"
  have h: "head s = tail s" using win_empty [OF assms(1)] assms(2) by simp
  have s0: "geo s0" "win s0 = []" "packets s0 = packets s" "tail s0 = 0" using reset [OF assms(1) h s0_def] by (simp_all add: s0_def)
  have n: "0 mod length (packets s) = 0" "1 mod length (packets s) = 1" using geoD(1) [OF assms(1)] by simp_all
  have e: "pushEmpty p buf s = (setSlot ((tail s0 + 0) mod length (packets s0)) ?e s0)\<lparr> head := (tail s0 + Suc 0) mod length (packets s0) \<rparr>"
    using n by (simp add: pushEmpty_def s0_def setSlot_def)
  have l: "sbLen s0 = 0" using s0(2) win_Nil [of s0] by simp
  have g: "geo (pushEmpty p buf s)" "win (pushEmpty p buf s) = [?e]"
    using grow [OF s0(1) _ _ e] l s0(2,3) geoD(1) [OF assms(1)] by simp_all
  have b: "buf_upd s (pushEmpty p buf s)" by (simp add: pushEmpty_def)
  show ?thesis using g b assms(2) by (simp add: pushed_def frames_ok_single fits_def)
qed

lemma handed_flags: "i < length w \<Longrightarrow> same_packet (w ! i) e \<Longrightarrow> handed (w[i := e]) = handed w"
proof (induction w arbitrary: i)
  case (Cons x w)
  then show ?case by (cases i) (auto simp: same_packet_def present_def)
qed simp

lemma hd_flags: "i < length w \<Longrightarrow> same_packet (w ! i) e \<Longrightarrow> seqOf (hd (w[i := e])) = seqOf (hd w)"
  by (cases w; cases i) (auto simp: same_packet_def seqOf_def)

text \<open>Setting a flag of a packet of the window.\<close>

lemma setFlag_win:
  assumes "geo s" "frames_ok (win s)" "i < sbLen s" "present (winAt s i)" "same_packet (winAt s i) e"
  shows "geo (setSlot ((tail s + i) mod length (packets s)) e s)" "frames_ok (win (setSlot ((tail s + i) mod length (packets s)) e s))"
    "win (setSlot ((tail s + i) mod length (packets s)) e s) = (win s)[i := e]"
    "handed (win (setSlot ((tail s + i) mod length (packets s)) e s)) = handed (win s)"
  using geo_setSlot [OF assms(1,3), of e] win_setSlot [OF assms(1,3), of e] frames_ok_flags [OF assms(2), of i e] handed_flags [of i "win s" e] assms(3-5)
  by simp_all

text \<open>A packet behind the window, with \<open>g\<close> empty slots between.\<close>

lemma append_pushed:
  assumes "geo s" "frames_ok (win s)" "sbLen s + g < cap s"
    and "win s \<noteq> [] \<Longrightarrow> SequenceNumber p = seqOf (hd (win s)) + of_nat (sbLen s + g)" "win s \<noteq> [] \<Longrightarrow> g = 0 \<Longrightarrow> flags_ok (List.last (win s)) e"
    and "win s = [] \<Longrightarrow> g = 0" "pPacket e = Some p" "pBuff e = buf"
    and "s' = (setSlot ((tail s + (sbLen s + g)) mod length (packets s)) e s)\<lparr> head := (tail s + Suc (sbLen s + g)) mod length (packets s) \<rparr>"
  shows "pushed p buf s s'"
proof -
  have e: "present e" "seqOf e = SequenceNumber p" using assms(7) by (simp_all add: present_def seqOf_def)
  have c: "sbLen s + g + 1 < length (packets s)" using assms(3) by (simp add: cap_def)
  note gr = grow [OF assms(1) _ c assms(9)]
  have w: "win s' = win s @ replicate g packet0 @ [e]" using gr(3) by simp
  have h: "handed (replicate g packet0) = []" by (simp add: handed_def present_def packet0_def)
  have f: "frames_ok (win s')"
  proof (cases "win s = []")
    case True
    then show ?thesis using w e(1) assms(6) frames_ok_single by simp
  next
    case False
    then show ?thesis unfolding w using frames_ok_append [OF assms(2) False e(1), of g] e(2) assms(4,5) by simp
  qed
  have "handed (win s') = handed (win s) @ [(p, buf)]" unfolding w using h e(1) assms(7,8) by simp
  moreover have "seqOf (hd (win s')) = (if win s = [] then SequenceNumber p else seqOf (hd (win s)))"
    using w e(2) assms(6) by simp
  moreover have "buf_upd s s'" unfolding assms(9) by simp
  ultimately show ?thesis using gr(1) f by (simp add: pushed_def fits_def)
qed

text \<open>More flags before the put make no difference.\<close>

lemma pushed_flags:
  assumes "pushed p buf s1 s'" "buf_upd s s1" "handed (win s1) = handed (win s)" "seqOf (hd (win s1)) = seqOf (hd (win s))"
    "win s1 \<noteq> []" "win s \<noteq> []"
  shows "pushed p buf s s'"
proof -
  have "fits q (win s1) = fits q (win s)" for q using assms(4-6) by (simp add: fits_def)
  then show ?thesis using assms buf_upd_trans [OF assms(2)] by (auto simp: pushed_def)
qed

lemma putSequential_pushed:
  assumes "geo s" "frames_ok (win s)" "sbLen s < cap s"
    and "win s \<noteq> [] \<Longrightarrow> newest = dec s (head s)" "win s \<noteq> [] \<Longrightarrow> SequenceNumber p = seqOf (List.last (win s)) + 1"
  shows "\<exists>s'. putSequential newest p buf s = Inr s' \<and> pushed p buf s s'"
proof -
  have hd: "head s = (tail s + sbLen s) mod length (packets s)" by (rule geo_sbLen(2) [OF assms(1)])
  have ih: "inc s (head s) = (tail s + Suc (sbLen s)) mod length (packets s)" unfolding hd by (rule inc_win [OF assms(1)])
  show ?thesis
  proof (cases "win s = []")
    case True
    let ?e = "newSlot s (isStart s p) (isEnd s p) p buf"
    have "head s = tail s" using win_empty [OF assms(1)] True by simp
    then have r: "putSequential newest p buf s = Inr ((setSlot (head s) ?e s)\<lparr> head := inc s (head s) \<rparr>)"
      by (simp add: putSequential_def Let_def)
    have "pushed p buf s ((setSlot (head s) ?e s)\<lparr> head := inc s (head s) \<rparr>)"
      unfolding ih by (rule append_pushed [OF assms(1,2), of 0]) (use True assms(3) hd in simp_all)
    then show ?thesis using r by blast
  next
    case False
    let ?L = "List.last (win s)"
    have l: "0 < sbLen s" using False win_Nil [of s] by simp
    have nw: "newest = (tail s + (sbLen s - 1)) mod length (packets s)" using assms(4) False dec_head [OF assms(1) l] by simp
    have sn: "slot s newest = ?L" unfolding nw using slot_win [OF assms(1)] win_last [OF l] by simp
    have pl: "present ?L" by (rule frames_okD(2) [OF assms(2) False])
    define st where "st \<longleftrightarrow> pEnd ?L \<or> tsOf ?L \<noteq> rtpTimestamp p \<or> isStart s p"
    define s1 where "s1 = (if st then setEnd newest s else s)"
    define e where "e = newSlot s1 st (isEnd s1 p) p buf"
    have ht: "tail s \<noteq> head s" using win_empty [OF assms(1)] False by simp
    have r: "putSequential newest p buf s = Inr ((setSlot (head s1) e s1)\<lparr> head := inc s1 (head s1) \<rparr>)"
      using ht sn pl by (auto simp: putSequential_def Let_def packetAt_def present_def tsOf_def st_def s1_def e_def)
    have f1: "head s1 = head s" "tail s1 = tail s" "inc s1 = inc s" "length (packets s1) = length (packets s)" "sbLen s1 = sbLen s" "cap s1 = cap s"
      by (simp_all add: s1_def setEnd_def)
    have sp: "same_packet ?L (?L\<lparr> pEnd := True \<rparr>)" by (simp add: same_packet_def)
    have w1: "geo s1" "frames_ok (win s1)" "win s1 = (if st then (win s)[sbLen s - 1 := ?L\<lparr> pEnd := True \<rparr>] else win s)" "handed (win s1) = handed (win s)"
      using setFlag_win [OF assms(1,2), of "sbLen s - 1" "?L\<lparr> pEnd := True \<rparr>"] win_last [OF l] sn pl sp l assms(1,2) unfolding s1_def setEnd_def nw [symmetric] by simp_all
    have la: "List.last (win s1) = (if st then ?L\<lparr> pEnd := True \<rparr> else ?L)" unfolding w1(3) using False by (simp add: last_list_update)
    have hdw: "seqOf (hd (win s1)) = seqOf (hd (win s))" "win s1 \<noteq> []"
      using hd_flags [of "sbLen s - 1" "win s" "?L\<lparr> pEnd := True \<rparr>"] win_last [OF l] sp l False unfolding w1(3) by simp_all
    have q: "SequenceNumber p = seqOf (hd (win s)) + of_nat (sbLen s + 0)"
      using assms(5) [OF False] seqOf_last [OF assms(2) False] l by (simp add: of_nat_diff)
    have "pushed p buf s1 ((setSlot (head s1) e s1)\<lparr> head := inc s1 (head s1) \<rparr>)"
    proof (rule append_pushed [OF w1(1,2), of 0])
      show "flags_ok (List.last (win s1)) e" unfolding la by (auto simp: flags_ok_def e_def st_def)
    qed (use assms(3) q hdw hd ih f1 in \<open>simp_all add: e_def\<close>)
    then have "pushed p buf s ((setSlot (head s1) e s1)\<lparr> head := inc s1 (head s1) \<rparr>)"
      by (rule pushed_flags) (use w1(4) hdw False in \<open>auto simp: s1_def setEnd_def\<close>)
    then show ?thesis using r by blast
  qed
qed

section \<open>Packets in the past\<close>

text \<open>States whose packets differ in flags that were added.\<close>

definition more :: "packet \<Rightarrow> packet \<Rightarrow> bool" where
  "more x y \<longleftrightarrow> same_packet x y \<and> (\<not> present x \<longrightarrow> y = x)"

lemma more_refl: "more x x"
  by (simp add: more_def same_packet_def)

lemma more_trans: "more x y \<Longrightarrow> more y z \<Longrightarrow> more x z"
  by (auto simp: more_def same_packet_def present_def)

lemma moreD: "more x y \<Longrightarrow> present y = present x" "more x y \<Longrightarrow> seqOf y = seqOf x" "more x y \<Longrightarrow> tsOf y = tsOf x"
  "more x y \<Longrightarrow> pEnd x \<Longrightarrow> pEnd y" "more x y \<Longrightarrow> pStart x \<Longrightarrow> pStart y"
  by (auto simp: more_def same_packet_def present_def seqOf_def tsOf_def)

lemma handed_more: "list_all2 more w w' \<Longrightarrow> handed w' = handed w"
  by (induction rule: list_all2_induct) (auto simp: more_def same_packet_def present_def)

lemma hd_more: "list_all2 more w w' \<Longrightarrow> w \<noteq> [] \<Longrightarrow> more (hd w) (hd w')"
  by (cases w; cases w') auto

lemma frames_ok_more:
  assumes "list_all2 more w w'" "frames_ok w"
  shows "frames_ok w'"
proof (cases "w = []")
  case False
  have l: "length w' = length w" "w' \<noteq> []" using assms(1) False by (auto dest: list_all2_lengthD)
  have n: "more (w ! i) (w' ! i)" if "i < length w" for i using assms(1) that by (simp add: list_all2_nthD)
  have la: "more (List.last w) (List.last w')" using n [of "length w - 1"] l False by (simp add: last_conv_nth)
  have "e = packet0" if e: "e \<in> set w'" "\<not> present e" for e
  proof -
    obtain i where "i < length w" "w' ! i = e" using e(1) l by (auto simp: in_set_conv_nth)
    then show ?thesis using n [of i] e(2) frames_okD(3) [OF assms(2), of "w ! i"] by (auto simp: more_def same_packet_def present_def)
  qed
  moreover have "flags_ok (w' ! i) (w' ! Suc i)" if "Suc i < length w'" for i
    using that l frames_okD(5) [OF assms(2), of i] moreD [OF n [of i]] moreD [OF n [of "Suc i"]] by (auto simp: flags_ok_def)
  moreover have "seqOf (w' ! i) = seqOf (hd w') + of_nat i" if "i < length w'" "present (w' ! i)" for i
    using that l frames_okD(4) [OF assms(2), of i] moreD [OF n [of i]] moreD(2) [OF hd_more [OF assms(1) False]] by simp
  ultimately show ?thesis
    using frames_okD(1,2) [OF assms(2) False] moreD(1) [OF hd_more [OF assms(1) False]] moreD(1) [OF la] unfolding frames_ok_def by auto
qed (use assms in auto)

definition flagged :: "'d SampleBuilder \<Rightarrow> 'd SampleBuilder \<Rightarrow> bool" where
  "flagged s s' \<longleftrightarrow> geo s' \<and> tail s' = tail s \<and> length (packets s') = length (packets s) \<and> sbLen s' = sbLen s \<and> buf_upd s s' \<and>
     list_all2 more (win s) (win s')"

lemma flagged_refl: "geo s \<Longrightarrow> flagged s s"
  by (simp add: flagged_def list_all2_refl more_refl)

lemma flagged_trans: "flagged s s1 \<Longrightarrow> flagged s1 s2 \<Longrightarrow> flagged s s2"
  unfolding flagged_def using buf_upd_trans list_all2_trans [of more more more] more_trans by metis

lemma flagged_set:
  assumes "geo s" "i < sbLen s" "present (winAt s i)" "same_packet (winAt s i) e"
  shows "flagged s (setSlot ((tail s + i) mod length (packets s)) e s)"
proof -
  have "list_all2 more (win s) ((win s)[i := e])"
    using assms(2-4) by (auto simp: list_all2_conv_all_nth nth_list_update more_refl) (simp add: more_def)
  then show ?thesis using geo_setSlot [OF assms(1,2)] win_setSlot [OF assms(1,2)] by (simp add: flagged_def)
qed

lemma flaggedD:
  assumes "flagged s s'"
  shows "geo s'" "tail s' = tail s" "length (packets s') = length (packets s)" "sbLen s' = sbLen s" "buf_upd s s'"
    "list_all2 more (win s) (win s')" "i < sbLen s \<Longrightarrow> more (winAt s i) (winAt s' i)"
proof -
  show "i < sbLen s \<Longrightarrow> more (winAt s i) (winAt s' i)"
    using assms list_all2_nthD [of more "win s" "win s'" i] by (simp add: flagged_def)
qed (use assms in \<open>simp_all add: flagged_def\<close>)

lemma same_flag: "same_packet x (x\<lparr> pEnd := True \<rparr>)" "same_packet x (x\<lparr> pStart := True \<rparr>)"
  by (simp_all add: same_packet_def)

lemma linkNext_win:
  assumes "geo s" "i < sbLen s" "linkNext ((tail s + i) mod length (packets s)) p s = (s', en)"
  shows "flagged s s' \<and>
    (Suc i < sbLen s \<longrightarrow> present (winAt s (Suc i)) \<longrightarrow> tsOf (winAt s (Suc i)) \<noteq> rtpTimestamp p \<longrightarrow> en \<and> pStart (winAt s' (Suc i)))"
proof -
  let ?n = "length (packets s)" and ?x = "winAt s (Suc i)"
  have nx: "inc s ((tail s + i) mod ?n) = (tail s + Suc i) mod ?n" by (rule inc_win [OF assms(1)])
  have sl: "slot s (inc s ((tail s + i) mod ?n)) = ?x" unfolding nx by (rule slot_win [OF assms(1)])
  have le: "Suc i < ?n" if "Suc i < sbLen s" using that geo_sbLen(1) [OF assms(1)] by simp
  have pr: "Suc i < sbLen s" if "present ?x"
    using geoD(6) [OF assms(1), of "Suc i"] that assms(2) geo_sbLen(1) [OF assms(1)] by (cases "Suc i < sbLen s") (auto simp: present_def packet0_def)
  let ?s = "setSlot ((tail s + Suc i) mod ?n) (?x\<lparr> pStart := True \<rparr>) s"
  have fl: "flagged s ?s" if "present ?x" using flagged_set [OF assms(1) pr [OF that] that same_flag(2)] .
  have st: "pStart (winAt ?s (Suc i))" if "Suc i < sbLen s" using winAt_setSlot [OF assms(1) le [OF that] le [OF that]] by simp
  have "s' = s \<and> (present ?x \<longrightarrow> tsOf ?x = rtpTimestamp p) \<or> present ?x \<and> s' = ?s \<and> (tsOf ?x \<noteq> rtpTimestamp p \<longrightarrow> en)"
    using assms(3) unfolding linkNext_def Let_def setStart_def sl unfolding nx
    by (auto simp: present_def tsOf_def split: option.splits if_splits)
  then show ?thesis using fl st flagged_refl [OF assms(1)] by blast
qed

lemma linkPrev_win:
  assumes "geo s" "0 < i" "i < sbLen s" "linkPrev ((tail s + i) mod length (packets s)) p s = (s', st)"
  shows "flagged s s' \<and> (present (winAt s (i - 1)) \<longrightarrow> tsOf (winAt s (i - 1)) \<noteq> rtpTimestamp p \<longrightarrow> st \<and> pEnd (winAt s' (i - 1)))"
proof -
  let ?n = "length (packets s)" and ?x = "winAt s (i - 1)"
  have t: "tail s < ?n" "i < ?n" using geoD(4) [OF assms(1)] geo_sbLen(1) [OF assms(1)] assms(3) by simp_all
  have m: "(tail s + i) mod ?n = (if tail s + i < ?n then tail s + i else tail s + i - ?n)"
      "(tail s + (i - 1)) mod ?n = (if tail s + (i - 1) < ?n then tail s + (i - 1) else tail s + (i - 1) - ?n)"
    by (rule mod_twice; use t in linarith)+
  have ne: "(tail s + i) mod ?n \<noteq> tail s" unfolding m using t assms(2) by auto
  have pv: "dec s ((tail s + i) mod ?n) = (tail s + (i - 1)) mod ?n" using assms(2) t unfolding dec_def m by auto
  have sl: "slot s (dec s ((tail s + i) mod ?n)) = ?x" unfolding pv by (rule slot_win [OF assms(1)])
  let ?s = "setSlot ((tail s + (i - 1)) mod ?n) (?x\<lparr> pEnd := True \<rparr>) s"
  have i: "i - 1 < sbLen s" "i - 1 < ?n" using assms(3) t(2) by linarith+
  have fl: "flagged s ?s" if "present ?x" using flagged_set [OF assms(1) i(1) that same_flag(1)] .
  have st: "pEnd (winAt ?s (i - 1))" using winAt_setSlot [OF assms(1) i(2) i(2)] by simp
  have "s' = s \<and> (present ?x \<longrightarrow> tsOf ?x = rtpTimestamp p) \<or> present ?x \<and> s' = ?s \<and> (tsOf ?x \<noteq> rtpTimestamp p \<longrightarrow> st)"
    using assms(4) ne unfolding linkPrev_def Let_def setEnd_def sl unfolding pv
    by (auto simp: present_def tsOf_def split: option.splits if_splits)
  then show ?thesis using fl st flagged_refl [OF assms(1)] by blast
qed

lemma mset_handed_fill:
  assumes "i < length w" "\<not> present (w ! i)" "present e"
  shows "mset (handed (w[i := e])) = add_mset (the (pPacket e), pBuff e) (mset (handed w))"
proof -
  have "w = take i w @ w ! i # drop (Suc i) w" using assms(1) by (rule id_take_nth_drop)
  moreover have "w[i := e] = take i w @ e # drop (Suc i) w" using assms(1) by (rule upd_conv_take_nth_drop)
  ultimately have "handed (w[i := e]) = handed (take i w) @ (the (pPacket e), pBuff e) # handed (drop (Suc i) w)"
      "handed w = handed (take i w) @ handed (drop (Suc i) w)"
    using assms(2,3) by (simp, metis append_Nil handed_simps(2,3))
  then show ?thesis by simp
qed

text \<open>Filling the hole at position \<open>i\<close>.\<close>

lemma fill_pushed:
  assumes "geo s" "frames_ok (win s)" "i < sbLen s" "\<not> present (winAt s i)" "SequenceNumber p = seqOf (hd (win s)) + of_nat i"
    and "linkPrev ((tail s + i) mod length (packets s)) p s = (s2, st)" "linkNext ((tail s + i) mod length (packets s)) p s2 = (s3, en)"
  shows "pushed p buf s (setSlot ((tail s + i) mod length (packets s)) (newSlot s3 st en p buf) s3)"
proof -
  let ?n = "length (packets s)" and ?e = "newSlot s3 st en p buf"
  have ne: "win s \<noteq> []" using assms(3) win_Nil [of s] by simp
  have i0: "0 < i" using frames_okD(1) [OF assms(2) ne] assms(3,4) win_hd [of s] by (cases i) auto
  note lp = linkPrev_win [OF assms(1) i0 assms(3,6)]
  note d2 = flaggedD [OF conjunct1 [OF lp]]
  have i2: "i < sbLen s2" using assms(3) d2(4) by simp
  note ln = linkNext_win [OF d2(1) i2, of p s3 en, unfolded d2(2,3), OF assms(7)]
  note d3 = flaggedD [OF conjunct1 [OF ln]] and d = flaggedD [OF flagged_trans [OF conjunct1 [OF lp] conjunct1 [OF ln]]]
  have f3: "frames_ok (win s3)" by (rule frames_ok_more [OF d(6) assms(2)])
  have i3: "i < sbLen s3" "i - 1 < sbLen s" using assms(3) d(4) by simp_all
  have np: "\<not> present (win s3 ! i)" using assms(3,4) d(7) [OF assms(3)] i3 moreD(1) by simp
  have h3: "seqOf (hd (win s3)) = seqOf (hd (win s))" using moreD(2) [OF hd_more [OF d(6) ne]] .
  have fp: "flags_ok (win s3 ! (i - 1)) ?e"
  proof -
    have "more (winAt s (i - 1)) (winAt s2 (i - 1))" "more (winAt s2 (i - 1)) (winAt s3 (i - 1))"
      using d2(7) [OF i3(2)] d3(7) [of "i - 1"] i3(2) d2(4) by simp_all
    then show ?thesis using lp moreD i3 d(4) by (simp add: flags_ok_def)
  qed
  have fn: "flags_ok ?e (win s3 ! Suc i)" if "Suc i < length (win s3)"
  proof -
    have "more (winAt s2 (Suc i)) (winAt s3 (Suc i))" "Suc i < sbLen s2" using d3(7) [of "Suc i"] that d3(4) by simp_all
    then show ?thesis using ln moreD that by (simp add: flags_ok_def)
  qed
  have i1: "Suc i < length (win s3)"
  proof (rule ccontr)
    assume "\<not> Suc i < length (win s3)"
    then have "i = sbLen s3 - 1" "0 < sbLen s3" using i3(1) by simp_all
    then show False using frames_okD(2) [OF f3] np win_last [of s3] win_Nil [of s3] by simp
  qed
  have q: "seqOf ?e = seqOf (hd (win s3)) + of_nat i" using assms(5) h3 by simp
  note F = frames_ok_fill(3) [OF f3 _ np _ q fp fn [OF i1]]
  have "win (setSlot ((tail s + i) mod ?n) ?e s3) = (win s3)[i := ?e]" "geo (setSlot ((tail s + i) mod ?n) ?e s3)"
    using win_setSlot [OF d(1) i3(1), of ?e] geo_setSlot [OF d(1) i3(1), of ?e] by (simp_all add: d(2,3))
  moreover have "frames_ok ((win s3)[i := ?e])" using F i3(1) by simp
  moreover have "mset (handed ((win s3)[i := ?e])) = add_mset (p, buf) (mset (handed (win s)))"
    using mset_handed_fill [of i "win s3" ?e] i3(1) np handed_more [OF d(6)] by simp
  moreover have "hd ((win s3)[i := ?e]) = hd (win s3)" using i0 by (cases "win s3"; cases i) auto
  moreover have "buf_upd s (setSlot ((tail s + i) mod ?n) ?e s3)" using buf_upd_trans [OF d(5)] by simp
  ultimately show ?thesis using h3 ne by (simp add: pushed_def)
qed

text \<open>A packet before the window, at the distance \<open>k\<close>.\<close>

lemma front_pushed:
  assumes "geo s" "frames_ok (win s)" "win s \<noteq> []" "0 < k" "sbLen s + k < length (packets s)" "seqOf (hd (win s)) = SequenceNumber p + of_nat k"
    and "s1 = s\<lparr> tail := (tail s + length (packets s) - k) mod length (packets s) \<rparr>"
    and "linkNext (tail s1) p s1 = (s3, en)"
  shows "pushed p buf s (setSlot (tail s1) (newSlot s3 st en p buf) s3)" "\<not> present (slot s1 (tail s1))"
proof -
  let ?n = "length (packets s)" and ?e = "newSlot s3 st en p buf"
  have l: "0 < sbLen s" using assms(3) win_Nil [of s] by simp
  note gb = growBack [OF assms(1,5) l assms(7)]
  have p1: "packets s1 = packets s" "buf_upd s s1" using assms(7) by simp_all
  have t1: "(tail s1 + 0) mod ?n = tail s1" using geoD(4) [OF gb(1)] by (simp add: p1)
  have z: "0 < sbLen s1" using gb(2) l by simp
  note ln = linkNext_win [OF gb(1) z, of p s3 en, unfolded p1 t1, OF assms(8)]
  note d = flaggedD [OF conjunct1 [OF ln]]
  have p0: "\<not> present packet0" by (simp add: present_def packet0_def)
  have w1: "win s1 = packet0 # replicate (k - 1) packet0 @ win s" using gb(3) assms(4) by (cases k) simp_all
  have "winAt s1 0 = packet0" using win_hd [OF z] w1 by simp
  then show "\<not> present (slot s1 (tail s1))" using slot_tail [OF gb(1)] p0 by simp
  obtain w3 where w3: "win s3 = packet0 # replicate (k - 1) packet0 @ w3" "list_all2 more (win s) w3"
  proof -
    have r: "list_all2 more (replicate m packet0) v \<Longrightarrow> v = replicate m packet0" for m v
      using p0 by (induction m arbitrary: v) (auto simp: list_all2_Cons1 more_def)
    have "list_all2 more (replicate k packet0 @ win s) (win s3)" using d(6) gb(3) by simp
    then obtain u w3 where "win s3 = u @ w3" "list_all2 more (replicate k packet0) u" "list_all2 more (win s) w3"
      by (auto simp: list_all2_append1)
    then show ?thesis using that r [of k u] assms(4) by (cases k) auto
  qed
  have f3: "frames_ok w3" "w3 \<noteq> []" "seqOf (hd w3) = seqOf (hd (win s))" "handed w3 = handed (win s)"
    using frames_ok_more [OF w3(2) assms(2)] w3(2) assms(3) moreD(2) [OF hd_more [OF w3(2) assms(3)]] handed_more [OF w3(2)] by auto
  have fl: "flags_ok ?e (hd w3)" if "k = 1"
  proof -
    have "sbLen s3 = Suc (length w3)" using w3(1) that length_win [of s3] by simp
    then have s: "Suc 0 < sbLen s1" "winAt s3 (Suc 0) = hd w3"
      using d(4) f3(2) w3(1) that win_nth [of "Suc 0" s3] by (auto simp: hd_conv_nth neq_Nil_conv)
    show ?thesis using ln s d(7) [OF s(1)] moreD that by (simp add: flags_ok_def)
  qed
  have w4: "win (setSlot (tail s1) ?e s3) = ?e # replicate (k - 1) packet0 @ w3" "geo (setSlot (tail s1) ?e s3)"
    using win_setSlot [OF d(1), of 0 ?e] geo_setSlot [OF d(1), of 0 ?e] z w3(1) unfolding d(2,3,4) p1 t1 by simp_all
  have fo: "frames_ok (?e # replicate (k - 1) packet0 @ w3)"
    by (rule frames_ok_front [OF f3(1,2)]) (use f3(3) assms(4,6) fl in simp_all)
  have "handed (replicate (k - 1) packet0) = []" using p0 by (simp add: handed_def)
  then have "handed (?e # replicate (k - 1) packet0 @ w3) = (p, buf) # handed (win s)" using f3(4) by simp
  moreover have "fits (SequenceNumber p) (win s)"
    using assms(4-6) geoD(5,8) [OF assms(1)] l by (auto simp: fits_def intro!: exI [of _ k])
  moreover have "buf_upd s (setSlot (tail s1) ?e s3)" using buf_upd_trans [OF p1(2) buf_upd_trans [OF d(5)]] by simp
  ultimately show "pushed p buf s (setSlot (tail s1) ?e s3)" using w4 fo by (simp add: pushed_def)
qed

lemma pushPast_ok:
  assumes "geo s" "frames_ok (win s)" "win s \<noteq> []" "0 < offset" "SequenceNumber p + of_nat offset = seqOf (List.last (win s)) + 1"
  shows "pushPast offset p buf s = callHandler p buf s \<or> pushed p buf s (pushPast offset p buf s)"
proof (cases "offset \<ge> cap s")
  case True
  then show ?thesis by (simp add: pushPast_def)
next
  case False
  let ?n = "length (packets s)" and ?L = "sbLen s"
  note g = geoD(1-4) [OF assms(1)]
  have l: "0 < ?L" "?L < ?n" using assms(3) win_Nil [of s] geo_sbLen(1) [OF assms(1)] by simp_all
  have o: "offset + 1 < ?n" using False by (simp add: cap_def)
  define index where "index = (if head s \<ge> offset then head s - offset else head s + ?n - offset)"
  have ix: "(if head s \<ge> offset then head s - offset else u16 (u16 (head s + ?n) + 65536 - offset)) = index"
  proof -
    have w: "u16 n = n" "u16 (n + 65536) = n" if "n < 65536" for n using that by (simp_all add: u16_def)
    have e: "head s + ?n + 65536 - offset = (head s + ?n - offset) + 65536" using o by linarith
    have b: "head s + ?n < 65536" "head s + ?n - offset < 65536" using g by linarith+
    show ?thesis unfolding index_def w(1) [OF b(1)] e w(2) [OF b(2)] by (rule refl)
  qed
  have le: "?L = (if tail s \<le> head s then head s - tail s else head s + ?n - tail s)" using sbLen_eq g by blast
  have "SequenceNumber p + of_nat offset = seqOf (hd (win s)) + of_nat ?L"
    using assms(5) seqOf_last [OF assms(2,3)] l(1) by (simp add: of_nat_diff)
  then have q: "SequenceNumber p = seqOf (hd (win s)) + of_nat ?L - of_nat offset" by (simp add: algebra_simps)
  show ?thesis
  proof (cases "offset \<le> ?L")
    case True
    have et: "extendTail index s = s" using True o g(3,4) assms(4) unfolding extendTail_def index_def le by (auto split: if_splits)
    have i: "index = (tail s + (?L - offset)) mod ?n"
    proof -
      have "(tail s + (?L - offset)) mod ?n = (if tail s + (?L - offset) < ?n then tail s + (?L - offset) else tail s + (?L - offset) - ?n)"
        by (rule mod_twice) (use g l in linarith)
      then show ?thesis using True g(3,4) assms(4) unfolding index_def le by (auto split: if_splits)
    qed
    have sl: "slot s index = winAt s (?L - offset)" unfolding i by (rule slot_win [OF assms(1)])
    show ?thesis
    proof (cases "present (winAt s (?L - offset))")
      case True
      then have "pushPast offset p buf s = callHandler p buf s"
        using False unfolding pushPast_def Let_def ix et sl by (simp add: present_def)
      then show ?thesis ..
    next
      case hole: False
      obtain s2 st where lp: "linkPrev index p s = (s2, st)" by fastforce
      obtain s3 en where ln: "linkNext index p s2 = (s3, en)" by fastforce
      have "pushPast offset p buf s = setSlot index (newSlot s3 st en p buf) s3"
        using False hole unfolding pushPast_def Let_def ix et sl lp ln prod.case by (simp add: present_def ln)
      moreover have "pushed p buf s (setSlot index (newSlot s3 st en p buf) s3)"
        unfolding i by (rule fill_pushed [OF assms(1,2) _ hole]) (use lp ln i q True assms(4) l in \<open>simp_all add: of_nat_diff\<close>)
      ultimately show ?thesis by simp
    qed
  next
    case out: False
    define k where "k = offset - ?L"
    have k: "0 < k" "?L + k < ?n" "offset = ?L + k" using out o by (simp_all add: k_def)
    define s1 where "s1 = s\<lparr> tail := (tail s + ?n - k) mod ?n \<rparr>"
    have i: "index = (tail s + ?n - k) mod ?n"
    proof -
      have "(tail s + ?n - k) mod ?n = (if tail s + ?n - k < ?n then tail s + ?n - k else tail s + ?n - k - ?n)"
        by (rule mod_twice) (use g in linarith)
      then show ?thesis using k g(3,4) l unfolding index_def le by (auto split: if_splits)
    qed
    have et: "extendTail index s = s1" and t1: "tail s1 = index"
    proof -
      have "if tail s < head s then index < tail s \<or> index > head s else index < tail s \<and> index > head s"
        using k g(3,4) l unfolding index_def le by (auto split: if_splits)
      then show "extendTail index s = s1" unfolding extendTail_def s1_def i by auto
      show "tail s1 = index" by (simp add: s1_def i)
    qed
    have h: "seqOf (hd (win s)) = SequenceNumber p + of_nat k" using q k(3) by (simp add: algebra_simps)
    obtain s3 en where ln: "linkNext (tail s1) p s1 = (s3, en)" by fastforce
    have lp: "linkPrev index p s1 = (s1, isStart s1 p)" using t1 by (simp add: linkPrev_def Let_def)
    note F = front_pushed [OF assms(1-3) k(1,2) h s1_def ln]
    have "pushPast offset p buf s = setSlot index (newSlot s3 (isStart s1 p) en p buf) s3"
      using False F(2) ln unfolding pushPast_def Let_def ix et lp prod.case t1 by (simp add: present_def)
    then show ?thesis using F(1) unfolding t1 by auto
  qed
qed

section \<open>All cases of a push\<close>

text \<open>What the builder holds and has handed back.\<close>

definition accounted :: "'d SampleBuilder \<Rightarrow> (rtpPacket \<times> nat) multiset" where
  "accounted s = mset (handed (win s)) + mset (sbReleased s)"

text \<open>The state after a push that took the packet: stored, or handed back.\<close>

definition taken :: "rtpPacket \<Rightarrow> nat \<Rightarrow> 'd SampleBuilder \<Rightarrow> 'd SampleBuilder \<Rightarrow> bool" where
  "taken p buf s s' \<longleftrightarrow> sb_inv s' \<and> maxLate s' = maxLate s \<and> hasHandler s' = hasHandler s \<and> depacketizer s' = depacketizer s \<and> dpState s' = dpState s \<and>
     (hasHandler s \<longrightarrow> accounted s' = add_mset (p, buf) (accounted s))"

definition fair :: "rtpPacket \<Rightarrow> 'd SampleBuilder \<Rightarrow> bool" where
  "fair p s \<longleftrightarrow> (lastSeqnoValid s \<longrightarrow> fits (SequenceNumber p) (win s) \<longrightarrow> before (lastSeqno s) (SequenceNumber p))"

lemma shrinks_accounted:
  assumes "shrinks k s s'" "hasHandler s"
  shows "accounted s' = accounted s"
proof -
  have "handed (win s) = handed (take k (win s)) @ handed (drop k (win s))" by (metis append_take_drop_id handed_simps(3))
  then show ?thesis using shrinksD(3,6) [OF assms(1)] assms(2) by (simp add: accounted_def)
qed

lemma taken_handler:
  assumes "sb_inv s"
  shows "taken p buf s (callHandler p buf s)"
proof -
  have "sb_inv (callHandler p buf s)" using assms by (simp add: sb_inv_def)
  then show ?thesis by (simp add: taken_def accounted_def) (simp add: callHandler_def)
qed

lemma taken_pushed:
  assumes "sb_inv s" "pushed p buf s s'" "fair p s"
  shows "taken p buf s s'"
  using pushed_inv [OF assms(1,2)] assms(2,3) buf_updD [of s s'] by (auto simp: taken_def accounted_def pushed_def fair_def)

lemma taken_shrinks:
  assumes "shrinks k s s1" "taken p buf s1 s'"
  shows "taken p buf s s'"
  using shrinksD(5,7,8,9) [OF assms(1)] shrinks_accounted [OF assms(1)] assms(2) by (auto simp: taken_def)

text \<open>After a release of the whole window the last sequence number is the newest one.\<close>

lemma shrinks_all:
  assumes "frames_ok (win s)" "win s \<noteq> []" "shrinks k s s'" "win s' = []"
  shows "lastSeqnoValid s' \<and> lastSeqno s' = seqOf (List.last (win s))"
proof -
  have k: "k = length (win s)" "k \<noteq> 0" using shrinksD(3,4) [OF assms(3)] assms(2,4) win_Nil [of s] by auto
  then show ?thesis using assms(3) last_released_all [OF assms(1,2)] by (simp add: shrinks_def)
qed

lemma shrinks_last_win: "shrinks k s s' \<Longrightarrow> win s' \<noteq> [] \<Longrightarrow> List.last (win s') = List.last (win s)"
  using shrinksD(3) [of k s s'] by (simp add: last_drop)

lemma fair_after:
  assumes "frames_ok (win s)" "win s \<noteq> []" "shrinks k s s'" "win s' = []" "SequenceNumber p = seqOf (List.last (win s)) + of_nat n" "0 < n" "n < 32768"
  shows "fair p s'"
  using shrinks_all [OF assms(1-4)] assms(5-7) unat_of_nat16 [of n] by (simp add: fair_def before_iff)

lemma fair_inside:
  assumes "win s \<noteq> []" "\<not> fits (SequenceNumber p) (win s)"
  shows "fair p s"
  using assms by (simp add: fair_def)

lemma not_fits:
  assumes "geo s" "frames_ok (win s)" "win s \<noteq> []" "SequenceNumber p = seqOf (List.last (win s)) + of_nat n" "n \<le> 21844"
  shows "\<not> fits (SequenceNumber p) (win s)"
proof
  assume "fits (SequenceNumber p) (win s)"
  then obtain k where k: "0 < k" "k < 21844" "seqOf (hd (win s)) = SequenceNumber p + of_nat k" using assms(3) by (auto simp: fits_def)
  have "of_nat (sbLen s - 1 + n + k) = (0 :: 16 word)"
    using k(3) assms(4) seqOf_last [OF assms(2,3)] by (simp add: algebra_simps)
  moreover have "sbLen s \<le> 21844" using geo_sbLen(1) [OF assms(1)] geoD(5,8) [OF assms(1)] by linarith
  then have "sbLen s - 1 + n + k < 65536" "0 < sbLen s - 1 + n + k" using k(1,2) assms(5) by auto
  ultimately show False using unat_of_nat16 [of "sbLen s - 1 + n + k"] by simp
qed

lemma pushSequential_ok:
  assumes "sb_inv s" "win s \<noteq> []" "SequenceNumber p = seqOf (List.last (win s)) + 1" "newest = dec s (head s)"
  shows "(\<exists>s'. pushSequential newest p buf s = Inr s' \<and> taken p buf s s') \<or>
    pushSequential newest p buf s = Inl (Panics (ErrorPanic (PlainError ''this is impossible''))) \<and>
    sbLen s = cap s \<and> tsOf (hd (win s)) = rtpTimestamp p"
proof -
  note i = sb_invD [OF assms(1)]
  have l: "0 < sbLen s" "sbLen s \<le> cap s" using assms(2) win_Nil [of s] geo_sbLen(1) [OF i(1)] by (auto simp: cap_def)
  have one: "SequenceNumber p = seqOf (List.last (win s)) + of_nat 1" using assms(3) by simp
  show ?thesis
  proof (cases "sbLen s = cap s")
    case False
    then have nf: "tail s \<noteq> inc s (head s)"
    proof -
      have "inc s (head s) = (tail s + Suc (sbLen s)) mod length (packets s)"
        using inc_win [OF i(1), of "sbLen s"] geo_sbLen(2) [OF i(1)] by simp
      moreover have "(tail s + Suc (sbLen s)) mod length (packets s) \<noteq> (tail s + 0) mod length (packets s)"
      proof
        have s: "Suc (sbLen s) < length (packets s)" "0 < length (packets s)" using False l geoD(1) [OF i(1)] unfolding cap_def by linarith+
        assume "(tail s + Suc (sbLen s)) mod length (packets s) = (tail s + 0) mod length (packets s)"
        from mod_index_inj [OF this geoD(4) [OF i(1)] s] show False by simp
      qed
      ultimately show ?thesis using geoD(4) [OF i(1)] by simp
    qed
    obtain s' where "putSequential newest p buf s = Inr s'" "pushed p buf s s'"
      using putSequential_pushed [OF i(1,2)] False l assms(3,4) by force
    then show ?thesis using nf taken_pushed [OF assms(1)] fair_inside [OF assms(2) not_fits [OF i(1,2) assms(2) one]] by (simp add: pushSequential_def)
  next
    case True
    then have fu: "tail s = inc s (head s)"
    proof -
      have "inc s (head s) = (tail s + Suc (sbLen s)) mod length (packets s)"
        using inc_win [OF i(1), of "sbLen s"] geo_sbLen(2) [OF i(1)] by simp
      moreover have "Suc (sbLen s) = length (packets s)" using True l by (simp add: cap_def)
      ultimately show ?thesis using geoD(4) [OF i(1)] by simp
    qed
    obtain s1 k where d: "drop_frame s = Inr (s1, Some (tsOf (hd (win s))))" "shrinks (Suc k) s s1"
      using drop_frame_shrinks [OF i(1,2) assms(2)] by blast
    note sd = shrinksD [OF d(2)] and i1 = shrinks_inv [OF assms(1) d(2)]
    have em: "tail s1 \<noteq> head s1 \<longleftrightarrow> win s1 \<noteq> []" using win_empty [OF sd(1)] by auto
    show ?thesis
    proof (cases "tsOf (hd (win s)) = rtpTimestamp p")
      case ts: True
      show ?thesis
      proof (cases "win s1 = []")
        case empty: True
        then have "pushSequential newest p buf s = Inr (callHandler p buf s1)" using fu d(1) ts em by (simp add: pushSequential_def)
        then show ?thesis using taken_shrinks [OF d(2) taken_handler [OF i1]] by blast
      next
        case False
        then show ?thesis using True ts fu d(1) em by (simp add: pushSequential_def)
      qed
    next
      case ts: False
      have c: "cap s1 = cap s" using geoD(5) [OF sd(1)] geoD(5) [OF i(1)] sd(7) by (simp add: cap_def)
      have "sbLen s1 < cap s1" using sd(3) l c length_win [of s1] by simp
      moreover have "newest = dec s1 (head s1)" if "win s1 \<noteq> []"
        using sd(10) [OF that] assms(4) geoD(5) [OF sd(1)] geoD(5) [OF i(1)] sd(7) by (simp add: dec_def)
      moreover have "SequenceNumber p = seqOf (List.last (win s1)) + 1" if "win s1 \<noteq> []" using shrinks_last_win [OF d(2) that] assms(3) by simp
      ultimately obtain s' where s': "putSequential newest p buf s1 = Inr s'" "pushed p buf s1 s'"
        using putSequential_pushed [OF sd(1,2)] by blast
      have "fair p s1"
      proof (cases "win s1 = []")
        case True
        then show ?thesis using fair_after [OF i(2) assms(2) d(2) _ one] by simp
      next
        case False
        then show ?thesis using fair_inside [OF False not_fits [OF sd(1,2) False, of p 1]] shrinks_last_win [OF d(2) False] one by simp
      qed
      then have "taken p buf s s'" using taken_shrinks [OF d(2) taken_pushed [OF i1 s'(2)]] by blast
      then show ?thesis using fu d(1) s'(1) ts by (simp add: pushSequential_def)
    qed
  qed
qed

definition late :: "rtpPacket \<Rightarrow> 'd SampleBuilder \<Rightarrow> bool" where
  "late p s \<longleftrightarrow> lastSeqnoValid s \<and> nonneg (lastSeqno s - SequenceNumber p) \<and> lastSeqno s - SequenceNumber p \<le> maxLate s"

lemma pushLate_cases:
  assumes "sb_inv s"
  shows "late p s \<and> pushLate p s = Inr None \<or>
    \<not> late p s \<and> (\<exists>v l. pushLate p s = Inr (Some (s\<lparr> lastSeqnoValid := v, lastSeqno := l \<rparr>)) \<and>
       sb_inv (s\<lparr> lastSeqnoValid := v, lastSeqno := l \<rparr>) \<and> fair p (s\<lparr> lastSeqnoValid := v, lastSeqno := l \<rparr>))"
proof -
  have "pushLate p s = Inr None \<longleftrightarrow> late p s"
    by (auto simp: pushLate_def late_def Let_def bind_res_def split: sum.splits)
  then show ?thesis using pushLate_ok [OF assms, of p] by (auto simp: fair_def)
qed

lemma taken_upd: "taken p buf (s\<lparr> lastSeqnoValid := v, lastSeqno := l \<rparr>) s' \<Longrightarrow> taken p buf s s'"
  by (simp add: taken_def accounted_def)

lemma pushFuel_late: "sb_inv s \<Longrightarrow> late p s \<Longrightarrow> pushFuel fuel p buf s = Inr s"
  using pushLate_cases [of s p] by (auto simp: pushFuel.simps)

lemma pushFuel_empty:
  assumes "sb_inv s" "win s = []" "\<not> late p s"
  shows "\<exists>s'. pushFuel fuel p buf s = Inr s' \<and> taken p buf s s'"
proof -
  obtain v l where r: "pushLate p s = Inr (Some (s\<lparr> lastSeqnoValid := v, lastSeqno := l \<rparr>))"
      "sb_inv (s\<lparr> lastSeqnoValid := v, lastSeqno := l \<rparr>)" "fair p (s\<lparr> lastSeqnoValid := v, lastSeqno := l \<rparr>)"
    using pushLate_cases [OF assms(1), of p] assms(3) by blast
  let ?s = "s\<lparr> lastSeqnoValid := v, lastSeqno := l \<rparr>"
  have "head ?s = tail ?s" using win_empty [OF sb_invD(1) [OF r(2)]] assms(2) by simp
  then have "pushFuel fuel p buf s = Inr (pushEmpty p buf ?s)" using r(1) by (simp add: pushFuel.simps)
  moreover have "pushed p buf ?s (pushEmpty p buf ?s)" by (rule pushEmpty_pushed [OF sb_invD(1) [OF r(2)]]) (simp add: assms(2))
  ultimately show ?thesis using taken_upd [OF taken_pushed [OF r(2) _ r(3)]] by blast
qed

text \<open>The packet is ahead of the newest one by \<open>offset + 1\<close>, which is less than half of the numbers.\<close>

lemma pushFuture_ok:
  assumes "sb_inv s" "win s \<noteq> []" "SequenceNumber p = seqOf (List.last (win s)) + of_nat (offset + 1)" "0 < offset" "offset + 1 \<le> cap s"
  shows "\<exists>s'. bind_res (makeRoom (length (packets s)) (offset + 1) s) (\<lambda>(s1, ok). Inr (if ok then putFuture offset p buf s1 else callHandler p buf s1)) =
      Inr s' \<and> taken p buf s s'"
proof -
  note i = sb_invD [OF assms(1)]
  have b: "cap s \<le> 21844" using geoD(5,8) [OF i(1)] by (simp add: cap_def)
  obtain s1 k where m: "makeRoom (length (packets s)) (offset + 1) s = Inr (s1, True)" "shrinks k s s1" "sbLen s1 + (offset + 1) \<le> cap s"
    using makeRoom_shrinks [OF i(1,2) assms(5), of "length (packets s)"] geo_sbLen(1) [OF i(1)] by auto
  note sd = shrinksD [OF m(2)] and i1 = shrinks_inv [OF assms(1) m(2)]
  have c: "cap s1 = cap s" using geoD(5) [OF sd(1)] geoD(5) [OF i(1)] sd(7) by (simp add: cap_def)
  have "pushed p buf s1 (putFuture offset p buf s1) \<and> fair p s1"
  proof (cases "win s1 = []")
    case True
    then have "putFuture offset p buf s1 = pushEmpty p buf s1" using win_empty [OF sd(1)] by (simp add: putFuture_def)
    moreover have "fair p s1" by (rule fair_after [OF i(2) assms(2) m(2) True assms(3)]) (use assms(5) b in simp_all)
    ultimately show ?thesis using pushEmpty_pushed [OF sd(1) True] by simp
  next
    case False
    have u: "u16 (head s1 + offset) = head s1 + offset" using geoD(2,3) [OF sd(1)] assms(5) b by (simp add: u16_def)
    have x: "u16 (head s1 + offset) mod length (packets s1) = (tail s1 + (sbLen s1 + offset)) mod length (packets s1)"
      unfolding u by (subst geo_sbLen(2) [OF sd(1)]) (simp add: mod_add_left_eq add.assoc)
    have q: "SequenceNumber p = seqOf (List.last (win s1)) + of_nat (offset + 1)" using shrinks_last_win [OF m(2) False] assms(3) by simp
    have q': "SequenceNumber p = seqOf (hd (win s1)) + of_nat (sbLen s1 + offset)"
      using q seqOf_last [OF sd(2) False] False win_Nil [of s1] by (simp add: of_nat_diff)
    let ?e = "newSlot s1 (isStart s1 p) (isEnd s1 p) p buf"
    have pf: "putFuture offset p buf s1 = (setSlot ((tail s1 + (sbLen s1 + offset)) mod length (packets s1)) ?e s1)\<lparr> head := (tail s1 + Suc (sbLen s1 + offset)) mod length (packets s1) \<rparr>"
      using False win_empty [OF sd(1)] inc_win [OF sd(1), of "sbLen s1 + offset"] unfolding putFuture_def Let_def x by simp
    have "pushed p buf s1 (putFuture offset p buf s1)"
      by (rule append_pushed [OF sd(1,2) _ _ _ _ _ _ pf]) (use assms(4) q' False m(3) c in simp_all)
    moreover have "fair p s1" using fair_inside [OF False not_fits [OF sd(1,2) False q]] assms(5) b by simp
    ultimately show ?thesis ..
  qed
  then show ?thesis using m(1) taken_shrinks [OF m(2) taken_pushed [OF i1]] by auto
qed

definition impossible :: "rtpPacket \<Rightarrow> 'd SampleBuilder \<Rightarrow> bool" where
  "impossible p s \<longleftrightarrow> sbLen s = cap s \<and> tsOf (hd (win s)) = rtpTimestamp p \<and> SequenceNumber p = seqOf (List.last (win s)) + 1"

lemma pushFuel_ok:
  assumes "sb_inv s" "\<not> late p s"
  shows "(\<exists>s'. pushFuel (Suc n) p buf s = Inr s' \<and> taken p buf s s') \<or>
    pushFuel (Suc n) p buf s = Inl (Panics (ErrorPanic (PlainError ''this is impossible''))) \<and> impossible p s"
proof (cases "win s = []")
  case True
  then show ?thesis using pushFuel_empty [OF assms(1) True assms(2)] by blast
next
  case ne: False
  obtain v l where r: "pushLate p s = Inr (Some (s\<lparr> lastSeqnoValid := v, lastSeqno := l \<rparr>))"
      "sb_inv (s\<lparr> lastSeqnoValid := v, lastSeqno := l \<rparr>)" "fair p (s\<lparr> lastSeqnoValid := v, lastSeqno := l \<rparr>)"
    using pushLate_cases [OF assms(1), of p] assms(2) by blast
  define s1 where "s1 = s\<lparr> lastSeqnoValid := v, lastSeqno := l \<rparr>"
  have s1: "sb_inv s1" "fair p s1" "win s1 = win s" "win s1 \<noteq> []" "cap s1 = cap s" "sbLen s1 = sbLen s"
    using r(2,3) ne view_cong(3) [of s1 s] by (simp_all add: s1_def cap_def)
  note i = sb_invD [OF s1(1)]
  have tk: "taken p buf s1 s' \<Longrightarrow> taken p buf s s'" for s' unfolding s1_def by (rule taken_upd)
  let ?q = "SequenceNumber p" and ?m = "seqOf (List.last (win s1))" and ?new = "dec s1 (head s1)"
  have ht: "head s1 \<noteq> tail s1" using win_empty [OF i(1)] s1(4) by simp
  have nw: "packetAt s1 ?new = Inr (the (pPacket (List.last (win s1))))" by (rule newest_win [OF i(1,2) s1(4)])
  have body: "pushFuel (Suc n) p buf s =
     (if ?q = ?m then Inr (callHandler p buf s1)
      else if ?q = ?m + 1 then pushSequential ?new p buf s1
      else if nonneg (?q - ?m)
      then (let offset = unat (?q - ?m - 1); cnt = u16 (offset + 1)
            in if cnt > cap s1 then bind_res (releaseAll s1) (\<lambda>s2. pushFuel n p buf s2)
               else bind_res (makeRoom (length (packets s1)) cnt s1) (\<lambda>(s2, ok).
                      Inr (if ok then putFuture offset p buf s2 else callHandler p buf s2)))
      else Inr (pushPast (unat (?m - ?q + 1)) p buf s1))"
    using r(1) ht nw by (subst pushFuel.simps) (simp add: Let_def seqOf_def flip: s1_def)
  have d1: "unat (?q - ?m) = unat (?q - ?m - 1) + 1" if "?q \<noteq> ?m" using that unat_minus_one [of "?q - ?m"] by (simp add: unat_gt_0)
  consider "?q = ?m" | "?q = ?m + 1" | "?q \<noteq> ?m" "?q \<noteq> ?m + 1" "nonneg (?q - ?m)" | "?q \<noteq> ?m" "?q \<noteq> ?m + 1" "\<not> nonneg (?q - ?m)" by blast
  then show ?thesis
  proof cases
    case 1
    then show ?thesis using body tk [OF taken_handler [OF s1(1)]] by auto
  next
    case 2
    then have q: "?q \<noteq> ?m" by simp
    show ?thesis
      using body 2 q pushSequential_ok [OF s1(1,4) 2 refl, of buf] tk s1(3,5,6) by (auto simp: impossible_def)
  next
    case 3
    define offset where "offset = unat (?q - ?m - 1)"
    have nn: "unat (?q - ?m) < 32768" using 3(3) by (simp add: nonneg_iff)
    have o: "offset + 1 = unat (?q - ?m)" using d1 [OF 3(1)] by (simp add: offset_def)
    have q: "?q = ?m + of_nat (offset + 1)" unfolding o by simp
    have u: "u16 (offset + 1) = offset + 1" using nn o by (simp add: u16_def)
    have o0: "0 < offset" using 3(2) q by (cases offset) auto
    show ?thesis
    proof (cases "offset + 1 \<le> cap s1")
      case True
      then show ?thesis using body 3 u pushFuture_ok [OF s1(1,4) q o0 True, of buf] tk by (auto simp: Let_def simp flip: offset_def)
    next
      case False
      obtain s2 where s2: "releaseAll s1 = Inr s2" "shrinks (length (win s1)) s1 s2" using releaseAll_shrinks [OF i(1,2)] by blast
      have e: "win s2 = []" using shrinksD(3) [OF s2(2)] by simp
      note a = shrinks_all [OF i(2) s1(4) s2(2) e]
      have "lastSeqno s2 - ?q = 0 - of_nat (offset + 1)" using a q by (simp add: algebra_simps)
      moreover have "unat (of_nat (offset + 1) :: 16 word) = offset + 1" using nn o by (intro unat_of_nat16) simp
      ultimately have "\<not> nonneg (lastSeqno s2 - ?q)" using not_late [of "of_nat (offset + 1)"] nn o by simp
      then have "\<not> late p s2" by (simp add: late_def)
      from pushFuel_empty [OF shrinks_inv [OF s1(1) s2(2)] e this] obtain s3 where
        "pushFuel n p buf s2 = Inr s3" "taken p buf s2 s3" by blast
      then show ?thesis
        using body 3 u False s2(1) tk [OF taken_shrinks [OF s2(2)]] by (auto simp: Let_def simp flip: offset_def)
    qed
  next
    case 4
    have o: "0 < unat (?m - ?q + 1)" using 4(2) by (simp add: unat_gt_0 algebra_simps)
    have "SequenceNumber p + of_nat (unat (?m - ?q + 1)) = ?m + 1" by simp
    from pushPast_ok [OF i(1,2) s1(4) o this, of buf] show ?thesis
      using body 4 tk [OF taken_handler [OF s1(1)]] tk [OF taken_pushed [OF s1(1) _ s1(2)]] by auto
  qed
qed

section \<open>Pop\<close>

lemma findEnd_win:
  assumes "geo s" "frames_ok (win s)" "i \<le> sbLen s" "sbLen s - i \<le> fuel"
  shows "\<exists>r. findEnd fuel s ((tail s + i) mod length (packets s)) = Inr r \<and>
    (\<forall>lst. r = EndAt lst \<longrightarrow> (\<exists>j. i \<le> j \<and> j < sbLen s \<and> lst = (tail s + j) mod length (packets s) \<and> pEnd (winAt s j) \<and>
       (\<forall>m. i \<le> m \<and> m \<le> j \<longrightarrow> present (winAt s m)) \<and> (\<forall>m. i \<le> m \<and> m < j \<longrightarrow> \<not> pEnd (winAt s m))))"
  using assms(3,4)
proof (induction fuel arbitrary: i)
  case 0
  then have "(tail s + i) mod length (packets s) = head s" using geo_sbLen(2) [OF assms(1)] by simp
  then show ?case by (simp add: findEnd.simps)
next
  case (Suc n)
  let ?n = "length (packets s)"
  have hd: "(tail s + i) mod ?n = head s \<longleftrightarrow> i = sbLen s"
    using mod_index_inj [of "tail s" i ?n "sbLen s"] geo_sbLen(1,2) [OF assms(1)] geoD(4) [OF assms(1)] Suc.prems(1) by auto
  have sl: "slot s ((tail s + i) mod ?n) = winAt s i" by (rule slot_win [OF assms(1)])
  have pe: "pEnd (winAt s i) \<Longrightarrow> present (winAt s i)" if "i < sbLen s"
    using frames_okD(3) [OF assms(2), of "winAt s i"] that nth_mem [of i "win s"] by (cases "present (winAt s i)") (auto simp: packet0_def)
  consider "i = sbLen s" | "i < sbLen s" "pEnd (winAt s i)" | "i < sbLen s" "\<not> pEnd (winAt s i)" "\<not> present (winAt s i)"
    | "i < sbLen s" "\<not> pEnd (winAt s i)" "present (winAt s i)" using Suc.prems(1) by force
  then show ?case
  proof cases
    case 4
    obtain r where r: "findEnd n s ((tail s + Suc i) mod ?n) = Inr r"
      "\<forall>lst. r = EndAt lst \<longrightarrow> (\<exists>j. Suc i \<le> j \<and> j < sbLen s \<and> lst = (tail s + j) mod ?n \<and> pEnd (winAt s j) \<and>
       (\<forall>m. Suc i \<le> m \<and> m \<le> j \<longrightarrow> present (winAt s m)) \<and> (\<forall>m. Suc i \<le> m \<and> m < j \<longrightarrow> \<not> pEnd (winAt s m)))"
      using Suc.IH [of "Suc i"] 4(1) Suc.prems(2) by force
    have "findEnd (Suc n) s ((tail s + i) mod ?n) = Inr r"
      using 4 hd sl r(1) inc_win [OF assms(1), of i] by (subst findEnd.simps) (auto simp: present_def)
    moreover have "(\<exists>j. i \<le> j \<and> j < sbLen s \<and> lst = (tail s + j) mod ?n \<and> pEnd (winAt s j) \<and>
       (\<forall>m. i \<le> m \<and> m \<le> j \<longrightarrow> present (winAt s m)) \<and> (\<forall>m. i \<le> m \<and> m < j \<longrightarrow> \<not> pEnd (winAt s m)))" if e: "r = EndAt lst" for lst
    proof -
      obtain j where j: "Suc i \<le> j" "j < sbLen s" "lst = (tail s + j) mod ?n" "pEnd (winAt s j)"
          "\<forall>m. Suc i \<le> m \<and> m \<le> j \<longrightarrow> present (winAt s m)" "\<forall>m. Suc i \<le> m \<and> m < j \<longrightarrow> \<not> pEnd (winAt s m)"
        using r(2) [rule_format, OF e] by blast
      have "present (winAt s m)" if "i \<le> m" "m \<le> j" for m using 4(3) j(5) that by (cases "m = i") simp_all
      moreover have "\<not> pEnd (winAt s m)" if "i \<le> m" "m < j" for m using 4(2) j(6) that by (cases "m = i") simp_all
      moreover have "i \<le> j" using j(1) by simp
      ultimately show ?thesis using j(2-4) by blast
    qed
    ultimately show ?thesis by blast
  qed (use hd sl pe in \<open>auto simp: findEnd.simps [of "Suc n"] present_def\<close>)
qed

lemma frameCount_win:
  assumes "geo s" "j < sbLen s"
  shows "frameCount s ((tail s + j) mod length (packets s)) = (if tail s + j < length (packets s) then j + 1 else j)"
proof -
  let ?n = "length (packets s)"
  note g = geoD(1-4) [OF assms(1)]
  have j: "j < ?n" using geo_sbLen(1) [OF assms(1)] assms(2) by simp
  have m: "(tail s + j) mod ?n = (if tail s + j < ?n then tail s + j else tail s + j - ?n)"
    by (rule mod_twice) (use g j in linarith)
  have w: "u16 n = n" "u16 (n + 65536) = n" if "n < 65536" for n using that by (simp_all add: u16_def)
  show ?thesis
  proof (cases "tail s + j < ?n")
    case True
    have "tail s + j + 65536 - tail s + 1 = j + 1 + 65536" by simp
    then show ?thesis using True m w(2) [of "j + 1"] j g(2) by (simp add: frameCount_def)
  next
    case False
    have c: "cap s + (tail s + j - ?n) = tail s + j - 1" "tail s + j - 1 < 65536" using False g j unfolding cap_def by linarith+
    have e: "tail s + j - 1 + 65536 - tail s + 1 = j + 65536" using False g by linarith
    have "frameCount s (tail s + j - ?n) = u16 (u16 (cap s + (tail s + j - ?n)) + 65536 - tail s + 1)"
      using False g j by (simp add: frameCount_def)
    also have "\<dots> = j" unfolding c(1) w(1) [OF c(2)] e using j g(2) by (intro w(2)) linarith
    finally show ?thesis using False m by simp
  qed
qed

text \<open>The depacketizer run over payloads.\<close>

fun unmarshalAll :: "'d Depacketizer \<Rightarrow> 'd \<Rightarrow> 8 word list list \<Rightarrow> 8 word list option" where
  "unmarshalAll dp d [] = Some []"
| "unmarshalAll dp d (p # ps) =
     (case Unmarshal dp d p of
        (d', Inl _) \<Rightarrow> None
      | (d', Inr b) \<Rightarrow> map_option ((@) b) (unmarshalAll dp d' ps))"

definition payloads :: "packet list \<Rightarrow> 8 word list list" where
  "payloads w = map (\<lambda>e. Payload (the (pPacket e))) w"

lemma shrinks_dp:
  assumes "shrinks k (s\<lparr> dpState := d \<rparr>) s1"
  shows "shrinks k (s\<lparr> dpState := d' \<rparr>) (s1\<lparr> dpState := d' \<rparr>)"
  using assms shrinksD(2) [OF assms] unfolding shrinks_def by (auto split: if_splits)

lemma takeFrame_ok:
  assumes "geo s" "frames_ok (win s)" "n \<le> sbLen s" "\<forall>i < n. present (winAt s i)"
  shows "\<exists>s' k d. takeFrame n data s = Inr (s', map_option ((@) data) (unmarshalAll (depacketizer s) (dpState s) (payloads (take n (win s))))) \<and>
    shrinks k (s\<lparr> dpState := d \<rparr>) s' \<and> lastTimestampValid s' = lastTimestampValid s \<and> lastTimestamp s' = lastTimestamp s"
  using assms
proof (induction n arbitrary: s data)
  case 0
  then show ?case using shrinks_refl [of s] by (intro exI [of _ s] exI [of _ 0] exI [of _ "dpState s"]) (simp add: payloads_def)
next
  case (Suc n)
  have ne: "win s \<noteq> []" using Suc.prems(3) win_Nil [of s] by simp
  obtain e w where w: "win s = e # w" using ne by (cases "win s") auto
  have e: "slot s (tail s) = e" "present e" using slot_tail [OF Suc.prems(1)] win_hd [of s] w Suc.prems(3,4) by auto
  obtain d' r where u: "Unmarshal (depacketizer s) (dpState s) (Payload (the (pPacket e))) = (d', r)" by fastforce
  let ?s0 = "s\<lparr> dpState := d' \<rparr>"
  have g0: "geo ?s0" "frames_ok (win ?s0)" "win ?s0 = e # w" using Suc.prems(1,2) w by simp_all
  obtain s1 where r1: "release ?s0 = Inr (s1, True)" "geo s1" "win s1 = dropWhile (\<lambda>e. \<not> present e) w"
    using release_win [OF g0] by blast
  obtain k where s1: "shrinks (Suc k) ?s0 s1" "lastTimestampValid s1 = lastTimestampValid s" "lastTimestamp s1 = lastTimestamp s"
    using release_shrinks [OF g0(1,2)] g0(3) r1(1) by auto
  note d = shrinksD [OF s1(1)]
  have step: "takeFrame (Suc n) data s = (case r of Inl _ \<Rightarrow> Inr (s1, None) | Inr b \<Rightarrow> takeFrame n (data @ b) s1)"
    using e u r1(1) by (auto simp: packetAt_def present_def split: option.splits sum.splits)
  show ?case
  proof (cases r)
    case (Inl x)
    then show ?thesis using step s1 u w by (intro exI [of _ s1] exI [of _ "Suc k"] exI [of _ d']) (simp add: payloads_def)
  next
    case (Inr b)
    have tk: "take n (win s1) = take n w"
    proof (cases n)
      case (Suc m)
      have lw: "length w = sbLen s - 1" using w length_win [of s] by simp
      have "w ! 0 = winAt s 1" "present (winAt s 1)" "w \<noteq> []"
        using w Suc Suc.prems(3,4) win_nth [of 1 s] lw by (auto simp del: win_nth)
      then have "dropWhile (\<lambda>e. \<not> present e) w = w" by (cases w) auto
      then show ?thesis using r1(3) by simp
    qed simp
    have n1: "n \<le> sbLen s1 \<and> (\<forall>i < n. present (winAt s1 i))"
    proof (cases n)
      case (Suc m)
      have l: "length (take n w) = n" using w Suc.prems(3) length_win [of s] by simp
      then have ln: "n \<le> sbLen s1" using tk length_win [of s1] by (metis length_take min.absorb_iff2 min.commute)
      have "present (winAt s1 i)" if "i < n" for i
      proof -
        have "winAt s1 i = take n w ! i" using that ln tk win_nth [of i s1] by (metis nth_take order_less_le_trans)
        also have "\<dots> = winAt s (Suc i)" using that w Suc.prems(3) win_nth [of "Suc i" s] by simp
        finally show ?thesis using Suc.prems(4) that by simp
      qed
      then show ?thesis using ln by simp
    qed simp
    obtain s2 k2 d2 where s2: "takeFrame n (data @ b) s1 = Inr (s2, map_option ((@) (data @ b)) (unmarshalAll (depacketizer s1) (dpState s1) (payloads (take n (win s1)))))"
        "shrinks k2 (s1\<lparr> dpState := d2 \<rparr>) s2" "lastTimestampValid s2 = lastTimestampValid s1" "lastTimestamp s2 = lastTimestamp s1"
      using Suc.IH [OF d(1,2), of "data @ b"] n1 by blast
    have "shrinks (Suc k) (s\<lparr> dpState := d2 \<rparr>) (s1\<lparr> dpState := d2 \<rparr>)" by (rule shrinks_dp [OF s1(1)])
    from shrinks_trans [OF this s2(2)] have "shrinks (Suc k + k2) (s\<lparr> dpState := d2 \<rparr>) s2" using Suc.prems(2) by simp
    moreover have "map_option ((@) (data @ b)) x = map_option ((@) data) (map_option ((@) b) x)" for x by (cases x) simp_all
    ultimately show ?thesis
      using step Inr s2 s1(2,3) u w tk d(8,9) by (intro exI [of _ s2] exI [of _ "Suc k + k2"] exI [of _ d2]) (simp add: payloads_def)
  qed
qed

text \<open>
  What a pop does: it releases packets from the tail and may return a sample. A sample comes from a
  complete frame: from a packet with the start flag to the first one with the end flag, none missing
  between. It holds the payloads of all its packets, unless the frame wraps around the end of the
  array, when the last one is left out.
\<close>

definition frame_of :: "'d SampleBuilder \<Rightarrow> Sample \<Rightarrow> bool" where
  "frame_of s x \<longleftrightarrow> (\<exists>j < sbLen s. pStart (win s ! 0) \<and> pEnd (win s ! j) \<and> (\<forall>m \<le> j. present (win s ! m)) \<and> (\<forall>m < j. \<not> pEnd (win s ! m)) \<and>
     PacketTimestamp x = tsOf (win s ! 0) \<and>
     unmarshalAll (depacketizer s) (dpState s) (payloads (take (if tail s + j < length (packets s) then j + 1 else j) (win s))) = Some (Data x))"

definition popped :: "'d SampleBuilder \<Rightarrow> 'd SampleBuilder \<Rightarrow> Sample option \<Rightarrow> bool" where
  "popped s s' r \<longleftrightarrow> (\<exists>k d. shrinks k (s\<lparr> dpState := d \<rparr>) s') \<and> (\<forall>x. r = Some x \<longrightarrow> (\<exists>k s1. shrinks k s s1 \<and> frame_of s1 x))"

lemma popped_id: "geo s \<Longrightarrow> frames_ok (win s) \<Longrightarrow> popped s s None"
  unfolding popped_def using shrinks_refl [of s] by (intro conjI exI [of _ 0] exI [of _ "dpState s"]) simp_all

lemma popped_trans:
  assumes "shrinks k s s1" "popped s1 s' r" "frames_ok (win s)"
  shows "popped s s' r"
proof -
  obtain k2 d where a: "shrinks k2 (s1\<lparr> dpState := d \<rparr>) s'" using assms(2) by (auto simp: popped_def)
  have "shrinks k (s\<lparr> dpState := d \<rparr>) (s1\<lparr> dpState := d \<rparr>)" by (rule shrinks_dp [where d = "dpState s"]) (simp add: assms(1))
  from shrinks_trans [OF this a] have "shrinks (k + k2) (s\<lparr> dpState := d \<rparr>) s'" using assms(3) by simp
  moreover have "\<exists>k s2. shrinks k s s2 \<and> frame_of s2 x" if r: "r = Some x" for x
  proof -
    obtain k3 s2 where "shrinks k3 s1 s2" "frame_of s2 x" using assms(2) r by (auto simp: popped_def)
    then show ?thesis using shrinks_trans [OF assms(1) _ assms(3)] by blast
  qed
  ultimately show ?thesis by (auto simp: popped_def)
qed

lemma popFrame_ok:
  assumes "geo s" "frames_ok (win s)" "j < sbLen s" "pStart (winAt s 0)" "pEnd (winAt s j)" "\<forall>m \<le> j. present (winAt s m)" "\<forall>m < j. \<not> pEnd (winAt s m)"
    and "ts = tsOf (winAt s 0)"
  shows "\<exists>s' r. popFrame ((tail s + j) mod length (packets s)) ts s = Inr (s', r) \<and> popped s s' r"
proof -
  let ?n = "if tail s + j < length (packets s) then j + 1 else j"
  have n: "?n \<le> sbLen s" "\<forall>i < ?n. present (winAt s i)" using assms(3,6) by auto
  from takeFrame_ok [OF assms(1,2) n, of "[]"] obtain s' k d where
    t: "takeFrame ?n [] s = Inr (s', map_option ((@) []) (unmarshalAll (depacketizer s) (dpState s) (payloads (take ?n (win s)))))"
      "shrinks k (s\<lparr> dpState := d \<rparr>) s'" by blast
  have tf: "takeFrame (frameCount s ((tail s + j) mod length (packets s))) [] s = Inr (s', unmarshalAll (depacketizer s) (dpState s) (payloads (take ?n (win s))))"
  proof -
    have "map_option ((@) []) y = y" for y :: "8 word list option" by (cases y) simp_all
    then show ?thesis using t(1) unfolding frameCount_win [OF assms(1,3)] by simp
  qed
  show ?thesis
  proof (cases "unmarshalAll (depacketizer s) (dpState s) (payloads (take ?n (win s)))")
    case None
    then show ?thesis using tf t(2) by (auto simp: popFrame_def popped_def)
  next
    case (Some x)
    have "shrinks k (s\<lparr> dpState := d \<rparr>) (s'\<lparr> lastTimestampValid := True, lastTimestamp := ts \<rparr>)"
      by (rule shrinks_cong [OF t(2)]) simp_all
    moreover have "frame_of s \<lparr> Data = x, PacketTimestamp = ts, Samples = u \<rparr>" for u
      unfolding frame_of_def using assms(3-8) Some by (intro exI [of _ j]) simp
    ultimately show ?thesis using tf Some shrinks_refl [OF assms(1,2)] by (auto simp: popFrame_def popped_def)
  qed
qed

lemma popFuel_ok:
  assumes "geo s" "frames_ok (win s)" "length (win s) \<le> fuel"
  shows "\<exists>s' r. popFuel fuel force s = Inr (s', r) \<and> popped s s' r"
  using assms
proof (induction fuel arbitrary: s)
  case 0
  then show ?case using win_empty [of s] win_Nil [of s] popped_id [of s] by (simp add: popFuel.simps)
next
  case (Suc n)
  show ?case
  proof (cases "win s = []")
    case True
    then show ?thesis using win_empty [OF Suc.prems(1)] popped_id [OF Suc.prems(1,2)] by (simp add: popFuel.simps)
  next
    case ne: False
    have l: "0 < sbLen s" using ne win_Nil [of s] by simp
    have ht: "tail s \<noteq> head s" using win_empty [OF Suc.prems(1)] ne by simp
    let ?again = "bind_res (drop_frame s) (\<lambda>(s', _). popFuel n force s')"
    have again: "\<exists>s' r. ?again = Inr (s', r) \<and> popped s s' r"
    proof -
      obtain s1 k ts where d: "drop_frame s = Inr (s1, ts)" "shrinks (Suc k) s s1" using drop_frame_shrinks [OF Suc.prems(1,2) ne] by blast
      note sd = shrinksD [OF d(2)]
      have "length (win s1) \<le> n" using sd(3) Suc.prems(3) by simp
      from Suc.IH [OF sd(1,2) this] obtain s' r where "popFuel n force s1 = Inr (s', r)" "popped s1 s' r" by blast
      then show ?thesis using d(1) popped_trans [OF d(2) _ Suc.prems(2)] by simp
    qed
    have ol: "oldestPacket s = Inr (the (pPacket (winAt s 0)))" using oldest_win [OF Suc.prems(1,2) ne] win_hd [OF l] by simp
    have nw: "packetAt s (dec s (head s)) = Inr (the (pPacket (List.last (win s))))" by (rule newest_win [OF Suc.prems(1,2) ne])
    have sl: "slot s (tail s) = winAt s 0" by (rule slot_tail [OF Suc.prems(1)])
    obtain r where fe: "findEnd (length (packets s)) s (tail s) = Inr r"
        "\<forall>lst. r = EndAt lst \<longrightarrow> (\<exists>j. j < sbLen s \<and> lst = (tail s + j) mod length (packets s) \<and> pEnd (winAt s j) \<and>
          (\<forall>m \<le> j. present (winAt s m)) \<and> (\<forall>m < j. \<not> pEnd (winAt s m)))"
      using findEnd_win [OF Suc.prems(1,2), of 0 "length (packets s)"] geo_sbLen(1) [OF Suc.prems(1)] geoD(4) [OF Suc.prems(1)] by auto
    have id: "\<exists>s' r. Inr (s, None) = (Inr (s', r) :: failure + _) \<and> popped s s' r" using popped_id [OF Suc.prems(1,2)] by blast
    show ?thesis
    proof (cases "pStart (winAt s 0)")
      case False
      then have "popFuel (Suc n) force s = (if force \<or> SequenceNumber (the (pPacket (List.last (win s)))) - SequenceNumber (the (pPacket (winAt s 0))) > maxLate s
          then ?again else Inr (s, None))"
        using ht ol nw sl by (subst popFuel.simps) (simp add: Let_def)
      then show ?thesis using again id by (cases "force \<or> SequenceNumber (the (pPacket (List.last (win s)))) - SequenceNumber (the (pPacket (winAt s 0))) > maxLate s") auto
    next
      case st: True
      have b: "popFuel (Suc n) force s = (if \<not> force \<and> lastSeqnoValid s \<and> lastSeqno s + 1 \<noteq> SequenceNumber (the (pPacket (winAt s 0))) then Inr (s, None)
          else case r of MissingAt _ \<Rightarrow> if force then ?again else Inr (s, None) | NoEnd \<Rightarrow> Inr (s, None) | EndAt lst \<Rightarrow> popFrame lst (rtpTimestamp (the (pPacket (winAt s 0)))) s)"
        using ht ol sl st fe(1) by (subst popFuel.simps) (simp add: Let_def)
      show ?thesis
      proof (cases r)
        case (EndAt lst)
        then obtain j where j: "j < sbLen s" "lst = (tail s + j) mod length (packets s)" "pEnd (winAt s j)" "\<forall>m \<le> j. present (winAt s m)" "\<forall>m < j. \<not> pEnd (winAt s m)"
          using fe(2) by blast
        have "\<exists>s' r. popFrame lst (rtpTimestamp (the (pPacket (winAt s 0)))) s = Inr (s', r) \<and> popped s s' r"
          unfolding j(2) by (rule popFrame_ok [OF Suc.prems(1,2) j(1) st j(3,4,5)]) (simp add: tsOf_def)
        then show ?thesis using b EndAt id by simp
      qed (use b again id in auto)
    qed
  qed
qed

section \<open>The check passes\<close>

lemma fold_res_unit: "(\<And>x. x \<in> set xs \<Longrightarrow> f x () = Inr ()) \<Longrightarrow> fold_res f xs () = Inr ()"
  by (induction xs) simp_all

lemma dec_win:
  assumes "geo s" "0 < i" "i < length (packets s)"
  shows "dec s ((tail s + i) mod length (packets s)) = (tail s + (i - 1)) mod length (packets s)" "(tail s + i) mod length (packets s) \<noteq> tail s"
proof -
  let ?n = "length (packets s)"
  have t: "tail s < ?n" by (rule geoD(4) [OF assms(1)])
  have m: "(tail s + i) mod ?n = (if tail s + i < ?n then tail s + i else tail s + i - ?n)"
      "(tail s + (i - 1)) mod ?n = (if tail s + (i - 1) < ?n then tail s + (i - 1) else tail s + (i - 1) - ?n)"
    by (rule mod_twice; use t assms(3) in linarith)+
  show "(tail s + i) mod ?n \<noteq> tail s" unfolding m using t assms by auto
  show "dec s ((tail s + i) mod ?n) = (tail s + (i - 1)) mod ?n" using assms t unfolding dec_def m by auto
qed

lemma checkSlot_ok:
  assumes "geo s" "frames_ok (win s)" "i < sbLen s"
  shows "checkSlot s (seqOf (hd (win s))) i () = Inr ()"
proof -
  let ?n = "length (packets s)" and ?x = "(tail s + i) mod length (packets s)"
  have n: "i < ?n" using geo_sbLen(1) [OF assms(1)] assms(3) by simp
  have u: "u16 (tail s + i) = tail s + i" using geoD(2,4) [OF assms(1)] n by (simp add: u16_def)
  have sl: "slot s ?x = winAt s i" by (rule slot_win [OF assms(1)])
  have sn: "slot s (inc s ?x) = winAt s (Suc i)" unfolding inc_win [OF assms(1)] by (rule slot_win [OF assms(1)])
  have sp: "slot s (dec s ?x) = winAt s (i - 1)" if "0 < i" unfolding dec_win(1) [OF assms(1) that n] by (rule slot_win [OF assms(1)])
  have q: "present (winAt s i) \<Longrightarrow> seqOf (winAt s i) = seqOf (hd (win s)) + of_nat i" using frames_okD(4) [OF assms(2), of i] assms(3) by simp
  have st: "flags_ok (winAt s (i - 1)) (winAt s i)" if "0 < i" using frames_okD(5) [OF assms(2), of "i - 1"] that assms(3) by simp
  have en: "flags_ok (winAt s i) (winAt s (Suc i))" if "?x \<noteq> dec s (head s)"
  proof -
    have "Suc i \<noteq> sbLen s"
    proof
      assume "Suc i = sbLen s"
      then have j: "i = sbLen s - 1" "0 < sbLen s" by simp_all
      show False using that unfolding j(1) dec_head [OF assms(1) j(2)] by (rule notE) (rule refl)
    qed
    then show ?thesis using frames_okD(5) [OF assms(2), of i] assms(3) by simp
  qed
  have z: "0 < i" if "?x \<noteq> tail s" using that geoD(4) [OF assms(1)] by (cases i) auto
  show ?thesis
  proof (cases "pPacket (winAt s i)")
    case None
    then show ?thesis by (simp add: checkSlot_def Let_def u sl)
  next
    case (Some p)
    have a: "SequenceNumber p = seqOf (hd (win s)) + of_nat i" using q Some by (simp add: present_def seqOf_def)
    have b: "\<not> (?x \<noteq> tail s \<and> \<not> pStart (winAt s i) \<and>
        (case pPacket (slot s (dec s ?x)) of None \<Rightarrow> False | Some q \<Rightarrow> rtpTimestamp q \<noteq> rtpTimestamp p))"
    proof
      assume h: "?x \<noteq> tail s \<and> \<not> pStart (winAt s i) \<and>
        (case pPacket (slot s (dec s ?x)) of None \<Rightarrow> False | Some q \<Rightarrow> rtpTimestamp q \<noteq> rtpTimestamp p)"
      then have i: "0 < i" using z by blast
      from h obtain r where r: "pPacket (winAt s (i - 1)) = Some r" "rtpTimestamp r \<noteq> rtpTimestamp p"
        unfolding sp [OF i] by (auto split: option.splits)
      show False using st [OF i] r Some h by (simp add: flags_ok_def present_def tsOf_def)
    qed
    have c: "\<not> (?x \<noteq> dec s (head s) \<and> \<not> pEnd (winAt s i) \<and>
        (case pPacket (winAt s (Suc i)) of None \<Rightarrow> False | Some q \<Rightarrow> rtpTimestamp q \<noteq> rtpTimestamp p))"
    proof
      assume h: "?x \<noteq> dec s (head s) \<and> \<not> pEnd (winAt s i) \<and>
        (case pPacket (winAt s (Suc i)) of None \<Rightarrow> False | Some q \<Rightarrow> rtpTimestamp q \<noteq> rtpTimestamp p)"
      then obtain r where r: "pPacket (winAt s (Suc i)) = Some r" "rtpTimestamp r \<noteq> rtpTimestamp p"
        by (auto split: option.splits)
      show False using en h r Some by (simp add: flags_ok_def present_def tsOf_def)
    qed
    show ?thesis unfolding checkSlot_def Let_def u sl sn Some option.case(2) by (simp only: a b c if_False simp_thms)
  qed
qed

lemma checkOutside_ok:
  assumes "geo s" "sbLen s \<le> i" "i \<le> length (packets s)" "length (packets s) - i \<le> fuel"
  shows "checkOutside fuel s ((tail s + i) mod length (packets s)) = Inr ()"
  using assms(2-4)
proof (induction fuel arbitrary: i)
  case 0
  then have "i = length (packets s)" by simp
  then show ?case using geoD(4) [OF assms(1)] by (simp add: checkOutside.simps)
next
  case (Suc m)
  let ?n = "length (packets s)"
  show ?case
  proof (cases "i = ?n")
    case True
    then show ?thesis using geoD(4) [OF assms(1)] by (simp add: checkOutside.simps)
  next
    case False
    then have i: "i < ?n" using Suc.prems(2) by simp
    have sl: "slot s ((tail s + i) mod ?n) = packet0" using slot_win [OF assms(1), of i] geoD(6) [OF assms(1) i Suc.prems(1)] by simp
    have "checkOutside m s ((tail s + Suc i) mod ?n) = Inr ()" using Suc.IH [of "Suc i"] Suc.prems i by simp
    then show ?thesis using sl inc_win [OF assms(1), of i] by (subst checkOutside.simps) (simp add: packet0_def)
  qed
qed

lemma check_ok:
  assumes "sb_inv s"
  shows "check s = Inr ()"
proof (cases "win s = []")
  case True
  then show ?thesis using win_empty [OF sb_invD(1) [OF assms]] by (simp add: check_def)
next
  case False
  note i = sb_invD [OF assms]
  have l: "0 < sbLen s" using False win_Nil [of s] by simp
  have e: "pPacket (slot s (tail s)) \<noteq> None" "pPacket (slot s (dec s (head s))) \<noteq> None"
    using slot_tail [OF i(1)] slot_newest [OF i(1) l] win_hd [OF l] win_last [OF l] frames_okD(1,2) [OF i(2) False] by (simp_all add: present_def)
  have o: "oldestPacket s = Inr (the (pPacket (hd (win s))))" by (rule oldest_win [OF i(1,2) False])
  have "fold_res (checkSlot s (seqOf (hd (win s)))) [0..<sbLen s] () = Inr ()"
    by (rule fold_res_unit) (simp add: checkSlot_ok [OF i(1,2)])
  moreover have "checkOutside (length (packets s)) s (head s) = Inr ()"
    using checkOutside_ok [OF i(1), of "sbLen s" "length (packets s)"] geo_sbLen(1,2) [OF i(1)] by simp
  ultimately show ?thesis
    using e o i(3) [OF False] by (auto simp: check_def Let_def seqOf_def before_def)
qed

section \<open>Reachable builders\<close>

text \<open>
  The bound on \<open>maxLate\<close>: with up to 10922 the sums of indices stay below \<open>2 ^ 16\<close> and three windows of
  \<open>maxLate\<close> packets are less than half of the sequence numbers, so that comparisons are unambiguous.
  The segmenter uses 16.
\<close>

inductive sb_reach :: "'d SampleBuilder \<Rightarrow> bool" where
  new: "unat m \<le> 10922 \<Longrightarrow> sb_reach (New m dp d rate handler)"
| push: "sb_reach s \<Longrightarrow> Push p buf s = Inr s' \<Longrightarrow> sb_reach s'"
| pop: "sb_reach s \<Longrightarrow> pop force s = Inr (s', r) \<Longrightarrow> sb_reach s'"
| close: "sb_reach s \<Longrightarrow> Close s = Inr s' \<Longrightarrow> sb_reach s'"

lemma New_inv:
  assumes "unat m \<le> 10922"
  shows "sb_inv (New m dp d rate handler)"
proof -
  define k where "k = (if m < 2 then 2 else m)"
  have k: "2 \<le> unat k" "unat k \<le> 10922"
    using assms by (auto simp: k_def word_less_nat_alt not_less)
  have c: "(if k > 0x7FFF then 0x7FFF else k) = k" using k by (auto simp: word_less_nat_alt)
  have u: "unat (2 * k + 1) = 2 * unat k + 1"
  proof -
    have "unat (2 * k) = 2 * unat k" using k by (simp add: unat_word_ariths)
    then show ?thesis using k by (simp add: unat_word_ariths)
  qed
  let ?s = "New m dp d rate handler"
  have p: "packets ?s = replicate (2 * unat k + 1) packet0" "head ?s = 0" "tail ?s = 0" "maxLate ?s = k"
    using c u by (simp_all add: New_def Let_def flip: k_def)
  have l: "sbLen ?s = 0" by (simp add: sbLen_def p)
  have "winAt ?s i = packet0" for i
  proof -
    have "i mod (2 * unat k + 1) < 2 * unat k + 1" by simp
    then show ?thesis unfolding winAt_def p by (simp del: replicate_Suc)
  qed
  then have "geo ?s" using k unfolding geo_def by (simp add: p del: replicate_Suc)
  moreover have "win ?s = []" by (simp add: win_def l)
  ultimately show ?thesis by (simp add: sb_inv_def)
qed

lemma sb_inv_dp: "sb_inv (s\<lparr> dpState := d \<rparr>) = sb_inv s"
  by (simp add: sb_inv_def)

lemma popped_inv: "sb_inv s \<Longrightarrow> popped s s' r \<Longrightarrow> sb_inv s'"
  using shrinks_inv sb_inv_dp unfolding popped_def by metis

lemma pop_ok: "sb_inv s \<Longrightarrow> \<exists>s' r. pop force s = Inr (s', r) \<and> popped s s' r"
  unfolding pop_def by (rule popFuel_ok) (use sb_invD [of s] geo_sbLen(1) [of s] in auto)

lemma sb_reach_inv: "sb_reach s \<Longrightarrow> sb_inv s"
proof (induction rule: sb_reach.induct)
  case (new m dp d rate handler)
  then show ?case by (rule New_inv)
next
  case (push s p buf s')
  then show ?case
    using pushFuel_late [of s p 1 buf] pushFuel_ok [of s p 0 buf] by (cases "late p s") (auto simp: Push_def taken_def)
next
  case (pop s force s' r)
  then show ?case using pop_ok [of s force] popped_inv by fastforce
next
  case (close s s')
  then show ?case using releaseAll_shrinks [of s] sb_invD [of s] shrinks_inv by (auto simp: Close_def)
qed

lemma shrinks_tail:
  assumes "geo s" "shrinks k s s1" "win s1 \<noteq> []"
  shows "tail s1 = (tail s + k) mod length (packets s)" "length (packets s1) = length (packets s)"
proof -
  let ?n = "length (packets s)"
  note d = shrinksD [OF assms(2)]
  show n: "length (packets s1) = ?n" using geoD(5) [OF d(1)] geoD(5) [OF assms(1)] d(7) by simp
  have l: "sbLen s = k + sbLen s1" using d(3,4) length_win [of s1] length_win [of s] by simp
  have "(tail s1 + sbLen s1) mod ?n = (tail s + k + sbLen s1) mod ?n"
    using geo_sbLen(2) [OF d(1)] geo_sbLen(2) [OF assms(1)] d(10) [OF assms(3)] n l by (simp add: add.assoc)
  also have "\<dots> = ((tail s + k) mod ?n + sbLen s1) mod ?n" by (simp add: mod_add_left_eq)
  finally have e: "(sbLen s1 + tail s1) mod ?n = (sbLen s1 + (tail s + k) mod ?n) mod ?n" by (simp add: add.commute)
  have "sbLen s1 < ?n" using geo_sbLen(1) [OF d(1)] n by simp
  from mod_index_inj [OF e this] show "tail s1 = (tail s + k) mod ?n" using geoD(4) [OF d(1)] n geo_mod [OF assms(1)] by simp
qed

section \<open>The properties of the builder\<close>

text \<open>C8: 
  A reachable builder is well formed: the checker of the test suite never panics, whatever the order of
  pushes, pops, forced pops and closes. It walks every slot of the array: the sequence numbers of the
  window are consecutive from the tail, a change of timestamp between neighbours sets both flags, no
  packet lies outside of the window, and the last sequence number is before the tail.
\<close>

theorem check_reachable:
  assumes "sb_reach s"
  shows "check s = Inr ()"
  by (rule check_ok [OF sb_reach_inv [OF assms]])

lemma Push_ok:
  assumes "sb_reach s"
  shows "if late p s then Push p buf s = Inr s
    else (\<exists>s'. Push p buf s = Inr s' \<and> (hasHandler s \<longrightarrow> accounted s' = add_mset (p, buf) (accounted s))) \<or>
      Push p buf s = Inl (Panics (ErrorPanic (PlainError ''this is impossible''))) \<and> impossible p s"
  using pushFuel_late [OF sb_reach_inv [OF assms], of p 1 buf] pushFuel_ok [OF sb_reach_inv [OF assms], of p 0 buf]
  by (auto simp: Push_def taken_def)


lemma frame_of_drop:
  assumes "geo s" "shrinks k s s1" "frame_of s1 x"
  shows "\<exists>j. k + j < length (win s) \<and> pStart (win s ! k) \<and> pEnd (win s ! (k + j)) \<and> (\<forall>m \<le> j. present (win s ! (k + m))) \<and>
     (\<forall>m < j. \<not> pEnd (win s ! (k + m))) \<and> PacketTimestamp x = tsOf (win s ! k) \<and>
     unmarshalAll (depacketizer s) (dpState s)
       (payloads (take (if (tail s + k) mod length (packets s) + j < length (packets s) then j + 1 else j) (drop k (win s)))) = Some (Data x)"
proof -
  note d = shrinksD [OF assms(2)]
  obtain j where j: "j < sbLen s1" "pStart (win s1 ! 0)" "pEnd (win s1 ! j)" "\<forall>m \<le> j. present (win s1 ! m)" "\<forall>m < j. \<not> pEnd (win s1 ! m)"
    "PacketTimestamp x = tsOf (win s1 ! 0)"
    "unmarshalAll (depacketizer s1) (dpState s1) (payloads (take (if tail s1 + j < length (packets s1) then j + 1 else j) (win s1))) = Some (Data x)"
    using assms(3) unfolding frame_of_def by blast
  have ne: "win s1 \<noteq> []" using j(1) win_Nil [of s1] by auto
  have l: "k + j < length (win s)" using j(1) d(3) length_win [of s1] by simp
  have at: "win s1 ! m = win s ! (k + m)" if "m \<le> j" for m unfolding d(3) using that l by simp
  have u: "unmarshalAll (depacketizer s) (dpState s)
       (payloads (take (if (tail s + k) mod length (packets s) + j < length (packets s) then j + 1 else j) (drop k (win s)))) = Some (Data x)"
    using j(7) unfolding shrinks_tail [OF assms(1,2) ne] d(8,9) unfolding d(3) .
  show ?thesis using l u j(2-6) at by (intro exI [of _ j]) auto
qed

text \<open>C10: 
  A pop on a reachable builder, forced or not, always returns: its loop needs at most one round for each
  slot of the window. Every packet is still in the window or has been handed to the release handler. A
  sample is a run of the window without gap that starts at a packet with the start flag and ends at the
  next one with the end flag; its timestamp is the one of the first packet and its data is what the
  depacketizer makes of the payloads, in the order of the sequence numbers. Where the run goes over the
  end of the array, the payload of its last packet is not in the sample.
\<close>

theorem pop_correct:
  assumes "sb_reach s" "hasHandler s"
  shows "\<exists>s' r. pop force s = Inr (s', r) \<and> accounted s' = accounted s \<and>
    (case r of None \<Rightarrow> True | Some x \<Rightarrow>
       \<exists>k j. k + j < length (win s) \<and> pStart (win s ! k) \<and> pEnd (win s ! (k + j)) \<and> (\<forall>m \<le> j. present (win s ! (k + m))) \<and>
         (\<forall>m < j. \<not> pEnd (win s ! (k + m))) \<and> PacketTimestamp x = tsOf (win s ! k) \<and>
         unmarshalAll (depacketizer s) (dpState s)
           (payloads (take (if (tail s + k) mod length (packets s) + j < length (packets s) then j + 1 else j) (drop k (win s)))) = Some (Data x))"
proof -
  note i = sb_reach_inv [OF assms(1)]
  obtain s' r where p: "pop force s = Inr (s', r)" "popped s s' r" using pop_ok [OF i] by blast
  obtain k d where k: "shrinks k (s\<lparr> dpState := d \<rparr>) s'" using p(2) by (auto simp: popped_def)
  have a: "accounted s' = accounted s" using shrinks_accounted [OF k] assms(2) by (simp add: accounted_def)
  show ?thesis
  proof (cases r)
    case None
    then show ?thesis using p(1) a by (intro exI [of _ s'] exI [of _ r]) simp
  next
    case (Some x)
    then obtain k s1 where s1: "shrinks k s s1" "frame_of s1 x" using p(2) by (auto simp: popped_def)
    show ?thesis
      by (rule exI [of _ s'], rule exI [of _ r], intro conjI p(1) a) (unfold Some option.case(2), rule exI, rule frame_of_drop [OF sb_invD(1) [OF i] s1])
  qed
qed

text \<open>
  A concrete builder: a depacketizer whose partitions start with the byte 1 and end with the marker and
  that takes the payload as it is, and the smallest size, so five slots.
\<close>

definition demoDp :: "unit Depacketizer" where
  "demoDp = \<lparr> IsPartitionHead = (\<lambda>_ b. b \<noteq> [] \<and> hd b = 1), IsPartitionTail = (\<lambda>_ m _. m), Unmarshal = (\<lambda>_ b. ((), Inr b)) \<rparr>"

definition pkt :: "nat \<Rightarrow> nat \<Rightarrow> bool \<Rightarrow> nat list \<Rightarrow> rtpPacket" where
  "pkt n t m b = \<lparr> SequenceNumber = of_nat n, rtpTimestamp = of_nat t, Marker = m, Payload = map of_nat b \<rparr>"

fun pushAll :: "rtpPacket list \<Rightarrow> 'd SampleBuilder \<Rightarrow> 'd SampleBuilder run" where
  "pushAll [] s = Inr s"
| "pushAll (p # ps) s = bind_res (Push p (unat (SequenceNumber p)) s) (pushAll ps)"

definition demo0 :: "unit SampleBuilder" where
  "demo0 = New 2 demoDp () 90000 True"

lemma pushAll_reach: "sb_reach s \<Longrightarrow> pushAll ps s = Inr s' \<Longrightarrow> sb_reach s'"
proof (induction ps arbitrary: s)
  case (Cons p ps)
  then show ?case using sb_reach.push [OF Cons.prems(1)] by (auto simp: bind_res_def split: sum.splits)
qed simp

lemma demo0_reach: "sb_reach demo0"
  unfolding demo0_def by (rule sb_reach.new) simp

lemma demo0_eq:
  "demo0 = \<lparr> packets = [packet0, packet0, packet0, packet0, packet0], head = 0, tail = 0, maxLate = 2, depacketizer = demoDp, dpState = (),
     hasHandler = True, sbReleased = [], sampleRate = 90000, lastSeqnoValid = False, lastSeqno = 0, lastTimestampValid = False, lastTimestamp = 0 \<rparr>"
proof -
  have "replicate 5 packet0 = [packet0, packet0, packet0, packet0, packet0]" by (simp add: numeral_eq_Suc)
  then show ?thesis by (simp add: demo0_def New_def)
qed

text \<open>The slot of the packet \<open>n\<close> and the equations that evaluate the operations on such states.\<close>

definition held :: "bool \<Rightarrow> bool \<Rightarrow> nat \<Rightarrow> nat \<Rightarrow> bool \<Rightarrow> nat list \<Rightarrow> packet" where
  "held st en n t m b = \<lparr> pStart = st, pEnd = en, pPacket = Some (pkt n t m b), pBuff = n \<rparr>"

lemmas sb_index = slot_def setSlot_def inc_def dec_def cap_def sbLen_def u16_def packetAt_def oldestPacket_def isStart_def isEnd_def
lemmas sb_push = Push_def pushFuel.simps pushLate_def nonneg_def pushEmpty_def newSlot_def pushSequential_def putSequential_def pushPast_def
  extendTail_def linkPrev_def linkNext_def setEnd_def setStart_def callHandler_def
lemmas sb_release = callHandler_def release_def skipMissing.simps drop_frame_def dropLoop.simps
lemmas takeFrame_numeral = takeFrame.simps(2) [of "pred_numeral v" for v, folded numeral_eq_Suc]
lemmas sb_pop = pop_def popFuel.simps findEnd.simps frameCount_def takeFrame.simps takeFrame_numeral popFrame_def
lemmas sb_demo = demo0_eq demoDp_def pkt_def held_def packet0_def Let_def

text \<open>A frame of two packets and the first packet of the next one.\<close>

definition demo3 :: "unit SampleBuilder" where
  "demo3 = demo0\<lparr> packets := [held True False 1 10 False [1], held False True 2 10 True [2], held True False 3 20 False [1], packet0, packet0],
     head := 3 \<rparr>"

lemma demo3_reach: "sb_reach demo3"
proof (rule pushAll_reach [OF demo0_reach])
  show "pushAll [pkt 1 10 False [1], pkt 2 10 True [2], pkt 3 20 False [1]] demo0 = Inr demo3"
    by (simp add: demo3_def sb_push sb_index sb_demo)
qed

lemma demo3_handler: "hasHandler demo3"
  by (simp add: demo3_def demo0_eq)

theorem check_reachable_witness: "check demo3 = Inr () \<and> sbLen demo3 = 3"
proof
  show "check demo3 = Inr ()" by (rule check_reachable [OF demo3_reach])
  show "sbLen demo3 = 3" by (simp add: demo3_def sbLen_def sb_demo)
qed


theorem pop_correct_witness:
  "\<exists>s'. pop False demo3 = Inr (s', Some \<lparr> Data = [1, 2], PacketTimestamp = 10, Samples = 0 \<rparr>) \<and> accounted s' = accounted demo3"
proof -
  obtain s' r where p: "pop False demo3 = Inr (s', r)" "accounted s' = accounted demo3"
    using pop_correct [OF demo3_reach demo3_handler, of False] by blast
  have "map_sum id snd (pop False demo3) = Inr (Some \<lparr> Data = [1, 2], PacketTimestamp = 10, Samples = 0 \<rparr>)"
    by (simp add: demo3_def sb_pop sb_release sb_index sb_demo)
  then show ?thesis using p by simp
qed

section \<open>Limits of the builder\<close>

definition demoWrap :: "unit SampleBuilder" where
  "demoWrap = demo0\<lparr> packets := [held False True 2 10 True [2], packet0, packet0, packet0, held True False 1 10 False [1]],
     head := 1, tail := 4 \<rparr>"

text \<open>
  The frame of the packets 1 and 2, pushed in the other order, lies in the last and the first slot of
  the array. \<open>pop\<close> counts \<open>cap + last - tail + 1\<close> packets for it, with \<open>cap\<close> one less than the number
  of slots: the sample lacks the payload of packet 2, which stays in the window without its first
  packet. The same packets in order give the whole frame.
\<close>

theorem pop_wrap_truncates:
  "pushAll [pkt 2 10 True [2], pkt 1 10 False [1]] demo0 = Inr demoWrap \<and>
   map_sum id (\<lambda>(s, x). (map_option Data x, handed (win s))) (Pop demoWrap) = Inr (Some [1], [(pkt 2 10 True [2], 2)]) \<and>
   map_sum id (\<lambda>(s, x). (map_option Data x, handed (win s))) (bind_res (pushAll [pkt 1 10 False [1], pkt 2 10 True [2]] demo0) Pop) = Inr (Some [1, 2], [])"
proof (intro conjI)
  show "pushAll [pkt 2 10 True [2], pkt 1 10 False [1]] demo0 = Inr demoWrap"
    by (simp add: demoWrap_def sb_push sb_index sb_demo)
  show "map_sum id (\<lambda>(s, x). (map_option Data x, handed (win s))) (Pop demoWrap) = Inr (Some [1], [(pkt 2 10 True [2], 2)])"
    by (simp add: Pop_def demoWrap_def sb_pop sb_release sb_index sb_demo win_def winAt_def present_def)
  show "map_sum id (\<lambda>(s, x). (map_option Data x, handed (win s))) (bind_res (pushAll [pkt 1 10 False [1], pkt 2 10 True [2]] demo0) Pop) = Inr (Some [1, 2], [])"
    by (simp add: Pop_def sb_push sb_pop sb_release sb_index sb_demo win_def winAt_def)
qed

definition demoFull :: "unit SampleBuilder" where
  "demoFull = demo0\<lparr> packets := [held True True 1 10 False [1], held True True 2 10 False [1], held True True 3 10 False [1],
       held True False 4 10 False [1], packet0], head := 4 \<rparr>"

text \<open>
  A stream in which every packet starts a partition and all have one timestamp, with the buffer full:
  the next packet makes \<open>Push\<close> drop the oldest packet only, since the next one has the start flag, and
  then panic with ``this is impossible''.
\<close>

theorem Push_panics:
  "pushAll (map (\<lambda>n. pkt n 10 False [1]) [1, 2, 3, 4]) demo0 = Inr demoFull \<and>
   Push (pkt 5 10 False [1]) 5 demoFull = Inl (Panics (ErrorPanic (PlainError ''this is impossible'')))"
proof
  show "pushAll (map (\<lambda>n. pkt n 10 False [1]) [1, 2, 3, 4]) demo0 = Inr demoFull"
    by (simp add: demoFull_def sb_push sb_index sb_demo)
  show "Push (pkt 5 10 False [1]) 5 demoFull = Inl (Panics (ErrorPanic (PlainError ''this is impossible'')))"
    by (simp add: demoFull_def sb_push sb_release sb_index sb_demo)
qed

text \<open>
  \<open>ForcePop\<close> can return nothing although the builder holds packets: the packet 1 of an unfinished frame
  stays in the window.
\<close>

theorem ForcePop_nonempty:
  "map_sum id (\<lambda>(s, x). (x, handed (win s))) (bind_res (pushAll [pkt 1 10 False [1]] demo0) ForcePop) = Inr (None, [(pkt 1 10 False [1], 1)])"
  by (simp add: ForcePop_def sb_push sb_pop sb_release sb_index sb_demo win_def winAt_def present_def)

end
