(* ===== verification/MediaTime.thy ===== *)
theory MediaTime
  imports Prelude "HOL-Library.Signed_Division"
begin

text \<open>
  Time and access units of package \<open>segmenter\<close>: the conversions between \<open>time.Duration\<close> (nanoseconds in
  an \<open>int64\<close>) and the ticks of an MP4 track (\<open>pkg/segmenter/utils.go\<close>), and the splitting of an Annex-B
  byte stream into NAL units (\<open>split264Nalus\<close>).

  A \<open>time.Duration\<close> is an \<open>int\<close>; \<open>i64\<close> is the wrap-around of its arithmetic. Division of signed integers
  truncates (\<open>sdiv\<close>, \<open>smod\<close>), division of unsigned ones is the one of words.
\<close>

section \<open>Durations\<close>

definition i64 :: "int \<Rightarrow> int" where
  "i64 x = (x + 2 ^ 63) mod 2 ^ 64 - 2 ^ 63"

text \<open>\<open>Time.Sub\<close> gives the largest or the smallest duration where the difference does not fit.\<close>

definition timeSub :: "int \<Rightarrow> int \<Rightarrow> int" where
  "timeSub t u = (if t - u \<ge> 2 ^ 63 then 2 ^ 63 - 1 else if t - u < - (2 ^ 63) then - (2 ^ 63) else t - u)"

definition i32 :: "64 word \<Rightarrow> int" where
  "i32 x = (uint x + 2 ^ 31) mod 2 ^ 32 - 2 ^ 31"

abbreviation second :: int where
  "second \<equiv> 1000000000"

abbreviation millisecond :: int where
  "millisecond \<equiv> 1000000"

definition durationGoToMp4 :: "int \<Rightarrow> 32 word \<Rightarrow> 64 word" where
  "durationGoToMp4 v timeScale =
     (let timeScale64 = ucast timeScale; secs = v sdiv second; dec = v smod second
      in of_int secs * timeScale64 + of_int dec * timeScale64 div of_int second)"

definition durationMp4ToGo :: "64 word \<Rightarrow> 32 word \<Rightarrow> int res" where
  "durationMp4ToGo v timeScale =
     (let timeScale64 = ucast timeScale :: 64 word
      in if timeScale64 = 0 then Inl DivideByZero
         else (let secs = v div timeScale64; dec = v mod timeScale64
               in Inr (i64 (i64 (sint secs * second) + i64 (sint dec * second) sdiv sint timeScale64))))"

lemma i64_id: "- (2 ^ 63) \<le> x \<Longrightarrow> x < 2 ^ 63 \<Longrightarrow> i64 x = x"
  by (simp add: i64_def)

lemma i64_range: "- (2 ^ 63) \<le> i64 x" "i64 x < 2 ^ 63"
  unfolding i64_def using pos_mod_bound [of "2 ^ 64" "x + 2 ^ 63"] by simp_all

lemma sdiv_pos: "0 \<le> a \<Longrightarrow> 0 < b \<Longrightarrow> a sdiv b = a div (b :: int)"
  by (cases "a = 0") (simp_all add: signed_divide_int_def)

lemma smod_pos: "0 \<le> a \<Longrightarrow> 0 < b \<Longrightarrow> a smod b = a mod (b :: int)"
  by (cases "a = 0") (simp_all add: signed_modulo_int_def)

lemma split_div: "0 < c \<Longrightarrow> (v div c) * t + (v mod c) * t div c = v * t div (c :: int)"
proof -
  assume c: "0 < c"
  have "v * t = (v div c * t) * c + v mod c * t"
    by (metis div_mult_mod_eq distrib_right mult.assoc mult.commute)
  then show ?thesis using c by simp
qed

lemma uint_scale: "uint (ucast (t :: 32 word) :: 64 word) = uint t"
  by (simp add: uint_up_ucast is_up)

text \<open>A duration that is not negative becomes its number of ticks, rounded down.\<close>

lemma durationGoToMp4_eq:
  assumes "0 \<le> v"
  shows "durationGoToMp4 v t = of_int (v * uint t div second)"
proof -
  let ?t = "ucast t :: 64 word"
  have t: "uint t < 2 ^ 32" "0 \<le> uint t" using uint_lt2p [of t] by simp_all
  have d: "0 \<le> v mod second" "v mod second < second" by simp_all
  have p: "0 \<le> v mod second * uint t" using d(1) t(2) by simp
  have "v mod second * uint t \<le> second * 2 ^ 32" using d t by (intro mult_mono) simp_all
  then have b: "v mod second * uint t < 2 ^ 64" by simp
  have "uint (of_int (v mod second) * ?t) = v mod second * uint t"
  proof -
    have e: "of_int (v mod second) * ?t = word_of_int (v mod second * uint t)" by (metis uint_scale word_of_int_uint of_int_mult)
    show ?thesis unfolding e by (rule word_of_int_inverse [OF refl p]) (use b in simp)
  qed
  then have a: "of_int (v mod second) * ?t div of_int second = word_of_int (v mod second * uint t div second)"
    by (simp add: word_div_def)
  have b: "of_int (v div second) * ?t = word_of_int (v div second * uint t)" by (metis uint_scale word_of_int_uint of_int_mult)
  have e: "v sdiv second = v div second" "v smod second = v mod second" using assms by (simp_all add: sdiv_pos smod_pos)
  have "durationGoToMp4 v t = word_of_int (v div second * uint t + v mod second * uint t div second)"
    unfolding durationGoToMp4_def Let_def e a b by (rule of_int_add [symmetric])
  also have "v div second * uint t + v mod second * uint t div second = v * uint t div second" by (rule split_div) simp
  finally show ?thesis by simp
qed

lemma sint_small: "uint (x :: 64 word) < 2 ^ 63 \<Longrightarrow> sint x = uint x"
  unfolding sint_uint by (rule signed_take_bit_int_eq_self) (simp_all add: uint_ge_0 order_trans [of _ 0])

lemma int_div_le: "0 \<le> a \<Longrightarrow> 0 < b \<Longrightarrow> a div b \<le> (a :: int)"
  using zdiv_mono2 [of a 1 b] by simp

lemma int_div_nonneg: "0 \<le> a \<Longrightarrow> 0 < b \<Longrightarrow> 0 \<le> a div (b :: int)"
  by (simp add: pos_imp_zdiv_nonneg_iff)

text \<open>A 32-bit timestamp becomes its time in nanoseconds, rounded down.\<close>

lemma durationMp4ToGo_eq:
  assumes "t \<noteq> 0"
  shows "durationMp4ToGo (ucast (v :: 32 word)) t = Inr (uint v * second div uint t)"
proof -
  let ?t = "ucast t :: 64 word" and ?v = "ucast v :: 64 word"
  have t: "uint t < 2 ^ 32" "0 < uint t" using uint_lt2p [of t] uint_ge_0 [of t] assms by (simp_all add: uint_0_iff less_le)
  have v: "uint v < 2 ^ 32" "0 \<le> uint v" using uint_lt2p [of v] by simp_all
  have n: "?t \<noteq> 0" using t(2) uint_scale [of t] by (metis unsigned_0 less_irrefl)
  have dv: "0 \<le> uint v div uint t" "uint v div uint t \<le> uint v" using int_div_nonneg [OF v(2) t(2)] int_div_le [OF v(2) t(2)] .
  have md: "0 \<le> uint v mod uint t" "uint v mod uint t < uint t" using t(2) by simp_all
  have s1: "sint (?v div ?t) = uint v div uint t"
    using v(1) dv(2) by (subst sint_small) (simp_all add: uint_div uint_scale)
  have s2: "sint (?v mod ?t) = uint v mod uint t"
    using md(2) t(1) by (subst sint_small) (simp_all add: uint_mod uint_scale)
  have s3: "sint ?t = uint t" using t(1) by (subst sint_small) (simp_all add: uint_scale)
  have a: "i64 (uint v div uint t * second) = uint v div uint t * second"
    using dv v(1) by (intro i64_id) simp_all
  have b: "i64 (uint v mod uint t * second) = uint v mod uint t * second"
    using md t(1) by (intro i64_id) simp_all
  have q: "(uint v mod uint t * second) sdiv uint t = uint v mod uint t * second div uint t"
    using md(1) t(2) by (intro sdiv_pos) simp_all
  have e: "uint v div uint t * second + uint v mod uint t * second div uint t = uint v * second div uint t" by (rule split_div [OF t(2)])
  have r: "i64 (uint v * second div uint t) = uint v * second div uint t"
    using int_div_le [of "uint v * second" "uint t"] int_div_nonneg [of "uint v * second" "uint t"] v t(2) by (intro i64_id) simp_all
  show ?thesis using n by (simp add: durationMp4ToGo_def Let_def s1 s2 s3 a b q e r)
qed

lemma tick_back:
  assumes "0 < r" "r \<le> second" "0 \<le> v"
  shows "(v * second div r) * r div second = (if r dvd v * second then v else v - 1)"
proof (cases "r dvd v * second")
  case True
  then show ?thesis by simp
next
  case False
  let ?m = "v * second mod r"
  have m: "0 < ?m" "?m < second"
    using False pos_mod_bound [OF assms(1), of "v * second"] pos_mod_sign [OF assms(1), of "v * second"] assms(2) by (simp_all add: dvd_eq_mod_eq_0)
  have "v * second div r * r = (v - 1) * second + (second - ?m)" by (simp add: minus_mod_eq_div_mult [symmetric] algebra_simps)
  also have "\<dots> div second = v - 1" using m by simp
  finally show ?thesis using False by simp
qed

text \<open>
  The timestamp of a packet goes to the writer as a duration and comes back as ticks of the same clock:
  exactly when the clock divides the nanoseconds of it, and one tick less otherwise. With the 90 kHz clock
  of video this is every timestamp that is not a multiple of 9.
\<close>

theorem mp4_roundtrip:
  assumes "t \<noteq> 0" "uint t \<le> second"
  shows "\<exists>d. durationMp4ToGo (ucast (v :: 32 word)) t = Inr d \<and>
    durationGoToMp4 d t = of_int (if uint t dvd uint v * second then uint v else uint v - 1)"
proof -
  have t: "0 < uint t" using uint_ge_0 [of t] assms(1) by (simp add: uint_0_iff less_le)
  let ?d = "uint v * second div uint t"
  have "durationGoToMp4 ?d t = of_int (?d * uint t div second)" by (rule durationGoToMp4_eq [OF int_div_nonneg]) (simp_all add: t)
  then show ?thesis unfolding tick_back [OF t assms(2) uint_ge_0] using durationMp4ToGo_eq [OF assms(1)] by blast
qed

theorem mp4_roundtrip_witness:
  "(90000 :: 32 word) \<noteq> 0 \<and> uint (90000 :: 32 word) \<le> second \<and>
   (\<exists>d. durationMp4ToGo (ucast (3000 :: 32 word)) 90000 = Inr d \<and> durationGoToMp4 d 90000 = 2999) \<and>
   (\<exists>d. durationMp4ToGo (ucast (9000 :: 32 word)) 90000 = Inr d \<and> durationGoToMp4 d 90000 = 9000)"
  using mp4_roundtrip [of 90000 3000] mp4_roundtrip [of 90000 9000] by simp

text \<open>
  A negative duration is not the negative number of ticks: the remainder is divided as an unsigned
  number. The presentation offset of a frame whose time stamp is one millisecond before its decoding
  time is written as \<open>1266874799\<close> ticks instead of \<open>-90\<close>.
\<close>

theorem negative_offset:
  "durationGoToMp4 (- millisecond) 90000 = 18446743983 \<and> i32 (durationGoToMp4 (- millisecond) 90000) = 1266874799"
  by (simp add: durationGoToMp4_def i32_def signed_divide_int_def signed_modulo_int_def Let_def)

section \<open>Access units\<close>

text \<open>\<open>bytes.Index\<close>; \<open>None\<close> is the result \<open>-1\<close>.\<close>

fun Index :: "byte list \<Rightarrow> byte list \<Rightarrow> nat option" where
  "Index s sep =
     (if take (length sep) s = sep then Some 0
      else case s of [] \<Rightarrow> None | _ # s' \<Rightarrow> map_option Suc (Index s' sep))"

declare Index.simps [simp del]

definition naluStartCode :: "byte list" where
  "naluStartCode = [0, 0, 1]"

definition annexbNALUStartCode :: "byte list" where
  "annexbNALUStartCode = [0, 0, 0, 1]"

text \<open>The position and the length of the start code that ends the NAL unit at the start of \<open>nals\<close>.\<close>

definition nextCode :: "byte list \<Rightarrow> (nat \<times> nat) option" where
  "nextCode nals =
     (case Index nals annexbNALUStartCode of
        Some e \<Rightarrow> Some (e, 4)
      | None \<Rightarrow> (case Index nals naluStartCode of Some e \<Rightarrow> Some (e, 3) | None \<Rightarrow> None))"

function split264Nalus :: "byte list \<Rightarrow> byte list list" where
  "split264Nalus nals =
     (if nals = [] then []
      else case nextCode nals of
        None \<Rightarrow> [nals]
      | Some (e, offset) \<Rightarrow> (if e > 0 then [take e nals] else []) @ split264Nalus (drop (e + offset) nals))"
  by pat_completeness auto
termination
proof (relation "measure length")
  fix nals :: "byte list" and x e offset
  assume "nals \<noteq> []" "nextCode nals = Some x" "(e, offset) = x"
  then show "(drop (e + offset) nals, nals) \<in> measure length"
    by (auto simp: nextCode_def split: option.splits)
qed simp

declare split264Nalus.simps [simp del]

text \<open>
  No NAL unit is empty, so that the reading of its first byte (\<open>nalu[0]\<close> in \<open>writeH26x\<close> and in the
  extractor of decoding times) cannot be out of range.
\<close>

lemma Index_bound: "Index s sep = Some e \<Longrightarrow> e + length sep \<le> length s"
proof (induction s arbitrary: e)
  case Nil
  then show ?case by (simp add: Index.simps split: if_splits)
next
  case (Cons x s)
  show ?case
  proof (cases "take (length sep) (x # s) = sep")
    case True
    then have "length sep \<le> length (x # s)" using length_take [of "length sep" "x # s"] by simp
    then show ?thesis using True Cons.prems by (subst (asm) Index.simps) simp
  next
    case False
    then show ?thesis using Cons by (subst (asm) Index.simps) auto
  qed
qed

lemma nextCode_bound: "nextCode nals = Some (e, offset) \<Longrightarrow> e + offset \<le> length nals"
  using Index_bound [of nals annexbNALUStartCode] Index_bound [of nals naluStartCode]
  by (auto simp: nextCode_def annexbNALUStartCode_def naluStartCode_def split: option.splits)

lemma split264_nonempty: "nalu \<in> set (split264Nalus nals) \<Longrightarrow> nalu \<noteq> []"
proof (induction nals rule: split264Nalus.induct)
  case (1 nals)
  have m: "nalu \<in> set (if nals = [] then [] else case nextCode nals of None \<Rightarrow> [nals]
      | Some (e, offset) \<Rightarrow> (if e > 0 then [take e nals] else []) @ split264Nalus (drop (e + offset) nals))"
    using "1.prems" split264Nalus.simps [of nals] by simp
  show ?case
  proof (cases "nextCode nals")
    case None
    then show ?thesis using m by (simp split: if_splits)
  next
    case (Some x)
    obtain e offset where x: "x = (e, offset)" by (cases x)
    show ?thesis using m "1.IH" Some x nextCode_bound [of nals e offset] by (auto split: if_splits)
  qed
qed

text \<open>A NAL unit as the encoder makes it: not empty, no start code inside and no zero byte at the end.\<close>

definition nal :: "byte list \<Rightarrow> bool" where
  "nal n \<longleftrightarrow> n \<noteq> [] \<and> last n \<noteq> 0 \<and> Index n naluStartCode = None"

lemma Index_None: "Index s sep = None \<longleftrightarrow> (\<forall>a b. s \<noteq> a @ sep @ b)"
proof (induction s)
  case Nil
  then show ?case by (auto simp: Index.simps)
next
  case (Cons x s)
  have "(\<exists>a b. x # s = a @ sep @ b) \<longleftrightarrow> (\<exists>b. x # s = sep @ b) \<or> (\<exists>a b. s = a @ sep @ b)"
  proof
    assume "\<exists>a b. x # s = a @ sep @ b"
    then obtain a b where "x # s = a @ sep @ b" by blast
    then show "(\<exists>b. x # s = sep @ b) \<or> (\<exists>a b. s = a @ sep @ b)" by (cases a) auto
  next
    assume "(\<exists>b. x # s = sep @ b) \<or> (\<exists>a b. s = a @ sep @ b)"
    then show "\<exists>a b. x # s = a @ sep @ b" by (metis append_Nil append_Cons)
  qed
  moreover have "(\<exists>b. x # s = sep @ b) \<longleftrightarrow> take (length sep) (x # s) = sep"
    by (metis append_eq_conv_conj append_take_drop_id)
  ultimately show ?case using Cons by (subst Index.simps) auto
qed

lemma Index_append:
  "(\<And>i. i < length n \<Longrightarrow> take (length sep) (drop i (n @ sep @ rest)) \<noteq> sep) \<Longrightarrow> Index (n @ sep @ rest) sep = Some (length n)"
proof (induction n)
  case Nil
  then show ?case by (simp add: Index.simps)
next
  case (Cons x n)
  have "Index (n @ sep @ rest) sep = Some (length n)" using Cons.prems [of "Suc i" for i] by (intro Cons.IH) auto
  then show ?case using Cons.prems [of 0] by (subst Index.simps) simp
qed

lemma Index_code: "nal n \<Longrightarrow> Index n annexbNALUStartCode = None"
proof -
  assume "nal n"
  then have "\<forall>a b. n \<noteq> a @ naluStartCode @ b" by (simp add: nal_def Index_None)
  moreover have "a @ annexbNALUStartCode @ b = (a @ [0]) @ naluStartCode @ b" for a b by (simp add: annexbNALUStartCode_def naluStartCode_def)
  ultimately show ?thesis unfolding Index_None by metis
qed

lemma Index_nal: "nal n \<Longrightarrow> Index (n @ annexbNALUStartCode @ rest) annexbNALUStartCode = Some (length n)"
proof (rule Index_append)
  fix i
  let ?s = "n @ annexbNALUStartCode @ rest"
  assume n: "nal n" and i: "i < length n"
  show "take (length annexbNALUStartCode) (drop i ?s) \<noteq> annexbNALUStartCode"
  proof
    assume h: "take (length annexbNALUStartCode) (drop i ?s) = annexbNALUStartCode"
    show False
    proof (cases "i + 4 \<le> length n")
      case True
      then have "take (length annexbNALUStartCode) (drop i n) = annexbNALUStartCode" using h by (simp add: annexbNALUStartCode_def)
      then have "n = take i n @ annexbNALUStartCode @ drop (length annexbNALUStartCode) (drop i n)" by (metis append_take_drop_id)
      then show False using Index_code [OF n] by (metis Index_None)
    next
      case False
      define j where "j = length n - 1 - i"
      have j: "j < 3" "i + j = length n - 1" using False i by (auto simp: j_def)
      have "annexbNALUStartCode ! j = take (length annexbNALUStartCode) (drop i ?s) ! j" using h by simp
      also have "\<dots> = drop i ?s ! j" by (rule nth_take) (use j(1) in \<open>simp add: annexbNALUStartCode_def\<close>)
      also have "\<dots> = ?s ! (length n - 1)" unfolding j(2) [symmetric] by (rule nth_drop) (use i in simp)
      also have "\<dots> = last n" using n i by (simp add: nth_append last_conv_nth nal_def)
      finally have "last n = 0" using j(1) by (auto simp: annexbNALUStartCode_def less_Suc_eq numeral_eq_Suc)
      then show False using n by (simp add: nal_def)
    qed
  qed
qed

definition annexb :: "byte list list \<Rightarrow> byte list" where
  "annexb ns = concat (map (\<lambda>n. annexbNALUStartCode @ n) ns)"

lemma split_nals: "nal n \<Longrightarrow> \<forall>m \<in> set ns. nal m \<Longrightarrow> split264Nalus (n @ annexb ns) = n # ns"
proof (induction ns arbitrary: n)
  case Nil
  then show ?case using Index_code [of n] by (subst split264Nalus.simps) (simp add: nextCode_def nal_def annexb_def)
next
  case (Cons m ns)
  have e: "n @ annexb (m # ns) = n @ annexbNALUStartCode @ (m @ annexb ns)" by (simp add: annexb_def)
  have "nextCode (n @ annexb (m # ns)) = Some (length n, 4)" unfolding e nextCode_def by (simp add: Index_nal [OF Cons.prems(1)])
  moreover have "drop (length n + 4) (n @ annexb (m # ns)) = m @ annexb ns" unfolding e by (simp add: annexbNALUStartCode_def)
  moreover have "n \<noteq> []" using Cons.prems(1) by (simp add: nal_def)
  ultimately show ?case using Cons by (subst split264Nalus.simps) (simp add: e)
qed

text \<open>C39: 
  The access unit that the depacketizer makes, each NAL unit behind a start code of four bytes, is split
  into exactly its NAL units.
\<close>

theorem split264Nalus_roundtrip:
  assumes "\<forall>n \<in> set ns. nal n"
  shows "split264Nalus (annexb ns) = ns"
proof (cases ns)
  case Nil
  then show ?thesis by (simp add: annexb_def split264Nalus.simps)
next
  case (Cons n ms)
  have e: "annexb ns = annexbNALUStartCode @ (n @ annexb ms)" by (simp add: Cons annexb_def)
  have "nextCode (annexb ns) = Some (0, 4)" unfolding e nextCode_def by (simp add: Index.simps annexbNALUStartCode_def)
  moreover have "drop 4 (annexb ns) = n @ annexb ms" "annexb ns \<noteq> []" unfolding e by (simp_all add: annexbNALUStartCode_def)
  ultimately have "split264Nalus (annexb ns) = split264Nalus (n @ annexb ms)" by (subst split264Nalus.simps) simp
  then show ?thesis using split_nals [of n ms] assms Cons by simp
qed

theorem split264Nalus_roundtrip_witness:
  "split264Nalus (annexb [[0x67, 0, 1], [0x68, 3], [0x65, 0, 0, 2]]) = [[0x67, 0, 1], [0x68, 3], [0x65, 0, 0, 2]]"
  by (rule split264Nalus_roundtrip) (simp add: nal_def naluStartCode_def Index.simps)

text \<open>
  A stream that mixes both start codes is split wrongly: the search prefers a start code of four bytes
  anywhere in the rest to one of three bytes before it. Here a parameter set with a start code of three
  bytes keeps its start code, so that its type is read as 0.
\<close>

theorem split264Nalus_mixed:
  "split264Nalus (naluStartCode @ [0x67, 5] @ annexbNALUStartCode @ [0x65, 7]) = [[0, 0, 1, 0x67, 5], [0x65, 7]]"
  by (simp add: split264Nalus.simps nextCode_def Index.simps naluStartCode_def annexbNALUStartCode_def)

end
