(* ===== verification/SegTemplate.thy ===== *)
theory SegTemplate
  imports GoStrings MediaTime
begin

text \<open>
  The names of recordings: the tags of the path templates (\<open>calcSuperExpr\<close>, \<open>GetCommonLabel\<close> and
  \<open>commonTemplate\<close> of \<open>pkg/segmenter/segmenter.go\<close>), the access to a field of the template context
  (\<open>GetFieldByPath\<close> of \<open>pkg/common/reflect.go\<close>) and the key of a record (\<open>createRecordKey\<close> of
  \<open>signal/model.go\<close>). The templates are executed by package \<open>fasttemplate\<close>, which calls the functions modelled
  here for every tag; that package is a parameter of the segmenter.
\<close>

section \<open>Civil time\<close>

text \<open>
  The calendar of package \<open>time\<close> in UTC, from nanoseconds since 1970: days are counted from the first of
  March of the year 0, in eras of 400 years.
\<close>

record Civil =
  ciYear :: int
  ciMonth :: int
  ciDay :: int
  ciHour :: int
  ciMinute :: int

definition civil :: "int \<Rightarrow> Civil" where
  "civil ns =
     (let secs = ns div second; z = secs div 86400 + 719468; sod = secs mod 86400;
          era = z div 146097; doe = z mod 146097;
          yoe = (doe - doe div 1460 + doe div 36524 - doe div 146096) div 365;
          doy = doe - (365 * yoe + yoe div 4 - yoe div 100);
          mp = (5 * doy + 2) div 153;
          m = (if mp < 10 then mp + 3 else mp - 9)
      in \<lparr> ciYear = yoe + era * 400 + (if m \<le> 2 then 1 else 0), ciMonth = m, ciDay = doy - (153 * mp + 2) div 5 + 1,
           ciHour = sod div 3600, ciMinute = sod mod 3600 div 60 \<rparr>)"

section \<open>Tags\<close>

text \<open>The verb \<open>%0nd\<close>.\<close>

definition padded :: "nat \<Rightarrow> int \<Rightarrow> string" where
  "padded n v =
     (let ds = decimal (nat \<bar>v\<bar>); w = (if v < 0 then n - 1 else n)
      in (if v < 0 then ''-'' else '''') @ replicate (w - length ds) CHR ''0'' @ ds)"

definition calcSuperExpr :: "int \<Rightarrow> string \<Rightarrow> int res" where
  "calcSuperExpr v postfix0 =
     (let postfix = TrimSpace postfix0
      in if postfix = '''' then Inr v
         else if HasPrefix postfix ''|''
         then (case Atoi (TrimSpace (drop 1 postfix)) of
                 None \<Rightarrow> Inl (ErrorPanic (PlainError ''invalid syntax''))
               | Some t \<Rightarrow> if t = 0 then Inl DivideByZero else Inr (i64 (i64 (v sdiv t) * t)))
         else Inl (ErrorPanic (PlainError ''invalid expr %d %s'')))"

text \<open>A nil map of labels is \<open>None\<close>; the loop stops at the first thing that spoils the common value.\<close>

fun commonLabelLoop :: "string \<Rightarrow> (string, string) gomap option list \<Rightarrow> string option \<Rightarrow> (string \<times> bool)" where
  "commonLabelLoop label [] cur = (case cur of None \<Rightarrow> ('''', False) | Some v \<Rightarrow> (v, True))"
| "commonLabelLoop label (None # things) cur = ('''', False)"
| "commonLabelLoop label (Some labels # things) cur =
     (case mget labels label of
        None \<Rightarrow> ('''', False)
      | Some v \<Rightarrow>
          (case cur of
             None \<Rightarrow> commonLabelLoop label things (Some v)
           | Some c \<Rightarrow> if v \<noteq> c then ('''', False) else commonLabelLoop label things cur))"

definition GetCommonLabel :: "string \<Rightarrow> (string, string) gomap option list \<Rightarrow> string \<times> bool" where
  "GetCommonLabel label things = commonLabelLoop label things None"

section \<open>Fields by path\<close>

text \<open>
  The values that reflection meets: a scalar with its rendering, maps (with the kind of their keys), structs,
  interfaces and pointers; \<open>None\<close> is nil.
\<close>

datatype GoValue =
    VScalar string
  | VMap bool "(string \<times> GoValue) list"
  | VStruct "(string \<times> GoValue) list"
  | VIface "GoValue option"
  | VPtr "GoValue option"

fun unwrapPointer :: "GoValue \<Rightarrow> GoValue option" where
  "unwrapPointer (VPtr None) = None"
| "unwrapPointer (VPtr (Some v)) = unwrapPointer v"
| "unwrapPointer v = Some v"

lemma unwrapPointer_size [simp]: "unwrapPointer v = Some w \<Longrightarrow> size w \<le> size v"
  by (induction v rule: unwrapPointer.induct) auto

text \<open>
  \<open>GetFieldByPath\<close> as a loop over the keys. The static type of a pointer is not unwrapped with the value, so a
  pointer to a map makes \<open>Type.Key\<close> panic; a missing field of a struct makes \<open>Value.Type\<close> panic. A value in an
  interface starts the function again with the rest of the keys.
\<close>

definition noField :: "(go_err + GoValue) res" where
  "noField = Inr (Inl (PlainError ''unable to get field %s of %v''))"

function fieldLoop :: "GoValue \<Rightarrow> string list \<Rightarrow> (go_err + GoValue) res" where
  "fieldLoop v [] = Inr (Inr (case v of VIface (Some w) \<Rightarrow> w | _ \<Rightarrow> v))"
| "fieldLoop v (key # keys) =
     (case unwrapPointer v of
        None \<Rightarrow> noField
      | Some (VMap stringKeys m) \<Rightarrow>
          (if (case v of VPtr _ \<Rightarrow> True | _ \<Rightarrow> False) then Inl (ValuePanic ''reflect: Key of non-map type'')
           else if \<not> stringKeys then Inr (Inl (PlainError ''unable to get field %s of %v, %s is a map, but its key is not string''))
           else (case mget m key of None \<Rightarrow> noField | Some w \<Rightarrow> fieldLoop w keys))
      | Some (VStruct fs) \<Rightarrow>
          (case mget fs key of
             None \<Rightarrow> Inl (ValuePanic ''reflect: call of reflect.Value.Type on zero Value'')
           | Some w \<Rightarrow> fieldLoop w keys)
      | Some (VIface (Some w)) \<Rightarrow> fieldLoop w (key # keys)
      | Some (VIface None) \<Rightarrow> noField
      | Some _ \<Rightarrow> noField)"
  by pat_completeness auto
termination
  by (relation "measures [\<lambda>(v, ks). length ks, \<lambda>(v, ks). size v]") (auto dest: unwrapPointer_size)

definition GetFieldByPath :: "string \<Rightarrow> GoValue \<Rightarrow> (go_err + GoValue) res" where
  "GetFieldByPath path obj = fieldLoop obj (Split CHR ''.'' path)"

section \<open>The functions of the templates\<close>

text \<open>
  \<open>t\<close> is the time in UTC, \<open>tracks\<close> the labels of the tracks (\<open>None\<close> for a nil slice), \<open>ctx\<close> the template context,
  \<open>uuid\<close> the hexadecimal digits of a fresh UUID and \<open>sprint\<close> the verb \<open>%v\<close>.
\<close>

definition labelTag :: "string \<Rightarrow> (string, string) gomap option list \<Rightarrow> go_err + string" where
  "labelTag tag tracks =
     (case SplitN CHR '':'' 3 tag of
        _ # labelName # rest \<Rightarrow>
          (case GetCommonLabel labelName tracks of
             (v, True) \<Rightarrow> Inr v
           | (_, False) \<Rightarrow> (case rest of d # _ \<Rightarrow> Inr d | [] \<Rightarrow> Inl (PlainError ''invalid label %s'')))
      | _ \<Rightarrow> Inl (PlainError ''label name is empty''))"

definition uuidTag :: "string \<Rightarrow> string \<Rightarrow> (go_err + string) res" where
  "uuidTag tag uuid =
     (case SplitN CHR '':'' 2 tag of
        _ # e # _ \<Rightarrow>
          (case Atoi (TrimSpace e) of
             None \<Rightarrow> Inr (Inl (PlainError ''invalid uuid expr, %s''))
           | Some l \<Rightarrow>
               if l < 0 \<or> l > 32 then Inr (Inl (PlainError ''invalid uuid expr, uuid len out of boundary, %s''))
               else Inr (Inr (take (nat l) uuid)))
      | _ \<Rightarrow> Inr (Inr (take 32 uuid)))"

definition timeTag :: "nat \<Rightarrow> int \<Rightarrow> string \<Rightarrow> (go_err + string) res" where
  "timeTag width v postfix = bind_res (calcSuperExpr v postfix) (\<lambda>x. Inr (Inr (padded width x)))"

definition commonTemplate ::
  "(GoValue \<Rightarrow> string) \<Rightarrow> string \<Rightarrow> string \<Rightarrow> int \<Rightarrow> (string, string) gomap option list option \<Rightarrow> GoValue \<Rightarrow> (go_err + string) res" where
  "commonTemplate sprint uuid tag t tracks ctx =
     (let tagL = ToLower tag; c = civil t
      in if HasPrefix tagL ''year'' then timeTag 4 (ciYear c) (drop 4 tag)
         else if HasPrefix tagL ''month'' then timeTag 2 (ciMonth c) (drop 5 tag)
         else if HasPrefix tagL ''day'' then timeTag 2 (ciDay c) (drop 3 tag)
         else if HasPrefix tagL ''hour'' then timeTag 2 (ciHour c) (drop 4 tag)
         else if HasPrefix tagL ''minute'' then timeTag 2 (ciMinute c) (drop 6 tag)
         else if HasPrefix tagL ''second'' then timeTag 2 (ciMinute c) (drop 6 tag)
         else if HasPrefix tagL ''label:''
         then (case tracks of None \<Rightarrow> Inr (Inl (PlainError ''unsupported tag %v'')) | Some ts \<Rightarrow> Inr (labelTag tag ts))
         else if HasPrefix tagL ''uuid'' then uuidTag tag uuid
         else bind_res (GetFieldByPath tag ctx) (\<lambda>r.
                Inr (case r of Inl e \<Rightarrow> Inl (PlainError ''parse template failed, %v'') | Inr v \<Rightarrow> Inr (sprint v))))"

definition indexTag ::
  "(GoValue \<Rightarrow> string) \<Rightarrow> string \<Rightarrow> int \<Rightarrow> (string, string) gomap option list option \<Rightarrow> GoValue \<Rightarrow> string \<Rightarrow> (go_err + string) res" where
  "indexTag sprint uuid t tracks ctx tag0 =
     (let tag = TrimSpace tag0
      in if ToLower tag = ''ext'' then Inr (Inr ''.m3u8'') else commonTemplate sprint uuid tag t tracks ctx)"

definition directoryTag ::
  "(GoValue \<Rightarrow> string) \<Rightarrow> string \<Rightarrow> int \<Rightarrow> (string, string) gomap option list option \<Rightarrow> GoValue \<Rightarrow> string \<Rightarrow> (go_err + string) res" where
  "directoryTag sprint uuid t tracks ctx tag0 = commonTemplate sprint uuid (TrimSpace tag0) t tracks ctx"

text \<open>The tags of the key of a record: labels of the tracks and fields of the context.\<close>

definition recordKeyTag :: "(GoValue \<Rightarrow> string) \<Rightarrow> (string, string) gomap option list \<Rightarrow> GoValue \<Rightarrow> string \<Rightarrow> (go_err + string) res" where
  "recordKeyTag sprint tracks ctx tag0 =
     (let tag = TrimSpace tag0
      in if HasPrefix (ToLower tag) ''label:'' then Inr (labelTag tag tracks)
         else bind_res (GetFieldByPath tag ctx) (\<lambda>r.
                Inr (case r of Inl e \<Rightarrow> Inl (PlainError ''invalid tag in key template, %v'') | Inr v \<Rightarrow> Inr (sprint v))))"

definition createRecordKey ::
  "(string \<Rightarrow> (string \<Rightarrow> (go_err + string) res) \<Rightarrow> string res) \<Rightarrow> (GoValue \<Rightarrow> string) \<Rightarrow> string \<Rightarrow> (string, string) gomap option list \<Rightarrow> GoValue \<Rightarrow> string res" where
  "createRecordKey exec sprint keyTemplate tracks ctx =
     (if keyTemplate = '''' then Inl (ErrorPanic (PlainError ''conf record.dbIndex.key should not be empty when dbIndex enabled''))
      else exec keyTemplate (recordKeyTag sprint tracks ctx))"

section \<open>Properties\<close>

text \<open>The common label of some tracks is the value that all of them have, and there is none otherwise or without a track.\<close>

lemma commonLabelLoop_iff:
  "snd (commonLabelLoop label things cur) \<longleftrightarrow>
     (\<exists>v. (cur = None \<or> cur = Some v) \<and> (cur \<noteq> None \<or> things \<noteq> []) \<and>
          (\<forall>t \<in> set things. \<exists>m. t = Some m \<and> mget m label = Some v) \<and> fst (commonLabelLoop label things cur) = v)"
  by (induction label things cur rule: commonLabelLoop.induct) (auto split: option.splits)

theorem GetCommonLabel_correct:
  "GetCommonLabel label things = (v, True) \<longleftrightarrow> things \<noteq> [] \<and> (\<forall>t \<in> set things. \<exists>m. t = Some m \<and> mget m label = Some v)"
proof -
  have "commonLabelLoop label things None = (v, True)" if n: "things \<noteq> []" "\<forall>t \<in> set things. \<exists>m. t = Some m \<and> mget m label = Some v"
  proof -
    have "(cur = None \<longrightarrow> ts \<noteq> []) \<Longrightarrow> (cur = None \<or> cur = Some v) \<Longrightarrow> (\<forall>t \<in> set ts. \<exists>m. t = Some m \<and> mget m label = Some v) \<Longrightarrow>
        commonLabelLoop label ts cur = (v, True)" for ts cur
    proof (induction ts arbitrary: cur)
      case (Cons t ts)
      then obtain m where m: "t = Some m" "mget m label = Some v" by auto
      have "commonLabelLoop label ts (Some v) = (v, True)" using Cons by simp
      then show ?case using m Cons.prems(2) by auto
    qed auto
    then show ?thesis using n by simp
  qed
  then show ?thesis
    using commonLabelLoop_iff [of label things None] unfolding GetCommonLabel_def by (auto simp: prod_eq_iff)
qed

text \<open>The tag \<open>{{second}}\<close> writes the minute.\<close>

theorem second_is_minute:
  "commonTemplate sprint uuid ''second'' t tracks ctx = commonTemplate sprint uuid ''minute'' t tracks ctx"
  by (simp add: commonTemplate_def ToLower_def HasPrefix_def Let_def)

text \<open>
  The path of a file of a recording: a label that a client gave to its track, used in the template of the
  directory, can lead out of the base directory.
\<close>

theorem label_escapes_base:
  "commonTemplate sprint uuid ''label:room'' t (Some [Some [(''room'', ''../../etc'')]]) ctx = Inr (Inr ''../../etc'') \<and>
   path_Join [''/data/records'', ''../../etc'', ''index.m3u8''] = ''/etc/index.m3u8''"
proof
  show "commonTemplate sprint uuid ''label:room'' t (Some [Some [(''room'', ''../../etc'')]]) ctx = Inr (Inr ''../../etc'')"
  proof -
    have "SplitN CHR '':'' 3 ''label:room'' = [''label'', ''room'']" by code_simp
    then show ?thesis by (simp add: commonTemplate_def ToLower_def HasPrefix_def Let_def labelTag_def GetCommonLabel_def)
  qed
  show "path_Join [''/data/records'', ''../../etc'', ''index.m3u8''] = ''/etc/index.m3u8''" by code_simp
qed

end
