(* ===== verification/H264Dts.thy ===== *)
theory H264Dts
  imports MediaTime
begin

text \<open>
  The extractor of decoding times (\<open>pkg/segmenter/h264dtsextractor.go\<close>): from the presentation time of an
  access unit and the picture order count of its slice it computes the decoding time. The parsers of
  package \<open>mediacommon\<close> (the parameter set, the removal of emulation prevention bytes, Golomb codes and
  bits) are the fields of the parameter \<open>H264Lib\<close>; of a parameter set the record has the fields that the
  code reads. A frame rate, a \<open>float64\<close> that is only stored and compared for equality, is an \<open>int\<close>.
\<close>

unbundle bit_operations_syntax

section \<open>Definitions\<close>

record SPS =
  Log2MaxFrameNumMinus4 :: "32 word"
  PicOrderCntType :: "32 word"
  Log2MaxPicOrderCntLsbMinus4 :: "32 word"
  FrameMbsOnlyFlag :: bool
  spsWidth :: int
  spsHeight :: int
  spsFPS :: int

record H264Lib =
  SPS_Unmarshal :: "byte list \<Rightarrow> go_err + SPS"
  EmulationPreventionRemove :: "byte list \<Rightarrow> byte list"
  ReadGolombUnsigned :: "byte list \<Rightarrow> nat \<Rightarrow> go_err + 32 word \<times> nat"
  ReadBits :: "byte list \<Rightarrow> nat \<Rightarrow> nat \<Rightarrow> go_err + 64 word \<times> nat"

definition maxReorderedFrames :: int where
  "maxReorderedFrames = 50"

definition maxBytesToGetPOC :: nat where
  "maxBytesToGetPOC = 22"

text \<open>The types of NAL units.\<close>

definition NALUType :: "byte list \<Rightarrow> byte res" where
  "NALUType nalu = (case nalu of [] \<Rightarrow> Inl IndexOutOfRange | b # _ \<Rightarrow> Inr (b AND 0x1F))"

abbreviation (input) NALUTypeNonIDR :: byte where "NALUTypeNonIDR \<equiv> 1"
abbreviation (input) NALUTypeIDR :: byte where "NALUTypeIDR \<equiv> 5"
abbreviation (input) NALUTypeSPS :: byte where "NALUTypeSPS \<equiv> 7"
abbreviation (input) NALUTypePPS :: byte where "NALUTypePPS \<equiv> 8"

definition getPictureOrderCount :: "H264Lib \<Rightarrow> byte list \<Rightarrow> SPS \<Rightarrow> (go_err + 32 word) res" where
  "getPictureOrderCount lib buf0 sps =
     (case buf0 of
        [] \<Rightarrow> Inl SliceBounds
      | _ # buf1 \<Rightarrow>
          (let lb = (if length buf1 > maxBytesToGetPOC then maxBytesToGetPOC else length buf1);
               buf = EmulationPreventionRemove lib (take lb buf1)
           in Inr (bind_res (ReadGolombUnsigned lib buf 0) (\<lambda>(_, pos).
                   bind_res (ReadGolombUnsigned lib buf pos) (\<lambda>(_, pos).
                   bind_res (ReadGolombUnsigned lib buf pos) (\<lambda>(_, pos).
                   bind_res (ReadBits lib buf pos (unat (Log2MaxFrameNumMinus4 sps + 4))) (\<lambda>(_, pos).
                   bind_res (ReadBits lib buf pos (unat (Log2MaxPicOrderCntLsbMinus4 sps + 4))) (\<lambda>(picOrderCntLsb, pos).
                   Inr (ucast picOrderCntLsb)))))))))"

definition getPictureOrderCountDiff :: "32 word \<Rightarrow> 32 word \<Rightarrow> SPS \<Rightarrow> int" where
  "getPictureOrderCountDiff a b sps =
     (let mx = push_bit (unat (Log2MaxPicOrderCntLsbMinus4 sps + 4)) (1 :: 32 word);
          d = (a - b) AND (mx - 1)
      in if d > mx div 2 then sint (d - mx) else sint d)"

record DTSExtractor =
  deSps :: "byte list"
  deSpsp :: "SPS option"
  prevDTSFilled :: bool
  prevDTS :: int
  expectedPOC :: "32 word"
  reorderedFrames :: int
  pauseDTS :: int
  pocIncrement :: int

definition NewH264DTSExtractor :: DTSExtractor where
  "NewH264DTSExtractor = \<lparr> deSps = [], deSpsp = None, prevDTSFilled = False, prevDTS = 0, expectedPOC = 0,
     reorderedFrames = 0, pauseDTS = 0, pocIncrement = 2 \<rparr>"

text \<open>The loop over the NAL units: the last IDR and non-IDR slice, and the parameter set.\<close>

fun scanNalus :: "H264Lib \<Rightarrow> byte list list \<Rightarrow> byte list option \<Rightarrow> byte list option \<Rightarrow> DTSExtractor
    \<Rightarrow> (DTSExtractor \<times> (go_err + byte list option \<times> byte list option)) res" where
  "scanNalus lib [] idr nonIDR d = Inr (d, Inr (idr, nonIDR))"
| "scanNalus lib (nalu # au) idr nonIDR d =
     bind_res (NALUType nalu) (\<lambda>typ.
       if typ = NALUTypeSPS
       then (if deSps d \<noteq> nalu
             then (case SPS_Unmarshal lib nalu of
                     Inl e \<Rightarrow> Inr (d, Inl (PlainError ''invalid SPS: %v''))
                   | Inr spsp \<Rightarrow>
                       scanNalus lib au idr nonIDR
                         (d\<lparr> deSps := nalu, deSpsp := Some spsp, reorderedFrames := 0, pocIncrement := 2 \<rparr>))
             else scanNalus lib au idr nonIDR d)
       else if typ = NALUTypeIDR then scanNalus lib au (Some nalu) nonIDR d
       else if typ = NALUTypeNonIDR then scanNalus lib au idr (Some nalu) d
       else scanNalus lib au idr nonIDR d)"

text \<open>An integer division, which panics for the divisor 0.\<close>

definition quot :: "int \<Rightarrow> int \<Rightarrow> int res" where
  "quot a b = (if b = 0 then Inl DivideByZero else Inr (a sdiv b))"

text \<open>The time between the last decoding time and \<open>pts\<close>, in \<open>n\<close> steps.\<close>

definition interpolate :: "int \<Rightarrow> int \<Rightarrow> DTSExtractor \<Rightarrow> (DTSExtractor \<times> (go_err + int \<times> bool)) res" where
  "interpolate pts n d =
     bind_res (quot (i64 (pts - prevDTS d)) n) (\<lambda>q. Inr (d, Inr (i64 (prevDTS d + q), False)))"

definition extractIDR :: "int \<Rightarrow> DTSExtractor \<Rightarrow> (DTSExtractor \<times> (go_err + int \<times> bool)) res" where
  "extractIDR pts d0 =
     (let d = d0\<lparr> expectedPOC := 0, pauseDTS := 0 \<rparr>
      in if \<not> prevDTSFilled d \<or> reorderedFrames d = 0 then Inr (d, Inr (pts, False))
         else interpolate pts (reorderedFrames d + 1) d)"

text \<open>A slice that is no IDR, after its picture order count has been read.\<close>

definition reorder :: "int \<Rightarrow> int \<Rightarrow> DTSExtractor \<Rightarrow> (DTSExtractor \<times> (go_err + int \<times> bool)) res" where
  "reorder pts pocDiff d =
     (let limit = - (reorderedFrames d + 1)
      in if pocDiff < limit
         then (let increase = limit - pocDiff
               in if reorderedFrames d + increase > maxReorderedFrames
                  then Inr (d, Inl (PlainError ''too many reordered frames (%d)''))
                  else Inr (d\<lparr> reorderedFrames := reorderedFrames d + increase, pauseDTS := increase \<rparr>,
                            Inr (i64 (prevDTS d + millisecond), True)))
         else if pocDiff = limit then Inr (d, Inr (pts, False))
         else if pocDiff > reorderedFrames d
         then (let increase = pocDiff - reorderedFrames d
               in if reorderedFrames d + increase > maxReorderedFrames
                  then Inr (d, Inl (PlainError ''too many reordered frames (%d)''))
                  else Inr (d\<lparr> reorderedFrames := reorderedFrames d + increase, pauseDTS := increase - 1 \<rparr>,
                            Inr (i64 (prevDTS d + millisecond), False)))
         else interpolate pts (pocDiff + reorderedFrames d + 1) d)"

definition extractNonIDR :: "H264Lib \<Rightarrow> byte list \<Rightarrow> SPS \<Rightarrow> int \<Rightarrow> DTSExtractor \<Rightarrow> (DTSExtractor \<times> (go_err + int \<times> bool)) res" where
  "extractNonIDR lib nonIDR spsp pts d0 =
     (let d = d0\<lparr> expectedPOC := (expectedPOC d0 + of_int (pocIncrement d0)) AND
                   (push_bit (unat (Log2MaxPicOrderCntLsbMinus4 spsp + 4)) 1 - 1) \<rparr>
      in if pauseDTS d > 0
         then Inr (d\<lparr> pauseDTS := pauseDTS d - 1 \<rparr>, Inr (i64 (prevDTS d + millisecond), True))
         else bind_res (getPictureOrderCount lib nonIDR spsp) (\<lambda>r.
                case r of
                  Inl e \<Rightarrow> Inr (d, Inl e)
                | Inr poc \<Rightarrow>
                    (let d1 = (if pocIncrement d = 2 \<and> poc mod 2 \<noteq> 0
                               then d\<lparr> pocIncrement := 1, expectedPOC := expectedPOC d div 2 \<rparr> else d)
                     in bind_res (quot (getPictureOrderCountDiff poc (expectedPOC d1) spsp) (pocIncrement d1)) (\<lambda>pocDiff.
                          reorder pts pocDiff d1))))"

definition extractInner :: "H264Lib \<Rightarrow> byte list list \<Rightarrow> int \<Rightarrow> DTSExtractor \<Rightarrow> (DTSExtractor \<times> (go_err + int \<times> bool)) res" where
  "extractInner lib au pts d0 =
     bind_res (scanNalus lib au None None d0) (\<lambda>(d, r).
       case r of
         Inl e \<Rightarrow> Inr (d, Inl e)
       | Inr (idr, nonIDR) \<Rightarrow>
           (case deSpsp d of
              None \<Rightarrow> Inr (d, Inl (PlainError ''SPS not received yet''))
            | Some spsp \<Rightarrow>
                if PicOrderCntType spsp = 2 \<or> \<not> FrameMbsOnlyFlag spsp then Inr (d, Inr (pts, False))
                else if PicOrderCntType spsp = 1 then Inr (d, Inl (PlainError ''pic_order_cnt_type = 1 is not supported yet''))
                else (case idr of
                        Some _ \<Rightarrow> extractIDR pts d
                      | None \<Rightarrow>
                          (case nonIDR of
                             Some n \<Rightarrow> extractNonIDR lib n spsp pts d
                           | None \<Rightarrow> Inr (d, Inl (PlainError ''access unit doesn't contain an IDR or non-IDR NALU''))))))"

definition Extract :: "H264Lib \<Rightarrow> byte list list \<Rightarrow> int \<Rightarrow> DTSExtractor \<Rightarrow> (DTSExtractor \<times> (go_err + int)) res" where
  "Extract lib au pts d0 =
     bind_res (extractInner lib au pts d0) (\<lambda>(d, r).
       case r of
         Inl e \<Rightarrow> Inr (d, Inl e)
       | Inr (dts, skipChecks) \<Rightarrow>
           if \<not> skipChecks \<and> dts > pts then Inr (d, Inl (PlainError ''DTS is greater than PTS''))
           else if prevDTSFilled d \<and> dts \<le> prevDTS d
           then Inr (d, Inl (PlainError ''DTS is not monotonically increasing, was %v, now is %v''))
           else Inr (d\<lparr> prevDTS := dts, prevDTSFilled := True \<rparr>, Inr dts))"

section \<open>Properties\<close>

text \<open>The well-formed states of the extractor.\<close>

definition de_ok :: "DTSExtractor \<Rightarrow> bool" where
  "de_ok d \<longleftrightarrow> 0 \<le> reorderedFrames d \<and> reorderedFrames d \<le> maxReorderedFrames \<and>
     0 \<le> pauseDTS d \<and> pauseDTS d \<le> maxReorderedFrames \<and> (pocIncrement d = 1 \<or> pocIncrement d = 2)"

text \<open>
  What a part of the extraction does to the state: it returns, keeps it well formed and leaves the last
  decoding time; its result has the property \<open>Q\<close>. The property \<open>bridged\<close> of a result: an answer that skips the
  checks is the last decoding time plus a millisecond.
\<close>

definition keeps :: "('a \<Rightarrow> bool) \<Rightarrow> DTSExtractor \<Rightarrow> (DTSExtractor \<times> 'a) res \<Rightarrow> bool" where
  "keeps Q d r \<longleftrightarrow> (\<exists>d' x. r = Inr (d', x) \<and> de_ok d' \<and> prevDTS d' = prevDTS d \<and> prevDTSFilled d' = prevDTSFilled d \<and> Q x)"

definition bridged :: "DTSExtractor \<Rightarrow> go_err + int \<times> bool \<Rightarrow> bool" where
  "bridged d x \<longleftrightarrow> (\<forall>dts. x = Inr (dts, True) \<longrightarrow> dts = i64 (prevDTS d + millisecond))"

lemma keepsI [intro]: "de_ok d' \<Longrightarrow> prevDTS d' = prevDTS d \<Longrightarrow> prevDTSFilled d' = prevDTSFilled d \<Longrightarrow> Q x \<Longrightarrow> keeps Q d (Inr (d', x))"
  by (simp add: keeps_def)

lemma keeps_bind:
  assumes "keeps Q d r"
    and "\<And>d' x. de_ok d' \<Longrightarrow> prevDTS d' = prevDTS d \<Longrightarrow> prevDTSFilled d' = prevDTSFilled d \<Longrightarrow> Q x \<Longrightarrow> keeps R d (f (d', x))"
  shows "keeps R d (bind_res r f)"
  using assms unfolding keeps_def by fastforce

lemma keeps_mono:
  "keeps (bridged d') d' r \<Longrightarrow> prevDTS d' = prevDTS d \<Longrightarrow> prevDTSFilled d' = prevDTSFilled d \<Longrightarrow> keeps (bridged d) d r"
  by (simp add: keeps_def bridged_def)

lemma bridged_simps [simp]: "bridged d (Inl e)" "bridged d (Inr (dts, False))" "bridged d (Inr (i64 (prevDTS d + millisecond), True))"
  by (simp_all add: bridged_def)

lemma interpolate_keeps: "de_ok d \<Longrightarrow> n \<noteq> 0 \<Longrightarrow> keeps (bridged d) d (interpolate pts n d)"
  by (auto simp: interpolate_def quot_def)

lemma extractIDR_keeps: "de_ok d \<Longrightarrow> keeps (bridged d) d (extractIDR pts d)"
proof -
  assume d: "de_ok d"
  let ?d = "d\<lparr> expectedPOC := 0, pauseDTS := 0 \<rparr>"
  have o: "de_ok ?d" using d by (simp add: de_ok_def maxReorderedFrames_def)
  have "keeps (bridged ?d) ?d (interpolate pts (reorderedFrames ?d + 1) ?d)" using d by (intro interpolate_keeps o) (simp add: de_ok_def)
  then have "keeps (bridged d) d (interpolate pts (reorderedFrames ?d + 1) ?d)" by (rule keeps_mono) simp_all
  then show ?thesis using o by (auto simp: extractIDR_def Let_def)
qed

lemma reorder_keeps: "de_ok d \<Longrightarrow> keeps (bridged d) d (reorder pts pocDiff d)"
proof -
  assume d: "de_ok d"
  consider "pocDiff < - (reorderedFrames d + 1)" | "pocDiff = - (reorderedFrames d + 1)"
    | "pocDiff > - (reorderedFrames d + 1)" "pocDiff > reorderedFrames d" | "pocDiff > - (reorderedFrames d + 1)" "pocDiff \<le> reorderedFrames d"
    by linarith
  then show ?thesis
  proof cases
    case 1
    then show ?thesis using d by (auto simp: reorder_def Let_def de_ok_def)
  next
    case 2
    then show ?thesis using d by (auto simp: reorder_def)
  next
    case 3
    then show ?thesis using d by (auto simp: reorder_def Let_def de_ok_def)
  next
    case 4
    then show ?thesis using interpolate_keeps [OF d, of "pocDiff + reorderedFrames d + 1" pts] by (simp add: reorder_def Let_def)
  qed
qed

lemma extractNonIDR_keeps: "de_ok d \<Longrightarrow> n \<noteq> [] \<Longrightarrow> keeps (bridged d) d (extractNonIDR lib n spsp pts d)"
proof -
  assume d: "de_ok d" and n: "n \<noteq> []"
  define e where "e = d\<lparr> expectedPOC := (expectedPOC d + of_int (pocIncrement d)) AND (push_bit (unat (Log2MaxPicOrderCntLsbMinus4 spsp + 4)) 1 - 1) \<rparr>"
  have e: "de_ok e" "prevDTS e = prevDTS d" "prevDTSFilled e = prevDTSFilled d" using d by (simp_all add: de_ok_def e_def)
  obtain r where r: "getPictureOrderCount lib n spsp = Inr r" using n by (cases n) (auto simp: getPictureOrderCount_def Let_def)
  let ?d1 = "\<lambda>poc. if pocIncrement e = 2 \<and> poc mod 2 \<noteq> 0 then e\<lparr> pocIncrement := 1, expectedPOC := expectedPOC e div 2 \<rparr> else e"
  have d1: "de_ok (?d1 poc)" "prevDTS (?d1 poc) = prevDTS d" "prevDTSFilled (?d1 poc) = prevDTSFilled d" "pocIncrement (?d1 poc) \<noteq> 0" for poc :: "32 word"
    using e by (auto simp: de_ok_def)
  have k: "keeps (bridged d) d (bind_res (quot x (pocIncrement (?d1 poc))) (\<lambda>pocDiff. reorder pts pocDiff (?d1 poc)))" for poc :: "32 word" and x
  proof -
    have "keeps (bridged (?d1 poc)) (?d1 poc) (reorder pts (x sdiv pocIncrement (?d1 poc)) (?d1 poc))" by (rule reorder_keeps [OF d1(1)])
    from keeps_mono [OF this d1(2,3)] show ?thesis using d1(4) [of poc] by (simp add: quot_def)
  qed
  show ?thesis
  proof (cases "pauseDTS e > 0")
    case True
    then have "extractNonIDR lib n spsp pts d = Inr (e\<lparr> pauseDTS := pauseDTS e - 1 \<rparr>, Inr (i64 (prevDTS e + millisecond), True))"
      unfolding extractNonIDR_def Let_def e_def [symmetric] by simp
    then show ?thesis using e True by (auto simp: de_ok_def bridged_def)
  next
    case False
    show ?thesis
    proof (cases r)
      case (Inl x)
      then show ?thesis using False r e unfolding extractNonIDR_def Let_def e_def [symmetric] by auto
    next
      case (Inr poc)
      then show ?thesis using False r k [of "getPictureOrderCountDiff poc (expectedPOC (?d1 poc)) spsp" poc]
        unfolding extractNonIDR_def Let_def e_def [symmetric] by simp
    qed
  qed
qed

definition sliced :: "go_err + byte list option \<times> byte list option \<Rightarrow> bool" where
  "sliced x \<longleftrightarrow> (\<forall>i. x \<noteq> Inr (i, Some []))"

lemma sliced_simps [simp]: "sliced (Inl e)" "sliced (Inr (i, m)) \<longleftrightarrow> m \<noteq> Some []"
  by (auto simp: sliced_def)

lemma scanNalus_keeps:
  assumes "de_ok d" "\<forall>n \<in> set au. n \<noteq> []" "nonIDR \<noteq> Some []"
  shows "keeps sliced d (scanNalus lib au idr nonIDR d)"
  using assms
proof (induction au arbitrary: idr nonIDR d)
  case Nil
  then show ?case by auto
next
  case (Cons n au)
  obtain b where t: "NALUType n = Inr b" using Cons.prems(2) by (cases n) (auto simp: NALUType_def)
  have k: "keeps sliced d (scanNalus lib au i m d')"
    if "de_ok d'" "prevDTS d' = prevDTS d" "prevDTSFilled d' = prevDTSFilled d" "m \<noteq> Some []" for i m d'
    using Cons.IH [OF that(1) _ that(4), of i] Cons.prems(2) that(2,3) by (simp add: keeps_def)
  have "de_ok (d\<lparr> deSps := n, deSpsp := Some x, reorderedFrames := 0, pocIncrement := 2 \<rparr>)" for x
    using Cons.prems(1) by (simp add: de_ok_def maxReorderedFrames_def)
  then show ?case using t k Cons.prems by (auto split: sum.splits)
qed

lemma extractInner_keeps:
  assumes "de_ok d" "\<forall>n \<in> set au. n \<noteq> []"
  shows "keeps (bridged d) d (extractInner lib au pts d)"
  unfolding extractInner_def
proof (rule keeps_bind [OF scanNalus_keeps [OF assms]])
  fix e x assume e: "de_ok e" "prevDTS e = prevDTS d" "prevDTSFilled e = prevDTSFilled d" and x: "sliced x"
  note k = keeps_mono [OF extractIDR_keeps [OF e(1)] e(2,3)] keeps_mono [OF extractNonIDR_keeps [OF e(1)] e(2,3)]
  show "keeps (bridged d) d (case (e, x) of (d, r) \<Rightarrow> case r of Inl e \<Rightarrow> Inr (d, Inl e)
     | Inr (idr, nonIDR) \<Rightarrow> (case deSpsp d of None \<Rightarrow> Inr (d, Inl (PlainError ''SPS not received yet''))
       | Some spsp \<Rightarrow> if PicOrderCntType spsp = 2 \<or> \<not> FrameMbsOnlyFlag spsp then Inr (d, Inr (pts, False))
          else if PicOrderCntType spsp = 1 then Inr (d, Inl (PlainError ''pic_order_cnt_type = 1 is not supported yet''))
          else (case idr of Some _ \<Rightarrow> extractIDR pts d
            | None \<Rightarrow> (case nonIDR of Some n \<Rightarrow> extractNonIDR lib n spsp pts d
                | None \<Rightarrow> Inr (d, Inl (PlainError ''access unit doesn't contain an IDR or non-IDR NALU''))))))"
    using e k x by (auto split: sum.splits option.splits)
qed simp

lemma Extract_ok:
  assumes "de_ok d" "\<forall>n \<in> set au. n \<noteq> []"
  shows "\<exists>d' r. Extract lib au pts d = Inr (d', r) \<and> de_ok d' \<and>
    (case r of Inl e \<Rightarrow> prevDTS d' = prevDTS d \<and> prevDTSFilled d' = prevDTSFilled d
     | Inr dts \<Rightarrow> prevDTS d' = dts \<and> prevDTSFilled d' \<and> (prevDTSFilled d \<longrightarrow> prevDTS d < dts))"
proof -
  obtain e x where e: "extractInner lib au pts d = Inr (e, x)" "de_ok e" "prevDTS e = prevDTS d" "prevDTSFilled e = prevDTSFilled d"
    using extractInner_keeps [OF assms, of lib pts] by (auto simp: keeps_def)
  have "de_ok (e\<lparr> prevDTS := dts, prevDTSFilled := True \<rparr>)" for dts using e(2) by (simp add: de_ok_def)
  then show ?thesis using e by (cases x) (auto simp: Extract_def)
qed

text \<open>The extraction of a stream of access units; units with an error are left out.\<close>

fun extractAll :: "H264Lib \<Rightarrow> (byte list list \<times> int) list \<Rightarrow> DTSExtractor \<Rightarrow> int list res" where
  "extractAll lib [] d = Inr []"
| "extractAll lib ((au, pts) # aus) d =
     bind_res (Extract lib au pts d) (\<lambda>(d', r).
       bind_res (extractAll lib aus d') (\<lambda>ds. Inr (case r of Inl _ \<Rightarrow> ds | Inr dts \<Rightarrow> dts # ds)))"

lemma extractAll_ok:
  assumes "de_ok d" "\<forall>(au, pts) \<in> set aus. \<forall>n \<in> set au. n \<noteq> []"
  shows "\<exists>ds. extractAll lib aus d = Inr ds \<and> sorted_wrt (<) ds \<and> (prevDTSFilled d \<longrightarrow> (\<forall>x \<in> set ds. prevDTS d < x))"
  using assms
proof (induction aus arbitrary: d)
  case Nil
  then show ?case by simp
next
  case (Cons a aus)
  obtain au pts where a: "a = (au, pts)" by (cases a)
  obtain d' r where e: "Extract lib au pts d = Inr (d', r)" "de_ok d'"
    "case r of Inl e \<Rightarrow> prevDTS d' = prevDTS d \<and> prevDTSFilled d' = prevDTSFilled d
     | Inr dts \<Rightarrow> prevDTS d' = dts \<and> prevDTSFilled d' \<and> (prevDTSFilled d \<longrightarrow> prevDTS d < dts)"
    using Extract_ok [OF Cons.prems(1), of au lib pts] Cons.prems(2) a by auto
  obtain ds where ds: "extractAll lib aus d' = Inr ds" "sorted_wrt (<) ds" "prevDTSFilled d' \<longrightarrow> (\<forall>x \<in> set ds. prevDTS d' < x)"
    using Cons.IH [OF e(2)] Cons.prems(2) by auto
  show ?case using e ds a by (auto split: sum.splits)
qed

text \<open>C21: 
  For any stream of access units without empty NAL units the extraction returns: no index is out of range,
  no slice is out of bounds and no division is by zero, in whatever order parameter sets, IDR and other
  slices come, and whatever the parsers answer. The decoding times of the stream are strictly increasing,
  those after errors included.
\<close>

theorem extractAll_increasing:
  assumes "\<forall>(au, pts) \<in> set aus. \<forall>n \<in> set au. n \<noteq> []"
  shows "\<exists>ds. extractAll lib aus NewH264DTSExtractor = Inr ds \<and> sorted_wrt (<) ds"
  using extractAll_ok [of NewH264DTSExtractor aus lib] assms by (auto simp: de_ok_def NewH264DTSExtractor_def maxReorderedFrames_def)

text \<open>
  A decoding time is not after the presentation time, unless it is the last one plus a millisecond, which
  the extractor answers while it makes up for reordered frames.
\<close>

theorem Extract_pts:
  assumes "de_ok d" "\<forall>n \<in> set au. n \<noteq> []" "Extract lib au pts d = Inr (d', Inr dts)"
  shows "dts \<le> pts \<or> dts = i64 (prevDTS d + millisecond)"
proof -
  obtain e r where "extractInner lib au pts d = Inr (e, r)" "prevDTS e = prevDTS d" "bridged d r"
    using extractInner_keeps [OF assms(1,2), of lib pts] by (auto simp: keeps_def)
  then show ?thesis using assms(3) by (cases r) (auto simp: Extract_def bridged_def split: if_splits)
qed

lemma sint_word_of_int32: "- 2147483648 \<le> x \<Longrightarrow> x < 2147483648 \<Longrightarrow> sint (word_of_int x :: 32 word) = x"
  by (simp add: int_word_sint)

lemma ring_distance:
  fixes z :: int
  assumes "0 < M" "2 * h = M" "D = (if h < z mod M then z mod M - M else z mod M)"
  shows "(z - D) mod M = 0 \<and> - M < 2 * D \<and> 2 * D \<le> M"
proof -
  have "z - D = (if h < z mod M then z div M + 1 else z div M) * M"
    using assms(3) div_mult_mod_eq [of z M] by (auto simp: algebra_simps)
  then have "(z - D) mod M = 0" by simp
  moreover have "0 \<le> z mod M" "z mod M < M" using assms(1) by simp_all
  then have "- M < 2 * D \<and> 2 * D \<le> M" using assms(2,3) by (intro conjI) (split if_splits, linarith, linarith)+
  ultimately show ?thesis by blast
qed

text \<open>C40: 
  The difference of two picture order counts is the signed distance in the ring of counts: congruent to the
  difference and between minus and plus half of the ring (\<open>log2_max_pic_order_cnt_lsb_minus4\<close> is at most 12).
\<close>

theorem getPictureOrderCountDiff_range:
  assumes "unat (Log2MaxPicOrderCntLsbMinus4 sps) \<le> 12"
  shows "let m = 2 ^ (unat (Log2MaxPicOrderCntLsbMinus4 sps) + 4); d = getPictureOrderCountDiff a b sps
    in (uint a - uint b - d) mod m = 0 \<and> - m < 2 * d \<and> 2 * d \<le> m"
proof -
  define k where "k = unat (Log2MaxPicOrderCntLsbMinus4 sps) + 4"
  have k: "4 \<le> k" "k \<le> 16" "unat (Log2MaxPicOrderCntLsbMinus4 sps + 4) = k"
    using assms by (simp_all add: k_def unat_word_ariths)
  let ?d = "(a - b) AND (push_bit k (1 :: 32 word) - 1)" and ?x = "(uint a - uint b) mod 2 ^ k"
  have m: "push_bit k (1 :: 32 word) = 2 ^ k" by simp
  have p: "(2 :: int) ^ k \<le> 2 ^ 16" using k(2) by (rule power_increasing) simp
  have u: "uint (2 ^ k :: 32 word) = 2 ^ k" by (rule word_of_int_inverse) (use p in simp_all)
  have "uint ?d = take_bit k (uint (a - b))" unfolding m mask_eq_exp_minus_1 [symmetric] take_bit_eq_mask [symmetric] by (rule unsigned_take_bit_eq)
  also have "\<dots> = ?x"
    unfolding take_bit_eq_mod uint_word_ariths(2) by (rule mod_mod_cancel, rule le_imp_power_dvd) (use k(2) in simp)
  finally have d: "uint ?d = ?x" .
  have x: "0 \<le> ?x" "?x < 2 ^ k" by simp_all
  have h: "?d > 2 ^ k div 2 \<longleftrightarrow> 2 ^ k div 2 < ?x" unfolding word_less_def uint_div u d by simp
  have e: "(2 :: int) * (2 ^ k div 2) = 2 ^ k" using k(1) by (cases k) simp_all
  have s: "sint ?d = ?x" "sint (?d - 2 ^ k) = ?x - 2 ^ k"
  proof -
    have w: "?d = word_of_int ?x" unfolding d [symmetric] by simp
    have p': "(2 :: int) ^ k \<le> 65536" using p by simp
    show "sint ?d = ?x" unfolding w by (rule sint_word_of_int32) (use x p' in linarith)+
    have "?d - 2 ^ k = word_of_int (?x - 2 ^ k)" by (subst w) simp
    moreover have "sint (word_of_int (?x - 2 ^ k) :: 32 word) = ?x - 2 ^ k" by (rule sint_word_of_int32) (use x p' in linarith)+
    ultimately show "sint (?d - 2 ^ k) = ?x - 2 ^ k" by simp
  qed
  have v: "getPictureOrderCountDiff a b sps = (if 2 ^ k div 2 < ?x then ?x - 2 ^ k else ?x)"
    unfolding getPictureOrderCountDiff_def Let_def k(3) using s h m by simp
  show ?thesis
    unfolding Let_def k_def [symmetric] by (rule ring_distance [OF _ e v]) simp
qed

text \<open>Parsers for examples: the picture order count is the first byte of a slice.\<close>

definition demoLib :: H264Lib where
  "demoLib = \<lparr> SPS_Unmarshal = (\<lambda>_. Inr \<lparr> Log2MaxFrameNumMinus4 = 0, PicOrderCntType = 0, Log2MaxPicOrderCntLsbMinus4 = 0,
       FrameMbsOnlyFlag = True, spsWidth = 640, spsHeight = 480, spsFPS = 25 \<rparr>),
     EmulationPreventionRemove = (\<lambda>b. b), ReadGolombUnsigned = (\<lambda>_ pos. Inr (0, pos + 1)),
     ReadBits = (\<lambda>b pos n. Inr (ucast (hd b), pos + n)) \<rparr>"

lemmas extract_eval = Extract_def extractInner_def extractIDR_def extractNonIDR_def reorder_def interpolate_def quot_def
  getPictureOrderCount_def getPictureOrderCountDiff_def NALUType_def i64_def maxBytesToGetPOC_def maxReorderedFrames_def
  NewH264DTSExtractor_def demoLib_def Let_def

text \<open>A key frame, a frame that is shown after the next one, and that next one.\<close>

definition demoStream :: "(byte list list \<times> int) list" where
  "demoStream = [([[0x67], [0x65]], 100000000), ([[0x41, 4]], 180000000), ([[0x41, 2]], 140000000)]"

theorem extractAll_increasing_witness:
  "extractAll demoLib demoStream NewH264DTSExtractor = Inr [100000000, 101000000, 140000000] \<and>
   (\<exists>ds. extractAll demoLib demoStream NewH264DTSExtractor = Inr ds \<and> sorted_wrt (<) ds)"
proof
  show "extractAll demoLib demoStream NewH264DTSExtractor = Inr [100000000, 101000000, 140000000]"
    by (simp add: demoStream_def extract_eval signed_divide_int_def)
  show "\<exists>ds. extractAll demoLib demoStream NewH264DTSExtractor = Inr ds \<and> sorted_wrt (<) ds"
    by (rule extractAll_increasing) (simp add: demoStream_def)
qed

theorem getPictureOrderCountDiff_range_witness:
  "getPictureOrderCountDiff 1 15 (projr (SPS_Unmarshal demoLib [])) = 2 \<and>
   (let m = 2 ^ 4; d = getPictureOrderCountDiff 1 15 (projr (SPS_Unmarshal demoLib []))
    in (uint (1 :: 32 word) - uint (15 :: 32 word) - d) mod m = 0 \<and> - m < 2 * d \<and> 2 * d \<le> m)"
  using getPictureOrderCountDiff_range [of "projr (SPS_Unmarshal demoLib [])" 1 15]
  by (simp add: demoLib_def getPictureOrderCountDiff_def)

text \<open>An access unit in a pause is decoded after its presentation time.\<close>

definition pausing :: DTSExtractor where
  "pausing = \<lparr> deSps = [0x67], deSpsp = Some (projr (SPS_Unmarshal demoLib [])), prevDTSFilled = True, prevDTS = 140000000,
     expectedPOC = 4, reorderedFrames = 1, pauseDTS = 1, pocIncrement = 2 \<rparr>"

theorem Extract_pts_witness:
  "de_ok pausing \<and> (\<exists>d'. Extract demoLib [[0x41, 6]] 140500000 pausing = Inr (d', Inr 141000000)) \<and>
   (141000000 \<le> (140500000 :: int) \<or> 141000000 = i64 (prevDTS pausing + millisecond))"
proof -
  have o: "de_ok pausing" by (simp add: de_ok_def pausing_def maxReorderedFrames_def)
  obtain d' where e: "Extract demoLib [[0x41, 6]] 140500000 pausing = Inr (d', Inr 141000000)" by (simp add: pausing_def extract_eval)
  from Extract_pts [OF o _ e] show ?thesis using o e by auto
qed

end
