(* ===== verification/Segmenter.thy ===== *)
theory Segmenter
  imports SegTemplate H264Dts SampleBuilder
begin

text \<open>
  The recorder of tracks (\<open>pkg/segmenter/segmenter.go\<close> and \<open>storage.go\<close>): the packets of a track go through its
  sample builder, the frames become samples with their decoding times, the samples are collected in parts,
  and at a key frame after the segment duration the part is appended to the file of the track, entered in its
  playlist, and the master playlist is brought up to date.

  Tracks and the segmenter point at each other, so every operation works on the segmenter and the index of
  the track. Samples are shared between parts and the queue of one sample: a part holds indices into the
  list \<open>tkHeap\<close> of the samples of the track. A variant of the master playlist points at fields of a track: it
  holds the index of the track. Written files are part of the state, as is the list of the contexts that the
  segment handler got. The formats (fMP4, m3u8), the template engine, the file system's answers, the random
  UUID and the depacketizers are the fields of the parameter \<open>Env\<close>; the readings of the clock in one call are
  the values of a function \<open>clk\<close>, in nanoseconds. A state that panicked is not kept.
\<close>

section \<open>Data\<close>

record PartSample =
  psDuration :: "32 word"
  PTSOffset :: int
  IsNonSyncSample :: bool
  psPayload :: "byte list"

record Part =
  partId :: int
  BaseTime :: "64 word"
  Samples :: "nat list"

record MediaSegment =
  msDuration :: int
  msURI :: string
  DateTime :: int
  ByteRangeStart :: "64 word"
  ByteRangeLength :: "64 word"

record MediaPlaylist =
  TargetDuration :: int
  mpSegments :: "MediaSegment list"
  Endlist :: bool
  MapURI :: string

text \<open>The open file of a \<open>Storage\<close> is named by its path.\<close>

record Storage =
  fpath :: string
  stOffset :: "64 word"
  partIdx :: int
  stSize :: "64 word"
  stBuffer :: "byte list option"
  stClosed :: bool

datatype TrackCodec = TrackCodecNone | TrackCodecH264 | TrackCodecH265 | TrackCodecAV1 | TrackCodecVP8 | TrackCodecVP9 | TrackCodecOpus

datatype TrackKind = VideoKind | AudioKind | UnknownKind

text \<open>The parameter sets that an H.264 track has seen; nil is \<open>None\<close>.\<close>

record H264Codec =
  codecSPS :: "byte list option"
  codecPPS :: "byte list option"

record LabeledTrack =
  ltMimeType :: string
  ltClockRate :: "32 word"
  ltKind :: TrackKind
  ltSSRC :: "32 word"
  ltRtxSSRC :: "32 word"
  ltLabels :: "(string, string) gomap option"

record 'd Track =
  tkId :: int
  tkLt :: LabeledTrack
  tkReady :: bool
  tkPlaylist :: MediaPlaylist
  tkCodec :: TrackCodec
  tkMeta :: H264Codec
  tkSb :: "'d SampleBuilder option"
  videoDTSExtractor :: "DTSExtractor option"
  tkPrefix :: string
  tkIndexUri :: string
  tkSegUri :: string
  tkInitUri :: string
  tkStorage :: "Storage option"
  keyFramed :: bool
  forceSwitch :: bool
  tkStart :: bool
  initCreated :: bool
  beginNTP :: int
  startNTP :: int
  startDTS :: int
  endNTP :: int
  nextVideoSample :: "(nat \<times> int) option"
  currentPart :: "Part option"
  tkWidth :: int
  tkHeight :: int
  tkFrameRate :: int
  tkResolution :: string
  maxBandwidth :: int
  avgBandwidth :: int
  tkClosed :: bool
  tkHeap :: "PartSample list"

record Instant =
  inDTS :: int
  inNTP :: int

record Variant =
  vURI :: string
  vBandwidth :: int
  vAverageBandwidth :: "nat option"
  vCodecs :: "string list"
  vResolution :: string
  vFrameRate :: "nat option"
  vAudio :: string

record Rendition =
  rdURI :: string
  rdName :: string
  rdDefault :: bool

record TrackContext =
  tcFirst :: bool
  tcLast :: bool
  tcInitPath :: string
  tcIndexPath :: string
  tcSegmentPath :: string
  tcStart :: int
  tcEnd :: int
  tcCodec :: string
  tcWidth :: int
  tcHeight :: int
  tcFrameRate :: int
  tcMaxBandwidth :: int
  tcAvgBandwidth :: int
  tcAudio :: bool

record SegmentContext =
  scFirst :: bool
  scLast :: bool
  scBase :: string
  scPath :: string
  scStart :: "Instant option"
  scEnd :: "Instant option"
  scTracks :: "TrackContext list"

record 'd Segmenter =
  sgReady :: bool
  sgTracks :: "'d Track list"
  Variants :: "Variant list"
  Renditions :: "Rendition list"
  templateContext :: GoValue
  baseTemplate :: "string option"
  sgBase :: string
  indexUriTemplate :: string
  sgIndexUri :: string
  segmentDuration :: int
  gopSize :: int
  sgStart :: "Instant option"
  sgEnd :: "Instant option"
  directoryTemplate :: string
  sgDirectory :: string
  indexCreated :: bool
  sgClosing :: bool
  sgClosed :: bool
  hasReleaseHandler :: bool
  hasSegmentHandler :: bool
  sgHandled :: "SegmentContext list"
  sgFiles :: "(string, byte list) gomap"

record 'd Env =
  h264 :: H264Lib
  depacketizerOf :: "TrackCodec \<Rightarrow> 'd Depacketizer \<times> 'd"
  NewPartSampleH26x :: "int \<Rightarrow> bool \<Rightarrow> byte list list \<Rightarrow> go_err + PartSample"
  marshalPart :: "int \<Rightarrow> 64 word \<Rightarrow> PartSample list \<Rightarrow> go_err + byte list"
  marshalInit :: "int \<Rightarrow> 32 word \<Rightarrow> H264Codec \<Rightarrow> go_err + byte list"
  marshalMedia :: "MediaPlaylist \<Rightarrow> go_err + byte list"
  marshalMultivariant :: "(Variant \<times> int option \<times> int option) list \<Rightarrow> Rendition list \<Rightarrow> go_err + byte list"
  codecparams :: "TrackCodec \<Rightarrow> H264Codec \<Rightarrow> string"
  writeError :: "string \<Rightarrow> go_err option"
  execTemplate :: "string \<Rightarrow> (string \<Rightarrow> (go_err + string) res) \<Rightarrow> string res"
  uuidHex :: string
  sprintV :: "GoValue \<Rightarrow> string"

text \<open>The zero value of \<open>time.Time\<close>, the first of January of the year 1.\<close>

definition zeroTime :: int where
  "zeroTime = - 62135596800 * second"

definition fmp4StartDTS :: int where
  "fmp4StartDTS = 10 * second"

definition ofRun :: "'a run \<Rightarrow> 'a res" where
  "ofRun r = (case r of Inr x \<Rightarrow> Inr x | Inl (Panics p) \<Rightarrow> Inl p | Inl OutOfFuel \<Rightarrow> Inl (ValuePanic ''out of fuel''))"

definition setTk :: "nat \<Rightarrow> 'd Track \<Rightarrow> 'd Segmenter \<Rightarrow> 'd Segmenter" where
  "setTk i t s = s\<lparr> sgTracks := (sgTracks s)[i := t] \<rparr>"

abbreviation tk :: "'d Segmenter \<Rightarrow> nat \<Rightarrow> 'd Track" where
  "tk s i \<equiv> sgTracks s ! i"

section \<open>Times\<close>

definition ntpToDts :: "int \<Rightarrow> int \<Rightarrow> int \<Rightarrow> int" where
  "ntpToDts accordingDts accordingNtp ntp = i64 (accordingDts + timeSub ntp accordingNtp)"

definition dtsToNtp :: "int \<Rightarrow> int \<Rightarrow> int \<Rightarrow> int" where
  "dtsToNtp accordingDts accordingNtp dts = accordingNtp + i64 (dts - accordingDts)"

section \<open>Files\<close>

text \<open>\<open>os.WriteFile\<close> after \<open>MakeSureDirOf\<close>; both errors are the answer of the file system for the path.\<close>

definition writeFile :: "'d Env \<Rightarrow> string \<Rightarrow> byte list \<Rightarrow> 'd Segmenter \<Rightarrow> 'd Segmenter \<times> go_err option" where
  "writeFile env path content s =
     (case writeError env path of
        Some e \<Rightarrow> (s, Some e)
      | None \<Rightarrow> (s\<lparr> sgFiles := mput path content (sgFiles s) \<rparr>, None))"

definition NewStorage :: "'d Env \<Rightarrow> string \<Rightarrow> 'd Segmenter \<Rightarrow> ('d Segmenter \<times> Storage) res" where
  "NewStorage env path s =
     (case writeError env path of
        Some e \<Rightarrow> Inl (ErrorPanic e)
      | None \<Rightarrow> Inr (s\<lparr> sgFiles := mput path [] (sgFiles s) \<rparr>,
                     \<lparr> fpath = path, stOffset = 0, partIdx = 0, stSize = 0, stBuffer = None, stClosed = False \<rparr>))"

definition CurrentPartOffset :: "Storage \<Rightarrow> 64 word" where
  "CurrentPartOffset f = stOffset f"

definition NextPart :: "'d Env \<Rightarrow> Storage \<Rightarrow> 'd Segmenter \<Rightarrow> ('d Segmenter \<times> Storage \<times> nat) res" where
  "NextPart env f s =
     (case stBuffer f of
        None \<Rightarrow> Inr (s, f, 0)
      | Some b \<Rightarrow>
          (case writeError env (fpath f) of
             Some e \<Rightarrow> Inl (ErrorPanic e)
           | None \<Rightarrow>
               (let content = (case mget (sgFiles s) (fpath f) of None \<Rightarrow> [] | Some c \<Rightarrow> c); n = length b
                in Inr (s\<lparr> sgFiles := mput (fpath f) (content @ b) (sgFiles s) \<rparr>,
                        f\<lparr> stOffset := stOffset f + of_nat n, stSize := stSize f + of_nat n, partIdx := partIdx f + 1, stBuffer := None \<rparr>, n))))"

text \<open>\<open>Writer\<close> followed by a write of all bytes; a closed storage gives a writer that fails.\<close>

definition writeAll :: "byte list \<Rightarrow> Storage \<Rightarrow> Storage \<times> go_err option" where
  "writeAll bs f =
     (if stClosed f then (f, Some (PlainError ''dumy writer can not be written''))
      else (f\<lparr> stBuffer := Some ((case stBuffer f of None \<Rightarrow> [] | Some b \<Rightarrow> b) @ bs) \<rparr>, None))"

definition Storage_Close :: "'d Env \<Rightarrow> Storage \<Rightarrow> 'd Segmenter \<Rightarrow> ('d Segmenter \<times> Storage) res" where
  "Storage_Close env f s = bind_res (NextPart env (f\<lparr> stClosed := True \<rparr>) s) (\<lambda>(s', f', _). Inr (s', f'))"

section \<open>Names\<close>

definition tagLabels :: "'d Segmenter \<Rightarrow> (string, string) gomap option list option" where
  "tagLabels s = (if sgTracks s = [] then None else Some (map (\<lambda>t. ltLabels (tkLt t)) (sgTracks s)))"

definition calcBaseTemplate :: "'d Env \<Rightarrow> int \<Rightarrow> 'd Segmenter \<Rightarrow> string res" where
  "calcBaseTemplate env t s =
     (case baseTemplate s of
        None \<Rightarrow> Inr ''''
      | Some tpl \<Rightarrow> execTemplate env tpl (directoryTag (sprintV env) (uuidHex env) t (tagLabels s) (templateContext s)))"

definition calcDirectoryTemplate :: "'d Env \<Rightarrow> int \<Rightarrow> 'd Segmenter \<Rightarrow> string res" where
  "calcDirectoryTemplate env t s =
     execTemplate env (directoryTemplate s) (directoryTag (sprintV env) (uuidHex env) t (tagLabels s) (templateContext s))"

definition calcIndexTemplate :: "'d Env \<Rightarrow> int \<Rightarrow> 'd Segmenter \<Rightarrow> string res" where
  "calcIndexTemplate env t s =
     execTemplate env (indexUriTemplate s) (indexTag (sprintV env) (uuidHex env) t (tagLabels s) (templateContext s))"

definition generatePrefix :: "LabeledTrack \<Rightarrow> string" where
  "generatePrefix lt =
     (case ltKind lt of VideoKind \<Rightarrow> ''vid'' | AudioKind \<Rightarrow> ''aud'' | UnknownKind \<Rightarrow> ''unk'') @ ''-'' @ decimal (unat (ltSSRC lt))"

definition Base :: "'d Segmenter \<Rightarrow> string res" where
  "Base s = (if sgStart s = None then Inl (ErrorPanic (PlainError ''base not ready yet'')) else Inr (sgBase s))"

definition Directory :: "'d Segmenter \<Rightarrow> string res" where
  "Directory s = (if sgStart s = None then Inl (ErrorPanic (PlainError ''directory not ready yet'')) else Inr (sgDirectory s))"

definition IndexUri :: "'d Segmenter \<Rightarrow> string res" where
  "IndexUri s = (if sgStart s = None then Inl (ErrorPanic (PlainError ''index uri not ready yet'')) else Inr (sgIndexUri s))"

definition fullPath :: "string \<Rightarrow> bool \<Rightarrow> 'd Segmenter \<Rightarrow> string res" where
  "fullPath rPath withBase s =
     (if withBase then bind_res (Base s) (\<lambda>b. bind_res (Directory s) (\<lambda>d. Inr (path_Join [b, d, rPath])))
      else bind_res (Directory s) (\<lambda>d. Inr (path_Join [d, rPath])))"

definition Segmenter_setStart :: "'d Env \<Rightarrow> int \<Rightarrow> int \<Rightarrow> 'd Segmenter \<Rightarrow> 'd Segmenter res" where
  "Segmenter_setStart env dts ntp s =
     (if sgStart s = None
      then (let s1 = s\<lparr> sgStart := Some \<lparr> inDTS = dts, inNTP = ntp \<rparr> \<rparr>
            in bind_res (calcBaseTemplate env ntp s1) (\<lambda>b.
               bind_res (calcIndexTemplate env ntp s1) (\<lambda>i.
               bind_res (calcDirectoryTemplate env ntp s1) (\<lambda>d.
               Inr (s1\<lparr> sgBase := b, sgIndexUri := i, sgDirectory := d \<rparr>)))))
      else Inr s)"

definition Segmenter_setEnd :: "int \<Rightarrow> int \<Rightarrow> 'd Segmenter \<Rightarrow> 'd Segmenter" where
  "Segmenter_setEnd dts ntp s =
     (case sgEnd s of
        None \<Rightarrow> s\<lparr> sgEnd := Some \<lparr> inDTS = dts, inNTP = ntp \<rparr> \<rparr>
      | Some e \<Rightarrow> if dts > inDTS e then s\<lparr> sgEnd := Some \<lparr> inDTS = dts, inNTP = ntp \<rparr> \<rparr> else s)"

section \<open>Contexts and the master playlist\<close>

definition IsAudio :: "'d Track \<Rightarrow> bool" where
  "IsAudio t \<longleftrightarrow> ltKind (tkLt t) = AudioKind"

definition RFC6381Codec :: "'d Env \<Rightarrow> 'd Track \<Rightarrow> string" where
  "RFC6381Codec env t = codecparams env (tkCodec t) (tkMeta t)"

definition Track_CreateContext :: "'d Env \<Rightarrow> 'd Segmenter \<Rightarrow> 'd Track \<Rightarrow> TrackContext res" where
  "Track_CreateContext env s t =
     bind_res (fullPath (tkInitUri t) False s) (\<lambda>initPath.
     bind_res (fullPath (tkIndexUri t) False s) (\<lambda>indexPath.
     bind_res (fullPath (tkSegUri t) False s) (\<lambda>segmentPath.
     Inr \<lparr> tcFirst = (length (mpSegments (tkPlaylist t)) = 1), tcLast = tkClosed t, tcInitPath = initPath, tcIndexPath = indexPath,
           tcSegmentPath = segmentPath, tcStart = beginNTP t, tcEnd = endNTP t, tcCodec = RFC6381Codec env t, tcWidth = tkWidth t,
           tcHeight = tkHeight t, tcFrameRate = tkFrameRate t, tcMaxBandwidth = maxBandwidth t, tcAvgBandwidth = avgBandwidth t,
           tcAudio = IsAudio t \<rparr>)))"

fun trackContexts :: "'d Env \<Rightarrow> 'd Segmenter \<Rightarrow> 'd Track list \<Rightarrow> TrackContext list res" where
  "trackContexts env s [] = Inr []"
| "trackContexts env s (t # ts) =
     bind_res (Track_CreateContext env s t) (\<lambda>c. bind_res (trackContexts env s ts) (\<lambda>cs. Inr (c # cs)))"

definition Segmenter_CreateContext :: "'d Env \<Rightarrow> bool \<Rightarrow> 'd Segmenter \<Rightarrow> SegmentContext res" where
  "Segmenter_CreateContext env first s =
     bind_res (trackContexts env s (sgTracks s)) (\<lambda>tracks.
     bind_res (Base s) (\<lambda>b.
     bind_res (IndexUri s) (\<lambda>i.
     bind_res (fullPath i False s) (\<lambda>p.
     Inr \<lparr> scFirst = first, scLast = sgClosing s \<or> sgClosed s, scBase = b, scPath = p, scStart = sgStart s, scEnd = sgEnd s,
           scTracks = tracks \<rparr>))))"

definition FindVariantByTrack :: "'d Track \<Rightarrow> 'd Segmenter \<Rightarrow> nat option" where
  "FindVariantByTrack t s =
     (let is = filter (\<lambda>k. vURI (Variants s ! k) = tkIndexUri t) [0..<length (Variants s)]
      in case is of [] \<Rightarrow> None | k # _ \<Rightarrow> Some k)"

text \<open>
  The update of the variant of track \<open>i\<close>. The average bandwidth and the frame rate are pointers into the
  track: once set they always compare equal to what they point at.
\<close>

definition updateVariant :: "'d Env \<Rightarrow> nat \<Rightarrow> 'd Segmenter \<Rightarrow> 'd Segmenter \<times> bool" where
  "updateVariant env i s =
     (let t = tk s i in
      case FindVariantByTrack t s of
        None \<Rightarrow> (s, False)
      | Some k \<Rightarrow>
          (let v0 = Variants s ! k;
               (v1, c1) = (if vBandwidth v0 \<noteq> maxBandwidth t then (v0\<lparr> vBandwidth := maxBandwidth t \<rparr>, True) else (v0, False));
               (v2, c2) = (if (case vAverageBandwidth v1 of None \<Rightarrow> True | Some j \<Rightarrow> avgBandwidth (tk s j) \<noteq> avgBandwidth t)
                           then (v1\<lparr> vAverageBandwidth := Some i \<rparr>, True) else (v1, c1));
               (v3, c3) = (if vCodecs v2 = [] then (v2\<lparr> vCodecs := [RFC6381Codec env t] \<rparr>, True) else (v2, c2));
               (v4, c4) = (if vResolution v3 \<noteq> tkResolution t then (v3\<lparr> vResolution := tkResolution t \<rparr>, True) else (v3, c3));
               (v5, c5) = (if (case vFrameRate v4 of None \<Rightarrow> True | Some j \<Rightarrow> tkFrameRate (tk s j) \<noteq> tkFrameRate t) \<and> tkFrameRate t \<noteq> 0
                           then (v4\<lparr> vFrameRate := Some i \<rparr>, True) else (v4, c4))
           in (s\<lparr> Variants := (Variants s)[k := v5] \<rparr>, c5)))"

fun updateVariants :: "'d Env \<Rightarrow> nat list \<Rightarrow> 'd Segmenter \<Rightarrow> 'd Segmenter \<times> bool" where
  "updateVariants env [] s = (s, False)"
| "updateVariants env (i # is) s =
     (let (s1, c) = updateVariant env i s; (s2, c') = updateVariants env is s1 in (s2, c \<or> c'))"

text \<open>The master playlist as it is written: with the values that the pointers point at.\<close>

definition multivariant :: "'d Segmenter \<Rightarrow> (Variant \<times> int option \<times> int option) list" where
  "multivariant s =
     map (\<lambda>v. (v, map_option (\<lambda>j. avgBandwidth (tk s j)) (vAverageBandwidth v), map_option (\<lambda>j. tkFrameRate (tk s j)) (vFrameRate v)))
       (Variants s)"

definition handleSegment :: "'d Env \<Rightarrow> bool \<Rightarrow> 'd Segmenter \<Rightarrow> ('d Segmenter \<times> go_err option) res" where
  "handleSegment env first s =
     (if hasSegmentHandler s
      then bind_res (Segmenter_CreateContext env first s) (\<lambda>c. Inr (s\<lparr> sgHandled := sgHandled s @ [c] \<rparr>, None))
      else Inr (s, None))"

definition UpdateIndex :: "'d Env \<Rightarrow> bool \<Rightarrow> 'd Segmenter \<Rightarrow> ('d Segmenter \<times> go_err option) res" where
  "UpdateIndex env forceCreate s =
     (let first = \<not> indexCreated s
      in if \<not> forceCreate \<and> first then Inr (s, None)
         else
           (let (s1, masterChanged) = updateVariants env [0..<length (sgTracks s)] s
            in if \<not> indexCreated s1 \<or> masterChanged
               then (case marshalMultivariant env (multivariant s1) (Renditions s1) of
                       Inl e \<Rightarrow> Inr (s1, Some e)
                     | Inr content \<Rightarrow>
                         bind_res (IndexUri s1) (\<lambda>uri.
                         bind_res (fullPath uri True s1) (\<lambda>p.
                           case writeFile env p content s1 of
                             (s2, Some e) \<Rightarrow> Inr (s2, Some e)
                           | (s2, None) \<Rightarrow> handleSegment env first (s2\<lparr> indexCreated := True \<rparr>))))
               else handleSegment env first s1))"

section \<open>Segments of a track\<close>

definition segBandwidth :: "MediaSegment \<Rightarrow> (64 word) res" where
  "segBandwidth seg =
     (if of_int (msDuration seg) = (0 :: 64 word) then Inl DivideByZero
      else Inr (8 * ByteRangeLength seg * of_int second div of_int (msDuration seg)))"

fun bandwidthLoop :: "MediaSegment list \<Rightarrow> 64 word \<times> 64 word \<times> int \<Rightarrow> (64 word \<times> 64 word \<times> int) res" where
  "bandwidthLoop [] acc = Inr acc"
| "bandwidthLoop (seg # segs) (mx, sizes, durations) =
     bind_res (segBandwidth seg) (\<lambda>b.
       bandwidthLoop segs (if b > mx then b else mx, sizes + ByteRangeLength seg, i64 (durations + msDuration seg)))"

definition bandwidth :: "MediaSegment list \<Rightarrow> (int \<times> int) res" where
  "bandwidth segs =
     (if segs = [] then Inr (0, 0)
      else bind_res (bandwidthLoop segs (0, 0, 0)) (\<lambda>(mx, sizes, durations).
             if of_int durations = (0 :: 64 word) then Inl DivideByZero
             else Inr (sint mx, sint (8 * sizes * of_int second div of_int durations))))"

definition writeInit :: "'d Env \<Rightarrow> nat \<Rightarrow> 'd Segmenter \<Rightarrow> ('d Segmenter \<times> go_err option) res" where
  "writeInit env i s =
     (let t = tk s i in
      bind_res (fullPath (tkInitUri t) True s) (\<lambda>p.
      bind_res (NewStorage env p s) (\<lambda>(s1, f).
        case marshalInit env (tkId t) (ltClockRate (tkLt t)) (tkMeta t) of
          Inl e \<Rightarrow> bind_res (Storage_Close env f s1) (\<lambda>(s2, _). Inr (s2, Some e))
        | Inr bs \<Rightarrow> bind_res (Storage_Close env (fst (writeAll bs f)) s1) (\<lambda>(s2, _). Inr (s2, None)))))"

definition updateIndex :: "'d Env \<Rightarrow> nat \<Rightarrow> 'd Segmenter \<Rightarrow> ('d Segmenter \<times> go_err option) res" where
  "updateIndex env i s =
     (let t = tk s i;
          pl = (if tkClosed t then (tkPlaylist t)\<lparr> Endlist := True \<rparr> else tkPlaylist t)
      in bind_res (bandwidth (mpSegments pl)) (\<lambda>(mx, avg).
           let s1 = setTk i (t\<lparr> tkPlaylist := pl, maxBandwidth := mx, avgBandwidth := avg \<rparr>) s
           in case marshalMedia env pl of
                Inl e \<Rightarrow> Inr (s1, Some e)
              | Inr content \<Rightarrow> bind_res (fullPath (tkIndexUri t) True s1) (\<lambda>p. Inr (writeFile env p content s1))))"

text \<open>The part of \<open>flushSegment\<close> after the playlist has been extended.\<close>

definition finishSegment :: "'d Env \<Rightarrow> int \<Rightarrow> nat \<Rightarrow> 'd Segmenter \<Rightarrow> ('d Segmenter \<times> go_err option) res" where
  "finishSegment env dts i s =
     (let t = tk s i; e = dtsToNtp (startDTS t) (startNTP t) dts
      in bind_res (updateIndex env i (setTk i (t\<lparr> endNTP := e \<rparr>) s)) (\<lambda>(s1, err).
           case err of
             Some x \<Rightarrow> Inr (s1, Some x)
           | None \<Rightarrow>
               (let s2 = Segmenter_setEnd dts e s1
                in if tkClosed (tk s2 i) then Inr (s2, None) else UpdateIndex env True s2)))"

definition openStorage :: "'d Env \<Rightarrow> nat \<Rightarrow> 'd Segmenter \<Rightarrow> ('d Segmenter \<times> Storage) res" where
  "openStorage env i s =
     (case tkStorage (tk s i) of
        Some f \<Rightarrow> Inr (s, f)
      | None \<Rightarrow> bind_res (fullPath (tkSegUri (tk s i)) True s) (\<lambda>p. NewStorage env p s))"

definition appendSegment :: "int \<Rightarrow> 64 word \<Rightarrow> nat \<Rightarrow> Storage \<Rightarrow> nat \<Rightarrow> 'd Segmenter \<Rightarrow> 'd Segmenter" where
  "appendSegment dts offset n f i s =
     (let t = tk s i;
          seg = \<lparr> msDuration = i64 (dts - startDTS t), msURI = tkSegUri t, DateTime = startNTP t,
                  ByteRangeStart = offset, ByteRangeLength = of_nat n \<rparr>
      in setTk i (t\<lparr> tkStorage := Some f, tkPlaylist := (tkPlaylist t)\<lparr> mpSegments := mpSegments (tkPlaylist t) @ [seg] \<rparr> \<rparr>) s)"

definition finishFlush :: "'d Env \<Rightarrow> int \<Rightarrow> bool \<Rightarrow> nat \<Rightarrow> 'd Segmenter \<Rightarrow> ('d Segmenter \<times> go_err option) res" where
  "finishFlush env dts forceUpdateInit i s =
     (if forceUpdateInit \<or> \<not> initCreated (tk s i)
      then bind_res (writeInit env i (setTk i ((tk s i)\<lparr> initCreated := True \<rparr>) s)) (\<lambda>(s1, err).
             case err of Some e \<Rightarrow> Inr (s1, Some e) | None \<Rightarrow> finishSegment env dts i s1)
      else finishSegment env dts i s)"

definition flushSegment :: "'d Env \<Rightarrow> int \<Rightarrow> bool \<Rightarrow> nat \<Rightarrow> 'd Segmenter \<Rightarrow> ('d Segmenter \<times> go_err option) res" where
  "flushSegment env dts forceUpdateInit i s =
     (case currentPart (tk s i) of
        None \<Rightarrow> Inr (s, None)
      | Some part \<Rightarrow>
          bind_res (openStorage env i s) (\<lambda>(s1, f).
            case marshalPart env (partId part) (BaseTime part) (map (\<lambda>r. tkHeap (tk s i) ! r) (Samples part)) of
              Inl e \<Rightarrow> Inr (setTk i ((tk s1 i)\<lparr> tkStorage := Some (fst (writeAll [] f)) \<rparr>) s1, Some e)
            | Inr bs \<Rightarrow>
                (case writeAll bs f of
                   (f1, Some e) \<Rightarrow> Inr (setTk i ((tk s1 i)\<lparr> tkStorage := Some f1 \<rparr>) s1, Some e)
                 | (f1, None) \<Rightarrow>
                     bind_res (NextPart env f1 s1) (\<lambda>(s2, f2, n).
                       finishFlush env dts forceUpdateInit i (appendSegment dts (CurrentPartOffset f1) n f2 i s2)))))"

section \<open>Samples\<close>

text \<open>
  The new sample enters the queue; \<open>None\<close> closes the track. \<open>clk 0\<close> is the time of the first sample, \<open>clk 1\<close> the
  time of the closing and \<open>clk 2\<close> the time at which the next segment starts.
\<close>

definition acceptSample :: "'d Env \<Rightarrow> (nat \<Rightarrow> int) \<Rightarrow> int \<Rightarrow> nat \<Rightarrow> 'd Segmenter \<Rightarrow> 'd Segmenter res" where
  "acceptSample env clk dts i s =
     (let t = tk s i in
      if nextVideoSample t = None
      then (let t1 = t\<lparr> startNTP := clk 0, beginNTP := clk 0, startDTS := dts \<rparr>
            in if tkStart t1 then Inr (setTk i t1 s)
               else Segmenter_setStart env dts (clk 0) (setTk i (t1\<lparr> tkStart := True \<rparr>) s))
      else Inr s)"

definition newPart :: "nat \<Rightarrow> nat list \<Rightarrow> 'd Segmenter \<Rightarrow> Part res" where
  "newPart i refs s =
     (case sgStart s of
        None \<Rightarrow> Inl NilDeref
      | Some st \<Rightarrow>
          Inr \<lparr> partId = tkId (tk s i), BaseTime = durationGoToMp4 (i64 (startDTS (tk s i) - inDTS st)) (ltClockRate (tkLt (tk s i))),
                Samples = refs \<rparr>)"

text \<open>The sample that leaves the queue goes to the current part with its duration.\<close>

definition emitSample :: "nat \<times> int \<Rightarrow> int \<Rightarrow> nat \<Rightarrow> 'd Segmenter \<Rightarrow> 'd Segmenter res" where
  "emitSample smp nextDts i s =
     (let t = tk s i; (r, dts) = smp;
          d = ucast (durationGoToMp4 (i64 (nextDts - dts)) (ltClockRate (tkLt t)));
          heap = (tkHeap t)[r := (tkHeap t ! r)\<lparr> psDuration := d \<rparr>]
      in bind_res (case currentPart t of None \<Rightarrow> newPart i [] s | Some p \<Rightarrow> Inr p) (\<lambda>p.
           Inr (setTk i (t\<lparr> tkHeap := heap, currentPart := Some (p\<lparr> Samples := Samples p @ [r] \<rparr>) \<rparr>) s)))"

definition startSegment :: "(nat \<Rightarrow> int) \<Rightarrow> nat \<Rightarrow> 'd Segmenter \<Rightarrow> 'd Segmenter res" where
  "startSegment clk i s =
     (let t = tk s i in
      case nextVideoSample t of
        Some (r, dts) \<Rightarrow>
          (let s1 = setTk i (t\<lparr> startNTP := clk 2, startDTS := dts \<rparr>) s
           in bind_res (newPart i [r] s1) (\<lambda>p. Inr (setTk i ((tk s1 i)\<lparr> currentPart := Some p \<rparr>) s1)))
      | None \<Rightarrow> Inr (setTk i (t\<lparr> startNTP := zeroTime, startDTS := 0, currentPart := None \<rparr>) s))"

definition writeVideo :: "'d Env \<Rightarrow> (nat \<Rightarrow> int) \<Rightarrow> bool \<Rightarrow> bool \<Rightarrow> (PartSample \<times> int) option \<Rightarrow> nat \<Rightarrow> 'd Segmenter
    \<Rightarrow> ('d Segmenter \<times> go_err option) res" where
  "writeVideo env clk randomAccess fSwitch sample i s0 =
     (if (case sample of None \<Rightarrow> False | Some (_, dts) \<Rightarrow> i64 (i64 (dts + fmp4StartDTS) - startDTS (tk s0 i)) < 0)
      then Inr (s0, None)
      else
        bind_res (case sample of None \<Rightarrow> Inr s0 | Some (_, dts) \<Rightarrow> acceptSample env clk (i64 (dts + fmp4StartDTS)) i s0) (\<lambda>s1.
          let t = tk s1 i; prev = nextVideoSample t;
              s2 = setTk i (case sample of
                              None \<Rightarrow> t\<lparr> nextVideoSample := None \<rparr>
                            | Some (ps, dts) \<Rightarrow> t\<lparr> tkHeap := tkHeap t @ [ps],
                                                nextVideoSample := Some (length (tkHeap t), i64 (dts + fmp4StartDTS)) \<rparr>) s1
          in case prev of
               None \<Rightarrow> Inr (s2, None)
             | Some smp \<Rightarrow>
                 (let nextDts = (case nextVideoSample (tk s2 i) of
                                   Some (_, dts) \<Rightarrow> dts
                                 | None \<Rightarrow> ntpToDts (startDTS (tk s2 i)) (startNTP (tk s2 i)) (clk 1))
                  in bind_res (emitSample smp nextDts i s2) (\<lambda>s3.
                       if nextVideoSample (tk s3 i) = None \<or>
                          randomAccess \<and> (fSwitch \<or> i64 (nextDts - startDTS (tk s3 i)) > i64 (segmentDuration s3 * second))
                       then bind_res (flushSegment env nextDts fSwitch i s3) (\<lambda>(s4, err).
                              case err of
                                Some e \<Rightarrow> Inr (s4, Some e)
                              | None \<Rightarrow> bind_res (startSegment clk i s4) (\<lambda>s5. Inr (s5, None)))
                       else Inr (s3, None)))))"

section \<open>Access units\<close>

text \<open>The scan of an access unit in \<open>writeH26x\<close>, for H.264.\<close>

record NaluScan =
  randomAccess :: bool
  nonIDRPresent :: bool
  hasSps :: bool
  hasPps :: bool

text \<open>\<open>bytes.Equal\<close> takes a nil slice as an empty one.\<close>

definition sameBytes :: "byte list option \<Rightarrow> byte list \<Rightarrow> bool" where
  "sameBytes a b \<longleftrightarrow> (case a of None \<Rightarrow> [] | Some x \<Rightarrow> x) = b"

fun scanH264 :: "H264Lib \<Rightarrow> byte list list \<Rightarrow> NaluScan \<Rightarrow> 'd Track \<Rightarrow> ('d Track \<times> (go_err + NaluScan)) res" where
  "scanH264 lib [] r t = Inr (t, Inr r)"
| "scanH264 lib (nalu # au) r t =
     bind_res (NALUType nalu) (\<lambda>typ.
       if typ = NALUTypeIDR then scanH264 lib au (r\<lparr> randomAccess := True \<rparr>) t
       else if typ = NALUTypeNonIDR then scanH264 lib au (r\<lparr> nonIDRPresent := True \<rparr>) t
       else if typ = NALUTypeSPS
       then (if sameBytes (codecSPS (tkMeta t)) nalu then scanH264 lib au (r\<lparr> hasSps := True \<rparr>) t
             else (let t1 = t\<lparr> forceSwitch := True, tkMeta := (tkMeta t)\<lparr> codecSPS := Some nalu \<rparr> \<rparr>
                   in case SPS_Unmarshal lib nalu of
                        Inl e \<Rightarrow> Inr (t1, Inl e)
                      | Inr sps \<Rightarrow>
                          (let t2 = t1\<lparr> tkWidth := spsWidth sps, tkHeight := spsHeight sps,
                                         tkResolution := decimal (nat (spsWidth sps)) @ ''x'' @ decimal (nat (spsHeight sps)),
                                         tkFrameRate := (if spsFPS sps \<noteq> 0 then spsFPS sps else tkFrameRate t1) \<rparr>
                           in scanH264 lib au (r\<lparr> hasSps := True \<rparr>) t2)))
       else if typ = NALUTypePPS
       then (if sameBytes (codecPPS (tkMeta t)) nalu then scanH264 lib au (r\<lparr> hasPps := True \<rparr>) t
             else scanH264 lib au (r\<lparr> hasPps := True \<rparr>)
                    (t\<lparr> forceSwitch := True, tkMeta := (tkMeta t)\<lparr> codecPPS := Some nalu \<rparr> \<rparr>))
       else scanH264 lib au r t)"

text \<open>The access unit with the parameter sets that it lacks; \<open>None\<close> is the silent return.\<close>

definition completeAu :: "byte list list \<Rightarrow> NaluScan \<Rightarrow> H264Codec \<Rightarrow> byte list list option" where
  "completeAu au r c =
     (if \<not> randomAccess r \<and> \<not> nonIDRPresent r then None
      else if \<not> hasSps r \<or> \<not> hasPps r
      then (if \<not> hasSps r \<and> codecSPS c = None then None
            else (let au1 = (if \<not> hasSps r then au @ [the (codecSPS c)] else au)
                  in Some (case codecPPS c of Some pps \<Rightarrow> if \<not> hasPps r then au1 @ [pps] else au1 | None \<Rightarrow> au1)))
      else Some au)"

definition ErrBadDts :: go_err where
  "ErrBadDts = PlainError ''bad dts''"

definition writeH26x :: "'d Env \<Rightarrow> (nat \<Rightarrow> int) \<Rightarrow> int \<Rightarrow> byte list \<Rightarrow> nat \<Rightarrow> 'd Segmenter \<Rightarrow> ('d Segmenter \<times> go_err option) res" where
  "writeH26x env clk pts data i s =
     (let t = tk s i; sampleRate = ltClockRate (tkLt t)
      in if sampleRate \<noteq> 90000 then Inr (s, Some (PlainError ''h26x video should be 90000 sample rate, but got %d''))
         else
           bind_res (scanH264 (h264 env) (split264Nalus data) \<lparr> randomAccess = False, nonIDRPresent = False, hasSps = False, hasPps = False \<rparr> t) (\<lambda>(t1, r).
             case r of
               Inl e \<Rightarrow> Inr (setTk i t1 s, Some e)
             | Inr sc \<Rightarrow>
                 (case completeAu (split264Nalus data) sc (tkMeta t1) of
                    None \<Rightarrow> Inr (setTk i t1 s, None)
                  | Some au \<Rightarrow>
                      (let fSwitch = (randomAccess sc \<and> forceSwitch t1);
                           t2 = (if fSwitch then t1\<lparr> forceSwitch := False \<rparr> else t1)
                       in if \<not> keyFramed t2 \<and> \<not> randomAccess sc then Inr (setTk i t2 s, None)
                          else
                            (let t3 = (if keyFramed t2 then t2 else t2\<lparr> keyFramed := True, videoDTSExtractor := Some NewH264DTSExtractor \<rparr>)
                             in case videoDTSExtractor t3 of
                                  None \<Rightarrow> Inl NilDeref
                                | Some ex \<Rightarrow>
                                    bind_res (Extract (h264 env) au pts ex) (\<lambda>(ex', res).
                                      let s1 = setTk i (t3\<lparr> videoDTSExtractor := Some ex' \<rparr>) s
                                      in case res of
                                           Inl _ \<Rightarrow> Inr (s1, Some ErrBadDts)
                                         | Inr dts \<Rightarrow>
                                             (case NewPartSampleH26x env (i32 (durationGoToMp4 (i64 (pts - dts)) sampleRate)) (randomAccess sc) au of
                                                Inl e \<Rightarrow> Inr (s1, Some e)
                                              | Inr ps \<Rightarrow> writeVideo env clk (randomAccess sc) fSwitch (Some (ps, dts)) i s1)))))))"

definition WriteData :: "'d Env \<Rightarrow> (nat \<Rightarrow> int) \<Rightarrow> int \<Rightarrow> byte list \<Rightarrow> nat \<Rightarrow> 'd Segmenter \<Rightarrow> ('d Segmenter \<times> go_err option) res" where
  "WriteData env clk pts data i s =
     (if tkClosed (tk s i) then Inr (s, Some (PlainError ''track closed''))
      else case tkCodec (tk s i) of
             TrackCodecH264 \<Rightarrow> writeH26x env clk pts data i s
           | _ \<Rightarrow> Inr (s, Some (PlainError ''unsupport codec %v'')))"

definition Track_Close :: "'d Env \<Rightarrow> (nat \<Rightarrow> int) \<Rightarrow> nat \<Rightarrow> 'd Segmenter \<Rightarrow> ('d Segmenter \<times> go_err option) res" where
  "Track_Close env clk i s =
     (if tkClosed (tk s i) then Inr (s, None)
      else
        (let s1 = setTk i ((tk s i)\<lparr> tkClosed := True \<rparr>) s
         in if \<not> tkReady (tk s1 i) then Inr (s1, None)
            else bind_res (writeVideo env clk False False None i s1) (\<lambda>(s2, err).
                   case err of
                     Some e \<Rightarrow> Inr (s2, Some e)
                   | None \<Rightarrow>
                       bind_res (case tkStorage (tk s2 i) of
                                   None \<Rightarrow> Inr s2
                                 | Some f \<Rightarrow> bind_res (Storage_Close env f s2) (\<lambda>(s3, f'). Inr (setTk i ((tk s3 i)\<lparr> tkStorage := Some f' \<rparr>) s3))) (\<lambda>s3.
                         case tkSb (tk s3 i) of
                           None \<Rightarrow> Inl NilDeref
                         | Some sb \<Rightarrow> bind_res (ofRun (Close sb)) (\<lambda>sb'. Inr (setTk i ((tk s3 i)\<lparr> tkSb := Some sb' \<rparr>) s3, None))))))"

section \<open>The segmenter\<close>

definition AnalyzeTrackCodec :: "'d Env \<Rightarrow> LabeledTrack \<Rightarrow> (('d Depacketizer \<times> 'd) option \<times> TrackCodec) res" where
  "AnalyzeTrackCodec env lt =
     (let m = ToLower (ltMimeType lt)
      in if m = ''video/h264'' then Inr (Some (depacketizerOf env TrackCodecH264), TrackCodecH264)
         else if m = ''video/h265'' then Inr (Some (depacketizerOf env TrackCodecH265), TrackCodecH265)
         else if m = ''video/vp9'' then Inr (Some (depacketizerOf env TrackCodecVP9), TrackCodecVP9)
         else if m = ''video/av1'' then Inr (None, TrackCodecAV1)
         else if m = ''audio/opus'' then Inr (Some (depacketizerOf env TrackCodecOpus), TrackCodecOpus)
         else Inl (ErrorPanic (PlainError ''unsupported media type %s'')))"

definition NewTrack :: "int \<Rightarrow> LabeledTrack \<Rightarrow> 'd Track" where
  "NewTrack n lt = \<lparr> tkId = n, tkLt = lt, tkReady = False,
     tkPlaylist = \<lparr> TargetDuration = 0, mpSegments = [], Endlist = False, MapURI = '''' \<rparr>, tkCodec = TrackCodecNone,
     tkMeta = \<lparr> codecSPS = None, codecPPS = None \<rparr>, tkSb = None, videoDTSExtractor = None, tkPrefix = '''', tkIndexUri = '''', tkSegUri = '''',
     tkInitUri = '''', tkStorage = None, keyFramed = False, forceSwitch = False, tkStart = False, initCreated = False, beginNTP = zeroTime,
     startNTP = zeroTime, startDTS = 0, endNTP = zeroTime, nextVideoSample = None, currentPart = None, tkWidth = 0, tkHeight = 0,
     tkFrameRate = 0, tkResolution = '''', maxBandwidth = 0, avgBandwidth = 0, tkClosed = False, tkHeap = [] \<rparr>"

definition NewSegmenter :: "LabeledTrack list \<Rightarrow> string \<Rightarrow> string \<Rightarrow> int \<Rightarrow> int \<Rightarrow> string option \<Rightarrow> bool \<Rightarrow> bool \<Rightarrow> GoValue \<Rightarrow> 'd Segmenter" where
  "NewSegmenter lts dirTemplate indexTemplate segDuration gop baseTpl rel handler ctx =
     \<lparr> sgReady = False, sgTracks = map (NewTrack 1) lts, Variants = [], Renditions = [], templateContext = ctx, baseTemplate = baseTpl,
       sgBase = '''', indexUriTemplate = indexTemplate, sgIndexUri = '''', segmentDuration = segDuration, gopSize = gop, sgStart = None,
       sgEnd = None, directoryTemplate = dirTemplate, sgDirectory = '''', indexCreated = False, sgClosing = False, sgClosed = False,
       hasReleaseHandler = rel, hasSegmentHandler = handler, sgHandled = [], sgFiles = [] \<rparr>"

definition Track_TryReady :: "'d Env \<Rightarrow> nat \<Rightarrow> 'd Segmenter \<Rightarrow> ('d Segmenter \<times> bool) res" where
  "Track_TryReady env i s =
     (let t = tk s i; lt = tkLt t
      in if tkReady t then Inr (s, True)
         else if ltMimeType lt = '''' then Inr (s, False)
         else
           bind_res (AnalyzeTrackCodec env lt) (\<lambda>(dp, codec).
             let prefix = generatePrefix lt; initUri = prefix @ ''-init.mp4'';
                 sb = map_option (\<lambda>(p, d). New 16 p d (ltClockRate lt) (hasReleaseHandler s)) dp
             in Inr (setTk i (t\<lparr> tkPlaylist := \<lparr> TargetDuration = segmentDuration s + gopSize s, mpSegments = [], Endlist = False, MapURI = initUri \<rparr>,
                         tkCodec := codec, tkSb := sb, tkPrefix := prefix, tkIndexUri := prefix @ ''.m3u8'', tkSegUri := prefix @ ''-segments.m4s'',
                         tkInitUri := initUri, tkReady := True \<rparr>) s, True)))"

fun readyLoop :: "'d Env \<Rightarrow> nat list \<Rightarrow> 'd Segmenter \<Rightarrow> ('d Segmenter \<times> nat) res" where
  "readyLoop env [] s = Inr (s, 0)"
| "readyLoop env (i # is) s =
     bind_res (Track_TryReady env i s) (\<lambda>(s1, ok).
       bind_res (readyLoop env is s1) (\<lambda>(s2, n). Inr (s2, if ok then Suc n else n)))"

fun masterEntries :: "'d Track list \<Rightarrow> Variant list \<times> Rendition list \<Rightarrow> Variant list \<times> Rendition list" where
  "masterEntries [] vr = vr"
| "masterEntries (t # ts) (vs, rs) =
     (if IsAudio t then masterEntries ts (vs, rs @ [\<lparr> rdURI = tkIndexUri t, rdName = tkPrefix t, rdDefault = (rs = []) \<rparr>])
      else masterEntries ts
             (vs @ [\<lparr> vURI = tkIndexUri t, vBandwidth = 0, vAverageBandwidth = None, vCodecs = [], vResolution = '''', vFrameRate = None, vAudio = '''' \<rparr>], rs))"

definition Segmenter_TryReady :: "'d Env \<Rightarrow> 'd Segmenter \<Rightarrow> ('d Segmenter \<times> bool) res" where
  "Segmenter_TryReady env s =
     (if sgReady s then Inr (s, True)
      else bind_res (readyLoop env [0..<length (sgTracks s)] s) (\<lambda>(s1, readys).
             if readys = length (sgTracks s1)
             then (let (vs, rs) = masterEntries (sgTracks s1) (Variants s1, Renditions s1);
                       vs' = (if rs \<noteq> [] then map (\<lambda>v. v\<lparr> vAudio := ''audio'' \<rparr>) vs else vs)
                   in Inr (s1\<lparr> sgReady := True, Variants := vs', Renditions := rs \<rparr>, True))
             else Inr (s1, False)))"

definition FindTrackBySSID :: "32 word \<Rightarrow> 'd Segmenter \<Rightarrow> nat option" where
  "FindTrackBySSID ssrc s =
     (case filter (\<lambda>i. ltSSRC (tkLt (tk s i)) = ssrc \<or> ltRtxSSRC (tkLt (tk s i)) = ssrc) [0..<length (sgTracks s)] of
        [] \<Rightarrow> None
      | i # _ \<Rightarrow> Some i)"

definition WriteRtp :: "'d Env \<Rightarrow> (nat \<Rightarrow> int) \<Rightarrow> 32 word \<Rightarrow> rtpPacket \<Rightarrow> nat \<Rightarrow> 'd Segmenter \<Rightarrow> ('d Segmenter \<times> go_err option) res" where
  "WriteRtp env clk ssrc packet buf s =
     (if sgClosed s then Inr (s, Some (PlainError ''segmenter closed''))
      else case FindTrackBySSID ssrc s of
             None \<Rightarrow> Inr (s, Some (PlainError ''ssrc not found: %d''))
           | Some i \<Rightarrow>
               (case tkSb (tk s i) of
                  None \<Rightarrow> Inl NilDeref
                | Some sb \<Rightarrow>
                    bind_res (ofRun (Push packet buf sb)) (\<lambda>sb1.
                    bind_res (ofRun (Pop sb1)) (\<lambda>(sb2, sample).
                      let s1 = setTk i ((tk s i)\<lparr> tkSb := Some sb2 \<rparr>) s
                      in case sample of
                           None \<Rightarrow> Inr (s1, None)
                         | Some smp \<Rightarrow>
                             bind_res (durationMp4ToGo (ucast (PacketTimestamp smp)) (ltClockRate (tkLt (tk s1 i)))) (\<lambda>pts.
                               WriteData env clk pts (Data smp) i s1)))))"

definition CloseTrack :: "'d Env \<Rightarrow> (nat \<Rightarrow> int) \<Rightarrow> 32 word \<Rightarrow> 'd Segmenter \<Rightarrow> ('d Segmenter \<times> go_err option) res" where
  "CloseTrack env clk ssrc s =
     (case FindTrackBySSID ssrc s of None \<Rightarrow> Inr (s, None) | Some i \<Rightarrow> Track_Close env clk i s)"

fun closeTracks :: "'d Env \<Rightarrow> (nat \<Rightarrow> int) \<Rightarrow> nat list \<Rightarrow> 'd Segmenter \<Rightarrow> ('d Segmenter \<times> go_err option) res" where
  "closeTracks env clk [] s = Inr (s, None)"
| "closeTracks env clk (i # is) s =
     bind_res (Track_Close env clk i s) (\<lambda>(s1, err). case err of Some e \<Rightarrow> Inr (s1, Some e) | None \<Rightarrow> closeTracks env clk is s1)"

definition Segmenter_Close :: "'d Env \<Rightarrow> (nat \<Rightarrow> int) \<Rightarrow> 'd Segmenter \<Rightarrow> ('d Segmenter \<times> go_err option) res" where
  "Segmenter_Close env clk s =
     (if sgClosed s then Inr (s, None)
      else bind_res (closeTracks env clk [0..<length (sgTracks s)] (s\<lparr> sgClosing := True \<rparr>)) (\<lambda>(s1, err).
             case err of
               Some e \<Rightarrow> Inr (s1, Some e)
             | None \<Rightarrow>
                 bind_res (case sgStart s1 of
                             None \<Rightarrow> Inr s1
                           | Some st \<Rightarrow>
                               bind_res (UpdateIndex env False (s1\<lparr> sgEnd := Some \<lparr> inDTS = ntpToDts (inDTS st) (inNTP st) (clk 3), inNTP = clk 3 \<rparr> \<rparr>))
                                 (\<lambda>(s2, _). Inr s2)) (\<lambda>s2.
                   Inr (s2\<lparr> sgClosing := False, sgClosed := True \<rparr>, None))))"

end
