(* ===== verification/Recording.thy ===== *)
theory Recording
  imports Packets Segmenter
begin

text \<open>
  The recording of a publication (\<open>signal/record.go\<close> and \<open>makeSegmenter\<close>, \<open>startRecord\<close> of
  \<open>signal/model.go\<close>): one goroutine takes the packets of all tracks from a channel and gives them to the
  segmenter; the segmenter hands out a context after every segment, and a recorder stores it as a document of
  a database, each context in a goroutine of its own.

  The loop is a function of one event of its two channels; the contexts reach the recorder in any order. The
  database is a parameter: \<open>InsertOne\<close> and \<open>ReplaceOne\<close> on a collection of type \<open>'m\<close>, with object ids as natural
  numbers and \<open>None\<close> for the nil id. \<open>Start\<close> and \<open>End\<close> of a context are pointers into the segmenter; a context stands
  for their values when the recorder reads them. The configuration is the part of it that recording reads.
\<close>

section \<open>Documents\<close>

record BaseInfo =
  biCodec :: string
  biInitPath :: string
  biIndexPath :: string
  biSegmentPath :: string
  biStart :: int
  biCompleted :: bool
  biDuration :: int
  biAvgBandwidth :: int
  biMaxBandwidth :: int

record VideoInfo =
  viBase :: BaseInfo
  viWidth :: int
  viHeight :: int
  viFrameRate :: int

record AudioInfo =
  aiBase :: BaseInfo
  aiDefault :: bool

datatype MediaInfo = MVideo VideoInfo | MAudio AudioInfo

record Record =
  rcStart :: int
  rcEnd :: int
  rcKey :: string
  rcPath :: string
  rcCompleted :: bool
  rcVideos :: "VideoInfo list"
  rcVideosDuration :: int
  rcAudios :: "AudioInfo list"
  rcAudiosDuration :: int

definition fillMediaInfo :: "TrackContext \<Rightarrow> BaseInfo" where
  "fillMediaInfo c = \<lparr> biCodec = tcCodec c, biInitPath = tcInitPath c, biIndexPath = tcIndexPath c, biSegmentPath = tcSegmentPath c,
     biStart = tcStart c, biCompleted = tcLast c, biDuration = timeSub (tcEnd c) (tcStart c), biAvgBandwidth = tcAvgBandwidth c,
     biMaxBandwidth = tcMaxBandwidth c \<rparr>"

definition MediaInfoFromTrackCtx :: "TrackContext \<Rightarrow> MediaInfo" where
  "MediaInfoFromTrackCtx c =
     (if tcAudio c then MAudio \<lparr> aiBase = fillMediaInfo c, aiDefault = False \<rparr>
      else MVideo \<lparr> viBase = fillMediaInfo c, viWidth = tcWidth c, viHeight = tcHeight c, viFrameRate = tcFrameRate c \<rparr>)"

definition addTrack :: "TrackContext \<Rightarrow> Record \<Rightarrow> Record" where
  "addTrack c r =
     (case MediaInfoFromTrackCtx c of
        MVideo info \<Rightarrow> r\<lparr> rcVideos := rcVideos r @ [info], rcVideosDuration := i64 (rcVideosDuration r + biDuration (viBase info)) \<rparr>
      | MAudio info \<Rightarrow> r\<lparr> rcAudios := rcAudios r @ [info], rcAudiosDuration := i64 (rcAudiosDuration r + biDuration (aiBase info)) \<rparr>)"

definition RecordFromSegCtx :: "SegmentContext \<Rightarrow> string \<Rightarrow> Record res" where
  "RecordFromSegCtx c key =
     (case (scStart c, scEnd c) of
        (Some st, Some en) \<Rightarrow>
          Inr (fold addTrack (scTracks c)
                \<lparr> rcStart = inNTP st, rcEnd = inNTP en, rcKey = key, rcPath = scPath c, rcCompleted = scLast c,
                  rcVideos = [], rcVideosDuration = 0, rcAudios = [], rcAudiosDuration = 0 \<rparr>)
      | _ \<Rightarrow> Inl NilDeref)"

section \<open>The recorder\<close>

record 'm Mongo =
  InsertOne :: "Record \<Rightarrow> 'm \<Rightarrow> 'm \<times> (go_err + nat)"
  ReplaceOne :: "nat \<Rightarrow> Record \<Rightarrow> 'm \<Rightarrow> 'm \<times> (go_err + nat)"

record Recorder =
  recId :: "nat option"
  recKey :: string
  recErr :: "go_err option"

definition NewRecorder :: "string \<Rightarrow> Recorder" where
  "NewRecorder key = \<lparr> recId = None, recKey = key, recErr = None \<rparr>"

definition ErrRecordThisIsImpossible :: go_err where
  "ErrRecordThisIsImpossible = PlainError ''this is impossible''"

definition Recorder_Record :: "'m Mongo \<Rightarrow> SegmentContext \<Rightarrow> Recorder \<times> 'm \<Rightarrow> ((Recorder \<times> 'm) \<times> bool \<times> go_err option) res" where
  "Recorder_Record mongo c rm =
     (let (r, m) = rm in
      case recErr r of
        Some e \<Rightarrow> Inr ((r, m), False, Some e)
      | None \<Rightarrow>
          if scFirst c
          then bind_res (RecordFromSegCtx c (recKey r)) (\<lambda>doc.
                 case InsertOne mongo doc m of
                   (m', Inl e) \<Rightarrow> Inr ((r\<lparr> recErr := Some e \<rparr>, m'), False, Some e)
                 | (m', Inr oid) \<Rightarrow> Inr ((r\<lparr> recId := Some oid \<rparr>, m'), True, None))
          else
            (case recId r of
               None \<Rightarrow> Inl (ErrorPanic ErrRecordThisIsImpossible)
             | Some oid \<Rightarrow>
                 bind_res (RecordFromSegCtx c (recKey r)) (\<lambda>doc.
                   case ReplaceOne mongo oid doc m of
                     (m', Inl e) \<Rightarrow> Inr ((r\<lparr> recErr := Some e \<rparr>, m'), False, Some e)
                   | (m', Inr matched) \<Rightarrow> Inr ((r, m'), matched \<noteq> 0, None))))"

text \<open>The goroutines that hold contexts, in the order in which they get the lock; an error is logged.\<close>

definition runRecorder :: "'m Mongo \<Rightarrow> SegmentContext \<Rightarrow> Recorder \<times> 'm \<Rightarrow> (Recorder \<times> 'm) res" where
  "runRecorder mongo c rm = bind_res (Recorder_Record mongo c rm) (\<lambda>(rm', _, _). Inr rm')"

definition runRecorders :: "'m Mongo \<Rightarrow> SegmentContext list \<Rightarrow> Recorder \<times> 'm \<Rightarrow> (Recorder \<times> 'm) res" where
  "runRecorders mongo cs = fold_res (runRecorder mongo) cs"

section \<open>The record loop\<close>

record RecordConf =
  rfEnable :: bool
  rfBasePath :: string
  rfDirPath :: string
  rfIndexName :: string
  rfSegmentDuration :: int
  rfGopSize :: int
  rfDBIndexEnable :: bool
  rfMongoUrl :: string
  rfDatabase :: string
  rfCollection :: string
  rfKey :: string
  rfAuthUser :: string
  rfAuthPass :: string

text \<open>
  \<open>makeSegmenter\<close>; \<open>files\<close> are the files that are there already. The recorder is \<open>None\<close> when the database
  index is off: then the segment handler does nothing.
\<close>

definition makeSegmenter ::
  "'d Env \<Rightarrow> RecordConf \<Rightarrow> GoValue \<Rightarrow> LabeledTrack list \<Rightarrow> (string, byte list) gomap \<Rightarrow> ('d Segmenter \<times> Recorder option) res" where
  "makeSegmenter env conf auth tracks files =
     bind_res (if rfDBIndexEnable conf
               then bind_res (createRecordKey (execTemplate env) (sprintV env) (rfKey conf) (map ltLabels tracks) (VMap True [(''auth'', VIface (Some auth))])) (\<lambda>key.
                      if key = '''' then Inl (ErrorPanic (PlainError ''conf record.dbIndex.key should not be empty''))
                      else Inr (Some (NewRecorder key)))
               else Inr None) (\<lambda>recorder.
       if rfIndexName conf = '''' then Inl (ErrorPanic (PlainError ''conf record.indexName should not be empty''))
       else Inr ((NewSegmenter tracks (rfDirPath conf) (rfIndexName conf) (rfSegmentDuration conf) (rfGopSize conf) (Some (rfBasePath conf))
                    True True (VMap True [(''auth'', VIface (Some auth))]))\<lparr> sgFiles := files \<rparr>, recorder))"

text \<open>A packet box without a buffer says that the track with the SSRC has ended.\<close>

datatype RecordEvent = CloseCh | TrackEnded "32 word" | PacketCame "32 word" rtpPacket nat

text \<open>
  The consumer of the RTP packets of a track: what it puts into the channel, and whether it is done. The
  buffer has room for \<open>PACKET_MAX_SIZE\<close> bytes; \<open>unmarshal\<close> is the parser of the RTP library with the SSRC of the header; of an error
  only the answer of \<open>IsRTPClosedError\<close> matters.
\<close>

definition onRTP :: "(byte list \<Rightarrow> go_err + 32 word \<times> rtpPacket) \<Rightarrow> 32 word \<Rightarrow> byte list \<Rightarrow> nat \<Rightarrow> (go_err \<times> bool) option \<Rightarrow> (RecordEvent \<times> bool) res" where
  "onRTP unmarshal ssrc data buf err =
     (case err of
        Some (e, closed) \<Rightarrow> if closed then Inr (TrackEnded ssrc, True) else Inl (ErrorPanic e)
      | None \<Rightarrow>
          if length data > PACKET_MAX_SIZE then Inl SliceBounds
          else (case unmarshal data of
                  Inl e \<Rightarrow> Inl (ErrorPanic e)
                | Inr (s, packet) \<Rightarrow> Inr (PacketCame s packet buf, False)))"

record 'd RecordLoop =
  rlRunning :: bool
  rlSegmenter :: "'d Segmenter"
  rlRecorder :: "Recorder option"
  rlClosedTracks :: nat
  rlTracks :: "LabeledTrack list"

definition stopLoop :: "'d Env \<Rightarrow> (nat \<Rightarrow> int) \<Rightarrow> 'd RecordLoop \<Rightarrow> 'd RecordLoop res" where
  "stopLoop env clk l =
     bind_res (Segmenter_Close env clk (rlSegmenter l)) (\<lambda>(s, _). Inr (l\<lparr> rlRunning := False, rlSegmenter := s \<rparr>))"

definition recordStep :: "'d Env \<Rightarrow> RecordConf \<Rightarrow> GoValue \<Rightarrow> (nat \<Rightarrow> int) \<Rightarrow> RecordEvent \<Rightarrow> 'd RecordLoop \<Rightarrow> 'd RecordLoop res" where
  "recordStep env conf auth clk ev l =
     (if \<not> rlRunning l then Inr l
      else case ev of
        CloseCh \<Rightarrow> stopLoop env clk l
      | TrackEnded ssrc \<Rightarrow>
          bind_res (CloseTrack env clk ssrc (rlSegmenter l)) (\<lambda>(s, _).
            Inr (l\<lparr> rlSegmenter := s, rlClosedTracks := Suc (rlClosedTracks l) \<rparr>))
      | PacketCame ssrc packet buf \<Rightarrow>
          if rlClosedTracks l = length (rlTracks l) then stopLoop env clk l
          else
            bind_res (Segmenter_TryReady env (rlSegmenter l)) (\<lambda>(s, ready).
              if \<not> ready then Inr (l\<lparr> rlSegmenter := s \<rparr>)
              else
                bind_res (WriteRtp env clk ssrc packet buf s) (\<lambda>(s', err).
                  case err of
                    None \<Rightarrow> Inr (l\<lparr> rlSegmenter := s' \<rparr>)
                  | Some e \<Rightarrow>
                      if e = ErrBadDts
                      then bind_res (Segmenter_Close env clk s') (\<lambda>(s2, _).
                           bind_res (makeSegmenter env conf auth (rlTracks l) (sgFiles s2)) (\<lambda>(s3, r).
                             Inr (l\<lparr> rlSegmenter := s3, rlRecorder := r \<rparr>)))
                      else Inl (ErrorPanic e))))"

text \<open>\<open>startRecord\<close>: \<open>None\<close> when recording is off or has started before.\<close>

definition startRecord :: "'d Env \<Rightarrow> RecordConf \<Rightarrow> GoValue \<Rightarrow> LabeledTrack list \<Rightarrow> (string, byte list) gomap \<Rightarrow> bool \<Rightarrow> ('d RecordLoop option) res" where
  "startRecord env conf auth tracks files started =
     (if \<not> rfEnable conf \<or> started then Inr None
      else bind_res (makeSegmenter env conf auth tracks files) (\<lambda>(s, r).
             Inr (Some \<lparr> rlRunning = True, rlSegmenter = s, rlRecorder = r, rlClosedTracks = 0, rlTracks = tracks \<rparr>)))"

definition runLoop :: "'d Env \<Rightarrow> RecordConf \<Rightarrow> GoValue \<Rightarrow> ((nat \<Rightarrow> int) \<times> RecordEvent) list \<Rightarrow> 'd RecordLoop \<Rightarrow> 'd RecordLoop res" where
  "runLoop env conf auth evs l = fold_res (\<lambda>(clk, ev) l. recordStep env conf auth clk ev l) evs l"

end
