(* ===== verification/SegmenterProps.thy ===== *)
theory SegmenterProps
  imports Segmenter
begin

text \<open>
  What a recording consists of: the samples of a track in order, cut into parts at key frames; the file of the
  track is the sequence of the parts, and the playlist has the byte range and the duration of each.
\<close>

section \<open>Steps that leave a recording alone\<close>

definition segPath :: "nat \<Rightarrow> 'd Segmenter \<Rightarrow> string" where
  "segPath i s = path_Join [sgBase s, sgDirectory s, tkSegUri (tk s i)]"

text \<open>The media file of the track is none of the files that are rewritten as a whole.\<close>

definition apart :: "nat \<Rightarrow> 'd Segmenter \<Rightarrow> bool" where
  "apart i s \<longleftrightarrow> segPath i s \<noteq> path_Join [sgBase s, sgDirectory s, tkInitUri (tk s i)] \<and>
     segPath i s \<noteq> path_Join [sgBase s, sgDirectory s, tkIndexUri (tk s i)] \<and>
     segPath i s \<noteq> path_Join [sgBase s, sgDirectory s, sgIndexUri s]"

text \<open>The fields of a track that a recording is about.\<close>

definition core :: "'d Track \<Rightarrow> PartSample list \<times> (nat \<times> int) option \<times> Part option \<times> Storage option \<times> MediaSegment list \<times> int \<times> int \<times> LabeledTrack \<times> bool" where
  "core t = (tkHeap t, nextVideoSample t, currentPart t, tkStorage t, mpSegments (tkPlaylist t), startDTS t, tkId t, tkLt t, tkClosed t)"

definition names :: "nat \<Rightarrow> 'd Segmenter \<Rightarrow> Instant option \<times> string \<times> string \<times> string \<times> string \<times> string \<times> string" where
  "names i s = (sgStart s, sgBase s, sgDirectory s, sgIndexUri s, tkSegUri (tk s i), tkInitUri (tk s i), tkIndexUri (tk s i))"

definition same :: "nat \<Rightarrow> 'd Segmenter \<Rightarrow> 'd Segmenter \<Rightarrow> bool" where
  "same i s s' \<longleftrightarrow> length (sgTracks s') = length (sgTracks s) \<and> core (tk s' i) = core (tk s i) \<and> names i s' = names i s \<and>
     (sgStart s \<noteq> None \<longrightarrow> apart i s \<longrightarrow> mget (sgFiles s') (segPath i s) = mget (sgFiles s) (segPath i s))"

lemma same_refl [simp, intro]: "same i s s"
  by (simp add: same_def)

lemma names_segPath: "names i s' = names i s \<Longrightarrow> segPath i s' = segPath i s" "names i s' = names i s \<Longrightarrow> apart i s' = apart i s"
  "names i s' = names i s \<Longrightarrow> sgStart s' = sgStart s"
  by (simp_all add: names_def segPath_def apart_def)

lemma same_trans:
  assumes "same i s s1" "same i s1 s2"
  shows "same i s s2"
  using assms names_segPath [of i s1 s] unfolding same_def by simp

lemma same_upd:
  assumes "core (f (tk s i)) = core (tk s i)" "tkSegUri (f (tk s i)) = tkSegUri (tk s i)" "tkInitUri (f (tk s i)) = tkInitUri (tk s i)"
    "tkIndexUri (f (tk s i)) = tkIndexUri (tk s i)" "i < length (sgTracks s)"
  shows "same i s (setTk i (f (tk s i)) s)"
  using assms by (simp add: same_def names_def setTk_def)

lemma fullPath_cases: "fullPath p b s = Inr q \<Longrightarrow> sgStart s \<noteq> None \<and> q = (if b then path_Join [sgBase s, sgDirectory s, p] else path_Join [sgDirectory s, p])"
  by (auto simp: fullPath_def Base_def Directory_def split: if_splits)

lemma same_file:
  assumes "apart i s \<Longrightarrow> p \<noteq> segPath i s"
  shows "same i s (s\<lparr> sgFiles := mput p c (sgFiles s) \<rparr>)"
  using assms by (auto simp: same_def names_def gomap_simps)

lemma writeFile_same:
  assumes "apart i s \<Longrightarrow> p \<noteq> segPath i s" "writeFile env p c s = (s', e)"
  shows "same i s s'"
  using assms same_file [of i s p c] by (auto simp: writeFile_def split: option.splits)

text \<open>A computation that leaves the recording alone if it returns, with or without an error.\<close>

definition frames :: "nat \<Rightarrow> 'd Segmenter \<Rightarrow> ('d Segmenter \<times> 'e) res \<Rightarrow> bool" where
  "frames i s r \<longleftrightarrow> (\<forall>s' e. r = Inr (s', e) \<longrightarrow> same i s s')"

lemma frames_Inl [simp]: "frames i s (Inl p)"
  by (simp add: frames_def)

lemma frames_Inr [simp]: "frames i s (Inr (s', e)) \<longleftrightarrow> same i s s'"
  by (simp add: frames_def)

lemma frames_bind: "(\<And>x. r = Inr x \<Longrightarrow> frames i s (f x)) \<Longrightarrow> frames i s (bind_res r f)"
  by (cases r) simp_all

lemma frames_step: "frames i s r \<Longrightarrow> (\<And>s1 e. r = Inr (s1, e) \<Longrightarrow> same i s s1 \<Longrightarrow> frames i s (f (s1, e))) \<Longrightarrow> frames i s (bind_res r f)"
  unfolding frames_def by (cases r) auto

lemma frames_trans: "same i s s1 \<Longrightarrow> frames i s1 r \<Longrightarrow> frames i s r"
  unfolding frames_def using same_trans by blast

lemma updateVariants_same: "\<exists>vs. fst (updateVariants env is s) = s\<lparr> Variants := vs \<rparr>"
proof (induction "is" arbitrary: s)
  case Nil
  have "fst (updateVariants env [] s) = s\<lparr> Variants := Variants s \<rparr>" by simp
  then show ?case by blast
next
  case (Cons j js)
  have "\<exists>vs. fst (updateVariant env j s) = s\<lparr> Variants := vs \<rparr>"
  proof (cases "FindVariantByTrack (tk s j) s")
    case None
    then have "fst (updateVariant env j s) = s\<lparr> Variants := Variants s \<rparr>" by (simp add: updateVariant_def)
    then show ?thesis by blast
  next
    case (Some k)
    show ?thesis unfolding updateVariant_def Let_def Some option.case split_beta fst_conv by (rule exI) (rule refl)
  qed
  then obtain vs where v: "fst (updateVariant env j s) = s\<lparr> Variants := vs \<rparr>" by blast
  obtain ws where "fst (updateVariants env js (fst (updateVariant env j s))) = (fst (updateVariant env j s))\<lparr> Variants := ws \<rparr>"
    using Cons.IH by blast
  then show ?case unfolding v by (simp add: split_beta Let_def v) blast
qed

lemma same_Variants: "same i s (s\<lparr> Variants := vs \<rparr>)" "same i s (s\<lparr> sgHandled := h \<rparr>)" "same i s (s\<lparr> indexCreated := b \<rparr>)" "same i s (s\<lparr> sgEnd := e \<rparr>)"
  by (simp_all add: same_def names_def)

lemma handleSegment_frames: "frames i s (handleSegment env first s)"
  unfolding handleSegment_def by (auto intro!: frames_bind simp: same_Variants)

lemma UpdateIndex_frames: "frames i s (UpdateIndex env force s)"
proof -
  obtain s1 c where u: "updateVariants env [0..<length (sgTracks s)] s = (s1, c)" by fastforce
  have s1: "same i s s1" using updateVariants_same [of env "[0..<length (sgTracks s)]" s] u by (auto simp: same_Variants)
  have w: "same i s1 s2" if "IndexUri s1 = Inr uri" "fullPath uri True s1 = Inr p" "writeFile env p content s1 = (s2, e)" for uri p content s2 e
    by (rule writeFile_same [OF _ that(3)]) (use fullPath_cases [OF that(2)] that(1) in \<open>auto simp: apart_def IndexUri_def split: if_splits\<close>)
  have h: "frames i s1 (handleSegment env first (s2\<lparr> indexCreated := True \<rparr>))" if "same i s1 s2" for first s2
    by (rule frames_trans [OF same_trans [OF that same_Variants(3)] handleSegment_frames])
  have "frames i s1 (if \<not> indexCreated s1 \<or> c
               then (case marshalMultivariant env (multivariant s1) (Renditions s1) of
                       Inl e \<Rightarrow> Inr (s1, Some e)
                     | Inr content \<Rightarrow>
                         bind_res (IndexUri s1) (\<lambda>uri.
                         bind_res (fullPath uri True s1) (\<lambda>p.
                           case writeFile env p content s1 of
                             (s2, Some e) \<Rightarrow> Inr (s2, Some e)
                           | (s2, None) \<Rightarrow> handleSegment env (\<not> indexCreated s) (s2\<lparr> indexCreated := True \<rparr>))))
               else handleSegment env (\<not> indexCreated s) s1)"
    using w h by (auto split: sum.splits prod.splits option.splits intro!: frames_bind handleSegment_frames)
  from frames_trans [OF s1 this] show ?thesis unfolding UpdateIndex_def Let_def u by simp
qed

lemma NextPart_other:
  assumes "NextPart env f s = Inr (s', f', n)" "apart i s \<Longrightarrow> fpath f \<noteq> segPath i s"
  shows "same i s s' \<and> fpath f' = fpath f"
  using assms same_file [of i s "fpath f"] by (auto simp: NextPart_def Let_def split: option.splits)

lemma Storage_Close_frames:
  assumes "same i s s1" "apart i s \<longrightarrow> fpath f \<noteq> segPath i s"
  shows "frames i s (Storage_Close env f s1)"
proof (cases "NextPart env (f\<lparr> stClosed := True \<rparr>) s1")
  case (Inr x)
  obtain s2 f2 n where x: "x = (s2, f2, n)" by (cases x)
  have "apart i s1 \<Longrightarrow> fpath (f\<lparr> stClosed := True \<rparr>) \<noteq> segPath i s1" using assms names_segPath [of i s1 s] by (simp add: same_def)
  then have "same i s1 s2" using NextPart_other [of env "f\<lparr> stClosed := True \<rparr>" s1 s2 f2 n i] Inr x by simp
  then show ?thesis using same_trans [OF assms(1)] Inr x by (simp add: Storage_Close_def)
qed (simp add: Storage_Close_def)

lemma writeInit_frames: "frames i s (writeInit env i s)"
  unfolding writeInit_def Let_def
proof (intro frames_bind)
  let ?t = "tk s i"
  fix p x assume p: "fullPath (tkInitUri ?t) True s = Inr p" and n: "NewStorage env p s = Inr x"
  obtain s1 f where x: "x = (s1, f)" by (cases x)
  have a: "apart i s \<Longrightarrow> p \<noteq> segPath i s" using fullPath_cases [OF p] by (auto simp: apart_def)
  have f: "fpath f = p" "same i s s1" using n x same_file [OF a] by (auto simp: NewStorage_def split: option.splits)
  have c: "frames i s (bind_res (Storage_Close env g s1) (\<lambda>(s2, _). Inr (s2, e)))" if "fpath g = p" for g and e :: "go_err option"
    by (rule frames_step [OF Storage_Close_frames [OF f(2)]]) (use a that in auto)
  have "fpath (fst (writeAll bs f)) = p" for bs by (simp add: writeAll_def f(1))
  then show "frames i s (case x of (s1, f) \<Rightarrow> case marshalInit env (tkId ?t) (ltClockRate (tkLt ?t)) (tkMeta ?t) of
        Inl e \<Rightarrow> bind_res (Storage_Close env f s1) (\<lambda>(s2, _). Inr (s2, Some e))
      | Inr bs \<Rightarrow> bind_res (Storage_Close env (fst (writeAll bs f)) s1) (\<lambda>(s2, _). Inr (s2, None)))"
    unfolding x using c f(1) by (simp split: sum.splits)
qed

lemma updateIndex_frames:
  assumes "i < length (sgTracks s)"
  shows "frames i s (updateIndex env i s)"
proof -
  let ?t = "tk s i"
  let ?pl = "if tkClosed ?t then (tkPlaylist ?t)\<lparr> Endlist := True \<rparr> else tkPlaylist ?t"
  let ?s = "\<lambda>mx avg. setTk i (?t\<lparr> tkPlaylist := ?pl, maxBandwidth := mx, avgBandwidth := avg \<rparr>) s"
  have s1: "same i s (?s mx avg)" for mx avg by (rule same_upd) (use assms in \<open>simp_all add: core_def\<close>)
  have "frames i s (bind_res (fullPath (tkIndexUri ?t) True (?s mx avg)) (\<lambda>p. Inr (writeFile env p content (?s mx avg))))" for mx avg content
  proof (rule frames_bind)
    fix p assume p: "fullPath (tkIndexUri ?t) True (?s mx avg) = Inr p"
    have a: "apart i (?s mx avg) \<Longrightarrow> p \<noteq> segPath i (?s mx avg)"
      using fullPath_cases [OF p] assms by (auto simp: apart_def setTk_def)
    obtain s2 e where w: "writeFile env p content (?s mx avg) = (s2, e)" by fastforce
    show "frames i s (Inr (writeFile env p content (?s mx avg)))" using same_trans [OF s1 writeFile_same [OF a w]] w by simp
  qed
  then show ?thesis unfolding updateIndex_def Let_def using s1 by (auto intro!: frames_bind split: sum.splits)
qed

lemma same_bound: "same i s s' \<Longrightarrow> i < length (sgTracks s) \<Longrightarrow> i < length (sgTracks s')"
  by (simp add: same_def)

lemma Segmenter_setEnd_same: "same i s (Segmenter_setEnd dts ntp s)"
  by (auto simp: Segmenter_setEnd_def same_Variants split: option.splits)

lemma finishSegment_frames:
  assumes "i < length (sgTracks s)"
  shows "frames i s (finishSegment env dts i s)"
proof -
  let ?e = "dtsToNtp (startDTS (tk s i)) (startNTP (tk s i)) dts"
  let ?s = "setTk i ((tk s i)\<lparr> endNTP := ?e \<rparr>) s"
  have s1: "same i s ?s" by (rule same_upd) (use assms in \<open>simp_all add: core_def\<close>)
  show ?thesis
    unfolding finishSegment_def Let_def
  proof (rule frames_step [OF frames_trans [OF s1 updateIndex_frames [OF same_bound [OF s1 assms]]]])
    fix s2 e assume "same i s s2"
    from same_trans [OF this Segmenter_setEnd_same]
    have "same i s (Segmenter_setEnd dts ?e s2)" .
    from this frames_trans [OF this UpdateIndex_frames] \<open>same i s s2\<close>
    show "frames i s (case (s2, e) of (s1, err) \<Rightarrow> case err of Some x \<Rightarrow> Inr (s1, Some x)
        | None \<Rightarrow> if tkClosed (tk (Segmenter_setEnd dts ?e s1) i) then Inr (Segmenter_setEnd dts ?e s1, None)
            else UpdateIndex env True (Segmenter_setEnd dts ?e s1))"
      by (auto split: option.splits)
  qed
qed

section \<open>A flushed part\<close>

text \<open>
  The state after a part has been flushed without an error: its bytes are appended to the file of the track,
  and its range and duration to the playlist.
\<close>

definition stored :: "nat \<Rightarrow> 'd Segmenter \<Rightarrow> byte list \<Rightarrow> bool" where
  "stored i s content \<longleftrightarrow>
     (case tkStorage (tk s i) of
        None \<Rightarrow> content = []
      | Some f \<Rightarrow> fpath f = segPath i s \<and> stBuffer f = None \<and> \<not> stClosed f \<and> stOffset f = of_nat (length content) \<and>
          mget (sgFiles s) (segPath i s) = Some content)"

lemma stored_same:
  assumes "same i s s'" "sgStart s \<noteq> None" "apart i s"
  shows "stored i s' content = stored i s content"
  using assms names_segPath(1) [of i s' s] by (simp add: stored_def same_def core_def split: option.splits)

lemma finishFlush_frames:
  assumes "i < length (sgTracks s)"
  shows "frames i s (finishFlush env dts force i s)"
proof -
  let ?s = "setTk i ((tk s i)\<lparr> initCreated := True \<rparr>) s"
  have s1: "same i s ?s" by (rule same_upd) (use assms in \<open>simp_all add: core_def\<close>)
  have "frames i s (bind_res (writeInit env i ?s) (\<lambda>(s1, err). case err of Some e \<Rightarrow> Inr (s1, Some e) | None \<Rightarrow> finishSegment env dts i s1))"
  proof (rule frames_step [OF frames_trans [OF s1 writeInit_frames]])
    fix s2 e assume s2: "same i s s2"
    show "frames i s (case (s2, e) of (s1, err) \<Rightarrow> case err of Some e \<Rightarrow> Inr (s1, Some e) | None \<Rightarrow> finishSegment env dts i s1)"
      using s2 frames_trans [OF s2 finishSegment_frames [OF same_bound [OF s2 assms]]] by (auto split: option.splits)
  qed
  then show ?thesis unfolding finishFlush_def using finishSegment_frames [OF assms] by simp
qed

lemma openStorage_ok:
  assumes "sgStart s \<noteq> None" "stored i s content" "openStorage env i s = Inr (s1, f)"
  shows "fpath f = segPath i s \<and> stBuffer f = None \<and> \<not> stClosed f \<and> stOffset f = of_nat (length content) \<and>
    mget (sgFiles s1) (segPath i s) = Some content \<and> (\<exists>fs. s1 = s\<lparr> sgFiles := fs \<rparr>)"
proof (cases "tkStorage (tk s i)")
  case None
  then obtain p where p: "fullPath (tkSegUri (tk s i)) True s = Inr p" "NewStorage env p s = Inr (s1, f)"
    using assms(3) by (auto simp: openStorage_def bind_res_Inr_iff)
  have "p = segPath i s" using fullPath_cases [OF p(1)] by (simp add: segPath_def)
  then show ?thesis using p(2) assms(2) None by (auto simp: NewStorage_def stored_def gomap_simps split: option.splits)
next
  case (Some g)
  then have e: "s1 = s" "f = g" using assms(3) by (simp_all add: openStorage_def)
  have "\<exists>fs. s = s\<lparr> sgFiles := fs \<rparr>" by (rule exI [of _ "sgFiles s"]) simp
  moreover have "fpath g = segPath i s" "stBuffer g = None" "\<not> stClosed g" "stOffset g = of_nat (length content)" "mget (sgFiles s) (segPath i s) = Some content"
    using assms(2) Some by (simp_all add: stored_def)
  ultimately show ?thesis unfolding e by blast
qed

lemma flush_ok:
  assumes i: "i < length (sgTracks s)" and p: "currentPart (tk s i) = Some part" and st: "sgStart s \<noteq> None" and a: "apart i s"
    and c: "stored i s content" and r: "flushSegment env dts force i s = Inr (s', None)"
  shows "\<exists>bs time. marshalPart env (partId part) (BaseTime part) (map (\<lambda>r. tkHeap (tk s i) ! r) (Samples part)) = Inr bs \<and>
    length (sgTracks s') = length (sgTracks s) \<and> names i s' = names i s \<and> stored i s' (content @ bs) \<and> tkStorage (tk s' i) \<noteq> None \<and>
    mpSegments (tkPlaylist (tk s' i)) = mpSegments (tkPlaylist (tk s i)) @ [\<lparr> msDuration = i64 (dts - startDTS (tk s i)), msURI = tkSegUri (tk s i),
      DateTime = time, ByteRangeStart = of_nat (length content), ByteRangeLength = of_nat (length bs) \<rparr>] \<and>
    tkHeap (tk s' i) = tkHeap (tk s i) \<and> nextVideoSample (tk s' i) = nextVideoSample (tk s i) \<and> currentPart (tk s' i) = currentPart (tk s i) \<and>
    startDTS (tk s' i) = startDTS (tk s i) \<and> tkId (tk s' i) = tkId (tk s i) \<and> tkLt (tk s' i) = tkLt (tk s i)"
proof -
  obtain x where x: "openStorage env i s = Inr x" using r p by (cases "openStorage env i s") (simp_all add: flushSegment_def)
  obtain s1 f where o: "openStorage env i s = Inr (s1, f)" using x by (cases x) auto
  obtain fs where f: "fpath f = segPath i s" "stBuffer f = None" "\<not> stClosed f" "stOffset f = of_nat (length content)"
      "mget (sgFiles s1) (segPath i s) = Some content" "s1 = s\<lparr> sgFiles := fs \<rparr>"
    using openStorage_ok [OF st c o] by blast
  obtain bs where bs: "marshalPart env (partId part) (BaseTime part) (map (\<lambda>r. tkHeap (tk s i) ! r) (Samples part)) = Inr bs"
    using r p o by (cases "marshalPart env (partId part) (BaseTime part) (map (\<lambda>r. tkHeap (tk s i) ! r) (Samples part))") (simp_all add: flushSegment_def)
  define f1 where "f1 = f\<lparr> stBuffer := Some bs \<rparr>"
  have w: "writeAll bs f = (f1, None)" using f by (simp add: writeAll_def f1_def)
  define s2 where "s2 = s1\<lparr> sgFiles := mput (segPath i s) (content @ bs) (sgFiles s1) \<rparr>"
  define f2 where "f2 = f1\<lparr> stOffset := of_nat (length content + length bs), stSize := stSize f + of_nat (length bs), partIdx := partIdx f + 1, stBuffer := None \<rparr>"
  have n: "writeError env (fpath f1) = None"
    using r p o bs w by (cases "writeError env (fpath f1)") (simp_all add: flushSegment_def NextPart_def f1_def)
  then have np: "NextPart env f1 s1 = Inr (s2, f2, length bs)"
    using f by (simp add: NextPart_def Let_def f1_def f2_def s2_def)
  define s3 where "s3 = appendSegment dts (CurrentPartOffset f1) (length bs) f2 i s2"
  have fin: "finishFlush env dts force i s3 = Inr (s', None)"
    using r p o bs w np by (simp add: flushSegment_def s3_def)
  have t2: "sgTracks s2 = sgTracks s" by (simp add: s2_def f(6))
  have t3: "tk s3 i = (tk s i)\<lparr> tkStorage := Some f2, tkPlaylist := (tkPlaylist (tk s i))\<lparr> mpSegments := mpSegments (tkPlaylist (tk s i)) @
      [\<lparr> msDuration = i64 (dts - startDTS (tk s i)), msURI = tkSegUri (tk s i), DateTime = startNTP (tk s i), ByteRangeStart = of_nat (length content),
         ByteRangeLength = of_nat (length bs) \<rparr>] \<rparr> \<rparr>"
    using i f(4) by (simp add: s3_def appendSegment_def setTk_def t2 CurrentPartOffset_def f1_def Let_def)
  have s3: "length (sgTracks s3) = length (sgTracks s)" "names i s3 = names i s" "sgFiles s3 = sgFiles s2" "sgStart s3 = sgStart s"
    using i t3 by (simp_all add: s3_def appendSegment_def setTk_def t2 names_def s2_def f(6) Let_def)
  have seg3: "segPath i s3 = segPath i s" "apart i s3" using names_segPath [OF s3(2)] a by simp_all
  have st3: "stored i s3 (content @ bs)"
    unfolding stored_def seg3(1) s3(3) t3 using f(1,3) by (simp add: f2_def f1_def s2_def gomap_simps)
  have sm: "same i s3 s'" using finishFlush_frames [of i s3 env dts force] fin i s3(1) by (auto simp: frames_def)
  have "stored i s' (content @ bs)" using stored_same [OF sm] st3 s3(4) st seg3(2) by simp
  moreover have "core (tk s' i) = core (tk s3 i)" "names i s' = names i s" "length (sgTracks s') = length (sgTracks s)" using sm s3 by (simp_all add: same_def)
  ultimately show ?thesis using bs unfolding core_def t3 by (intro exI [of _ bs] exI [of _ "startNTP (tk s i)"]) simp
qed

section \<open>The recording of a track\<close>

text \<open>
  The samples from \<open>a\<close> to before \<open>b\<close> as a part holds them: the first sample of every segment but the first is
  put into the new part when the segment starts and once more when it leaves the queue.
\<close>

definition piece :: "nat \<Rightarrow> nat \<Rightarrow> nat list" where
  "piece a b = (if a = 0 then [a..<b] else a # [a..<b])"

definition baseAt :: "'d Segmenter \<Rightarrow> nat \<Rightarrow> int \<Rightarrow> 64 word" where
  "baseAt s i d = durationGoToMp4 (i64 (d - inDTS (the (sgStart s)))) (ltClockRate (tkLt (tk s i)))"

definition partAt :: "'d Segmenter \<Rightarrow> nat \<Rightarrow> int list \<Rightarrow> nat \<Rightarrow> nat \<Rightarrow> Part" where
  "partAt s i ds a b = \<lparr> partId = tkId (tk s i), BaseTime = baseAt s i (ds ! a), Samples = piece a b \<rparr>"

text \<open>
  What has been written, for the decoding times \<open>ds\<close> of the samples, the numbers \<open>cuts\<close> of the samples that
  start a segment (and the end), and the bytes \<open>bs\<close> of the segments.
\<close>

definition parts_ok :: "'d Env \<Rightarrow> nat \<Rightarrow> int list \<Rightarrow> nat list \<Rightarrow> byte list list \<Rightarrow> 'd Segmenter \<Rightarrow> bool" where
  "parts_ok env i ds cuts bs s \<longleftrightarrow>
     cuts \<noteq> [] \<and> hd cuts = 0 \<and> sorted_wrt (<) cuts \<and> length cuts = Suc (length bs) \<and> last cuts < length ds \<and>
     length (mpSegments (tkPlaylist (tk s i))) = length bs \<and> stored i s (concat bs) \<and>
     (\<forall>j < length bs.
        marshalPart env (tkId (tk s i)) (baseAt s i (ds ! (cuts ! j))) (map (\<lambda>r. tkHeap (tk s i) ! r) (piece (cuts ! j) (cuts ! Suc j))) = Inr (bs ! j) \<and>
        msDuration (mpSegments (tkPlaylist (tk s i)) ! j) = i64 (ds ! (cuts ! Suc j) - ds ! (cuts ! j)) \<and>
        ByteRangeStart (mpSegments (tkPlaylist (tk s i)) ! j) = of_nat (length (concat (take j bs))) \<and>
        ByteRangeLength (mpSegments (tkPlaylist (tk s i)) ! j) = of_nat (length (bs ! j)))"

definition timed :: "nat \<Rightarrow> int list \<Rightarrow> 'd Segmenter \<Rightarrow> bool" where
  "timed i ds s \<longleftrightarrow> length ds \<le> Suc (length (tkHeap (tk s i))) \<and>
     (\<forall>r. Suc r < length ds \<longrightarrow>
        psDuration (tkHeap (tk s i) ! r) = ucast (durationGoToMp4 (i64 (ds ! Suc r - ds ! r)) (ltClockRate (tkLt (tk s i)))))"

definition base_ok :: "nat \<Rightarrow> 'd Segmenter \<Rightarrow> bool" where
  "base_ok i s \<longleftrightarrow> i < length (sgTracks s) \<and> sgStart s \<noteq> None \<and> apart i s"

definition recorded :: "'d Env \<Rightarrow> nat \<Rightarrow> int list \<Rightarrow> nat list \<Rightarrow> byte list list \<Rightarrow> 'd Segmenter \<Rightarrow> bool" where
  "recorded env i ds cuts bs s \<longleftrightarrow> base_ok i s \<and> parts_ok env i ds cuts bs s \<and> timed i ds s \<and>
     ds \<noteq> [] \<and> length (tkHeap (tk s i)) = length ds \<and> nextVideoSample (tk s i) = Some (length ds - 1, last ds) \<and>
     startDTS (tk s i) = ds ! last cuts \<and>
     currentPart (tk s i) = (if length ds = 1 then None else Some (partAt s i ds (last cuts) (length ds - 1)))"

text \<open>After a sample has left the queue, before the part is flushed or not.\<close>

definition filled :: "'d Env \<Rightarrow> nat \<Rightarrow> int list \<Rightarrow> nat list \<Rightarrow> byte list list \<Rightarrow> 'd Segmenter \<Rightarrow> bool" where
  "filled env i ds cuts bs s \<longleftrightarrow> base_ok i s \<and> parts_ok env i ds cuts bs s \<and> timed i ds s \<and>
     Suc (last cuts) < length ds \<and> startDTS (tk s i) = ds ! last cuts \<and>
     currentPart (tk s i) = Some (partAt s i ds (last cuts) (length ds - 1))"

lemma piece_bound: "r \<in> set (piece a b) \<Longrightarrow> a < b \<Longrightarrow> r < b"
  by (auto simp: piece_def split: if_splits)

lemma piece_Suc: "a \<le> b \<Longrightarrow> piece a (Suc b) = piece a b @ [b]"
  by (simp add: piece_def)

lemma cuts_le:
  assumes "sorted_wrt (<) cuts" "cuts \<noteq> []" "j < length cuts"
  shows "cuts ! j \<le> (last cuts :: nat)"
proof (cases "j = length cuts - 1")
  case True
  then show ?thesis using assms(2) by (simp add: last_conv_nth)
next
  case False
  then have "cuts ! j < cuts ! (length cuts - 1)" using sorted_wrt_nth_less [OF assms(1), of j "length cuts - 1"] assms(3) by simp
  then show ?thesis using assms(2) by (simp add: last_conv_nth)
qed

text \<open>What has been written stays written: later times may come, samples after the last cut may change.\<close>

lemma parts_ok_cong:
  assumes "parts_ok env i ds cuts bs s" "names i s' = names i s" "tkId (tk s' i) = tkId (tk s i)" "tkLt (tk s' i) = tkLt (tk s i)"
    and "mpSegments (tkPlaylist (tk s' i)) = mpSegments (tkPlaylist (tk s i))" "stored i s' (concat bs)"
    and "\<And>r. r < last cuts \<Longrightarrow> tkHeap (tk s' i) ! r = tkHeap (tk s i) ! r" "last cuts < length ds'"
    and "\<And>j. j \<le> last cuts \<Longrightarrow> ds' ! j = ds ! j"
  shows "parts_ok env i ds' cuts bs s'"
proof -
  note p = assms(1) [unfolded parts_ok_def]
  have st: "sgStart s' = sgStart s" by (rule names_segPath(3) [OF assms(2)])
  have b: "baseAt s' i d = baseAt s i d" for d by (simp add: baseAt_def st assms(4))
  have c: "cuts ! j \<le> last cuts" if "j \<le> length bs" for j using cuts_le [of cuts j] p that by simp
  have m: "map (\<lambda>r. tkHeap (tk s' i) ! r) (piece (cuts ! j) (cuts ! Suc j)) = map (\<lambda>r. tkHeap (tk s i) ! r) (piece (cuts ! j) (cuts ! Suc j))"
    if j: "j < length bs" for j
  proof (rule map_cong [OF refl])
    fix r assume r: "r \<in> set (piece (cuts ! j) (cuts ! Suc j))"
    have "cuts ! j < cuts ! Suc j" using sorted_wrt_nth_less [of "(<)" cuts j "Suc j"] p j by simp
    from piece_bound [OF r this] show "tkHeap (tk s' i) ! r = tkHeap (tk s i) ! r" using c [of "Suc j"] j by (intro assms(7)) simp
  qed
  have d: "ds' ! (cuts ! j) = ds ! (cuts ! j)" "ds' ! (cuts ! Suc j) = ds ! (cuts ! Suc j)" if "j < length bs" for j
    using c [of j] c [of "Suc j"] that assms(9) by simp_all
  have "marshalPart env (tkId (tk s' i)) (baseAt s' i (ds' ! (cuts ! j))) (map (\<lambda>r. tkHeap (tk s' i) ! r) (piece (cuts ! j) (cuts ! Suc j))) = Inr (bs ! j)"
    if j: "j < length bs" for j unfolding m [OF j] d(1) [OF j] b assms(3) using p j by blast
  then show ?thesis unfolding parts_ok_def using p d assms(5,6,8) by simp
qed

lemma stored_cong: "stored i s c \<Longrightarrow> names i s' = names i s \<Longrightarrow> tkStorage (tk s' i) = tkStorage (tk s i) \<Longrightarrow> sgFiles s' = sgFiles s \<Longrightarrow> stored i s' c"
  using names_segPath(1) [of i s' s] by (auto simp: stored_def split: option.splits)

lemma base_ok_cong: "base_ok i s \<Longrightarrow> names i s' = names i s \<Longrightarrow> length (sgTracks s') = length (sgTracks s) \<Longrightarrow> base_ok i s'"
  using names_segPath(2,3) [of i s' s] by (simp add: base_ok_def)

lemma names_setTk [simp]:
  "i < length (sgTracks s) \<Longrightarrow> tkSegUri t = tkSegUri (tk s i) \<Longrightarrow> tkInitUri t = tkInitUri (tk s i) \<Longrightarrow> tkIndexUri t = tkIndexUri (tk s i) \<Longrightarrow>
   names i (setTk i t s) = names i s"
  by (simp add: names_def setTk_def)

lemma setTk_simps [simp]:
  "i < length (sgTracks s) \<Longrightarrow> tk (setTk i t s) i = t" "length (sgTracks (setTk i t s)) = length (sgTracks s)"
  "sgFiles (setTk i t s) = sgFiles s" "sgStart (setTk i t s) = sgStart s" "segmentDuration (setTk i t s) = segmentDuration s"
  by (simp_all add: setTk_def)

lemma setTk_setTk [simp]: "setTk i u (setTk i t s) = setTk i u s"
  by (simp add: setTk_def)

lemma stored_setTk: "i < length (sgTracks s) \<Longrightarrow> stored i s c \<Longrightarrow> tkStorage t = tkStorage (tk s i) \<Longrightarrow> tkSegUri t = tkSegUri (tk s i) \<Longrightarrow>
    tkInitUri t = tkInitUri (tk s i) \<Longrightarrow> tkIndexUri t = tkIndexUri (tk s i) \<Longrightarrow> stored i (setTk i t s) c"
  by (rule stored_cong) simp_all

lemma base_ok_setTk: "base_ok i s \<Longrightarrow> tkSegUri t = tkSegUri (tk s i) \<Longrightarrow>
    tkInitUri t = tkInitUri (tk s i) \<Longrightarrow> tkIndexUri t = tkIndexUri (tk s i) \<Longrightarrow> base_ok i (setTk i t s)"
  by (rule base_ok_cong) (simp_all add: base_ok_def)

text \<open>The sample that leaves the queue when the next one (or the end) comes at time \<open>d\<close>.\<close>

lemma emit_ok:
  assumes r: "recorded env i ds cuts bs s"
    and u: "u = (tk s i)\<lparr> tkHeap := tkHeap (tk s i) @ ps, nextVideoSample := nx \<rparr>"
    and e: "emitSample (length ds - 1, last ds) d i (setTk i u s) = Inr s'"
  shows "filled env i (ds @ [d]) cuts bs s' \<and> nextVideoSample (tk s' i) = nx \<and> length (tkHeap (tk s' i)) = length ds + length ps \<and>
    segmentDuration s' = segmentDuration s"
proof -
  note R = r [unfolded recorded_def]
  let ?t = "tk s i" and ?n = "length ds"
  have i: "i < length (sgTracks s)" using R by (simp add: base_ok_def)
  have n: "0 < ?n" "length (tkHeap ?t) = ?n" using R by auto
  have lc: "last cuts < ?n" using R by (simp add: parts_ok_def)
  define hp where "hp = (tkHeap ?t @ ps)[?n - 1 := ((tkHeap ?t @ ps) ! (?n - 1))\<lparr> psDuration := ucast (durationGoToMp4 (i64 (d - last ds)) (ltClockRate (tkLt ?t))) \<rparr>]"
  obtain st where st: "sgStart s = Some st" using R by (auto simp: base_ok_def)
  have p: "(case currentPart u of None \<Rightarrow> newPart i [] (setTk i u s) | Some p \<Rightarrow> Inr p) = Inr (partAt s i ds (last cuts) (?n - 1))"
  proof (cases "?n = 1")
    case True
    then have "last cuts = 0" using lc by simp
    then show ?thesis using True R i st u by (simp add: newPart_def partAt_def baseAt_def piece_def)
  next
    case False
    then show ?thesis using R u by simp
  qed
  have s': "s' = setTk i (u\<lparr> tkHeap := hp, currentPart := Some (partAt s i ds (last cuts) ?n) \<rparr>) s"
  proof -
    have pc: "piece (last cuts) ?n = piece (last cuts) (?n - 1) @ [?n - 1]" using piece_Suc [of "last cuts" "?n - 1"] lc n by simp
    have x: "(partAt s i ds (last cuts) (?n - 1))\<lparr> Samples := Samples (partAt s i ds (last cuts) (?n - 1)) @ [?n - 1] \<rparr> = partAt s i ds (last cuts) ?n"
      by (simp add: partAt_def pc)
    have "tkHeap u = tkHeap ?t @ ps" "tkLt u = tkLt ?t" by (simp_all add: u)
    then show ?thesis using e i p x by (simp add: emitSample_def Let_def hp_def)
  qed
  have t': "tk s' i = u\<lparr> tkHeap := hp, currentPart := Some (partAt s i ds (last cuts) ?n) \<rparr>" using s' i by simp
  have nm: "names i s' = names i s" using s' i u by simp
  have hr: "hp ! r = tkHeap ?t ! r" if "r < ?n - 1" for r using that n by (simp add: hp_def nth_append)
  have P: "parts_ok env i (ds @ [d]) cuts bs s'"
  proof (rule parts_ok_cong [of env i ds cuts bs s])
    show "stored i s' (concat bs)" unfolding s' by (rule stored_setTk) (use i R u in \<open>simp_all add: parts_ok_def\<close>)
    show "tkHeap (tk s' i) ! r = tkHeap (tk s i) ! r" if "r < last cuts" for r using hr [of r] that lc t' by simp
  qed (use R t' nm lc u in \<open>simp_all add: nth_append\<close>)
  have T: "timed i (ds @ [d]) s'"
    unfolding timed_def
  proof (intro conjI allI impI)
    show "length (ds @ [d]) \<le> Suc (length (tkHeap (tk s' i)))" using t' n by (simp add: hp_def)
    fix q assume q: "Suc q < length (ds @ [d])"
    show "psDuration (tkHeap (tk s' i) ! q) = ucast (durationGoToMp4 (i64 ((ds @ [d]) ! Suc q - (ds @ [d]) ! q)) (ltClockRate (tkLt (tk s' i))))"
    proof (cases "q = ?n - 1")
      case True
      have "?n - 1 < length (tkHeap ?t @ ps)" unfolding length_append n(2) using n(1) by linarith
      then have "psDuration (hp ! (?n - 1)) = ucast (durationGoToMp4 (i64 (d - last ds)) (ltClockRate (tkLt ?t)))" by (simp add: hp_def)
      then show ?thesis using True n(1) t' u by (simp add: nth_append last_conv_nth)
    next
      case False
      then have "Suc q < ?n" using q by simp
      then show ?thesis using R t' u hr [of q] by (simp add: timed_def nth_append)
    qed
  qed
  have B: "base_ok i s'" unfolding s' by (rule base_ok_setTk) (use R u in simp_all)
  have tl: "tkLt (tk s' i) = tkLt ?t" "tkId (tk s' i) = tkId ?t" "startDTS (tk s' i) = startDTS ?t" "nextVideoSample (tk s' i) = nx" by (simp_all add: t' u)
  have st': "sgStart s' = sgStart s" by (rule names_segPath(3) [OF nm])
  have pt: "currentPart (tk s' i) = Some (partAt s' i (ds @ [d]) (last cuts) (length (ds @ [d]) - 1))"
    unfolding t' by (simp add: partAt_def baseAt_def st' tl(1,2) nth_append lc)
  have sd: "startDTS (tk s' i) = (ds @ [d]) ! last cuts" using R lc unfolding tl(3) by (simp add: nth_append)
  have "length (tkHeap (tk s' i)) = ?n + length ps" using n(2) by (simp add: t' hp_def)
  moreover have "segmentDuration s' = segmentDuration s" by (simp add: s')
  ultimately show ?thesis unfolding filled_def using B P T pt sd lc tl(4) by simp
qed

text \<open>The part is flushed at the time of the last entry of \<open>ds\<close>.\<close>

lemma flush_filled:
  assumes f: "filled env i ds cuts bs s" and r: "flushSegment env (last ds) force i s = Inr (s', None)"
  shows "\<exists>b. base_ok i s' \<and> parts_ok env i ds (cuts @ [length ds - 1]) (bs @ [b]) s' \<and> timed i ds s' \<and> sgStart s' = sgStart s \<and>
    tkHeap (tk s' i) = tkHeap (tk s i) \<and> nextVideoSample (tk s' i) = nextVideoSample (tk s i) \<and> tkId (tk s' i) = tkId (tk s i) \<and> tkLt (tk s' i) = tkLt (tk s i)"
proof -
  note F = f [unfolded filled_def]
  let ?p = "partAt s i ds (last cuts) (length ds - 1)"
  have P: "parts_ok env i ds cuts bs s" using F by blast
  note Q = P [unfolded parts_ok_def]
  have b: "i < length (sgTracks s)" "sgStart s \<noteq> None" "apart i s" using F by (simp_all add: base_ok_def)
  have cp: "currentPart (tk s i) = Some ?p" and so: "stored i s (concat bs)" using F Q by simp_all
  obtain c time where c: "marshalPart env (partId ?p) (BaseTime ?p) (map (\<lambda>r. tkHeap (tk s i) ! r) (Samples ?p)) = Inr c"
      "length (sgTracks s') = length (sgTracks s)" "names i s' = names i s" "stored i s' (concat bs @ c)"
      "mpSegments (tkPlaylist (tk s' i)) = mpSegments (tkPlaylist (tk s i)) @ [\<lparr> msDuration = i64 (last ds - startDTS (tk s i)), msURI = tkSegUri (tk s i),
         DateTime = time, ByteRangeStart = of_nat (length (concat bs)), ByteRangeLength = of_nat (length c) \<rparr>]"
      "tkHeap (tk s' i) = tkHeap (tk s i)" "nextVideoSample (tk s' i) = nextVideoSample (tk s i)" "tkId (tk s' i) = tkId (tk s i)" "tkLt (tk s' i) = tkLt (tk s i)"
    using flush_ok [OF b(1) cp b(2,3) so r] by blast
  have st: "sgStart s' = sgStart s" by (rule names_segPath(3) [OF c(3)])
  have ba: "baseAt s' i d = baseAt s i d" for d by (simp add: baseAt_def st c(9))
  have lc: "cuts ! length bs = last cuts" "length cuts = Suc (length bs)" "cuts \<noteq> []" using Q by (auto simp: last_conv_nth)
  have ld: "last ds = ds ! (length ds - 1)" using F by (cases ds) (auto simp: last_conv_nth)
  have len: "Suc (last cuts) < length ds" using F by blast
  have srt: "sorted_wrt (<) (cuts @ [length ds - 1])"
  proof -
    have "c < length ds - 1" if "c \<in> set cuts" for c
    proof -
      obtain j where "j < length cuts" "c = cuts ! j" using \<open>c \<in> set cuts\<close> by (metis in_set_conv_nth)
      then have "c \<le> last cuts" using cuts_le [of cuts j] Q by simp
      then show ?thesis using len by simp
    qed
    then show ?thesis using Q by (simp add: sorted_wrt_append)
  qed
  have part: "marshalPart env (tkId (tk s' i)) (baseAt s' i (ds ! ((cuts @ [length ds - 1]) ! j)))
        (map (\<lambda>r. tkHeap (tk s' i) ! r) (piece ((cuts @ [length ds - 1]) ! j) ((cuts @ [length ds - 1]) ! Suc j))) = Inr ((bs @ [c]) ! j) \<and>
      msDuration (mpSegments (tkPlaylist (tk s' i)) ! j) = i64 (ds ! ((cuts @ [length ds - 1]) ! Suc j) - ds ! ((cuts @ [length ds - 1]) ! j)) \<and>
      ByteRangeStart (mpSegments (tkPlaylist (tk s' i)) ! j) = of_nat (length (concat (take j (bs @ [c])))) \<and>
      ByteRangeLength (mpSegments (tkPlaylist (tk s' i)) ! j) = of_nat (length ((bs @ [c]) ! j))"
    if "j < length (bs @ [c])" for j
  proof (cases "j = length bs")
    case True
    have e: "(cuts @ [length ds - 1]) ! j = last cuts" "(cuts @ [length ds - 1]) ! Suc j = length ds - 1"
      using True lc by (simp_all add: nth_append)
    have m: "marshalPart env (tkId (tk s' i)) (baseAt s' i (ds ! last cuts)) (map (\<lambda>r. tkHeap (tk s' i) ! r) (piece (last cuts) (length ds - 1))) = Inr c"
      using c(1) unfolding c(6,8) ba by (simp add: partAt_def)
    have g: "mpSegments (tkPlaylist (tk s' i)) ! j = \<lparr> msDuration = i64 (last ds - startDTS (tk s i)), msURI = tkSegUri (tk s i),
         DateTime = time, ByteRangeStart = of_nat (length (concat bs)), ByteRangeLength = of_nat (length c) \<rparr>"
      using Q True unfolding c(5) by (simp add: nth_append)
    show ?thesis unfolding e g using m F ld True by simp
  next
    case False
    then have j: "j < length bs" using that by simp
    have e: "(cuts @ [length ds - 1]) ! j = cuts ! j" "(cuts @ [length ds - 1]) ! Suc j = cuts ! Suc j" "(bs @ [c]) ! j = bs ! j"
        "take j (bs @ [c]) = take j bs" using j lc by (simp_all add: nth_append)
    have g: "mpSegments (tkPlaylist (tk s' i)) ! j = mpSegments (tkPlaylist (tk s i)) ! j" using Q j unfolding c(5) by (simp add: nth_append)
    show ?thesis unfolding e g c(6,8) ba using Q j by blast
  qed
  have "parts_ok env i ds (cuts @ [length ds - 1]) (bs @ [c]) s'"
    unfolding parts_ok_def using Q srt part c(4,5) len by (simp add: hd_append)
  moreover have "timed i ds s'" using F unfolding timed_def c(6,9) by blast
  moreover have "base_ok i s'" using base_ok_cong [OF _ c(3,2)] F by blast
  ultimately show ?thesis using c(6-9) st by blast
qed

lemma startSegment_ok:
  assumes "base_ok i s" "parts_ok env i ds (cuts @ [length ds - 1]) bs s" "timed i ds s" "1 < length ds" "length (tkHeap (tk s i)) = length ds"
    and "nextVideoSample (tk s i) = Some (length ds - 1, last ds)" "startSegment clk i s = Inr s'"
  shows "recorded env i ds (cuts @ [length ds - 1]) bs s'"
proof -
  let ?t = "tk s i" and ?n = "length ds - 1"
  have i: "i < length (sgTracks s)" using assms(1) by (simp add: base_ok_def)
  obtain st where st: "sgStart s = Some st" using assms(1) by (auto simp: base_ok_def)
  have l: "last ds = ds ! ?n" using assms(4) by (cases ds) (auto simp: last_conv_nth)
  have pn: "piece ?n ?n = [?n]" using assms(4) by (simp add: piece_def)
  have s': "s' = setTk i (?t\<lparr> startNTP := clk 2, startDTS := last ds, currentPart := Some (partAt s i ds ?n ?n) \<rparr>) s"
    using assms(7) i st by (simp add: startSegment_def Let_def assms(6) newPart_def partAt_def baseAt_def pn [simplified] l)
  have t': "tk s' i = ?t\<lparr> startNTP := clk 2, startDTS := last ds, currentPart := Some (partAt s i ds ?n ?n) \<rparr>" using s' i by simp
  have nm: "names i s' = names i s" using s' i by simp
  have so: "stored i s' (concat bs)" unfolding s' by (rule stored_setTk) (use i assms(2) in \<open>simp_all add: parts_ok_def\<close>)
  have "parts_ok env i ds (cuts @ [?n]) bs s'"
    by (rule parts_ok_cong [OF assms(2) nm _ _ _ so]) (use t' assms(4) in simp_all)
  moreover have "timed i ds s'" using assms(3) by (simp add: timed_def t')
  moreover have "base_ok i s'" unfolding s' by (rule base_ok_setTk [OF assms(1)]) simp_all
  moreover have "partAt s i ds ?n ?n = partAt s' i ds ?n ?n" using names_segPath(3) [OF nm] by (simp add: partAt_def baseAt_def t')
  moreover have "ds \<noteq> []" using assms(4) by auto
  ultimately show ?thesis using assms(4-6) l unfolding recorded_def by (simp add: t')
qed

definition rejected :: "int \<Rightarrow> nat \<Rightarrow> 'd Segmenter \<Rightarrow> bool" where
  "rejected d i s \<longleftrightarrow> i64 (d - startDTS (tk s i)) < 0"

abbreviation shifted :: "int \<Rightarrow> int" where
  "shifted x \<equiv> i64 (x + fmp4StartDTS)"

lemma writeVideo_next:
  assumes r: "recorded env i ds cuts bs s" and w: "writeVideo env clk ra fs (Some (ps, x)) i s = Inr (s', None)" and a: "\<not> rejected (shifted x) i s"
  shows "\<exists>cuts' bs'. recorded env i (ds @ [shifted x]) cuts' bs' s'"
proof -
  let ?d = "shifted x" and ?ds = "ds @ [shifted x]"
  note R = r [unfolded recorded_def]
  have i: "i < length (sgTracks s)" using R by (simp add: base_ok_def)
  define u where "u = (tk s i)\<lparr> tkHeap := tkHeap (tk s i) @ [ps], nextVideoSample := Some (length ds, ?d) \<rparr>"
  have nx: "nextVideoSample (tk s i) = Some (length ds - 1, last ds)" "length (tkHeap (tk s i)) = length ds" using R by simp_all
  have ac: "acceptSample env clk ?d i s = Inr s" using nx by (simp add: acceptSample_def Let_def)
  have na: "\<not> i64 (?d - startDTS (tk s i)) < 0" using a by (simp add: rejected_def)
  have e1: "writeVideo env clk ra fs (Some (ps, x)) i s = bind_res (emitSample (length ds - 1, last ds) ?d i (setTk i u s)) (\<lambda>s3.
      if nextVideoSample (tk s3 i) = None \<or> ra \<and> (fs \<or> i64 (?d - startDTS (tk s3 i)) > i64 (segmentDuration s3 * second))
      then bind_res (flushSegment env ?d fs i s3) (\<lambda>(s4, err). case err of Some e \<Rightarrow> Inr (s4, Some e) | None \<Rightarrow> bind_res (startSegment clk i s4) (\<lambda>s5. Inr (s5, None)))
      else Inr (s3, None))"
    unfolding writeVideo_def Let_def option.case prod.case using na ac nx i by (simp add: u_def cong: if_cong)
  obtain s3 where s3: "emitSample (length ds - 1, last ds) ?d i (setTk i u s) = Inr s3" using w unfolding e1 by (cases "emitSample (length ds - 1, last ds) ?d i (setTk i u s)") simp_all
  have f: "filled env i ?ds cuts bs s3" "nextVideoSample (tk s3 i) = Some (length ds, ?d)" "length (tkHeap (tk s3 i)) = length ?ds"
    using emit_ok [OF r u_def s3] by simp_all
  show ?thesis
  proof (cases "ra \<and> (fs \<or> i64 (?d - startDTS (tk s3 i)) > i64 (segmentDuration s3 * second))")
    case False
    then have c: "\<not> (nextVideoSample (tk s3 i) = None \<or> ra \<and> (fs \<or> i64 (?d - startDTS (tk s3 i)) > i64 (segmentDuration s3 * second)))" using f(2) by simp
    have "s' = s3" using w unfolding e1 s3 bind_res_simps if_not_P [OF c] by simp
    then have "recorded env i ?ds cuts bs s'" using f R unfolding recorded_def filled_def by simp
    then show ?thesis by blast
  next
    case True
    then have w2: "bind_res (flushSegment env ?d fs i s3) (\<lambda>(s4, err). case err of Some e \<Rightarrow> Inr (s4, Some e) | None \<Rightarrow> bind_res (startSegment clk i s4) (\<lambda>s5. Inr (s5, None))) = Inr (s', None)"
      using w unfolding e1 s3 by simp
    obtain s4 where s4: "flushSegment env (last ?ds) fs i s3 = Inr (s4, None)" "startSegment clk i s4 = Inr s'"
      using w2 by (auto simp: bind_res_Inr_iff split: option.splits)
    obtain b where b: "base_ok i s4" "parts_ok env i ?ds (cuts @ [length ?ds - 1]) (bs @ [b]) s4" "timed i ?ds s4"
        "tkHeap (tk s4 i) = tkHeap (tk s3 i)" "nextVideoSample (tk s4 i) = nextVideoSample (tk s3 i)"
      using flush_filled [OF f(1) s4(1)] by blast
    have "recorded env i ?ds (cuts @ [length ?ds - 1]) (bs @ [b]) s'"
      by (rule startSegment_ok [OF b(1-3) _ _ _ s4(2)]) (use f b(4,5) R in simp_all)
    then show ?thesis by blast
  qed
qed

lemma writeVideo_rejected: "rejected (shifted x) i s \<Longrightarrow> writeVideo env clk ra fs (Some (ps, x)) i s = Inr (s, None)"
  by (simp add: writeVideo_def rejected_def)

text \<open>A track before its first sample.\<close>

definition fresh :: "nat \<Rightarrow> 'd Segmenter \<Rightarrow> bool" where
  "fresh i s \<longleftrightarrow> i < length (sgTracks s) \<and> \<not> tkStart (tk s i) \<and> tkHeap (tk s i) = [] \<and> nextVideoSample (tk s i) = None \<and>
     currentPart (tk s i) = None \<and> tkStorage (tk s i) = None \<and> mpSegments (tkPlaylist (tk s i)) = []"

lemma setStart_tracks: "Segmenter_setStart env dts ntp s = Inr s' \<Longrightarrow> sgTracks s' = sgTracks s \<and> sgStart s' \<noteq> None"
  by (auto simp: Segmenter_setStart_def Let_def bind_res_Inr_iff split: if_splits)

lemma writeVideo_first:
  assumes f: "fresh i s" and w: "writeVideo env clk ra fs (Some (ps, x)) i s = Inr (s', None)" and a: "\<not> rejected (shifted x) i s" and p: "apart i s'"
  shows "recorded env i [shifted x] [0] [] s'"
proof -
  let ?t = "tk s i" and ?d = "shifted x"
  note F = f [unfolded fresh_def]
  have na: "\<not> i64 (?d - startDTS (tk s i)) < 0" using a by (simp add: rejected_def)
  obtain s1 where s1: "acceptSample env clk ?d i s = Inr s1" using w na unfolding writeVideo_def by (cases "acceptSample env clk ?d i s") simp_all
  have t1: "sgTracks s1 = (sgTracks s)[i := ?t\<lparr> startNTP := clk 0, beginNTP := clk 0, startDTS := ?d, tkStart := True \<rparr>] \<and> sgStart s1 \<noteq> None"
    using setStart_tracks [of env ?d "clk 0" _ s1] s1 F by (simp add: acceptSample_def Let_def setTk_def)
  have t: "tk s1 i = ?t\<lparr> startNTP := clk 0, beginNTP := clk 0, startDTS := ?d, tkStart := True \<rparr>" "i < length (sgTracks s1)" using t1 F by simp_all
  have s': "s' = setTk i ((tk s1 i)\<lparr> tkHeap := [ps], nextVideoSample := Some (0, ?d) \<rparr>) s1"
    using w na s1 F t unfolding writeVideo_def Let_def by simp
  have t': "tk s' i = (tk s1 i)\<lparr> tkHeap := [ps], nextVideoSample := Some (0, ?d) \<rparr>" using s' t(2) by simp
  have "base_ok i s'" using p t(2) t1 by (simp add: base_ok_def s')
  moreover have "parts_ok env i [?d] [0] [] s'" using F by (simp add: parts_ok_def t' t(1) stored_def)
  moreover have "timed i [?d] s'" by (simp add: timed_def)
  ultimately show ?thesis using F by (simp add: recorded_def t' t(1))
qed

text \<open>The end of a track: the last sample gets its duration from the clock.\<close>

lemma writeVideo_close:
  assumes r: "recorded env i ds cuts bs s" and w: "writeVideo env clk ra fs None i s = Inr (s', None)"
    and d: "d = ntpToDts (startDTS (tk s i)) (startNTP (tk s i)) (clk 1)"
  shows "\<exists>b. parts_ok env i (ds @ [d]) (cuts @ [length ds]) (bs @ [b]) s' \<and> timed i (ds @ [d]) s' \<and> length (tkHeap (tk s' i)) = length ds \<and>
    nextVideoSample (tk s' i) = None \<and> currentPart (tk s' i) = None"
proof -
  let ?ds = "ds @ [d]"
  note R = r [unfolded recorded_def]
  have i: "i < length (sgTracks s)" using R by (simp add: base_ok_def)
  define u where "u = (tk s i)\<lparr> tkHeap := tkHeap (tk s i) @ [], nextVideoSample := None \<rparr>"
  have nx: "nextVideoSample (tk s i) = Some (length ds - 1, last ds)" using R by simp
  have e1: "writeVideo env clk ra fs None i s = bind_res (emitSample (length ds - 1, last ds) d i (setTk i u s)) (\<lambda>s3.
      if nextVideoSample (tk s3 i) = None \<or> ra \<and> (fs \<or> i64 (d - startDTS (tk s3 i)) > i64 (segmentDuration s3 * second))
      then bind_res (flushSegment env d fs i s3) (\<lambda>(s4, err). case err of Some e \<Rightarrow> Inr (s4, Some e) | None \<Rightarrow> bind_res (startSegment clk i s4) (\<lambda>s5. Inr (s5, None)))
      else Inr (s3, None))"
    unfolding writeVideo_def Let_def option.case using nx i d by (simp add: u_def cong: if_cong)
  obtain s3 where s3: "emitSample (length ds - 1, last ds) d i (setTk i u s) = Inr s3"
    using w unfolding e1 by (cases "emitSample (length ds - 1, last ds) d i (setTk i u s)") simp_all
  have f: "filled env i ?ds cuts bs s3" "nextVideoSample (tk s3 i) = None" "length (tkHeap (tk s3 i)) = length ds"
    using emit_ok [OF r u_def s3] by simp_all
  obtain s4 where s4: "flushSegment env (last ?ds) fs i s3 = Inr (s4, None)" "startSegment clk i s4 = Inr s'"
    using w f(2) unfolding e1 s3 by (auto simp: bind_res_Inr_iff split: option.splits)
  obtain b where b: "base_ok i s4" "parts_ok env i ?ds (cuts @ [length ?ds - 1]) (bs @ [b]) s4" "timed i ?ds s4"
      "tkHeap (tk s4 i) = tkHeap (tk s3 i)" "nextVideoSample (tk s4 i) = nextVideoSample (tk s3 i)"
    using flush_filled [OF f(1) s4(1)] by blast
  have i4: "i < length (sgTracks s4)" using b(1) by (simp add: base_ok_def)
  have s': "s' = setTk i ((tk s4 i)\<lparr> startNTP := zeroTime, startDTS := 0, currentPart := None \<rparr>) s4"
    using s4(2) b(5) f(2) by (simp add: startSegment_def)
  have t': "tk s' i = (tk s4 i)\<lparr> startNTP := zeroTime, startDTS := 0, currentPart := None \<rparr>" using s' i4 by simp
  have "parts_ok env i ?ds (cuts @ [length ds]) (bs @ [b]) s'"
  proof (rule parts_ok_cong [of env i ?ds "cuts @ [length ds]" "bs @ [b]" s4])
    show "stored i s' (concat (bs @ [b]))" unfolding s' by (rule stored_setTk) (use i4 b(2) in \<open>simp_all add: parts_ok_def\<close>)
  qed (use b(2) t' s' i4 in simp_all)
  moreover have "timed i ?ds s'" using b(3) by (simp add: timed_def t')
  ultimately show ?thesis using t' b(4,5) f(2,3) by auto
qed

text \<open>
  The runs of a track that is written without an error: the accepted samples with their decoding times (shifted
  by ten seconds), in any segmenter, with any answers of the clock.
\<close>

inductive recording :: "'d Env \<Rightarrow> nat \<Rightarrow> int list \<Rightarrow> 'd Segmenter \<Rightarrow> bool" for env :: "'d Env" and i :: nat where
  first: "fresh i s \<Longrightarrow> writeVideo env clk ra fs (Some (ps, x)) i s = Inr (s', None) \<Longrightarrow> \<not> rejected (shifted x) i s \<Longrightarrow> apart i s' \<Longrightarrow>
    recording env i [shifted x] s'"
| next_sample: "recording env i ds s \<Longrightarrow> writeVideo env clk ra fs (Some (ps, x)) i s = Inr (s', None) \<Longrightarrow>
    recording env i (if rejected (shifted x) i s then ds else ds @ [shifted x]) s'"

lemma recording_recorded: "recording env i ds s \<Longrightarrow> \<exists>cuts bs. recorded env i ds cuts bs s"
proof (induction rule: recording.induct)
  case (first s clk ra fs ps x s')
  then show ?case using writeVideo_first by blast
next
  case (next_sample ds s clk ra fs ps x s')
  then show ?case using writeVideo_next [of env i ds _ _ s clk ra fs ps x s'] writeVideo_rejected [of x i s env clk ra fs ps] by (cases "rejected (shifted x) i s") auto
qed


end
