(* ===== verification/SegmenterFacts.thy ===== *)
theory SegmenterFacts
  imports SegmenterProps
begin

text \<open>
  An example of a recording, the end of a segmenter, and the places where the recorder departs from what a
  player expects: a master playlist that is not written again, tracks without a sample builder.
\<close>

section \<open>An example\<close>

text \<open>One H.264 track, two key frames two seconds apart, segments of one second.\<close>

definition demoLt :: LabeledTrack where
  "demoLt = \<lparr> ltMimeType = ''video/H264'', ltClockRate = 90000, ltKind = VideoKind, ltSSRC = 7, ltRtxSSRC = 8, ltLabels = None \<rparr>"

definition demoEnv :: "unit Env" where
  "demoEnv = \<lparr> h264 = demoLib,
     depacketizerOf = (\<lambda>_. (\<lparr> IsPartitionHead = (\<lambda>_ b. b \<noteq> []), IsPartitionTail = (\<lambda>_ m _. m), Unmarshal = (\<lambda>_ b. ((), Inr b)) \<rparr>, ())),
     NewPartSampleH26x = (\<lambda>off ra au. Inr \<lparr> psDuration = 0, PTSOffset = off, IsNonSyncSample = (\<not> ra), psPayload = concat au \<rparr>),
     marshalPart = (\<lambda>n base ss. Inr (concat (map psPayload ss))), marshalInit = (\<lambda>_ _ _. Inr []), marshalMedia = (\<lambda>_. Inr []),
     marshalMultivariant = (\<lambda>_ _. Inr []), codecparams = (\<lambda>_ _. ''avc1''), writeError = (\<lambda>_. None), execTemplate = (\<lambda>tpl _. Inr tpl),
     uuidHex = '''', sprintV = (\<lambda>_. '''') \<rparr>"

definition demoTrack :: "unit Track" where
  "demoTrack = (NewTrack 1 demoLt)\<lparr> tkReady := True, tkCodec := TrackCodecH264, tkIndexUri := ''i'', tkSegUri := ''s'', tkInitUri := ''n'' \<rparr>"

definition demoSeg :: "unit Segmenter" where
  "demoSeg = (NewSegmenter [] ''d'' ''m'' 1 0 None False False (VScalar ''''))\<lparr> sgReady := True, sgTracks := [demoTrack] \<rparr>"

definition demoSample :: "nat \<Rightarrow> PartSample" where
  "demoSample n = \<lparr> psDuration = 0, PTSOffset = 0, IsNonSyncSample = False, psPayload = [of_nat n] \<rparr>"

definition demoClock :: "nat \<Rightarrow> int" where "demoClock n = 1000 * int n"

lemmas demo_simps = setTk_def acceptSample_def newPart_def emitSample_def startSegment_def writeVideo_def
  flushSegment_def finishFlush_def appendSegment_def openStorage_def finishSegment_def updateIndex_def writeInit_def
  bandwidth_def segBandwidth_def UpdateIndex_def handleSegment_def multivariant_def updateVariant_def
  FindVariantByTrack_def Segmenter_CreateContext_def Track_CreateContext_def RFC6381Codec_def IsAudio_def
  Segmenter_setEnd_def Segmenter_setStart_def fullPath_def IndexUri_def Directory_def Base_def generatePrefix_def
  calcIndexTemplate_def calcDirectoryTemplate_def calcBaseTemplate_def Storage_Close_def writeAll_def NextPart_def
  CurrentPartOffset_def NewStorage_def writeFile_def dtsToNtp_def ntpToDts_def timeSub_def fmp4StartDTS_def zeroTime_def
  NewTrack_def NewSegmenter_def demoLt_def demoEnv_def demoTrack_def demoSeg_def demoSample_def demoClock_def i64_def
  durationGoToMp4_def


definition demoS1 :: "unit Segmenter" where
  "demoS1 = demoSeg\<lparr> sgTracks := [demoTrack\<lparr> tkStart := True, beginNTP := 0, startNTP := 0, startDTS := 10000000000,
       nextVideoSample := Some (0, 10000000000), tkHeap := [demoSample 1] \<rparr>],
     sgStart := Some \<lparr> inDTS = 10000000000, inNTP = 0 \<rparr>, sgIndexUri := ''m'', sgDirectory := ''d'' \<rparr>"

lemma demo_first: "writeVideo demoEnv demoClock True False (Some (demoSample 1, 0)) 0 demoSeg = Inr (demoS1, None)"
 by (simp add: demo_simps demoS1_def)

lemma demo_paths: "path_Join [[], ''d'', ''s''] = ''d/s''" "path_Join [[], ''d'', ''n''] = ''d/n''" "path_Join [[], ''d'', ''i''] = ''d/i''" "path_Join [[], ''d'', ''m''] = ''d/m''"
  by (simp_all add: path_Join_def Clean_def segments_def cleanStep_def HasPrefix_def)

definition demoS2 :: "unit Segmenter" where
  "demoS2 = demoS1\<lparr> sgTracks := [demoTrack\<lparr> tkStart := True, beginNTP := 0, startNTP := 2000, startDTS := 12000000000, endNTP := 2000000000,
       tkPlaylist := \<lparr> TargetDuration = 0, mpSegments = [\<lparr> msDuration = 2000000000, msURI = ''s'', DateTime = 0, ByteRangeStart = 0, ByteRangeLength = 1 \<rparr>],
                       Endlist = False, MapURI = [] \<rparr>,
       tkStorage := Some \<lparr> fpath = ''d/s'', stOffset = 1, partIdx = 1, stSize = 1, stBuffer = None, stClosed = False \<rparr>,
       initCreated := True, nextVideoSample := Some (1, 12000000000), currentPart := Some \<lparr> partId = 1, BaseTime = 180000, Samples = [1] \<rparr>,
       maxBandwidth := 4, avgBandwidth := 4, tkHeap := [(demoSample 1)\<lparr> psDuration := 180000 \<rparr>, demoSample 2] \<rparr>],
     sgEnd := Some \<lparr> inDTS = 12000000000, inNTP = 2000000000 \<rparr>, indexCreated := True,
     sgFiles := [(''d/s'', [1]), (''d/n'', []), (''d/i'', []), (''d/m'', [])] \<rparr>"

lemma demo_second: "writeVideo demoEnv demoClock True False (Some (demoSample 2, 2 * second)) 0 demoS1 = Inr (demoS2, None)"
  by (simp add: demo_simps demoS1_def demoS2_def demo_paths Let_def)

lemma demo_close: "\<exists>s. writeVideo demoEnv (\<lambda>_. 3 * second) False False None 0 demoS2 = Inr (s, None)"
  by (simp add: demo_simps demoS1_def demoS2_def demo_paths Let_def)

lemma demo_recording: "recording demoEnv 0 [10 * second, 12 * second] demoS2"
proof -
  have "recording demoEnv 0 [shifted 0] demoS1"
    by (rule recording.first [OF _ demo_first]) (simp_all add: demo_simps demoS1_def demo_paths fresh_def rejected_def apart_def segPath_def)
  from recording.next_sample [OF this demo_second] show ?thesis
    by (simp add: demo_simps demoS1_def rejected_def)
qed


section \<open>The master playlist\<close>

text \<open>
  A variant points at the average bandwidth of its track, so the comparison with the track never finds a
  difference: as long as the other values stay, the master playlist is not written again, whatever the new
  average is.
\<close>

theorem master_not_rewritten:
  assumes "sgTracks s = [t]" "FindVariantByTrack t s = Some k" "k < length (Variants s)" "vBandwidth (Variants s ! k) = maxBandwidth t"
    and "vAverageBandwidth (Variants s ! k) = Some 0" "vCodecs (Variants s ! k) \<noteq> []" "vResolution (Variants s ! k) = tkResolution t"
    and "vFrameRate (Variants s ! k) = Some 0" "indexCreated s" "\<not> hasSegmentHandler s"
  shows "UpdateIndex env force s = Inr (s, None)"
proof -
  have "updateVariant env 0 s = (s, False)" using assms by (simp add: updateVariant_def Let_def)
  then have "updateVariants env [0..<length (sgTracks s)] s = (s, False)" using assms(1) by simp
  then show ?thesis using assms(9,10) by (simp add: UpdateIndex_def handleSegment_def)
qed

section \<open>Tracks that cannot be recorded\<close>

text \<open>An AV1 track becomes ready without a sample builder, and its first packet is a nil dereference.\<close>

theorem av1_panics:
  assumes "i < length (sgTracks s)" "\<not> tkReady (tk s i)" "ltMimeType (tkLt (tk s i)) = ''video/AV1''" "Track_TryReady env i s = Inr (s', ok)"
    and "FindTrackBySSID ssrc s' = Some i" "\<not> sgClosed s'"
  shows "ok \<and> WriteRtp env clk ssrc p buf s' = Inl NilDeref"
proof -
  have l: "ToLower ''video/AV1'' = ''video/av1''" by code_simp
  have "tkSb (tk s' i) = None" "ok" using assms(1-4) l by (auto simp: Track_TryReady_def AnalyzeTrackCodec_def Let_def setTk_def)
  then show ?thesis using assms(5,6) by (simp add: WriteRtp_def)
qed

text \<open>A track of any other codec than H.264 fails with its first frame.\<close>

theorem unsupported_codec:
  assumes "tkCodec (tk s i) \<noteq> TrackCodecH264"
  shows "\<exists>e. WriteData env clk pts d i s = Inr (s, Some e)"
  using assms by (cases "tkCodec (tk s i)") (auto simp: WriteData_def)

end
