(* ===== verification/RecordingProps.thy ===== *)
theory RecordingProps
  imports Recording SegmenterFacts
begin

text \<open>
  The contexts of a segmenter come in an order that the recorder can store, and what it stores if the
  goroutines run in that order; what happens if they do not.
\<close>

section \<open>Results that satisfy a condition\<close>

definition ensures :: "('a \<Rightarrow> bool) \<Rightarrow> 'a res \<Rightarrow> bool" where
  "ensures P r \<longleftrightarrow> (\<forall>x. r = Inr x \<longrightarrow> P x)"

lemma ensures_simps [simp]: "ensures P (Inl p)" "ensures P (Inr x) \<longleftrightarrow> P x"
  by (simp_all add: ensures_def)

lemma ensures_bind: "ensures Q r \<Longrightarrow> (\<And>x. Q x \<Longrightarrow> ensures P (f x)) \<Longrightarrow> ensures P (bind_res r f)"
  by (cases r) simp_all

lemma ensures_bind_any: "(\<And>x. ensures P (f x)) \<Longrightarrow> ensures P (bind_res r f)"
  by (cases r) simp_all

lemma ensures_mono: "ensures Q r \<Longrightarrow> (\<And>x. Q x \<Longrightarrow> P x) \<Longrightarrow> ensures P r"
  by (simp add: ensures_def)

lemma ensures_if: "(c \<Longrightarrow> ensures P a) \<Longrightarrow> (\<not> c \<Longrightarrow> ensures P b) \<Longrightarrow> ensures P (if c then a else b)"
  by simp

lemma ensures_option:
  "(x = None \<Longrightarrow> ensures P a) \<Longrightarrow> (\<And>y. x = Some y \<Longrightarrow> ensures P (f y)) \<Longrightarrow> ensures P (case x of None \<Rightarrow> a | Some y \<Rightarrow> f y)"
  by (cases x) simp_all

section \<open>The contexts that a segmenter hands out\<close>

text \<open>With a segment handler: a context has been handed out once the index is there, the first says so and no other.\<close>

definition handed :: "'d Segmenter \<Rightarrow> bool \<times> bool \<times> SegmentContext list" where
  "handed s = (indexCreated s, hasSegmentHandler s, sgHandled s)"

definition complete :: "SegmentContext \<Rightarrow> bool" where
  "complete c \<longleftrightarrow> scStart c \<noteq> None \<and> scEnd c \<noteq> None"

definition in_order :: "SegmentContext list \<Rightarrow> bool" where
  "in_order cs \<longleftrightarrow> (cs \<noteq> [] \<longrightarrow> scFirst (hd cs) \<and> (\<forall>c \<in> set (tl cs). \<not> scFirst c)) \<and> (\<forall>c \<in> set cs. complete c)"

definition handed_ok :: "'d Segmenter \<Rightarrow> bool" where
  "handed_ok s \<longleftrightarrow> hasSegmentHandler s \<and> (indexCreated s \<longleftrightarrow> sgHandled s \<noteq> []) \<and> in_order (sgHandled s)"

lemma handed_ok_cong: "handed s' = handed s \<Longrightarrow> handed_ok s' = handed_ok s"
  by (simp add: handed_def handed_ok_def)

abbreviation leaves :: "'d Segmenter \<Rightarrow> 'd Segmenter \<times> 'x \<Rightarrow> bool" where
  "leaves s \<equiv> \<lambda>(s', x). handed s' = handed s"

lemma handed_upd [simp]:
  "handed (setTk i t s) = handed s" "handed (s\<lparr> sgFiles := fs \<rparr>) = handed s" "handed (s\<lparr> sgEnd := e \<rparr>) = handed s"
  "handed (s\<lparr> sgStart := b \<rparr>) = handed s" "handed (s\<lparr> sgBase := p, sgIndexUri := q, sgDirectory := d \<rparr>) = handed s"
  "handed (s\<lparr> sgClosing := c \<rparr>) = handed s" "handed (s\<lparr> sgClosing := c, sgClosed := c' \<rparr>) = handed s"
  "handed (s\<lparr> sgReady := c, Variants := vs, Renditions := rs \<rparr>) = handed s" "handed (s\<lparr> Variants := vs \<rparr>) = handed s"
  by (simp_all add: handed_def setTk_def)

lemma Segmenter_setEnd_handed [simp]: "handed (Segmenter_setEnd dts ntp s) = handed s" "sgEnd (Segmenter_setEnd dts ntp s) \<noteq> None"
  by (simp_all add: Segmenter_setEnd_def split: option.splits)

lemma writeFile_handed: "handed (fst (writeFile env p c s)) = handed s"
  by (simp add: writeFile_def split: option.splits)

lemma NewStorage_handed: "ensures (leaves s) (NewStorage env p s)"
  by (simp add: NewStorage_def split: option.splits)

lemma NextPart_handed: "ensures (leaves s) (NextPart env f s)"
  by (simp add: NextPart_def Let_def split: option.splits)

lemma Storage_Close_handed: "ensures (leaves s) (Storage_Close env f s)"
  unfolding Storage_Close_def by (rule ensures_bind [OF NextPart_handed]) auto

lemma openStorage_handed: "ensures (leaves s) (openStorage env i s)"
  unfolding openStorage_def by (auto intro!: ensures_bind_any NewStorage_handed split: option.splits)

lemma writeInit_handed: "ensures (leaves s) (writeInit env i s)"
proof -
  have c: "ensures (leaves s) (bind_res (Storage_Close env f s1) (\<lambda>(s2, _). Inr (s2, e)))" if "handed s1 = handed s" for f s1 and e :: "go_err option"
    by (rule ensures_bind [OF Storage_Close_handed]) (use that in auto)
  show ?thesis unfolding writeInit_def Let_def
    by (rule ensures_bind_any) (rule ensures_bind [OF NewStorage_handed], use c in \<open>auto split: sum.splits\<close>)
qed

lemma updateIndex_handed: "ensures (leaves s) (updateIndex env i s)"
  unfolding updateIndex_def Let_def
  by (auto intro!: ensures_bind_any split: sum.splits simp: split_beta writeFile_handed)

lemma CreateContext_complete:
  "ensures (\<lambda>c. scFirst c = first \<and> (sgEnd s \<noteq> None \<longrightarrow> complete c)) (Segmenter_CreateContext env first s)"
  unfolding Segmenter_CreateContext_def
  by (rule ensures_bind_any) (auto simp: Base_def complete_def intro!: ensures_bind_any)

lemma in_order_snoc: "in_order cs \<Longrightarrow> complete c \<Longrightarrow> scFirst c = (cs = []) \<Longrightarrow> in_order (cs @ [c])"
  by (cases cs) (auto simp: in_order_def)

lemma handleSegment_ok:
  assumes "hasSegmentHandler s" "in_order (sgHandled s)" "indexCreated s" "first = (sgHandled s = [])" "sgEnd s \<noteq> None"
  shows "ensures (\<lambda>(s', _). handed_ok s') (handleSegment env first s)"
proof -
  have "ensures (\<lambda>(s', _). handed_ok s') (bind_res (Segmenter_CreateContext env first s) (\<lambda>c. Inr (s\<lparr> sgHandled := sgHandled s @ [c] \<rparr>, None :: go_err option)))"
    by (rule ensures_bind [OF CreateContext_complete]) (use assms in \<open>auto simp: handed_ok_def in_order_snoc\<close>)
  then show ?thesis using assms(1) by (simp add: handleSegment_def)
qed

lemma UpdateIndex_ok:
  assumes "handed_ok s" "sgEnd s \<noteq> None"
  shows "ensures (\<lambda>(s', _). handed_ok s') (UpdateIndex env force s)"
proof -
  obtain s1 c where u: "updateVariants env [0..<length (sgTracks s)] s = (s1, c)" by fastforce
  then obtain vs where s1: "s1 = s\<lparr> Variants := vs \<rparr>" using updateVariants_same [of env "[0..<length (sgTracks s)]" s] by auto
  have ok1: "handed_ok s1" "sgEnd s1 \<noteq> None" using assms by (simp_all add: s1 handed_ok_def)
  let ?first = "\<not> indexCreated s"
  have h: "ensures (\<lambda>(s', _). handed_ok s') (handleSegment env ?first (s2\<lparr> indexCreated := True \<rparr>))" if "s2 = s1\<lparr> sgFiles := fs \<rparr>" for s2 fs
    by (rule handleSegment_ok) (use that assms in \<open>auto simp: s1 handed_ok_def\<close>)
  have h1: "ensures (\<lambda>(s', _). handed_ok s') (handleSegment env ?first s1)" if "indexCreated s1"
    by (rule handleSegment_ok) (use that assms in \<open>auto simp: s1 handed_ok_def\<close>)
  have w: "ensures (\<lambda>(s', _). handed_ok s') (case writeFile env p content s1 of (s2, Some e) \<Rightarrow> Inr (s2, Some e)
      | (s2, None) \<Rightarrow> handleSegment env ?first (s2\<lparr> indexCreated := True \<rparr>))" for p content
    using h ok1 by (auto simp: writeFile_def split: option.splits)
  show ?thesis unfolding UpdateIndex_def Let_def u
    using w h1 ok1 assms by (auto intro!: ensures_bind_any split: sum.splits)
qed

abbreviation keeps_ok :: "('d Segmenter \<times> 'x) res \<Rightarrow> bool" where
  "keeps_ok r \<equiv> ensures (\<lambda>(s', x). handed_ok s') r"

lemma keeps_ok_step:
  assumes "ensures (leaves s) r" "handed_ok s" "\<And>s' x. handed_ok s' \<Longrightarrow> keeps_ok (f (s', x))"
  shows "keeps_ok (bind_res r f)"
  by (rule ensures_bind [OF assms(1)]) (use assms(2,3) handed_ok_cong in fastforce)

lemma finishSegment_ok:
  fixes s :: "'a Segmenter"
  assumes "handed_ok s"
  shows "keeps_ok (finishSegment env dts i s)"
  unfolding finishSegment_def Let_def
proof (rule keeps_ok_step [OF updateIndex_handed])
  let ?e = "dtsToNtp (startDTS (tk s i)) (startNTP (tk s i)) dts"
  show "handed_ok (setTk i ((tk s i)\<lparr> endNTP := ?e \<rparr>) s)" using assms handed_ok_cong handed_upd(1) by blast
  fix s' :: "'a Segmenter" and err :: "go_err option" assume s': "handed_ok s'"
  then have s2: "handed_ok (Segmenter_setEnd dts ?e s')" using handed_ok_cong Segmenter_setEnd_handed(1) by blast
  show "keeps_ok ((\<lambda>(s1, err). case err of Some x \<Rightarrow> Inr (s1, Some x)
      | None \<Rightarrow> if tkClosed (tk (Segmenter_setEnd dts ?e s1) i) then Inr (Segmenter_setEnd dts ?e s1, None)
          else UpdateIndex env True (Segmenter_setEnd dts ?e s1)) (s', err))"
    using s' s2 UpdateIndex_ok [OF s2 Segmenter_setEnd_handed(2)] by (simp split: option.splits)
qed

lemma handed_ok_upd [simp]:
  "handed_ok (setTk i t s) = handed_ok s" "handed_ok (s\<lparr> sgClosing := c, sgClosed := c' \<rparr>) = handed_ok s"
  "handed_ok (s\<lparr> sgReady := c, Variants := vs, Renditions := rs \<rparr>) = handed_ok s" "handed_ok (s\<lparr> sgFiles := fs \<rparr>) = handed_ok s"
  by (rule handed_ok_cong, simp)+

lemma finishFlush_ok:
  assumes "handed_ok s"
  shows "keeps_ok (finishFlush env dts force i s)"
proof -
  have "keeps_ok (bind_res (writeInit env i (setTk i ((tk s i)\<lparr> initCreated := True \<rparr>) s)) (\<lambda>(s1, err).
             case err of Some e \<Rightarrow> Inr (s1, Some e) | None \<Rightarrow> finishSegment env dts i s1))"
    by (rule keeps_ok_step [OF writeInit_handed]) (use assms in \<open>auto simp: finishSegment_ok split: option.splits\<close>)
  then show ?thesis using finishSegment_ok [OF assms] by (simp add: finishFlush_def)
qed

lemma flushSegment_ok:
  assumes "handed_ok s"
  shows "keeps_ok (flushSegment env dts force i s)"
proof (cases "currentPart (tk s i)")
  case (Some part)
  have n: "keeps_ok (bind_res (NextPart env f1 s1) (\<lambda>(s2, f2, n). finishFlush env dts force i (appendSegment dts off n f2 i s2)))"
    if "handed_ok s1" for f1 s1 off
    by (rule keeps_ok_step [OF NextPart_handed that]) (auto simp: appendSegment_def Let_def intro!: finishFlush_ok)
  show ?thesis unfolding flushSegment_def Some option.case
    by (rule keeps_ok_step [OF openStorage_handed assms]) (use n in \<open>auto split: sum.splits prod.splits option.splits\<close>)
qed (use assms in \<open>simp add: flushSegment_def\<close>)

lemma acceptSample_ok: "handed_ok s \<Longrightarrow> ensures handed_ok (acceptSample env clk dts i s)"
proof -
  have st: "ensures (\<lambda>s'. handed s' = handed s0) (Segmenter_setStart env dts ntp s0)" for s0 :: "'a Segmenter" and ntp
    by (auto simp: Segmenter_setStart_def Let_def intro!: ensures_bind_any)
  assume s: "handed_ok s"
  have u: "ensures handed_ok (Segmenter_setStart env dts ntp s0)" if "handed s0 = handed s" for s0 ntp
    by (rule ensures_mono [OF st]) (use that s handed_ok_cong in metis)
  show ?thesis unfolding acceptSample_def Let_def using s by (intro ensures_if u) simp_all
qed

lemma emitSample_ok: "handed_ok s \<Longrightarrow> ensures handed_ok (emitSample smp d i s)"
  unfolding emitSample_def Let_def split_beta by (rule ensures_bind_any) simp

lemma startSegment_handed: "handed_ok s \<Longrightarrow> ensures handed_ok (startSegment clk i s)"
  unfolding startSegment_def Let_def by (auto intro!: ensures_bind_any split: option.splits)

lemma writeVideo_ok:
  assumes "handed_ok s"
  shows "keeps_ok (writeVideo env clk ra fs sample i s)"
proof -
  have fl: "keeps_ok (bind_res (flushSegment env d fs i s3) (\<lambda>(s4, err). case err of Some e \<Rightarrow> Inr (s4, Some e)
      | None \<Rightarrow> bind_res (startSegment clk i s4) (\<lambda>s5. Inr (s5, None))))" if "handed_ok s3" for s3 d
    by (rule ensures_bind [OF flushSegment_ok [OF that]])
      (auto split: option.splits intro!: ensures_bind [OF startSegment_handed])
  have em: "keeps_ok (bind_res (emitSample smp d i s2) (\<lambda>s3. if c s3 then bind_res (flushSegment env d fs i s3) (\<lambda>(s4, err). case err of Some e \<Rightarrow> Inr (s4, Some e)
      | None \<Rightarrow> bind_res (startSegment clk i s4) (\<lambda>s5. Inr (s5, None))) else Inr (s3, None)))" if "handed_ok s2" for s2 smp d c
    by (rule ensures_bind [OF emitSample_ok [OF that]]) (use fl in auto)
  have ac: "ensures handed_ok (case sample of None \<Rightarrow> Inr s | Some (_, dts) \<Rightarrow> acceptSample env clk (i64 (dts + fmp4StartDTS)) i s)"
    using assms acceptSample_ok by (auto split: option.splits)
  show ?thesis unfolding writeVideo_def Let_def
    by (rule ensures_if, simp add: assms, rule ensures_bind [OF ac], rule ensures_option, simp, rule em, simp)
qed

lemma writeH26x_ok:
  assumes "handed_ok s"
  shows "keeps_ok (writeH26x env clk pts data i s)"
  unfolding writeH26x_def Let_def
  using assms by (auto intro!: ensures_bind_any writeVideo_ok split: sum.splits option.splits)

lemma WriteData_ok: "handed_ok s \<Longrightarrow> keeps_ok (WriteData env clk pts data i s)"
  by (simp add: WriteData_def writeH26x_ok split: TrackCodec.splits)

lemma Track_Close_ok:
  assumes "handed_ok s"
  shows "keeps_ok (Track_Close env clk i s)"
proof -
  have st: "ensures handed_ok (case tkStorage (tk s2 i) of None \<Rightarrow> Inr s2
      | Some f \<Rightarrow> bind_res (Storage_Close env f s2) (\<lambda>(s3, f'). Inr (setTk i ((tk s3 i)\<lparr> tkStorage := Some f' \<rparr>) s3)))" if "handed_ok s2" for s2
    by (rule ensures_option) (use that handed_ok_cong in \<open>fastforce intro!: ensures_bind [OF Storage_Close_handed]\<close>)+
  have sb: "keeps_ok (case tkSb (tk s3 i) of None \<Rightarrow> Inl NilDeref
      | Some sb \<Rightarrow> bind_res (ofRun (Close sb)) (\<lambda>sb'. Inr (setTk i ((tk s3 i)\<lparr> tkSb := Some sb' \<rparr>) s3, None :: go_err option)))" if "handed_ok s3" for s3
    by (rule ensures_option) (use that in \<open>auto intro!: ensures_bind_any\<close>)
  have w: "keeps_ok (writeVideo env clk False False None i (setTk i ((tk s i)\<lparr> tkClosed := True \<rparr>) s))"
    by (rule writeVideo_ok) (simp add: assms)
  show ?thesis unfolding Track_Close_def Let_def
    by (rule ensures_if, simp add: assms, rule ensures_if, simp add: assms, rule ensures_bind [OF w])
      (clarsimp, rule ensures_option, rule ensures_bind [OF st], assumption, erule sb, simp)
qed

lemma closeTracks_ok: "handed_ok s \<Longrightarrow> keeps_ok (closeTracks env clk is s)"
proof (induction "is" arbitrary: s)
  case (Cons i "is")
  show ?case unfolding closeTracks.simps
    by (rule ensures_bind [OF Track_Close_ok [OF Cons.prems]]) (use Cons.IH in \<open>auto split: option.splits\<close>)
qed simp

lemma Segmenter_Close_ok:
  assumes "handed_ok s"
  shows "keeps_ok (Segmenter_Close env clk s)"
proof -
  have c: "keeps_ok (closeTracks env clk [0..<length (sgTracks s)] (s\<lparr> sgClosing := True \<rparr>))"
    by (rule closeTracks_ok) (use assms handed_ok_cong [of "s\<lparr> sgClosing := True \<rparr>" s] in simp)
  have u: "ensures handed_ok (case sgStart s1 of None \<Rightarrow> Inr s1
      | Some st \<Rightarrow> bind_res (UpdateIndex env False (s1\<lparr> sgEnd := Some (e st) \<rparr>)) (\<lambda>(s2, _). Inr s2))" if "handed_ok s1" for s1 e
  proof (rule ensures_option)
    fix st
    have "handed_ok (s1\<lparr> sgEnd := Some (e st) \<rparr>)" using that handed_ok_cong [of "s1\<lparr> sgEnd := Some (e st) \<rparr>" s1] by simp
    from UpdateIndex_ok [OF this] show "ensures handed_ok (bind_res (UpdateIndex env False (s1\<lparr> sgEnd := Some (e st) \<rparr>)) (\<lambda>(s2, _). Inr s2))"
      by (rule ensures_bind) auto
  qed (simp add: that)
  show ?thesis unfolding Segmenter_Close_def
    by (rule ensures_if, simp add: assms, rule ensures_bind [OF c], clarsimp, rule ensures_option, rule ensures_bind [OF u]) auto
qed

lemma readyLoop_ok: "handed_ok s \<Longrightarrow> keeps_ok (readyLoop env is s)"
proof (induction "is" arbitrary: s)
  case (Cons i "is")
  have t: "keeps_ok (Track_TryReady env i s)" using Cons.prems by (auto simp: Track_TryReady_def Let_def intro!: ensures_bind_any)
  show ?case unfolding readyLoop.simps
    by (rule ensures_bind [OF t]) (auto intro!: ensures_bind [OF Cons.IH])
qed simp

lemma Segmenter_TryReady_ok:
  assumes "handed_ok s"
  shows "keeps_ok (Segmenter_TryReady env s)"
proof -
  show ?thesis unfolding Segmenter_TryReady_def Let_def
    by (rule ensures_if, simp add: assms, rule ensures_bind [OF readyLoop_ok [OF assms]]) (auto simp: split_beta)
qed

lemma WriteRtp_ok:
  assumes "handed_ok s"
  shows "keeps_ok (WriteRtp env clk ssrc packet buf s)"
  unfolding WriteRtp_def Let_def
  by (rule ensures_if, simp add: assms, rule ensures_option, simp add: assms, rule ensures_option, simp)
    (auto intro!: ensures_bind_any WriteData_ok simp: assms split: option.splits)

lemma CloseTrack_ok: "handed_ok s \<Longrightarrow> keeps_ok (CloseTrack env clk ssrc s)"
  by (auto simp: CloseTrack_def Track_Close_ok split: option.splits)

lemma makeSegmenter_ok: "keeps_ok (makeSegmenter env conf auth tracks files)"
  unfolding makeSegmenter_def
  by (rule ensures_bind_any, rule ensures_if, simp) (simp add: NewSegmenter_def handed_ok_def in_order_def)

section \<open>The loop\<close>

lemma stopLoop_ok: "handed_ok (rlSegmenter l) \<Longrightarrow> ensures (\<lambda>l'. handed_ok (rlSegmenter l')) (stopLoop env clk l)"
  unfolding stopLoop_def by (rule ensures_bind [OF Segmenter_Close_ok]) auto

lemma recordStep_ok:
  assumes "handed_ok (rlSegmenter l)"
  shows "ensures (\<lambda>l'. handed_ok (rlSegmenter l')) (recordStep env conf auth clk ev l)"
proof -
  have bad: "ensures (\<lambda>l'. handed_ok (rlSegmenter l')) (bind_res (Segmenter_Close env clk s') (\<lambda>(s2, _).
      bind_res (makeSegmenter env conf auth (rlTracks l) (sgFiles s2)) (\<lambda>(s3, r). Inr (l\<lparr> rlSegmenter := s3, rlRecorder := r \<rparr>))))" for s'
    by (rule ensures_bind_any) (auto simp: split_beta intro!: ensures_bind [OF makeSegmenter_ok])
  have w: "ensures (\<lambda>l'. handed_ok (rlSegmenter l')) (bind_res (WriteRtp env clk ssrc packet buf s) (\<lambda>(s', err).
      case err of None \<Rightarrow> Inr (l\<lparr> rlSegmenter := s' \<rparr>)
      | Some e \<Rightarrow> if e = ErrBadDts then bind_res (Segmenter_Close env clk s') (\<lambda>(s2, _).
                    bind_res (makeSegmenter env conf auth (rlTracks l) (sgFiles s2)) (\<lambda>(s3, r). Inr (l\<lparr> rlSegmenter := s3, rlRecorder := r \<rparr>)))
                  else Inl (ErrorPanic e)))" if "handed_ok s" for ssrc packet buf s
    by (rule ensures_bind [OF WriteRtp_ok [OF that]]) (use bad in \<open>auto split: option.splits\<close>)
  show ?thesis
  proof (cases ev)
    case CloseCh
    then show ?thesis using assms stopLoop_ok [OF assms, of env clk] by (simp add: recordStep_def)
  next
    case (TrackEnded ssrc)
    have "ensures (\<lambda>l'. handed_ok (rlSegmenter l')) (bind_res (CloseTrack env clk ssrc (rlSegmenter l)) (\<lambda>(s, _).
        Inr (l\<lparr> rlSegmenter := s, rlClosedTracks := Suc (rlClosedTracks l) \<rparr>)))"
      by (rule ensures_bind [OF CloseTrack_ok [OF assms]]) auto
    then show ?thesis using assms TrackEnded by (simp add: recordStep_def)
  next
    case (PacketCame ssrc packet buf)
    show ?thesis unfolding recordStep_def PacketCame RecordEvent.case
      by (intro ensures_if, simp add: assms, rule stopLoop_ok [OF assms], rule ensures_bind [OF Segmenter_TryReady_ok [OF assms]])
        (use w in auto)
  qed
qed

lemma runLoop_ok: "handed_ok (rlSegmenter l) \<Longrightarrow> ensures (\<lambda>l'. handed_ok (rlSegmenter l')) (runLoop env conf auth evs l)"
proof (induction evs arbitrary: l)
  case (Cons e evs)
  show ?case using Cons.IH unfolding runLoop_def fold_res.simps
    by (cases e) (auto intro!: ensures_bind [OF recordStep_ok [OF Cons.prems]])
qed (simp add: runLoop_def)

section \<open>The recorder\<close>

text \<open>A collection that has what was inserted, under the id that the insertion gave, until it is replaced.\<close>

definition stores :: "'m Mongo \<Rightarrow> ('m \<Rightarrow> nat \<Rightarrow> Record option) \<Rightarrow> bool" where
  "stores mongo found \<longleftrightarrow>
     (\<forall>doc m m' oid. InsertOne mongo doc m = (m', Inr oid) \<longrightarrow> found m' oid = Some doc) \<and>
     (\<forall>oid doc m m' n. ReplaceOne mongo oid doc m = (m', Inr n) \<longrightarrow> found m oid \<noteq> None \<longrightarrow> found m' oid = Some doc)"

lemma RecordFromSegCtx_complete: "complete c \<Longrightarrow> \<exists>doc. RecordFromSegCtx c key = Inr doc"
  by (auto simp: complete_def RecordFromSegCtx_def)

lemma runRecorders_simps [simp]:
  "runRecorders mongo [] rm = Inr rm" "runRecorders mongo (c # cs) rm = bind_res (runRecorder mongo c rm) (runRecorders mongo cs)"
  by (simp_all add: runRecorders_def)

text \<open>A recorder that has failed keeps its error; one that has an id keeps it until the next first context.\<close>

lemma runRecorder_ok:
  assumes "complete c" "scFirst c \<or> recId r \<noteq> None \<or> recErr r \<noteq> None"
  shows "\<exists>r' m'. runRecorder mongo c (r, m) = Inr (r', m') \<and> (recId r' \<noteq> None \<or> recErr r' \<noteq> None) \<and> recKey r' = recKey r \<and>
    (recErr r' = None \<longrightarrow> recErr r = None \<and> (\<not> scFirst c \<longrightarrow> recId r' = recId r))"
proof -
  obtain doc where d: "RecordFromSegCtx c (recKey r) = Inr doc" using RecordFromSegCtx_complete [OF assms(1)] by blast
  show ?thesis
  proof (cases "recErr r")
    case None
    show ?thesis
    proof (cases "scFirst c")
      case True
      obtain m' x where i: "InsertOne mongo doc m = (m', x)" by fastforce
      then show ?thesis using None True d by (cases x) (simp_all add: runRecorder_def Recorder_Record_def)
    next
      case False
      then obtain oid where oid: "recId r = Some oid" using assms(2) None by auto
      obtain m' x where i: "ReplaceOne mongo oid doc m = (m', x)" by fastforce
      then show ?thesis using None False d oid by (cases x) (simp_all add: runRecorder_def Recorder_Record_def)
    qed
  next
    case (Some e)
    then show ?thesis by (simp add: runRecorder_def Recorder_Record_def)
  qed
qed

lemma runRecorders_ok:
  assumes "\<forall>c \<in> set cs. complete c" "recId r \<noteq> None \<or> recErr r \<noteq> None"
  shows "\<exists>r' m'. runRecorders mongo cs (r, m) = Inr (r', m') \<and> (recErr r' = None \<longrightarrow> recErr r = None)"
  using assms
proof (induction cs arbitrary: r m)
  case (Cons c cs)
  then obtain r1 m1 where 1: "runRecorder mongo c (r, m) = Inr (r1, m1)" "recId r1 \<noteq> None \<or> recErr r1 \<noteq> None" "recErr r1 = None \<longrightarrow> recErr r = None"
    using runRecorder_ok [of c r mongo m] by auto
  then show ?case using Cons.IH [of r1 m1] Cons.prems(1) by auto
qed simp

lemma runRecorder_found:
  assumes "stores mongo found" "runRecorder mongo c (r, m) = Inr (r', m')" "recErr r' = None" "scFirst c \<or> recId r = Some oid \<and> found m oid \<noteq> None"
  shows "\<exists>oid' doc. recId r' = Some oid' \<and> RecordFromSegCtx c (recKey r) = Inr doc \<and> found m' oid' = Some doc \<and> recKey r' = recKey r"
proof -
  have e: "recErr r = None" using assms(2,3) by (auto simp: runRecorder_def Recorder_Record_def split: option.splits)
  obtain doc where d: "RecordFromSegCtx c (recKey r) = Inr doc"
    using assms(2) e by (cases "RecordFromSegCtx c (recKey r)") (auto simp: runRecorder_def Recorder_Record_def split: if_splits option.splits)
  show ?thesis
  proof (cases "scFirst c")
    case True
    obtain m2 x where i: "InsertOne mongo doc m = (m2, x)" by fastforce
    then show ?thesis using assms(1,2,3) True d e by (cases x) (auto simp: runRecorder_def Recorder_Record_def stores_def)
  next
    case False
    then have o: "recId r = Some oid" "found m oid \<noteq> None" using assms(4) by auto
    obtain m2 x where i: "ReplaceOne mongo oid doc m = (m2, x)" by fastforce
    have "found m2 oid = Some doc" if "x = Inr n" for n using assms(1) i o(2) that unfolding stores_def by blast
    then show ?thesis using assms(2,3) False d e o i by (cases x) (auto simp: runRecorder_def Recorder_Record_def)
  qed
qed

lemma runRecorders_found:
  assumes "stores mongo found" "\<forall>c \<in> set cs. \<not> scFirst c" "runRecorders mongo cs (r, m) = Inr (r', m')" "recErr r' = None" "\<forall>c \<in> set cs. complete c"
    and "recId r = Some oid" "found m oid = Some doc0" "RecordFromSegCtx c0 (recKey r) = Inr doc0"
  shows "\<exists>oid doc. recId r' = Some oid \<and> RecordFromSegCtx (last (c0 # cs)) (recKey r) = Inr doc \<and> found m' oid = Some doc"
  using assms
proof (induction cs arbitrary: r m c0 doc0 oid)
  case (Cons c cs)
  then obtain r1 m1 where 1: "runRecorder mongo c (r, m) = Inr (r1, m1)" "runRecorders mongo cs (r1, m1) = Inr (r', m')"
    by (auto simp: bind_res_Inr_iff)
  have k: "recId r1 \<noteq> None \<or> recErr r1 \<noteq> None" using runRecorder_ok [of c r mongo m] Cons.prems(5,6) 1(1) by auto
  have e: "recErr r1 = None"
    using runRecorders_ok [of cs r1 mongo m1] k Cons.prems(4,5) 1(2) by auto
  obtain oid1 doc1 where "recId r1 = Some oid1" "RecordFromSegCtx c (recKey r) = Inr doc1" "found m1 oid1 = Some doc1" "recKey r1 = recKey r"
    using runRecorder_found [OF Cons.prems(1) 1(1) e, of oid] Cons.prems(6,7) by auto
  then show ?case using Cons.IH [OF Cons.prems(1) _ 1(2) Cons.prems(4), of oid1 doc1 c] Cons.prems(2,5) by simp
qed auto


text \<open>C23: 
  The recorder gets the contexts of a recording in the order in which they were handed out: it returns, and
  unless the database reported an error, the document that it has inserted is the one of the last context.
\<close>

theorem recorder_stores_last:
  assumes "in_order cs" "cs \<noteq> []" "stores mongo found"
  shows "\<exists>r m'. runRecorders mongo cs (NewRecorder key, m) = Inr (r, m') \<and>
    (recErr r = None \<longrightarrow> (\<exists>oid doc. recId r = Some oid \<and> RecordFromSegCtx (last cs) key = Inr doc \<and> found m' oid = Some doc))"
proof -
  obtain c cs' where cs: "cs = c # cs'" using assms(2) by (cases cs) auto
  have f: "scFirst c" "\<forall>c \<in> set cs'. \<not> scFirst c" "\<forall>c \<in> set cs. complete c" using assms(1) by (simp_all add: in_order_def cs)
  obtain r1 m1 where 1: "runRecorder mongo c (NewRecorder key, m) = Inr (r1, m1)" "recId r1 \<noteq> None \<or> recErr r1 \<noteq> None" "recKey r1 = key"
    using runRecorder_ok [of c "NewRecorder key" mongo m] f by (auto simp: cs NewRecorder_def)
  obtain r m' where 2: "runRecorders mongo cs' (r1, m1) = Inr (r, m')" "recErr r = None \<longrightarrow> recErr r1 = None"
    using runRecorders_ok [of cs' r1 mongo m1] 1(2) f(3) by (auto simp: cs)
  have "\<exists>oid doc. recId r = Some oid \<and> RecordFromSegCtx (last cs) key = Inr doc \<and> found m' oid = Some doc" if e: "recErr r = None"
  proof -
    obtain oid doc where "recId r1 = Some oid" "RecordFromSegCtx c key = Inr doc" "found m1 oid = Some doc"
      using runRecorder_found [OF assms(3) 1(1)] 2(2) e f(1) by (auto simp: NewRecorder_def)
    then show ?thesis using runRecorders_found [OF assms(3) f(2) 2(1) e, of oid doc c] f(3) 1(3) by (simp add: cs)
  qed
  then show ?thesis using 1(1) 2(1) by (simp add: cs)
qed

text \<open>C34: 
  The goroutines get the lock in any order: the recorder panics exactly when the first of them is not the one
  with the first context.
\<close>

theorem recorder_schedule:
  assumes "in_order cs" "mset cs' = mset cs" "cs' \<noteq> []"
  shows "(\<exists>rm. runRecorders mongo cs' (NewRecorder key, m) = Inr rm) \<longleftrightarrow> scFirst (hd cs')"
proof -
  obtain c ds where cs': "cs' = c # ds" using assms(3) by (cases cs') auto
  have k: "\<forall>c \<in> set cs'. complete c" using assms(1) mset_eq_setD [OF assms(2)] by (simp add: in_order_def)
  show ?thesis
  proof (cases "scFirst c")
    case True
    obtain r1 m1 where 1: "runRecorder mongo c (NewRecorder key, m) = Inr (r1, m1)" "recId r1 \<noteq> None \<or> recErr r1 \<noteq> None"
      using runRecorder_ok [of c "NewRecorder key" mongo m] k True by (auto simp: cs')
    then show ?thesis using runRecorders_ok [of ds r1 mongo m1] k True by (auto simp: cs')
  next
    case False
    then show ?thesis by (simp add: cs' runRecorder_def Recorder_Record_def NewRecorder_def)
  qed
qed

section \<open>The end of a recording\<close>

text \<open>
  The end of all tracks does not end the loop, and so does not close the segmenter: that takes a further
  packet or the end of the publication.
\<close>

theorem ended_tracks_keep_running:
  assumes "rlRunning l" "runLoop env conf auth (map (\<lambda>ssrc. (clk, TrackEnded ssrc)) ssrcs) l = Inr l'"
  shows "rlRunning l' \<and> rlClosedTracks l' = rlClosedTracks l + length ssrcs"
  using assms
proof (induction ssrcs arbitrary: l)
  case (Cons a ssrcs)
  then obtain l1 where 1: "recordStep env conf auth clk (TrackEnded a) l = Inr l1" "runLoop env conf auth (map (\<lambda>ssrc. (clk, TrackEnded ssrc)) ssrcs) l1 = Inr l'"
    by (auto simp: runLoop_def bind_res_Inr_iff)
  then have "rlRunning l1" "rlClosedTracks l1 = Suc (rlClosedTracks l)" using Cons.prems(1) by (auto simp: recordStep_def bind_res_Inr_iff)
  then show ?case using Cons.IH [OF _ 1(2)] by simp
qed (simp add: runLoop_def)

text \<open>A track that has begun and has not flushed a segment yet is stored with the smallest duration there is.\<close>

theorem unflushed_duration:
  assumes "tcEnd c = zeroTime" "tcStart c \<ge> 0"
  shows "biDuration (fillMediaInfo c) = - (2 ^ 63)"
  using assms by (simp add: fillMediaInfo_def timeSub_def zeroTime_def)

section \<open>An example\<close>

definition demoConf :: RecordConf where
  "demoConf = \<lparr> rfEnable = True, rfBasePath = ''b'', rfDirPath = ''d'', rfIndexName = ''m'', rfSegmentDuration = 6, rfGopSize = 3,
     rfDBIndexEnable = True, rfMongoUrl = ''m'', rfDatabase = ''d'', rfCollection = ''c'', rfKey = ''k'', rfAuthUser = '''', rfAuthPass = '''' \<rparr>"

definition demoMongo :: "(nat, Record) gomap Mongo" where
  "demoMongo = \<lparr> InsertOne = (\<lambda>doc m. (mput (length m) doc m, Inr (length m))),
     ReplaceOne = (\<lambda>oid doc m. if mget m oid = None then (m, Inr 0) else (mput oid doc m, Inr 1)) \<rparr>"

definition demoContext :: "bool \<Rightarrow> SegmentContext" where
  "demoContext first = \<lparr> scFirst = first, scLast = False, scBase = ''b'', scPath = ''p'', scStart = Some \<lparr> inDTS = 0, inNTP = 0 \<rparr>,
     scEnd = Some \<lparr> inDTS = 0, inNTP = 0 \<rparr>, scTracks = [] \<rparr>"

lemma demo_in_order: "in_order [demoContext True, demoContext False]"
  by (simp add: in_order_def demoContext_def complete_def)

lemma demoMongo_stores: "stores demoMongo mget"
  by (auto simp: stores_def demoMongo_def gomap_simps split: if_splits)


theorem recorder_stores_last_witness:
  "\<exists>r m'. runRecorders demoMongo [demoContext True, demoContext False] (NewRecorder ''k'', []) = Inr (r, m') \<and>
    (recErr r = None \<longrightarrow> (\<exists>oid doc. recId r = Some oid \<and> RecordFromSegCtx (last [demoContext True, demoContext False]) ''k'' = Inr doc \<and> mget m' oid = Some doc))"
  by (rule recorder_stores_last [OF demo_in_order _ demoMongo_stores]) simp

theorem recorder_schedule_witness:
  "\<not> (\<exists>rm. runRecorders demoMongo [demoContext False, demoContext True] (NewRecorder ''k'', []) = Inr rm)"
  using recorder_schedule [OF demo_in_order, of "[demoContext False, demoContext True]" demoMongo "''k''" "[]"]
  by (simp add: demoContext_def)

end
