(* ===== verification/Config.thy ===== *)
theory Config
  imports ClusterConf Recording
begin

text \<open>
  The configuration (\<open>config/model.go\<close>): the addresses and names derived from it, its validation, the replicas of the
  debug mode, and the configuration of the WebRTC library. The records have
  the fields of the structs; loading the files and the flags is the work of a library. \<open>KEYS\<close> are the flags of the command line.
\<close>

section \<open>State\<close>

record HealthyConfigure =
  hyEnable :: bool
  hyFailureThreshold :: int
  hyPath :: string

text \<open>The anonymous structs of a field are spread over fields with its name in front.\<close>

record ConferenceConfigure =
  cfHostOrIp :: string
  cfRouterHostOrIp :: string
  cfRouterPort :: int
  cfJitterBuffer :: bool
  cfIceUrls :: string
  cfIceUsername :: string
  cfIceCredential :: string
  cfIceCredentialType :: string
  cfIceTransportPolicy :: string
  cfPrometheus :: PrometheusConfigure
  cfAuthEnable :: bool
  cfAuthHost :: string
  cfAuthPort :: int
  cfAuthSsl :: bool
  cfAuthCertPath :: string
  cfAuthKeyPath :: string
  cfAuthCors :: string
  cfAuthHealthy :: HealthyConfigure
  cfSecretKey :: string
  cfLogProfile :: string
  cfLogLevel :: string
  cfLogFile :: string
  cfRecord :: RecordConf
  cfOnStart :: string
  cfOnClose :: string
  cfOnConnecting :: string
  cfIntervalMs :: int
  cfSignalEnable :: bool
  cfSignalHostOrIp :: string
  cfSignalPort :: int
  cfSignalCors :: string
  cfAsyncSendMsg :: bool
  cfSignalTls :: bool
  cfSignalTlsCert :: string
  cfSignalTlsKey :: string
  cfMsgTimeoutMs :: int
  cfMsgTimeoutRetries :: int
  cfGinDebug :: bool
  cfGinNoRequestLog :: bool
  cfSignalHealthy :: HealthyConfigure
  cfSignalPrometheus :: PrometheusConfigure
  cfCluster :: ClusterConfigure

section \<open>Derived values\<close>

text \<open>The verb \<open>%d\<close>.\<close>

definition showInt :: "int \<Rightarrow> string" where
  "showInt i = (if i < 0 then ''-'' @ decimal (nat (- i)) else decimal (nat i))"

definition ClusterNodeName :: "ConferenceConfigure \<Rightarrow> string" where
  "ClusterNodeName c = GetNodeName (cfCluster c)"

definition PromEnable :: "ConferenceConfigure \<Rightarrow> bool" where
  "PromEnable c \<longleftrightarrow> pmEnable (cfPrometheus c) \<or> pmEnable (cfSignalPrometheus c) \<or> pmEnable (kfPrometheus (clKafka (cfCluster c)))"

definition RouterListenHostOrIp :: "ConferenceConfigure \<Rightarrow> string" where
  "RouterListenHostOrIp c = (if cfRouterHostOrIp c \<noteq> '''' then cfRouterHostOrIp c else cfHostOrIp c)"

definition RouterListenAddress :: "ConferenceConfigure \<Rightarrow> string" where
  "RouterListenAddress c = RouterListenHostOrIp c @ '':'' @ showInt (cfRouterPort c)"

definition RouterExternalAddress :: "ConferenceConfigure \<Rightarrow> string" where
  "RouterExternalAddress c = cfHostOrIp c @ '':'' @ showInt (cfRouterPort c)"

definition SignalListenHostOrIp :: "ConferenceConfigure \<Rightarrow> string" where
  "SignalListenHostOrIp c = (if cfSignalHostOrIp c \<noteq> '''' then cfSignalHostOrIp c else cfHostOrIp c)"

definition SignalPort :: "ConferenceConfigure \<Rightarrow> int" where
  "SignalPort c = (if cfSignalPort c = 0 then (if cfSignalTls c then 4430 else 8080) else cfSignalPort c)"

definition SignalListenAddress :: "ConferenceConfigure \<Rightarrow> string" where
  "SignalListenAddress c = SignalListenHostOrIp c @ '':'' @ showInt (SignalPort c)"

definition SignalExternalAddress :: "ConferenceConfigure \<Rightarrow> string" where
  "SignalExternalAddress c =
     (let port = SignalPort c
      in if cfSignalTls c
         then (if port \<noteq> 443 then ''https://'' @ cfHostOrIp c @ '':'' @ showInt port else ''https://'' @ cfHostOrIp c)
         else (if port \<noteq> 80 then ''http://'' @ cfHostOrIp c @ '':'' @ showInt port else ''http://'' @ cfHostOrIp c))"

definition ClusterEnable :: "ConferenceConfigure \<Rightarrow> bool" where
  "ClusterEnable c \<longleftrightarrow> clEnable (cfCluster c) \<or> clDebugEnable (cfCluster c)"

datatype LogProfile = LOG_PROFILE_DEVELOPMENT | LOG_PROFILE_PRODUCTION

definition NewLogProfile :: "string \<Rightarrow> LogProfile res" where
  "NewLogProfile s =
     (let l = ToLower s
      in if l = ''development'' then Inr LOG_PROFILE_DEVELOPMENT
         else if l = ''production'' \<or> l = '''' then Inr LOG_PROFILE_PRODUCTION
         else Inl (ErrorPanic (InvalidParam ''invalid log profile %s'')))"

datatype ICECredentialType = ICECredentialTypePassword | ICECredentialTypeOauth

definition parseCredentialType :: "string \<Rightarrow> ICECredentialType res" where
  "parseCredentialType ct =
     (if ct = ''password'' \<or> ct = '''' then Inr ICECredentialTypePassword
      else if ct = ''oauth'' then Inr ICECredentialTypeOauth
      else Inl (ErrorPanic (InvalidParam ''invalid webrtc credential type %s'')))"

datatype Credential = Password string | OAuth string string

record ICEServer =
  isURLs :: "string list"
  isUsername :: string
  isCredential :: Credential
  isCredentialType :: ICECredentialType

text \<open>The policy of the WebRTC library with the name in the configuration is an argument.\<close>

definition GetWebrtcConfiguration :: "(string \<Rightarrow> 'p) \<Rightarrow> ConferenceConfigure \<Rightarrow> (ICEServer list \<times> 'p) res" where
  "GetWebrtcConfiguration NewICETransportPolicy c =
     (if cfIceUrls c = '''' then Inr ([], NewICETransportPolicy (cfIceTransportPolicy c))
      else bind_res (parseCredentialType (cfIceCredentialType c)) (\<lambda>ct.
        let raw = cfIceCredential c;
            credential = (if ct = ICECredentialTypeOauth
                          then (case (if raw \<noteq> '''' then SplitN CHR '' '' 2 raw else []) of
                                  [] \<Rightarrow> OAuth '''' ''''
                                | [macKey] \<Rightarrow> OAuth macKey ''''
                                | macKey # accessToken # _ \<Rightarrow> OAuth macKey accessToken)
                          else Password raw)
        in Inr ([\<lparr> isURLs = Split CHR '' '' (cfIceUrls c), isUsername = cfIceUsername c, isCredential = credential, isCredentialType = ct \<rparr>],
                NewICETransportPolicy (cfIceTransportPolicy c))))"

section \<open>Validation\<close>

definition requiredInt :: "int \<Rightarrow> go_err option" where
  "requiredInt v = (if v = 0 then Some (InvalidConfig ''invalid config, %s is required%s'') else None)"

definition firstErr :: "go_err option \<Rightarrow> go_err option \<Rightarrow> go_err option" where
  "firstErr e f = (case e of Some x \<Rightarrow> Some x | None \<Rightarrow> f)"

definition Configure_Validate :: "ConferenceConfigure \<Rightarrow> go_err option" where
  "Configure_Validate c =
     firstErr (requiredString (cfHostOrIp c))
       (firstErr
         (if ClusterEnable c
          then firstErr (requiredInt (cfRouterPort c))
                 (firstErr (if clEnable (cfCluster c) then requiredString (ClusterNodeName c) else None)
                   (Kafka_Validate (clKafka (cfCluster c))))
          else None)
         (if rfEnable (cfRecord c) \<and> rfDBIndexEnable (cfRecord c)
          then firstErr (requiredString (rfMongoUrl (cfRecord c))) (requiredString (rfDatabase (cfRecord c)))
          else None))"

section \<open>Replicas\<close>

text \<open>The configuration of replica \<open>i\<close>; a negative number of replicas makes \<open>make\<close> panic.\<close>

definition replica :: "int \<Rightarrow> nat \<Rightarrow> ConferenceConfigure \<Rightarrow> ConferenceConfigure" where
  "replica offsetMult i c =
     c\<lparr> cfCluster := (cfCluster c)\<lparr> clEnable := True,
          clNodeName := (if clNodeName (cfCluster c) = '''' then ''node'' @ decimal i else clNodeName (cfCluster c) @ ''-'' @ decimal i) \<rparr>,
        cfRouterPort := i64 (cfRouterPort c + i64 (offsetMult * int i)),
        cfSignalPort := i64 (SignalPort c + i64 (offsetMult * int i)) \<rparr>"

definition Configure_Split :: "ConferenceConfigure \<Rightarrow> ConferenceConfigure list res" where
  "Configure_Split c =
     (if \<not> clDebugEnable (cfCluster c) then Inr [c]
      else
        (let replicas = (if clDebugReplicas (cfCluster c) = 0 then 2 else clDebugReplicas (cfCluster c));
             offsetMult = (if clDebugPortOffset (cfCluster c) = 0 then 1 else clDebugPortOffset (cfCluster c))
         in if replicas < 0 then Inl (ValuePanic ''makeslice: len out of range'')
            else Inr (map (\<lambda>i. replica offsetMult i c) [0..<nat replicas])))"

section \<open>Flags\<close>

definition KEYS :: "string list" where
  "KEYS =
    [''hostOrIp:string'', ''prometheus.enable:bool'', ''prometheus.namespace:string'',
     ''prometheus.subsystem:string'', ''prometheus.goCollectors:bool'', ''signal.enable:bool'',
     ''signal.hostOrIp:string'', ''signal.port:int'', ''signal.tls.enable:bool'',
     ''signal.tls.cert:string'', ''signal.tls.key:string'', ''signal.cors:string'',
     ''signal.asyncSendMsg:bool'', ''signal.msgTimeoutMs:int'', ''signal.msgTimeoutRetries:int'',
     ''signal.gin.debug:bool'', ''signal.gin.noRequestLog:bool'', ''signal.healthy.enable:bool'',
     ''signal.healthy.failureThreshold:int'', ''signal.healthy.path:string'', ''signal.prometheus.enable:bool'',
     ''signal.prometheus.namespace:string'', ''signal.prometheus.subsystem:string'', ''router.hostOrIp:string'',
     ''router.port:int'', ''webrtc.iceServer.urls:string'', ''webrtc.iceServer.username:string'',
     ''webrtc.iceServer.credential:string'', ''webrtc.iceServer.credentialType:string'', ''webrtc.iceTransportPolicy:string'',
     ''authServer.enable:bool'', ''authServer.host:string'', ''authServer.port:int'',
     ''authServer.ssl:bool'', ''authServer.certPath:string'', ''authServer.keyPath:string'',
     ''authServer.cors:string'', ''authServer.healthy.enable:bool'', ''authServer.healthy.failureThreshold:int'',
     ''authServer.healthy.path:string'', ''secretKey:string'', ''log.profile:string'',
     ''log.level:string'', ''log.file:string'', ''record.enable:bool'',
     ''record.basePath:string'', ''record.dirPath:string'', ''record.indexName:string'',
     ''record.segmentDuration:int'', ''record.gopSize:int'', ''record.dbIndex.enable:bool'',
     ''record.dbIndex.mongoUrl:string'', ''record.dbIndex.database:string'', ''record.dbIndex.collection:string'',
     ''record.dbIndex.key:string'', ''record.dbIndex.auth.user:string'', ''record.dbIndex.auth.pass:string'',
     ''callback.onStart:string'', ''callback.onClose:string'', ''callback.onConnecting:string'',
     ''callback.intervalMs:int'', ''cluster.enable:bool'', ''cluster.nodeName:string'',
     ''cluster.kafka.addrs:string'', ''cluster.kafka.topicPrefix:string'', ''cluster.kafka.sasl.enable:bool'',
     ''cluster.kafka.sasl.method:string'', ''cluster.kafka.sasl.user:string'', ''cluster.kafka.sasl.pass:string'',
     ''cluster.kafka.tls.enable:bool'', ''cluster.kafka.tls.ca:string'', ''cluster.kafka.tls.cert:string'',
     ''cluster.kafka.tls.key:string'', ''cluster.kafka.prometheus.enable:bool'', ''cluster.kafka.prometheus.namespace:string'',
     ''cluster.kafka.prometheus.subsystem:string'', ''cluster.kafka.maxBufferedRecords:int'', ''cluster.kafka.maxBufferedBytes:int'',
     ''cluster.kafka.maxConcurrentFetches:int'', ''cluster.kafka.fetchMaxBytes:int'', ''cluster.kafka.batchMaxBytes:int'',
     ''cluster.kafka.noIdempotency:bool'', ''cluster.kafka.lingerMs:int'', ''cluster.kafka.compression:string'',
     ''cluster.redis.mode:string'', ''cluster.redis.addrs:string'', ''cluster.redis.users:string'',
     ''cluster.redis.passes:string'', ''cluster.redis.keyPrefix:string'', ''cluster.redis.masterName:string'',
     ''cluster.debug.enable:bool'', ''cluster.debug.replicas:int'', ''cluster.debug.portOffset:int'']"

section \<open>Properties\<close>

text \<open>What an accepted configuration has.\<close>

lemma Validate_iff:
  "Configure_Validate c = None \<longleftrightarrow> cfHostOrIp c \<noteq> '''' \<and>
     (ClusterEnable c \<longrightarrow> cfRouterPort c \<noteq> 0 \<and> kfAddrs (clKafka (cfCluster c)) \<noteq> '''') \<and>
     (rfEnable (cfRecord c) \<and> rfDBIndexEnable (cfRecord c) \<longrightarrow> rfMongoUrl (cfRecord c) \<noteq> '''' \<and> rfDatabase (cfRecord c) \<noteq> '''')"
  by (auto simp: Configure_Validate_def firstErr_def requiredString_def requiredInt_def ClusterNodeName_def GetNodeName_def Kafka_Validate_def)

lemma replica_fields:
  assumes "0 < k" "k * int i < 2 ^ 31" "0 \<le> cfRouterPort c" "cfRouterPort c < 2 ^ 31" "0 \<le> SignalPort c" "SignalPort c < 2 ^ 31"
  shows "cfRouterPort (replica k i c) = cfRouterPort c + k * int i" "cfSignalPort (replica k i c) = SignalPort c + k * int i"
proof -
  have k: "0 \<le> k * int i" using assms(1) by simp
  then have "i64 (k * int i) = k * int i" using assms(2) by (intro i64_id) simp_all
  moreover have "i64 (x + k * int i) = x + k * int i" if "0 \<le> x" "x < 2 ^ 31" for x using that k assms(2) by (intro i64_id) simp_all
  ultimately show "cfRouterPort (replica k i c) = cfRouterPort c + k * int i" "cfSignalPort (replica k i c) = SignalPort c + k * int i"
    using assms(3-) by (simp_all add: replica_def)
qed


text \<open>The check of the node name never fails, since the empty name has a default.\<close>

theorem node_name_check_vacuous: "requiredString (GetNodeName c) = None"
  by (simp add: requiredString_def GetNodeName_def)

text \<open>
  A configuration that is accepted and records, but has no name for the index: the start of every recording panics.
\<close>

theorem validation_misses_index_name:
  assumes "Configure_Validate c = None" "rfEnable (cfRecord c)" "rfIndexName (cfRecord c) = ''''" "\<not> rfDBIndexEnable (cfRecord c)"
  shows "\<exists>e. startRecord env (cfRecord c) auth tracks files False = Inl (ErrorPanic e)"
  using assms by (simp add: startRecord_def makeSegmenter_def)

text \<open>The replicas can take each other's ports: the router port of one is the signal port of another.\<close>

theorem replica_ports_collide:
  assumes "Configure_Split c = Inr [a, b]" "clDebugEnable (cfCluster c)" "clDebugReplicas (cfCluster c) = 0" "clDebugPortOffset (cfCluster c) = 0" "cfSignalPort c = 9000" "cfRouterPort c = 9001"
  shows "SignalPort b = cfRouterPort a"
proof -
  have "[a, b] = [replica 1 0 c, replica 1 1 c]" using assms by (simp add: Configure_Split_def numeral_2_eq_2)
  then show ?thesis using assms(5,6) by (simp add: replica_def SignalPort_def i64_def)
qed

text \<open>Every flag has a known type; the jitter buffer has no flag, unlike the other settings of WebRTC.\<close>

theorem KEYS_wellformed:
  "(\<forall>k \<in> set KEYS. HasSuffix k '':string'' \<or> HasSuffix k '':bool'' \<or> HasSuffix k '':int'') \<and> ''webrtc.jitterBuffer:bool'' \<notin> set KEYS"
  by code_simp

section \<open>Witnesses\<close>

definition demoConfigure :: ConferenceConfigure where
  "demoConfigure = \<lparr> cfHostOrIp = ''h'', cfRouterHostOrIp = '''', cfRouterPort = 5000, cfJitterBuffer = False, cfIceUrls = '''', cfIceUsername = '''',
     cfIceCredential = '''', cfIceCredentialType = '''', cfIceTransportPolicy = '''', cfPrometheus = demoProm, cfAuthEnable = False, cfAuthHost = '''',
     cfAuthPort = 0, cfAuthSsl = False, cfAuthCertPath = '''', cfAuthKeyPath = '''', cfAuthCors = '''', cfAuthHealthy = \<lparr> hyEnable = True, hyFailureThreshold = 3, hyPath = ''/healthz'' \<rparr>,
     cfSecretKey = '''', cfLogProfile = '''', cfLogLevel = '''', cfLogFile = '''', cfRecord = \<lparr> rfEnable = False, rfBasePath = '''', rfDirPath = '''', rfIndexName = '''', rfSegmentDuration = 6, rfGopSize = 3,
       rfDBIndexEnable = False, rfMongoUrl = '''', rfDatabase = '''', rfCollection = '''', rfKey = '''', rfAuthUser = '''', rfAuthPass = '''' \<rparr>, cfOnStart = '''',
     cfOnClose = '''', cfOnConnecting = '''', cfIntervalMs = 0, cfSignalEnable = False, cfSignalHostOrIp = '''', cfSignalPort = 0,
     cfSignalCors = '''', cfAsyncSendMsg = False, cfSignalTls = False, cfSignalTlsCert = '''', cfSignalTlsKey = '''', cfMsgTimeoutMs = 0,
     cfMsgTimeoutRetries = 0, cfGinDebug = False, cfGinNoRequestLog = False, cfSignalHealthy = \<lparr> hyEnable = True, hyFailureThreshold = 3, hyPath = ''/healthz'' \<rparr>, cfSignalPrometheus = demoProm, cfCluster = demoCluster \<rparr>"


end
