(* ===== verification/KafkaClient.thy ===== *)
theory KafkaClient
  imports Messager MediaTime
begin

text \<open>
  The Kafka client (\<open>signal/kafka.go\<close>): the options it is made with, and the consumers of the partitions. The library
  \<open>kgo\<close> calls \<open>assigned\<close>, \<open>revoked\<close> and \<open>lost\<close> when partitions move, and \<open>Poll\<close> hands the fetched records to the consumer of
  their partition, which runs the worker of the topic. What the library is documented to do stands in the premises of the
  step relation: it fetches the records of the assigned partitions in their order, starting at the committed offset, and
  moves no partition between a poll and \<open>AllowRebalance\<close>.
\<close>

section \<open>Creation\<close>

datatype Compression = NoCompression | GzipCompression | SnappyCompression | Lz4Compression | ZstdCompression

datatype Mechanism = PlainAuth string string | ScramSha256 string string | ScramSha512 string string | ManagedStreamingIAM string string

datatype 't KgoOpt =
    SeedBrokers "string list"
  | MaxBufferedRecords int
  | MaxBufferedBytes int
  | FetchMaxBytes int
  | ProducerBatchMaxBytes int
  | DisableIdempotentWrite
  | ProducerLinger int
  | ProducerBatchCompression Compression
  | DialTLSConfig 't
  | DialTLS
  | SASL Mechanism
  | OnPartitionsHandlers
  | AutoCommitMarks
  | BlockRebalanceOnPoll
  | AllowAutoTopicCreation
  | WithHooks string string
  | WithLogger
  | ConsumerGroup string
  | ConsumeTopics "string list"

datatype 'w KafkaOpt =
    KafkaOptGroup string
  | KafkaOptTopics "string list"
  | KafkaOptWorkers "(string, 'w) gomap"
  | KafkaOptPromReg
  | KafkaOptLogger

type_synonym tp = "string \<times> int"

text \<open>A consumer: the records in its channel, and whether its channels \<open>quit\<close> and \<open>done\<close> are closed.\<close>

record ('w, 'r) pconsumer =
  pcTp :: tp
  pcWorker :: 'w
  pcQuit :: bool
  pcDone :: bool
  pcRecs :: "(nat \<times> 'r) list list"

record ('w, 'r) KafkaClient =
  kcConf :: KafkaConfigure
  kcConsumers :: "(tp, ('w, 'r) pconsumer) gomap"
  kcWorkers :: "(string, 'w) gomap option"
  kcGroup :: string
  kcTopics :: "string list"

definition NormStringOpt :: "string \<Rightarrow> string" where
  "NormStringOpt opt = TrimSpace (ToLower opt)"

definition compressionOf :: "string \<Rightarrow> go_err + Compression" where
  "compressionOf s =
     (let c = TrimSpace (ToLower s)
      in if c = '''' \<or> c = ''none'' then Inr NoCompression
         else if c = ''gzip'' then Inr GzipCompression
         else if c = ''snappy'' then Inr SnappyCompression
         else if c = ''lz4'' then Inr Lz4Compression
         else if c = ''zstd'' then Inr ZstdCompression
         else Inl (InvalidConfig ''invalid kafka config, invalid compression mode: %s''))"

text \<open>\<open>tls\<close> is the answer of \<open>tlscfg.New\<close> for the files of the authority, the certificate and the key.\<close>

definition tlsOpts :: "(string \<Rightarrow> string \<Rightarrow> string \<Rightarrow> go_err + 't) \<Rightarrow> KafkaConfigure \<Rightarrow> go_err + 't KgoOpt list" where
  "tlsOpts tls conf =
     (if \<not> kfTlsEnable conf then Inr []
      else if kfTlsCa conf \<noteq> '''' \<or> kfTlsCert conf \<noteq> '''' \<or> kfTlsKey conf \<noteq> ''''
      then (case tls (kfTlsCa conf) (kfTlsCert conf) (kfTlsKey conf) of
              Inl _ \<Rightarrow> Inl (InvalidConfig ''invalid kafka config, unable to init tls config, %v'')
            | Inr tc \<Rightarrow> Inr [DialTLSConfig tc])
      else Inr [DialTLS])"

definition saslOpts :: "KafkaConfigure \<Rightarrow> go_err + 't KgoOpt list" where
  "saslOpts conf =
     (if \<not> kfSaslEnable conf then Inr []
      else
        (let method = NormStringOpt (kfSaslMethod conf); user = kfSaslUser conf; pass = kfSaslPass conf
         in if method = '''' \<or> user = '''' \<or> pass = ''''
            then Inl (InvalidConfig ''invalid kafka config, method, user and pass are all required for sasl config'')
            else
              (let m = filter (\<lambda>c. c \<noteq> CHR ''-'' \<and> c \<noteq> CHR ''_'') method
               in if m = ''plain'' then Inr [SASL (PlainAuth user pass)]
                  else if m = ''scramsha256'' then Inr [SASL (ScramSha256 user pass)]
                  else if m = ''scramsha512'' then Inr [SASL (ScramSha512 user pass)]
                  else if m = ''awsmskiam'' then Inr [SASL (ManagedStreamingIAM user pass)]
                  else Inl (InvalidConfig ''invalid kafka config, unrecognized sasl method %s''))))"

fun applyOpt :: "'w KafkaOpt \<Rightarrow> ('w, 'r) KafkaClient \<times> 't KgoOpt list \<Rightarrow> ('w, 'r) KafkaClient \<times> 't KgoOpt list" where
  "applyOpt (KafkaOptGroup gr) (client, opts) = (client\<lparr> kcGroup := gr \<rparr>, opts)"
| "applyOpt (KafkaOptTopics topics) (client, opts) = (client\<lparr> kcTopics := topics \<rparr>, opts)"
| "applyOpt (KafkaOptWorkers ws) (client, opts) = (client\<lparr> kcWorkers := Some ws \<rparr>, opts)"
| "applyOpt KafkaOptPromReg (client, opts) =
     (let prom = kfPrometheus (kcConf client)
      in (client, if pmEnable prom then opts @ [WithHooks (pmNamespace prom) (pmSubsystem prom)] else opts))"
| "applyOpt KafkaOptLogger (client, opts) = (client, opts @ [WithLogger])"

definition baseOpts :: "KafkaConfigure \<Rightarrow> string list \<Rightarrow> 't KgoOpt list" where
  "baseOpts conf addrs =
     [SeedBrokers addrs]
     @ (if kfMaxBufferedRecords conf > 0 then [MaxBufferedRecords (kfMaxBufferedRecords conf)] else [])
     @ (if kfMaxBufferedBytes conf > 0 then [MaxBufferedBytes (kfMaxBufferedBytes conf)] else [])
     @ (if kfFetchMaxBytes conf > 0 then [FetchMaxBytes (i32 (word_of_int (kfFetchMaxBytes conf)))] else [])
     @ (if kfBatchMaxBytes conf > 0 then [ProducerBatchMaxBytes (i32 (word_of_int (kfBatchMaxBytes conf)))] else [])
     @ (if kfNoIdempotency conf then [DisableIdempotentWrite] else [])
     @ (if kfLingerMs conf > 0 then [ProducerLinger (i64 (i64 (kfLingerMs conf * 1000) * 1000))] else [])"

text \<open>\<open>newClient\<close> is the answer of \<open>kgo.NewClient\<close>.\<close>

fun finishClient :: "('t KgoOpt list \<Rightarrow> go_err option) \<Rightarrow> ('w, 'r) KafkaClient \<times> 't KgoOpt list \<Rightarrow> go_err + (('w, 'r) KafkaClient \<times> 't KgoOpt list) option" where
  "finishClient newClient (client, opts) =
     (let opts1 = (if kcGroup client \<noteq> '''' then opts @ [ConsumerGroup (kcGroup client)] else opts);
          opts2 = (if kcTopics client \<noteq> [] then opts1 @ [ConsumeTopics (kcTopics client)] else opts1)
      in case newClient opts2 of
           Some _ \<Rightarrow> Inl (FatalError ''unable to create the kafka client, %v'')
         | None \<Rightarrow> Inr (Some (client, opts2)))"

text \<open>Without addresses there is no client and no error; otherwise the client and the options it was made with.\<close>

definition NewKafkaClient ::
  "(string \<Rightarrow> string \<Rightarrow> string \<Rightarrow> go_err + 't) \<Rightarrow> ('t KgoOpt list \<Rightarrow> go_err option) \<Rightarrow> KafkaConfigure \<Rightarrow> 'w KafkaOpt list \<Rightarrow>
    go_err + (('w, 'r) KafkaClient \<times> 't KgoOpt list) option" where
  "NewKafkaClient tls newClient conf copts =
     (let addrs = parseKafkaAddrs (kfAddrs conf)
      in if addrs = [] then Inr None
         else
           bind_res (compressionOf (kfCompression conf)) (\<lambda>compression.
           bind_res (tlsOpts tls conf) (\<lambda>tlsO.
           bind_res (saslOpts conf) (\<lambda>saslO.
             let opts = baseOpts conf addrs @ [ProducerBatchCompression compression] @ tlsO @ saslO;
                 client = \<lparr> kcConf = conf, kcConsumers = [], kcWorkers = None, kcGroup = '''', kcTopics = [] \<rparr>
             in finishClient newClient (fold applyOpt copts
                  (client, opts @ [OnPartitionsHandlers, AutoCommitMarks, BlockRebalanceOnPoll, AllowAutoTopicCreation]))))))"

text \<open>The client of a messager: what \<open>NewMessager\<close> makes when the cluster is enabled.\<close>

definition messagerTopics :: "KafkaConfigure \<Rightarrow> string list" where
  "messagerTopics conf =
     map (MakeKafkaTopic conf)
       [TOPIC_STATE, TOPIC_WANT, TOPIC_SELECT, TOPIC_WANT_PARTICIPANT, TOPIC_STATE_PARTICIPANT, TOPIC_STATE_LEAVE, TOPIC_PING, TOPIC_PONG,
        TOPIC_CUSTOM, TOPIC_CUSTOM_ACK]"

definition messagerClient ::
  "(string \<Rightarrow> string \<Rightarrow> string \<Rightarrow> go_err + 't) \<Rightarrow> ('t KgoOpt list \<Rightarrow> go_err option) \<Rightarrow> Codec \<Rightarrow> ClusterConfigure \<Rightarrow>
    go_err + (('f Messager \<Rightarrow> byte list \<Rightarrow> 'f list res, 'r) KafkaClient \<times> 't KgoOpt list) option" where
  "messagerClient tls newClient cd cluster =
     (let conf = clKafka cluster
      in if clEnable cluster
         then (case NewKafkaClient tls newClient conf
                 [KafkaOptPromReg, KafkaOptGroup (GetNodeName cluster), KafkaOptTopics (messagerTopics conf), KafkaOptWorkers (workers cd conf)] of
                 Inl e \<Rightarrow> Inl (FatalError ''unable to create messager, %v'')
               | Inr k \<Rightarrow> Inr k)
         else Inr None)"

section \<open>Partitions\<close>

definition assignPartition :: "string \<Rightarrow> 'w \<Rightarrow> int \<Rightarrow> ('w, 'r) KafkaClient \<Rightarrow> ('w, 'r) KafkaClient" where
  "assignPartition topic worker p s =
     s\<lparr> kcConsumers := mput (topic, p)
          \<lparr> pcTp = (topic, p), pcWorker = worker, pcQuit = False, pcDone = False, pcRecs = [] \<rparr> (kcConsumers s) \<rparr>"

definition assigned :: "(string, int list) gomap \<Rightarrow> ('w, 'r) KafkaClient \<Rightarrow> ('w, 'r) KafkaClient" where
  "assigned parts s =
     (case kcWorkers s of
        None \<Rightarrow> s
      | Some ws \<Rightarrow>
          fold (\<lambda>(topic, ps) s.
            case mget ws topic of None \<Rightarrow> s | Some worker \<Rightarrow> fold (assignPartition topic worker) ps s) parts s)"

text \<open>
  \<open>killConsumers\<close> up to the waiting: the consumers leave the map with their channel \<open>quit\<close> closed. The consumers that it waits
  for are the second component.
\<close>

definition killConsumer :: "tp \<Rightarrow> ('w, 'r) KafkaClient \<times> ('w, 'r) pconsumer list \<Rightarrow> (('w, 'r) KafkaClient \<times> ('w, 'r) pconsumer list) res" where
  "killConsumer t = (\<lambda>(s, killed).
     case mget (kcConsumers s) t of
       None \<Rightarrow> Inl NilDeref
     | Some pc \<Rightarrow> Inr (s\<lparr> kcConsumers := mdel t (kcConsumers s) \<rparr>, killed @ [pc\<lparr> pcQuit := True \<rparr>]))"

definition partitionsOf :: "(string, int list) gomap \<Rightarrow> tp list" where
  "partitionsOf parts = concat (map (\<lambda>(topic, ps). map (Pair topic) ps) parts)"

definition killConsumers :: "(string, int list) gomap \<Rightarrow> ('w, 'r) KafkaClient \<Rightarrow> (('w, 'r) KafkaClient \<times> ('w, 'r) pconsumer list) res" where
  "killConsumers parts s = fold_res killConsumer (partitionsOf parts) (s, [])"

text \<open>\<open>Poll\<close> for one fetched partition; \<open>None\<close> while the channel is full. A partition with an error is only logged.\<close>

definition pollPartition :: "tp \<Rightarrow> bool \<Rightarrow> (nat \<times> 'r) list \<Rightarrow> ('w, 'r) KafkaClient \<Rightarrow> (('w, 'r) KafkaClient) res option" where
  "pollPartition t err recs s =
     (if err then Some (Inr s)
      else case mget (kcConsumers s) t of
             None \<Rightarrow> Some (Inl NilDeref)
           | Some pc \<Rightarrow>
               if length (pcRecs pc) < 5 then Some (Inr (s\<lparr> kcConsumers := mput t (pc\<lparr> pcRecs := pcRecs pc @ [recs] \<rparr>) (kcConsumers s) \<rparr>))
               else None)"

text \<open>
  The branch of \<open>consume\<close> that takes records from the channel: the calls of the worker, and the offset that is marked.
\<close>

definition consumeRecs :: "('w, 'r) pconsumer \<Rightarrow> (('w, 'r) pconsumer \<times> (tp \<times> nat \<times> 'r \<times> 'w) list \<times> nat option) option" where
  "consumeRecs pc =
     (case pcRecs pc of
        [] \<Rightarrow> None
      | p # ps \<Rightarrow>
          Some (pc\<lparr> pcRecs := ps \<rparr>, map (\<lambda>(i, r). (pcTp pc, i, r, pcWorker pc)) p,
                if p = [] then None else Some (Suc (fst (last p)))))"

definition consumeQuit :: "('w, 'r) pconsumer \<Rightarrow> ('w, 'r) pconsumer option" where
  "consumeQuit pc = (if pcQuit pc \<and> \<not> pcDone pc then Some (pc\<lparr> pcDone := True \<rparr>) else None)"

section \<open>Runs\<close>

text \<open>
  A client at work: the consumers that are being killed, the partitions that \<open>PollRecords\<close> has returned and that are not handed on,
  the calls of the workers so far, and what the library keeps of the partitions: which ones it has, which offset comes next, which
  one is marked and which one is committed.
\<close>

record ('w, 'r) KRun =
  kClient :: "('w, 'r) KafkaClient"
  kKilled :: "('w, 'r) pconsumer list"
  kInbox :: "(tp \<times> bool \<times> (nat \<times> 'r) list) list"
  kHandled :: "(tp \<times> nat \<times> 'r \<times> 'w) list"
  kAssigned :: "tp list"
  kNext :: "tp \<Rightarrow> nat"
  kMarked :: "tp \<Rightarrow> nat"
  kCommitted :: "tp \<Rightarrow> nat"

definition consumed :: "('w, 'r) pconsumer \<Rightarrow> (tp \<times> nat \<times> 'r \<times> 'w) list \<Rightarrow> nat option \<Rightarrow> ('w, 'r) KRun \<Rightarrow> ('w, 'r) KRun" where
  "consumed pc calls mark s =
     s\<lparr> kHandled := kHandled s @ calls,
        kMarked := (case mark of None \<Rightarrow> kMarked s | Some i \<Rightarrow> (kMarked s)(pcTp pc := i)) \<rparr>"

inductive kafka_step :: "('w, 'r) KRun \<Rightarrow> ('w, 'r) KRun \<Rightarrow> bool" where
  assign: "kInbox s = [] \<Longrightarrow> kKilled s = [] \<Longrightarrow> distinct (kAssigned s @ partitionsOf parts) \<Longrightarrow> fst ` set parts \<subseteq> set (kcTopics (kClient s)) \<Longrightarrow>
    kafka_step s (s\<lparr> kClient := assigned parts (kClient s), kAssigned := kAssigned s @ partitionsOf parts,
      kNext := override_on (kNext s) (kCommitted s) (set (partitionsOf parts)),
      kMarked := override_on (kMarked s) (kCommitted s) (set (partitionsOf parts)) \<rparr>)"
| fetch: "kInbox s = [] \<Longrightarrow> kKilled s = [] \<Longrightarrow> distinct (map fst ps) \<Longrightarrow>
    (\<And>t err recs. (t, err, recs) \<in> set ps \<Longrightarrow> t \<in> set (kAssigned s) \<and> (err \<longrightarrow> recs = []) \<and> map fst recs = [kNext s t..<kNext s t + length recs]) \<Longrightarrow>
    kafka_step s (s\<lparr> kInbox := ps, kNext := fold (\<lambda>(t, err, recs) n. n(t := n t + length recs)) ps (kNext s) \<rparr>)"
| deliver: "kInbox s = (t, err, recs) # ps \<Longrightarrow> pollPartition t err recs (kClient s) = Some (Inr c) \<Longrightarrow>
    kafka_step s (s\<lparr> kClient := c, kInbox := ps \<rparr>)"
| consume: "mget (kcConsumers (kClient s)) t = Some pc \<Longrightarrow> consumeRecs pc = Some (pc', calls, mark) \<Longrightarrow>
    kafka_step s ((consumed pc calls mark s)\<lparr> kClient := (kClient s)\<lparr> kcConsumers := mput t pc' (kcConsumers (kClient s)) \<rparr> \<rparr>)"
| kill: "kInbox s = [] \<Longrightarrow> kKilled s = [] \<Longrightarrow> distinct (partitionsOf parts) \<Longrightarrow> set (partitionsOf parts) \<subseteq> set (kAssigned s) \<Longrightarrow>
    killConsumers parts (kClient s) = Inr (c, killed) \<Longrightarrow> kafka_step s (s\<lparr> kClient := c, kKilled := killed \<rparr>)"
| consume_killed: "kKilled s = xs @ pc # ys \<Longrightarrow> \<not> pcDone pc \<Longrightarrow> consumeRecs pc = Some (pc', calls, mark) \<Longrightarrow>
    kafka_step s ((consumed pc calls mark s)\<lparr> kKilled := xs @ pc' # ys \<rparr>)"
| quit_killed: "kKilled s = xs @ pc # ys \<Longrightarrow> consumeQuit pc = Some pc' \<Longrightarrow> kafka_step s (s\<lparr> kKilled := xs @ pc' # ys \<rparr>)"
| commit: "kafka_step s (s\<lparr> kCommitted := override_on (kCommitted s) (kMarked s) (set (kAssigned s)) \<rparr>)"
| revoked: "kInbox s = [] \<Longrightarrow> list_all pcDone (kKilled s) \<Longrightarrow> kCommitted s' = override_on (kCommitted s) (kMarked s) (set (kAssigned s)) \<or> kCommitted s' = kCommitted s \<Longrightarrow>
    s' = s\<lparr> kCommitted := kCommitted s', kKilled := [], kAssigned := filter (\<lambda>t. t \<notin> pcTp ` set (kKilled s)) (kAssigned s) \<rparr> \<Longrightarrow>
    kafka_step s s'"

inductive kafka_run :: "('w, 'r) KRun \<Rightarrow> ('w, 'r) KRun \<Rightarrow> bool" for s0 where
  init: "kafka_run s0 s0"
| step: "kafka_run s0 s \<Longrightarrow> kafka_step s s' \<Longrightarrow> kafka_run s0 s'"

end
