(* ===== verification/KafkaProps.thy ===== *)
theory KafkaProps
  imports KafkaClient
begin

text \<open>
  The consumers of the partitions hand every record to the worker of its topic in the order of the partition and lose none:
  an offset is committed only after the worker has had every record before it.
\<close>

section \<open>Records in sequence\<close>

definition handledTo :: "(tp \<Rightarrow> nat) \<Rightarrow> (tp \<times> nat \<times> 'r \<times> 'w) list \<Rightarrow> tp \<Rightarrow> nat \<Rightarrow> bool" where
  "handledTo c0 h t n \<longleftrightarrow> (\<forall>i. c0 t \<le> i \<and> i < n \<longrightarrow> (\<exists>r w. (t, i, r, w) \<in> set h))"

definition in_seq :: "(tp \<Rightarrow> nat) \<Rightarrow> (tp \<times> nat \<times> 'r \<times> 'w) list \<Rightarrow> bool" where
  "in_seq c0 h \<longleftrightarrow> (\<forall>xs t i r w ys. h = xs @ (t, i, r, w) # ys \<longrightarrow> c0 t \<le> i \<and> handledTo c0 xs t i)"

lemma handledTo_mono: "handledTo c0 h t n \<Longrightarrow> handledTo c0 (h @ h') t n"
  by (fastforce simp: handledTo_def)

lemma in_seq_snoc:
  assumes "in_seq c0 h" "handledTo c0 h t i" "c0 t \<le> i"
  shows "in_seq c0 (h @ [(t, i, r, w)])" "handledTo c0 (h @ [(t, i, r, w)]) t (Suc i)"
proof -
  show "in_seq c0 (h @ [(t, i, r, w)])" unfolding in_seq_def
  proof (intro allI impI)
    fix xs t' i' r' w' ys assume e: "h @ [(t, i, r, w)] = xs @ (t', i', r', w') # ys"
    show "c0 t' \<le> i' \<and> handledTo c0 xs t' i'"
    proof (cases ys rule: rev_cases)
      case Nil
      then show ?thesis using e assms(2,3) by auto
    next
      case (snoc zs z)
      then have "h = xs @ (t', i', r', w') # zs" using e by simp
      then show ?thesis using assms(1) unfolding in_seq_def by blast
    qed
  qed
  show "handledTo c0 (h @ [(t, i, r, w)]) t (Suc i)" using assms(2) by (auto simp: handledTo_def less_Suc_eq)
qed

lemma in_seq_batch:
  assumes "in_seq c0 h" "handledTo c0 h t n" "c0 t \<le> n" "map fst recs = [n..<n + length recs]"
  shows "in_seq c0 (h @ map (\<lambda>(i, r). (t, i, r, w)) recs) \<and> handledTo c0 (h @ map (\<lambda>(i, r). (t, i, r, w)) recs) t (n + length recs)"
  using assms
proof (induction recs arbitrary: h n)
  case (Cons x recs)
  obtain i r where x: "x = (i, r)" by (cases x)
  have "[n..<n + length (x # recs)] = n # [Suc n..<Suc n + length recs]" by (simp add: upt_rec)
  with Cons.prems(4) have "map fst (x # recs) = n # [Suc n..<Suc n + length recs]" by simp
  then have i: "i = n" and tl: "map fst recs = [Suc n..<Suc n + length recs]" by (simp_all add: x)
  from Cons.IH [OF in_seq_snoc [OF Cons.prems(1-3)] _ tl] Cons.prems(3) show ?case by (simp add: x i)
qed simp

lemma upt_split:
  assumes "map fst (p @ q) = [m..<n]"
  shows "map fst p = [m..<m + length p] \<and> map fst q = [m + length p..<n]"
proof -
  have l: "length p \<le> n - m" using arg_cong [OF assms, of length] by simp
  have "map fst p = take (length p) [m..<n]" "map fst q = drop (length p) [m..<n]" by (simp_all flip: assms)
  then show ?thesis using l by (cases "m \<le> n") (simp_all add: drop_upt)
qed

section \<open>The operations on the map of consumers\<close>

lemma mget_fold_mput: "mget (fold (\<lambda>t. mput t (f t)) ts m) t = (if t \<in> set ts then Some (f t) else mget m t)"
  by (induction ts arbitrary: m) (simp_all add: gomap_simps)

definition fresh :: "(string, 'w) gomap \<Rightarrow> tp \<Rightarrow> ('w, 'r) pconsumer" where
  "fresh ws t = \<lparr> pcTp = t, pcWorker = the (mget ws (fst t)), pcQuit = False, pcDone = False, pcRecs = [] \<rparr>"

lemma fold_assignPartition:
  assumes "mget ws topic = Some w"
  shows "fold (assignPartition topic w) ps s =
    s\<lparr> kcConsumers := fold (\<lambda>t. mput t (fresh ws t)) (map (Pair topic) ps) (kcConsumers s) \<rparr>"
  using assms by (induction ps arbitrary: s) (simp_all add: assignPartition_def fresh_def)

lemma assigned_simp:
  assumes "kcWorkers s = Some ws" "fst ` set parts \<subseteq> fst ` set ws"
  shows "assigned parts s = s\<lparr> kcConsumers := fold (\<lambda>t. mput t (fresh ws t)) (partitionsOf parts) (kcConsumers s) \<rparr>"
proof -
  let ?f = "\<lambda>(topic, ps) s. case mget ws topic of None \<Rightarrow> s | Some worker \<Rightarrow> fold (assignPartition topic worker) ps s"
  have "fold ?f parts s = s\<lparr> kcConsumers := fold (\<lambda>t. mput t (fresh ws t)) (partitionsOf parts) (kcConsumers s) \<rparr>"
    using assms(2)
  proof (induction parts arbitrary: s)
    case (Cons x parts)
    obtain topic ps where x: "x = (topic, ps)" by fastforce
    then have "mget ws topic \<noteq> None" using Cons.prems by (simp add: map_of_eq_None_iff)
    then obtain w where "mget ws topic = Some w" by blast
    then show ?case using Cons by (simp add: x fold_assignPartition partitionsOf_def)
  qed (simp add: partitionsOf_def)
  then show ?thesis using assms(1) by (simp add: assigned_def)
qed

lemma killConsumers_ok:
  assumes "distinct (partitionsOf parts)" "\<And>t. t \<in> set (partitionsOf parts) \<Longrightarrow> mget (kcConsumers s) t \<noteq> None"
  shows "killConsumers parts s = Inr (s\<lparr> kcConsumers := fold mdel (partitionsOf parts) (kcConsumers s) \<rparr>,
    map (\<lambda>t. (the (mget (kcConsumers s) t))\<lparr> pcQuit := True \<rparr>) (partitionsOf parts))"
proof -
  have "fold_res killConsumer ts (s, killed) = Inr (s\<lparr> kcConsumers := fold mdel ts (kcConsumers s) \<rparr>,
      killed @ map (\<lambda>t. (the (mget (kcConsumers s) t))\<lparr> pcQuit := True \<rparr>) ts)"
    if "distinct ts" "\<And>t. t \<in> set ts \<Longrightarrow> mget (kcConsumers s) t \<noteq> None" for ts killed
    using that
  proof (induction ts arbitrary: s killed)
    case (Cons t ts)
    obtain pc where pc: "mget (kcConsumers s) t = Some pc" using Cons.prems(2) by fastforce
    have "\<And>t'. t' \<in> set ts \<Longrightarrow> mget (mdel t (kcConsumers s)) t' = mget (kcConsumers s) t'" using Cons.prems(1) by (auto simp: gomap_simps)
    moreover have "killConsumer t (s, killed) = Inr (s\<lparr> kcConsumers := mdel t (kcConsumers s) \<rparr>, killed @ [pc\<lparr> pcQuit := True \<rparr>])"
      using pc by (simp add: killConsumer_def)
    ultimately show ?case using Cons.prems pc by (simp add: Cons.IH cong: map_cong)
  qed simp
  from this [OF assms] show ?thesis by (simp add: killConsumers_def)
qed

lemma mget_fold_mdel: "mget (fold mdel ts m) t = (if t \<in> set ts then None else mget m t)"
  by (induction ts arbitrary: m) (simp_all add: gomap_simps)

section \<open>The invariant\<close>

definition inboxOf :: "(tp \<times> bool \<times> (nat \<times> 'r) list) list \<Rightarrow> tp \<Rightarrow> (nat \<times> 'r) list" where
  "inboxOf inbox t = concat (map (\<lambda>(t', err, recs). if t' = t then recs else []) inbox)"

text \<open>What holds of an assigned partition, and of the records that wait in a channel of a consumer.\<close>

definition part_ok :: "(tp \<Rightarrow> nat) \<Rightarrow> ('w, 'r) KRun \<Rightarrow> tp \<Rightarrow> bool" where
  "part_ok c0 s t \<longleftrightarrow> c0 t \<le> kMarked s t \<and> kMarked s t \<le> kNext s t \<and> handledTo c0 (kHandled s) t (kMarked s t) \<and>
     (mget (kcConsumers (kClient s)) t \<noteq> None \<or> t \<in> pcTp ` set (kKilled s))"

definition waits :: "('w, 'r) KRun \<Rightarrow> tp \<Rightarrow> (nat \<times> 'r) list \<Rightarrow> bool" where
  "waits s t recs \<longleftrightarrow> map fst recs = [kMarked s t..<kNext s t]"

definition live_ok :: "(string, 'w) gomap \<Rightarrow> ('w, 'r) KRun \<Rightarrow> tp \<Rightarrow> ('w, 'r) pconsumer \<Rightarrow> bool" where
  "live_ok ws s t pc \<longleftrightarrow> pcTp pc = t \<and> \<not> pcQuit pc \<and> \<not> pcDone pc \<and> length (pcRecs pc) \<le> 5 \<and> t \<in> set (kAssigned s) \<and>
     t \<notin> pcTp ` set (kKilled s) \<and> mget ws (fst t) = Some (pcWorker pc) \<and> waits s t (concat (pcRecs pc) @ inboxOf (kInbox s) t)"

definition killed_ok :: "(string, 'w) gomap \<Rightarrow> ('w, 'r) KRun \<Rightarrow> ('w, 'r) pconsumer \<Rightarrow> bool" where
  "killed_ok ws s pc \<longleftrightarrow> pcQuit pc \<and> pcTp pc \<in> set (kAssigned s) \<and> mget ws (fst (pcTp pc)) = Some (pcWorker pc) \<and>
     (\<not> pcDone pc \<longrightarrow> waits s (pcTp pc) (concat (pcRecs pc)))"

definition kafka_inv :: "(string, 'w) gomap \<Rightarrow> (tp \<Rightarrow> nat) \<Rightarrow> ('w, 'r) KRun \<Rightarrow> bool" where
  "kafka_inv ws c0 s \<longleftrightarrow>
     kcWorkers (kClient s) = Some ws \<and> set (kcTopics (kClient s)) \<subseteq> fst ` set ws \<and>
     distinct (map pcTp (kKilled s)) \<and> (kInbox s \<noteq> [] \<longrightarrow> kKilled s = []) \<and>
     (\<forall>(t, err, recs) \<in> set (kInbox s). t \<in> set (kAssigned s) \<and> (err \<longrightarrow> recs = [])) \<and>
     in_seq c0 (kHandled s) \<and> (\<forall>(t, i, r, w) \<in> set (kHandled s). mget ws (fst t) = Some w) \<and>
     (\<forall>t. c0 t \<le> kCommitted s t \<and> handledTo c0 (kHandled s) t (kCommitted s t)) \<and>
     (\<forall>t \<in> set (kAssigned s). part_ok c0 s t) \<and>
     (\<forall>t pc. mget (kcConsumers (kClient s)) t = Some pc \<longrightarrow> live_ok ws s t pc) \<and>
     (\<forall>pc \<in> set (kKilled s). killed_ok ws s pc)"

lemma kafka_invD:
  assumes "kafka_inv ws c0 s"
  shows "t \<in> set (kAssigned s) \<Longrightarrow> part_ok c0 s t" "mget (kcConsumers (kClient s)) t = Some pc \<Longrightarrow> live_ok ws s t pc"
    "pc \<in> set (kKilled s) \<Longrightarrow> killed_ok ws s pc" "handledTo c0 (kHandled s) t (kCommitted s t)" "c0 t \<le> kCommitted s t"
    "kcWorkers (kClient s) = Some ws" "set (kcTopics (kClient s)) \<subseteq> fst ` set ws"
  using assms by (simp_all add: kafka_inv_def del: split_paired_All)

lemma consumeRecs_ok:
  assumes "consumeRecs pc = Some (pc', calls, mark)" "waits s (pcTp pc) (concat (pcRecs pc) @ q)" "part_ok c0 s (pcTp pc)" "in_seq c0 (kHandled s)"
  defines "s' \<equiv> consumed pc calls mark s"
  shows "in_seq c0 (kHandled s')" "\<And>t n. handledTo c0 (kHandled s) t n \<Longrightarrow> handledTo c0 (kHandled s') t n"
    "waits s' (pcTp pc) (concat (pcRecs pc') @ q)" "c0 (pcTp pc) \<le> kMarked s' (pcTp pc)" "kMarked s' (pcTp pc) \<le> kNext s (pcTp pc)"
    "handledTo c0 (kHandled s') (pcTp pc) (kMarked s' (pcTp pc))" "\<And>t. t \<noteq> pcTp pc \<Longrightarrow> kMarked s' t = kMarked s t"
    "kNext s' = kNext s" "pcTp pc' = pcTp pc" "pcWorker pc' = pcWorker pc" "pcQuit pc' = pcQuit pc" "pcDone pc' = pcDone pc"
    "length (pcRecs pc') \<le> length (pcRecs pc)" "\<forall>(t, i, r, w) \<in> set calls. t = pcTp pc \<and> w = pcWorker pc"
proof -
  let ?t = "pcTp pc"
  obtain p ps where r: "pcRecs pc = p # ps" using assms(1) by (auto simp: consumeRecs_def split: list.splits)
  have c: "pc' = pc\<lparr> pcRecs := ps \<rparr>" "calls = map (\<lambda>(i, r). (?t, i, r, pcWorker pc)) p" "mark = (if p = [] then None else Some (Suc (fst (last p))))"
    using assms(1) by (simp_all add: consumeRecs_def r split: if_splits)
  have sp: "map fst p = [kMarked s ?t..<kMarked s ?t + length p]" "map fst (concat ps @ q) = [kMarked s ?t + length p..<kNext s ?t]"
    using assms(2) upt_split [of p "concat ps @ q"] by (auto simp: waits_def r)
  have m: "kMarked s' ?t = kMarked s ?t + length p"
  proof (cases "p = []")
    case False
    then have "fst (last p) = last (map fst p)" by (simp add: last_map)
    also have "\<dots> = kMarked s ?t + length p - 1" using False by (subst sp(1)) simp
    finally show ?thesis using False by (simp add: s'_def consumed_def c(3))
  qed (simp add: s'_def consumed_def c(3))
  have b: "in_seq c0 (kHandled s @ calls) \<and> handledTo c0 (kHandled s @ calls) ?t (kMarked s ?t + length p)"
    unfolding c(2) using assms(3,4) sp(1) by (intro in_seq_batch) (simp_all add: part_ok_def)
  have le: "kMarked s ?t + length p \<le> kNext s ?t"
  proof -
    have "kMarked s ?t \<le> kNext s ?t" using assms(3) by (simp add: part_ok_def)
    then show ?thesis using arg_cong [OF assms(2) [unfolded waits_def], of length] by (simp add: r)
  qed
  show "in_seq c0 (kHandled s')" "handledTo c0 (kHandled s') ?t (kMarked s' ?t)" using b m by (simp_all add: s'_def consumed_def)
  show "handledTo c0 (kHandled s) t n \<Longrightarrow> handledTo c0 (kHandled s') t n" for t n by (simp add: s'_def consumed_def handledTo_mono)
  show "waits s' ?t (concat (pcRecs pc') @ q)" using sp(2) m by (simp add: waits_def c(1) s'_def consumed_def)
  show "c0 ?t \<le> kMarked s' ?t" "kMarked s' ?t \<le> kNext s ?t" using m le assms(3) by (simp_all add: part_ok_def)
  show "t \<noteq> ?t \<Longrightarrow> kMarked s' t = kMarked s t" for t by (simp add: s'_def consumed_def split: option.splits)
qed (use assms(1) in \<open>auto simp: s'_def consumed_def consumeRecs_def split: list.splits\<close>)

lemma inv_assign:
  assumes inv: "kafka_inv ws c0 s" and idle: "kInbox s = []" "kKilled s = []" and d: "distinct (kAssigned s @ partitionsOf parts)"
    and sub: "fst ` set parts \<subseteq> set (kcTopics (kClient s))"
  shows "kafka_inv ws c0 (s\<lparr> kClient := assigned parts (kClient s), kAssigned := kAssigned s @ partitionsOf parts,
      kNext := override_on (kNext s) (kCommitted s) (set (partitionsOf parts)),
      kMarked := override_on (kMarked s) (kCommitted s) (set (partitionsOf parts)) \<rparr>)" (is "kafka_inv ws c0 ?s")
proof -
  let ?new = "partitionsOf parts"
  have sub': "fst ` set parts \<subseteq> fst ` set ws" using inv sub by (auto simp: kafka_inv_def)
  have c: "assigned parts (kClient s) = (kClient s)\<lparr> kcConsumers := fold (\<lambda>t. mput t (fresh ws t)) ?new (kcConsumers (kClient s)) \<rparr>"
    using inv by (intro assigned_simp [OF _ sub']) (simp add: kafka_inv_def)
  have w: "\<exists>w. mget ws (fst t) = Some w" if "t \<in> set ?new" for t
  proof -
    have "fst t \<in> fst ` set parts" using that by (force simp: partitionsOf_def)
    then have "fst t \<in> fst ` set ws" using sub' by (rule subsetD [rotated])
    then have "mget ws (fst t) \<noteq> None" by (simp add: map_of_eq_None_iff)
    then show ?thesis by simp
  qed
  have part: "part_ok c0 ?s t" if "t \<in> set (kAssigned ?s)" for t
  proof (cases "t \<in> set ?new")
    case True
    then show ?thesis using kafka_invD(4,5) [OF inv, of t] by (simp add: part_ok_def c mget_fold_mput)
  next
    case False
    then have "part_ok c0 s t" using that kafka_invD(1) [OF inv] by simp
    then show ?thesis using False by (simp add: part_ok_def c mget_fold_mput idle)
  qed
  have live: "live_ok ws ?s t pc" if pc: "mget (kcConsumers (kClient ?s)) t = Some pc" for t pc
  proof (cases "t \<in> set ?new")
    case True
    then have "pc = fresh ws t" using pc by (simp add: c mget_fold_mput)
    then show ?thesis using w [OF True] True by (auto simp: fresh_def live_ok_def waits_def idle inboxOf_def)
  next
    case False
    then show ?thesis using pc kafka_invD(2) [OF inv, of t pc] by (simp add: c mget_fold_mput live_ok_def waits_def)
  qed
  show ?thesis unfolding kafka_inv_def
  proof (intro conjI)
    show "\<forall>t \<in> set (kAssigned ?s). part_ok c0 ?s t" using part by blast
    show "\<forall>t pc. mget (kcConsumers (kClient ?s)) t = Some pc \<longrightarrow> live_ok ws ?s t pc" using live by blast
  qed (use inv in \<open>simp_all add: kafka_inv_def c idle\<close>)
qed

lemma next_fold: "fold (\<lambda>(t, err, recs) n. n(t := n t + length recs)) ps n t = n t + length (inboxOf ps t)"
  by (induction ps arbitrary: n) (auto simp: inboxOf_def)

lemma inboxOf_distinct:
  "distinct (map fst ps) \<Longrightarrow> inboxOf ps t = (case mget ps t of None \<Rightarrow> [] | Some (err, recs) \<Rightarrow> recs)"
proof (induction ps)
  case (Cons x ps)
  then have "mget ps (fst x) = None" by (simp add: map_of_eq_None_iff)
  then show ?case using Cons by (cases x) (auto simp: inboxOf_def)
qed (simp add: inboxOf_def)

lemma inv_fetch:
  assumes inv: "kafka_inv ws c0 s" and idle: "kInbox s = []" "kKilled s = []" and d: "distinct (map fst ps)"
    and ps: "\<And>t err recs. (t, err, recs) \<in> set ps \<Longrightarrow>
      t \<in> set (kAssigned s) \<and> (err \<longrightarrow> recs = []) \<and> map fst recs = [kNext s t..<kNext s t + length recs]"
  shows "kafka_inv ws c0 (s\<lparr> kInbox := ps, kNext := fold (\<lambda>(t, err, recs) n. n(t := n t + length recs)) ps (kNext s) \<rparr>)" (is "kafka_inv ws c0 ?s")
proof -
  have i: "map fst (inboxOf ps t) = [kNext s t..<kNext s t + length (inboxOf ps t)]" for t
  proof (cases "mget ps t")
    case (Some er)
    then have "(t, fst er, snd er) \<in> set ps" using map_of_SomeD by fastforce
    then show ?thesis using ps Some by (cases er) (simp add: inboxOf_distinct [OF d])
  qed (simp add: inboxOf_distinct [OF d])
  have live: "live_ok ws ?s t pc" if pc: "mget (kcConsumers (kClient s)) t = Some pc" for t pc
  proof -
    have l: "live_ok ws s t pc" by (rule kafka_invD(2) [OF inv pc])
    then have "part_ok c0 s t" by (intro kafka_invD(1) [OF inv]) (simp add: live_ok_def)
    then have "kMarked s t \<le> kNext s t" by (simp add: part_ok_def)
    then have "[kMarked s t..<kNext s t + length (inboxOf ps t)] = [kMarked s t..<kNext s t] @ [kNext s t..<kNext s t + length (inboxOf ps t)]"
      by (rule upt_add_eq_append)
    then show ?thesis using l i by (simp add: live_ok_def waits_def idle inboxOf_def [of "[]"] next_fold)
  qed
  have part: "part_ok c0 ?s t" if "t \<in> set (kAssigned s)" for t
    using kafka_invD(1) [OF inv that] by (simp add: part_ok_def next_fold)
  show ?thesis unfolding kafka_inv_def
  proof (intro conjI)
    show "\<forall>(t, err, recs) \<in> set (kInbox ?s). t \<in> set (kAssigned ?s) \<and> (err \<longrightarrow> recs = [])" 
    proof
      fix x assume "x \<in> set (kInbox ?s)"
      then show "case x of (t, err, recs) \<Rightarrow> t \<in> set (kAssigned ?s) \<and> (err \<longrightarrow> recs = [])"
        using ps [of "fst x" "fst (snd x)" "snd (snd x)"] by (simp add: case_prod_beta')
    qed
    show "\<forall>t \<in> set (kAssigned ?s). part_ok c0 ?s t" using part by simp
    show "\<forall>t pc. mget (kcConsumers (kClient ?s)) t = Some pc \<longrightarrow> live_ok ws ?s t pc" using live by simp
  qed (use inv in \<open>simp_all add: kafka_inv_def idle\<close>)
qed

lemma inv_deliver:
  assumes inv: "kafka_inv ws c0 s" and i: "kInbox s = (t, err, recs) # ps" and p: "pollPartition t err recs (kClient s) = Some (Inr c)"
  shows "kafka_inv ws c0 (s\<lparr> kClient := c, kInbox := ps \<rparr>)" (is "kafka_inv ws c0 ?s")
proof -
  have k: "kKilled s = []" using inv i by (simp add: kafka_inv_def)
  have e: "err \<Longrightarrow> recs = []" using inv i by (simp add: kafka_inv_def)
  have b: "inboxOf (kInbox s) t' = (if t' = t then recs @ inboxOf ps t' else inboxOf ps t')" for t' by (simp add: i inboxOf_def)
  have c: "kcWorkers c = kcWorkers (kClient s)" "kcTopics c = kcTopics (kClient s)"
    "mget (kcConsumers c) t' = None \<longleftrightarrow> mget (kcConsumers (kClient s)) t' = None" for t'
    using p by (auto simp: pollPartition_def gomap_simps split: if_splits option.splits)
  have live: "live_ok ws ?s t' pc'" if pc': "mget (kcConsumers c) t' = Some pc'" for t' pc'
  proof -
    have "mget (kcConsumers (kClient s)) t' \<noteq> None" using c(3) pc' by (metis option.distinct(1))
    then obtain pc where pc: "mget (kcConsumers (kClient s)) t' = Some pc" by blast
    show ?thesis using p kafka_invD(2) [OF inv pc] pc' pc e
      by (cases "t' = t") (auto simp: pollPartition_def gomap_simps live_ok_def waits_def b split: if_splits option.splits)
  qed
  have part: "part_ok c0 ?s t'" if "t' \<in> set (kAssigned s)" for t'
    using kafka_invD(1) [OF inv that] c(3) [of t'] by (simp add: part_ok_def)
  show ?thesis unfolding kafka_inv_def
  proof (intro conjI)
    show "\<forall>t \<in> set (kAssigned ?s). part_ok c0 ?s t" using part by simp
    show "\<forall>t pc. mget (kcConsumers (kClient ?s)) t = Some pc \<longrightarrow> live_ok ws ?s t pc" using live by simp
  qed (use inv i k c in \<open>simp_all add: kafka_inv_def\<close>)
qed

lemma inv_kill:
  assumes inv: "kafka_inv ws c0 s" and idle: "kInbox s = []" "kKilled s = []" and d: "distinct (partitionsOf parts)"
    and sub: "set (partitionsOf parts) \<subseteq> set (kAssigned s)"
  shows "\<exists>c killed. killConsumers parts (kClient s) = Inr (c, killed) \<and> kafka_inv ws c0 (s\<lparr> kClient := c, kKilled := killed \<rparr>)"
proof -
  let ?ts = "partitionsOf parts" and ?m = "kcConsumers (kClient s)"
  let ?c = "(kClient s)\<lparr> kcConsumers := fold mdel ?ts ?m \<rparr>"
  let ?killed = "map (\<lambda>t. (the (mget ?m t))\<lparr> pcQuit := True \<rparr>) ?ts"
  let ?s = "s\<lparr> kClient := ?c, kKilled := ?killed \<rparr>"
  have ex: "mget ?m t \<noteq> None" if "t \<in> set (kAssigned s)" for t
    using kafka_invD(1) [OF inv that] by (simp add: part_ok_def idle)
  have k: "killConsumers parts (kClient s) = Inr (?c, ?killed)"
    by (rule killConsumers_ok [OF d]) (use ex sub in blast)
  have pc: "live_ok ws s t (the (mget ?m t))" if "t \<in> set ?ts" for t
    using ex [of t] that sub by (intro kafka_invD(2) [OF inv]) auto
  then have tp: "map pcTp ?killed = ?ts" by (simp add: live_ok_def map_idI)
  have tps: "pcTp ` set ?killed = set ?ts" using arg_cong [OF tp, of set] by (simp only: set_map)
  have "killed_ok ws ?s ((the (mget ?m t))\<lparr> pcQuit := True \<rparr>)" if "t \<in> set ?ts" for t
    using pc [OF that] by (simp add: live_ok_def killed_ok_def waits_def idle inboxOf_def)
  then have "\<forall>x \<in> set ?killed. killed_ok ws ?s x" by (simp only: set_map ball_simps) blast
  moreover have "live_ok ws ?s t x" if "mget (kcConsumers ?c) t = Some x" for t x
  proof -
    have n: "t \<notin> set ?ts" and x: "mget ?m t = Some x" using that by (simp_all add: mget_fold_mdel split: if_splits)
    show ?thesis using kafka_invD(2) [OF inv x] n tps x by (simp add: live_ok_def waits_def)
  qed
  moreover have "part_ok c0 ?s t" if "t \<in> set (kAssigned s)" for t
    using kafka_invD(1) [OF inv that] ex [OF that] tps by (simp add: part_ok_def mget_fold_mdel)
  moreover have "distinct (map pcTp ?killed)" using d tp by simp
  ultimately have "kafka_inv ws c0 ?s" using inv unfolding kafka_inv_def by (simp add: idle)
  then show ?thesis using k by blast
qed

lemma inv_revoked:
  assumes inv: "kafka_inv ws c0 s" and i: "kInbox s = []" and c: "kc = override_on (kCommitted s) (kMarked s) (set (kAssigned s)) \<or> kc = kCommitted s"
  shows "kafka_inv ws c0 (s\<lparr> kCommitted := kc, kKilled := [], kAssigned := filter (\<lambda>t. t \<notin> pcTp ` set (kKilled s)) (kAssigned s) \<rparr>)"
    (is "kafka_inv ws c0 ?s")
proof -
  have co: "c0 t \<le> kc t \<and> handledTo c0 (kHandled s) t (kc t)" for t
    using c kafka_invD(4,5) [OF inv, of t] kafka_invD(1) [OF inv, of t] by (auto simp: override_on_def part_ok_def)
  have live: "live_ok ws ?s t pc" if "mget (kcConsumers (kClient s)) t = Some pc" for t pc
    using kafka_invD(2) [OF inv that] by (simp add: live_ok_def waits_def)
  have part: "part_ok c0 ?s t" if "t \<in> set (kAssigned ?s)" for t
    using kafka_invD(1) [OF inv, of t] that by (simp add: part_ok_def)
  show ?thesis unfolding kafka_inv_def
  proof (intro conjI)
    show "\<forall>t. c0 t \<le> kCommitted ?s t \<and> handledTo c0 (kHandled ?s) t (kCommitted ?s t)" using co by simp
    show "\<forall>t \<in> set (kAssigned ?s). part_ok c0 ?s t" using part by blast
    show "\<forall>t pc. mget (kcConsumers (kClient ?s)) t = Some pc \<longrightarrow> live_ok ws ?s t pc" using live by simp
  qed (use inv i in \<open>simp_all add: kafka_inv_def\<close>)
qed

text \<open>What a consumer that has worked leaves of the other partitions.\<close>

lemma inv_consumed:
  assumes inv: "kafka_inv ws c0 s" and pc: "consumeRecs pc = Some (pc', calls, mark)" "waits s (pcTp pc) (concat (pcRecs pc) @ q)"
    "pcTp pc \<in> set (kAssigned s)" "mget ws (fst (pcTp pc)) = Some (pcWorker pc)"
    and s': "kHandled s' = kHandled (consumed pc calls mark s)" "kMarked s' = kMarked (consumed pc calls mark s)" "kNext s' = kNext s"
      "kInbox s' = kInbox s" "kCommitted s' = kCommitted s" "kAssigned s' = kAssigned s" "kcWorkers (kClient s') = kcWorkers (kClient s)"
      "kcTopics (kClient s') = kcTopics (kClient s)" "map pcTp (kKilled s') = map pcTp (kKilled s)"
      "\<And>t. mget (kcConsumers (kClient s')) t = None \<longleftrightarrow> mget (kcConsumers (kClient s)) t = None"
    and live: "\<And>t x. mget (kcConsumers (kClient s')) t = Some x \<Longrightarrow> live_ok ws s' t x"
    and killed: "\<And>x. x \<in> set (kKilled s') \<Longrightarrow> killed_ok ws s' x"
  shows "kafka_inv ws c0 s'"
proof -
  have p: "part_ok c0 s (pcTp pc)" by (rule kafka_invD(1) [OF inv pc(3)])
  have sq: "in_seq c0 (kHandled s)" using inv by (simp add: kafka_inv_def)
  note c = consumeRecs_ok [OF pc(1,2) p sq]
  have tps: "pcTp ` set (kKilled s') = pcTp ` set (kKilled s)" using s'(9) by (metis set_map)
  have part: "part_ok c0 s' t" if "t \<in> set (kAssigned s)" for t
  proof (cases "t = pcTp pc")
    case True
    then show ?thesis using c(4-6) kafka_invD(1) [OF inv that] by (simp add: part_ok_def s' tps)
  next
    case False
    then show ?thesis using kafka_invD(1) [OF inv that] c(2) c(7) [OF False] by (simp add: part_ok_def s' tps)
  qed
  have "(kInbox s' \<noteq> [] \<longrightarrow> kKilled s' = []) \<longleftrightarrow> (kInbox s \<noteq> [] \<longrightarrow> kKilled s = [])" using s'(9) by (auto simp: s'(4))
  moreover have "\<forall>(t, i, r, w) \<in> set (kHandled s'). mget ws (fst t) = Some w"
  proof
    fix x assume "x \<in> set (kHandled s')"
    then have "x \<in> set (kHandled s) \<or> x \<in> set calls" by (auto simp: s'(1) consumed_def)
    then show "case x of (t, i, r, w) \<Rightarrow> mget ws (fst t) = Some w"
    proof
      assume "x \<in> set (kHandled s)"
      then show ?thesis using inv by (simp add: kafka_inv_def)
    next
      assume "x \<in> set calls"
      then have "case x of (t, i, r, w) \<Rightarrow> t = pcTp pc \<and> w = pcWorker pc" using c(14) by blast
      then show ?thesis using pc(4) by (simp add: case_prod_beta')
    qed
  qed
  moreover have "\<forall>t. c0 t \<le> kCommitted s' t \<and> handledTo c0 (kHandled s') t (kCommitted s' t)"
    using kafka_invD(4,5) [OF inv] c(2) by (simp add: s')
  moreover have "\<forall>t \<in> set (kAssigned s'). part_ok c0 s' t" using part by (simp add: s')
  moreover have "\<forall>t x. mget (kcConsumers (kClient s')) t = Some x \<longrightarrow> live_ok ws s' t x" using live by blast
  moreover have "in_seq c0 (kHandled s')" using c(1) by (simp add: s')
  moreover have "distinct (map pcTp (kKilled s'))" using inv by (simp add: s' kafka_inv_def)
  ultimately show ?thesis using inv killed unfolding kafka_inv_def s'(4-8) by simp
qed

lemma inv_consume:
  assumes inv: "kafka_inv ws c0 s" and m: "mget (kcConsumers (kClient s)) t = Some pc" and r: "consumeRecs pc = Some (pc', calls, mark)"
  shows "kafka_inv ws c0 ((consumed pc calls mark s)\<lparr> kClient := (kClient s)\<lparr> kcConsumers := mput t pc' (kcConsumers (kClient s)) \<rparr> \<rparr>)"
    (is "kafka_inv ws c0 ?s")
proof -
  have l: "live_ok ws s t pc" by (rule kafka_invD(2) [OF inv m])
  then have t: "pcTp pc = t" "waits s (pcTp pc) (concat (pcRecs pc) @ inboxOf (kInbox s) t)" "pcTp pc \<in> set (kAssigned s)"
    "mget ws (fst (pcTp pc)) = Some (pcWorker pc)" by (simp_all add: live_ok_def)
  have sq: "in_seq c0 (kHandled s)" using inv by (simp add: kafka_inv_def)
  note c = consumeRecs_ok [OF r t(2) kafka_invD(1) [OF inv t(3)] sq]
  note cd = consumed_def
  show ?thesis
  proof (rule inv_consumed [OF inv r t(2-4)])
    fix t' x assume x: "mget (kcConsumers (kClient ?s)) t' = Some x"
    show "live_ok ws ?s t' x"
    proof (cases "t' = t")
      case True
      then have "x = pc'" using x by (simp add: gomap_simps)
      then show ?thesis using True l c(3) c(9-13) t(1) by (simp add: live_ok_def waits_def cd)
    next
      case False
      then have "mget (kcConsumers (kClient s)) t' = Some x" using x by (simp add: gomap_simps)
      then show ?thesis using kafka_invD(2) [OF inv] False c(7) [of t'] t(1) by (simp add: live_ok_def waits_def cd)
    qed
  next
    fix x assume x: "x \<in> set (kKilled ?s)"
    then have "pcTp x \<in> pcTp ` set (kKilled s)" by (intro imageI) (simp add: cd)
    then have "pcTp x \<noteq> pcTp pc" using l by (metis live_ok_def)
    then show "killed_ok ws ?s x" using kafka_invD(3) [OF inv, of x] x c(7) [of "pcTp x"] by (simp add: killed_ok_def waits_def cd)
  qed (use m in \<open>auto simp: cd gomap_simps\<close>)
qed

lemma inv_consume_killed:
  assumes inv: "kafka_inv ws c0 s" and m: "kKilled s = xs @ pc # ys" "\<not> pcDone pc" and r: "consumeRecs pc = Some (pc', calls, mark)"
  shows "kafka_inv ws c0 ((consumed pc calls mark s)\<lparr> kKilled := xs @ pc' # ys \<rparr>)" (is "kafka_inv ws c0 ?s")
proof -
  have l: "killed_ok ws s pc" by (rule kafka_invD(3) [OF inv]) (simp add: m)
  then have t: "waits s (pcTp pc) (concat (pcRecs pc) @ [])" "pcTp pc \<in> set (kAssigned s)" "mget ws (fst (pcTp pc)) = Some (pcWorker pc)"
    using m(2) by (simp_all add: killed_ok_def)
  have sq: "in_seq c0 (kHandled s)" using inv by (simp add: kafka_inv_def)
  note c = consumeRecs_ok [OF r t(1) kafka_invD(1) [OF inv t(2)] sq]
  note cd = consumed_def
  have d: "distinct (map pcTp (xs @ pc # ys))" using inv m by (simp add: kafka_inv_def)
  have tps: "pcTp ` set (xs @ pc' # ys) = pcTp ` set (kKilled s)" using c(9) m by simp
  show ?thesis
  proof (rule inv_consumed [OF inv r t])
    fix t' x assume "mget (kcConsumers (kClient ?s)) t' = Some x"
    then have l': "live_ok ws s t' x" using kafka_invD(2) [OF inv] by (simp add: cd)
    moreover have "pcTp pc \<in> pcTp ` set (kKilled s)" by (intro imageI) (simp add: m)
    ultimately have "t' \<noteq> pcTp pc" by (metis live_ok_def)
    then show "live_ok ws ?s t' x" using l' c(7) [of t'] c(9) m by (simp add: live_ok_def waits_def cd)
  next
    fix x assume "x \<in> set (kKilled ?s)"
    then have "x = pc' \<or> x \<in> set xs \<union> set ys" by auto
    moreover have "pcTp x \<noteq> pcTp pc" if "x \<in> set xs \<union> set ys"
    proof -
      have "pcTp pc \<notin> pcTp ` (set xs \<union> set ys)" using d by (simp add: image_Un)
      then show ?thesis using imageI [OF that, of pcTp] by metis
    qed
    ultimately consider "x = pc'" | "x \<in> set (kKilled s)" "pcTp x \<noteq> pcTp pc" using m by auto
    then show "killed_ok ws ?s x"
    proof cases
      case 1
      then show ?thesis using l c(3) c(9-12) by (simp add: killed_ok_def waits_def cd)
    next
      case 2
      then show ?thesis using kafka_invD(3) [OF inv, of x] c(7) [of "pcTp x"] by (simp add: killed_ok_def waits_def cd)
    qed
  qed (use m c(9) in \<open>auto simp: cd\<close>)
qed

lemma inv_quit:
  assumes inv: "kafka_inv ws c0 s" and m: "kKilled s = xs @ pc # ys" and q: "consumeQuit pc = Some pc'"
  shows "kafka_inv ws c0 (s\<lparr> kKilled := xs @ pc' # ys \<rparr>)" (is "kafka_inv ws c0 ?s")
proof -
  have p: "pc' = pc\<lparr> pcDone := True \<rparr>" using q by (simp add: consumeQuit_def split: if_splits)
  have tps: "pcTp ` set (kKilled ?s) = pcTp ` set (kKilled s)" by (simp add: m p)
  have k: "killed_ok ws ?s x" if "x \<in> set (kKilled ?s)" for x
  proof -
    have "x \<in> set (kKilled s) \<or> x = pc'" using that by (auto simp: m)
    then show ?thesis using kafka_invD(3) [OF inv, of x] kafka_invD(3) [OF inv, of pc] by (auto simp: killed_ok_def waits_def p m)
  qed
  have live: "live_ok ws ?s t x" if "mget (kcConsumers (kClient s)) t = Some x" for t x
    using kafka_invD(2) [OF inv that] tps by (simp add: live_ok_def waits_def)
  have part: "part_ok c0 ?s t" if "t \<in> set (kAssigned s)" for t
    using kafka_invD(1) [OF inv that] tps by (simp add: part_ok_def)
  show ?thesis unfolding kafka_inv_def
  proof (intro conjI)
    show "\<forall>t \<in> set (kAssigned ?s). part_ok c0 ?s t" using part by simp
    show "\<forall>t x. mget (kcConsumers (kClient ?s)) t = Some x \<longrightarrow> live_ok ws ?s t x" using live by simp
    show "\<forall>x \<in> set (kKilled ?s). killed_ok ws ?s x" using k by blast
  qed (use inv in \<open>simp_all add: kafka_inv_def m p\<close>)
qed

lemma inv_commit:
  assumes inv: "kafka_inv ws c0 s"
  shows "kafka_inv ws c0 (s\<lparr> kCommitted := override_on (kCommitted s) (kMarked s) (set (kAssigned s)) \<rparr>)" (is "kafka_inv ws c0 ?s")
proof -
  have co: "c0 t \<le> kCommitted ?s t \<and> handledTo c0 (kHandled s) t (kCommitted ?s t)" for t
    using kafka_invD(4,5) [OF inv, of t] kafka_invD(1) [OF inv, of t] by (simp add: override_on_def part_ok_def)
  show ?thesis unfolding kafka_inv_def
  proof (intro conjI)
    show "\<forall>t. c0 t \<le> kCommitted ?s t \<and> handledTo c0 (kHandled ?s) t (kCommitted ?s t)" using co by simp
    show "\<forall>t \<in> set (kAssigned ?s). part_ok c0 ?s t" using kafka_invD(1) [OF inv] by (simp add: part_ok_def)
    show "\<forall>t x. mget (kcConsumers (kClient ?s)) t = Some x \<longrightarrow> live_ok ws ?s t x" using kafka_invD(2) [OF inv] by (simp add: live_ok_def waits_def)
    show "\<forall>x \<in> set (kKilled ?s). killed_ok ws ?s x" using kafka_invD(3) [OF inv] by (simp add: killed_ok_def waits_def)
  qed (use inv in \<open>simp_all add: kafka_inv_def\<close>)
qed

lemma kafka_step_inv:
  assumes "kafka_step s s'" "kafka_inv ws c0 s"
  shows "kafka_inv ws c0 s'"
  using assms
proof (induction rule: kafka_step.induct)
  case (assign s parts)
  then show ?case by (intro inv_assign)
next
  case (fetch s ps)
  then show ?case by (intro inv_fetch) blast+
next
  case (kill s parts c killed)
  then show ?case using inv_kill [OF kill(6,1-4)] by force
next
  case (revoked s s')
  show ?case by (subst revoked(4)) (rule inv_revoked [OF revoked(5,1,3)])
next
  case (deliver s t err recs ps c)
  show ?case by (rule inv_deliver [OF deliver(3,1,2)])
next
  case (consume s t pc pc' calls mark)
  show ?case by (rule inv_consume [OF consume(3,1,2)])
next
  case (consume_killed s xs pc ys pc' calls mark)
  show ?case by (rule inv_consume_killed [OF consume_killed(4,1-3)])
next
  case (quit_killed s xs pc ys pc')
  show ?case by (rule inv_quit [OF quit_killed(3,1,2)])
next
  case (commit s)
  then show ?case by (rule inv_commit)
qed

section \<open>Properties\<close>

text \<open>The start of a client; the offsets that are committed then are \<open>c0\<close>.\<close>

definition kafkaStart :: "(tp \<Rightarrow> nat) \<Rightarrow> ('w, 'r) KafkaClient \<Rightarrow> ('w, 'r) KRun" where
  "kafkaStart c0 client =
     \<lparr> kClient = client, kKilled = [], kInbox = [], kHandled = [], kAssigned = [], kNext = c0, kMarked = c0, kCommitted = c0 \<rparr>"

lemma finishClient_client: "finishClient newClient co = Inr (Some (client, opts)) \<Longrightarrow> \<exists>o1. co = (client, o1)"
  by (cases co) (auto simp: Let_def split: option.splits)

lemma NewKafkaClient_opts:
  fixes tls :: "string \<Rightarrow> string \<Rightarrow> string \<Rightarrow> go_err + 't"
  assumes "NewKafkaClient tls newClient conf copts = Inr (Some (client, opts))"
  shows "\<exists>(o0 :: 't KgoOpt list) o1. fold applyOpt copts (\<lparr> kcConf = conf, kcConsumers = [], kcWorkers = None, kcGroup = '''', kcTopics = [] \<rparr>, o0) = (client, o1)"
proof (cases "parseKafkaAddrs (kfAddrs conf) = []")
  case False
  with assms show ?thesis
    unfolding NewKafkaClient_def Let_def by (auto simp: bind_res_Inr_iff dest!: finishClient_client)
qed (use assms in \<open>simp add: NewKafkaClient_def\<close>)

lemma messagerClient_client:
  assumes "messagerClient tls newClient cd cluster = Inr (Some (client, opts))"
  shows "kcWorkers client = Some (workers cd (clKafka cluster)) \<and> kcTopics client = messagerTopics (clKafka cluster) \<and> kcConsumers client = []"
proof -
  let ?conf = "clKafka cluster"
  have "NewKafkaClient tls newClient ?conf
      [KafkaOptPromReg, KafkaOptGroup (GetNodeName cluster), KafkaOptTopics (messagerTopics ?conf), KafkaOptWorkers (workers cd ?conf)] = Inr (Some (client, opts))"
    using assms by (simp add: messagerClient_def Let_def split: if_splits sum.splits)
  from NewKafkaClient_opts [OF this] show ?thesis by (auto simp: Let_def)
qed

lemma topics_have_workers: "set (messagerTopics conf) \<subseteq> fst ` set (workers cd conf)"
  by (simp add: messagerTopics_def workers_def)

lemma kafka_run_inv:
  assumes "kafka_run (kafkaStart c0 client) s" "messagerClient tls newClient cd cluster = Inr (Some (client, opts))"
  shows "kafka_inv (workers cd (clKafka cluster)) c0 s"
  using assms(1)
proof induction
  case init
  then show ?case using messagerClient_client [OF assms(2)] topics_have_workers
    by (simp add: kafka_inv_def kafkaStart_def in_seq_def handledTo_def)
next
  case (step s s')
  then show ?case using kafka_step_inv by blast
qed

text \<open>C4: 
  However polls, consumers, rebalances and commits interleave: every record that is handed to a worker goes to the worker of
  its topic, and only after all earlier records of its partition, and a record is behind the committed offset only when
  its worker has had it. So no record is lost or overtaken when partitions are revoked; some are handled again.
\<close>

theorem kafka_delivery:
  assumes "messagerClient tls newClient cd cluster = Inr (Some (client, opts))" "kafka_run (kafkaStart c0 client) s"
  shows "(\<forall>xs t i r w ys. kHandled s = xs @ (t, i, r, w) # ys \<longrightarrow>
      mget (workers cd (clKafka cluster)) (fst t) = Some w \<and> c0 t \<le> i \<and> (\<forall>j. c0 t \<le> j \<and> j < i \<longrightarrow> (\<exists>r' w'. (t, j, r', w') \<in> set xs))) \<and>
    (\<forall>t i. c0 t \<le> i \<and> i < kCommitted s t \<longrightarrow> (\<exists>r w. (t, i, r, w) \<in> set (kHandled s)))"
proof (intro conjI allI impI)
  note inv = kafka_run_inv [OF assms(2,1)]
  fix xs t i r w ys assume h: "kHandled s = xs @ (t, i, r, w) # ys"
  have "in_seq c0 (kHandled s)" "\<forall>(t, i, r, w) \<in> set (kHandled s). mget (workers cd (clKafka cluster)) (fst t) = Some w" using inv by (simp_all add: kafka_inv_def)
  then have sq: "c0 t \<le> i \<and> handledTo c0 xs t i" and w: "mget (workers cd (clKafka cluster)) (fst t) = Some w" using h unfolding in_seq_def by (blast, simp)
  show "mget (workers cd (clKafka cluster)) (fst t) = Some w" "c0 t \<le> i" using sq w by simp_all
  show "\<exists>r' w'. (t, j, r', w') \<in> set xs" if "c0 t \<le> j \<and> j < i" for j using sq that unfolding handledTo_def by blast
next
  fix t i assume "c0 t \<le> i \<and> i < kCommitted s t"
  then show "\<exists>r w. (t, i, r, w) \<in> set (kHandled s)"
    using kafka_invD(4) [OF kafka_run_inv [OF assms(2,1)], of t] unfolding handledTo_def by blast
qed

text \<open>
  The library never asks for a partition without a consumer: neither \<open>Poll\<close> nor the killing of the consumers panics, and a
  channel holds at most five batches.
\<close>

theorem kafka_no_panic:
  assumes "messagerClient tls newClient cd cluster = Inr (Some (client, opts))" "kafka_run (kafkaStart c0 client) s"
  shows "(\<forall>t err recs ps. kInbox s = (t, err, recs) # ps \<longrightarrow> pollPartition t err recs (kClient s) \<noteq> Some (Inl NilDeref)) \<and>
    (\<forall>parts. kInbox s = [] \<and> kKilled s = [] \<and> distinct (partitionsOf parts) \<and> set (partitionsOf parts) \<subseteq> set (kAssigned s) \<longrightarrow>
       (\<exists>r. killConsumers parts (kClient s) = Inr r)) \<and>
    (\<forall>t pc. mget (kcConsumers (kClient s)) t = Some pc \<longrightarrow> length (pcRecs pc) \<le> 5)"
proof (intro conjI allI impI)
  note inv = kafka_run_inv [OF assms(2,1)]
  fix t err recs ps assume "kInbox s = (t, err, recs) # ps"
  then have "t \<in> set (kAssigned s)" "kKilled s = []" using inv by (simp_all add: kafka_inv_def)
  then have "mget (kcConsumers (kClient s)) t \<noteq> None" using kafka_invD(1) [OF inv] by (simp add: part_ok_def)
  then show "pollPartition t err recs (kClient s) \<noteq> Some (Inl NilDeref)" by (auto simp: pollPartition_def split: option.splits)
next
  fix parts assume "kInbox s = [] \<and> kKilled s = [] \<and> distinct (partitionsOf parts) \<and> set (partitionsOf parts) \<subseteq> set (kAssigned s)"
  then show "\<exists>r. killConsumers parts (kClient s) = Inr r" using inv_kill [OF kafka_run_inv [OF assms(2,1)]] by blast
next
  fix t pc assume "mget (kcConsumers (kClient s)) t = Some pc"
  from kafka_invD(2) [OF kafka_run_inv [OF assms(2,1)] this] show "length (pcRecs pc) \<le> 5" by (simp add: live_ok_def)
qed

section \<open>Witnesses\<close>

text \<open>One record of one partition, from its fetch to its commit.\<close>

definition demoTp :: tp where
  "demoTp = (MakeKafkaTopic demoKafka TOPIC_PING, 0)"

lemma demoClient:
  "\<exists>client opts. messagerClient (\<lambda>_ _ _. Inr ()) (\<lambda>_. None) demo_codec demoCluster =
     Inr (Some (client :: (bool Messager \<Rightarrow> byte list \<Rightarrow> bool list res, nat) KafkaClient, opts))"
proof -
  have "parseKafkaAddrs (kfAddrs demoKafka) = [''k'']" "compressionOf (kfCompression demoKafka) = Inr NoCompression" by code_simp+
  then show ?thesis
    by (auto simp: messagerClient_def NewKafkaClient_def demoCluster_def Let_def tlsOpts_def saslOpts_def demoKafka_def split: prod.splits)
qed

theorem kafka_delivery_witness:
  "\<exists>client opts s. messagerClient (\<lambda>_ _ _. Inr ()) (\<lambda>_. None) demo_codec demoCluster =
       Inr (Some (client :: (bool Messager \<Rightarrow> byte list \<Rightarrow> bool list res, nat) KafkaClient, opts)) \<and>
     kafka_run (kafkaStart (\<lambda>_. 0) client) s \<and> kCommitted s demoTp = 1 \<and> (\<exists>r w. (demoTp, 0, r, w) \<in> set (kHandled s))"
proof -
  obtain client :: "(bool Messager \<Rightarrow> byte list \<Rightarrow> bool list res, nat) KafkaClient" and opts
    where c: "messagerClient (\<lambda>_ _ _. Inr ()) (\<lambda>_. None) demo_codec demoCluster = Inr (Some (client, opts))" using demoClient by blast
  let ?parts = "[(fst demoTp, [0])]"
  have p: "partitionsOf ?parts = [demoTp]" by (simp add: partitionsOf_def demoTp_def)
  let ?ws = "workers demo_codec demoKafka :: (string, bool Messager \<Rightarrow> byte list \<Rightarrow> bool list res) gomap"
  note cc = messagerClient_client [OF c]
  have k: "clKafka demoCluster = demoKafka" by (simp add: demoCluster_def)
  have t: "fst demoTp \<in> set (kcTopics client)" using cc by (simp add: k messagerTopics_def demoTp_def)
  then have w: "{fst demoTp} \<subseteq> fst ` set ?ws" using cc topics_have_workers [of demoKafka demo_codec] by (auto simp: k)
  have a: "assigned ?parts client = client\<lparr> kcConsumers := [(demoTp, fresh ?ws demoTp)] \<rparr>"
    using assigned_simp [of client ?ws ?parts] cc w by (simp add: k p)
  let ?s0 = "kafkaStart (\<lambda>_. 0) client"
  let ?s1 = "?s0\<lparr> kClient := assigned ?parts client, kAssigned := [demoTp], kNext := override_on (\<lambda>_. 0) (\<lambda>_. 0) {demoTp},
    kMarked := override_on (\<lambda>_. 0) (\<lambda>_. 0) {demoTp} \<rparr>"
  have s1: "kafka_step ?s0 ?s1" using kafka_step.assign [of ?s0 ?parts] t p by (simp add: kafkaStart_def)
  let ?s2 = "?s1\<lparr> kInbox := [(demoTp, False, [(0, 7)])], kNext := (kNext ?s1)(demoTp := 1) \<rparr>"
  have s2: "kafka_step ?s1 ?s2" using kafka_step.fetch [of ?s1 "[(demoTp, False, [(0, 7)])]"] by (simp add: kafkaStart_def override_on_def)
  let ?pc = "(fresh ?ws demoTp :: (_, nat) pconsumer)\<lparr> pcRecs := [[(0, 7)]] \<rparr>"
  let ?s3 = "?s2\<lparr> kClient := client\<lparr> kcConsumers := [(demoTp, ?pc)] \<rparr>, kInbox := [] \<rparr>"
  have s3: "kafka_step ?s2 ?s3"
    by (rule kafka_step.deliver [where t = demoTp and err = False and recs = "[(0, 7)]"]) (simp_all add: a pollPartition_def fresh_def)
  let ?w = "pcWorker ?pc"
  let ?s4 = "(consumed ?pc [(demoTp, 0, 7, ?w)] (Some 1) ?s3)\<lparr> kClient := client\<lparr> kcConsumers := [(demoTp, ?pc\<lparr> pcRecs := [] \<rparr>)] \<rparr> \<rparr>"
  have s4: "kafka_step ?s3 ?s4"
    using kafka_step.consume [of ?s3 demoTp ?pc "?pc\<lparr> pcRecs := [] \<rparr>" "[(demoTp, 0, 7, ?w)]" "Some 1"]
    by (simp add: consumeRecs_def fresh_def)
  let ?s5 = "?s4\<lparr> kCommitted := override_on (kCommitted ?s4) (kMarked ?s4) (set (kAssigned ?s4)) \<rparr>"
  have s5: "kafka_step ?s4 ?s5" by (rule kafka_step.commit)
  have run: "kafka_run ?s0 ?s5"
    by (rule kafka_run.step [OF kafka_run.step [OF kafka_run.step [OF kafka_run.step [OF kafka_run.step [OF kafka_run.init s1] s2] s3] s4] s5])
  have "kCommitted ?s5 demoTp = 1" by (simp add: consumed_def kafkaStart_def fresh_def)
  then obtain s where s: "kafka_run ?s0 s" "kCommitted s demoTp = 1" using run by blast
  have "\<exists>r w. (demoTp, 0, r, w) \<in> set (kHandled s)"
    by (rule kafka_delivery [OF c s(1), THEN conjunct2, rule_format]) (simp add: s(2))
  then show ?thesis using c s by blast
qed

end
