(* ===== verification/Auth.thy ===== *)
theory Auth
  imports MediaTime SignalNode
begin

text \<open>
  Tokens and who may connect: \<open>auth/main.go\<close>, the route \<open>/token\<close> of the auth server (\<open>authserver/main.go\<close>), and
  the two entrances of the signal server, \<open>SocketIOAuthHandler\<close> (\<open>signal/socketio.go\<close>) and the handler of \<open>/ws\<close>
  (\<open>signal/websocket.go\<close>).

  The libraries are the record \<open>AuthLib\<close>: JSON, Base64, SHA-1 and AES-GCM with its nonce of 12 bytes; a key of 16
  bytes is always accepted. What the code relies on is the predicate \<open>lib_ok\<close>. Random values (the nonce of
  a token, a fresh signal id) and the time in seconds are arguments.
\<close>

section \<open>Auth info\<close>

definition formGet :: "(string, string list) gomap \<Rightarrow> string \<Rightarrow> string" where
  "formGet form key = (case mget form key of Some (v # _) \<Rightarrow> v | _ \<Rightarrow> '''')"

definition isTrue :: "string \<Rightarrow> bool" where
  "isTrue s \<longleftrightarrow> ToLower s \<in> {''1'', ''on'', ''true'', ''yes''}"

definition toInt32 :: "int \<Rightarrow> int" where
  "toInt32 x = (x + 2 ^ 31) mod 2 ^ 32 - 2 ^ 31"

definition NewAuthInfoFromForm :: "int \<Rightarrow> (string, string list) gomap \<Rightarrow> go_err + AuthInfo" where
  "NewAuthInfoFromForm now form =
     (let key = formGet form ''key''; uid = formGet form ''uid''; uname = formGet form ''uname''; role = formGet form ''role'';
          deadlineStr = formGet form ''deadline''; strNonce = formGet form ''nonce''
      in if key = '''' then Inl (InvalidParam ''The param key is required for creating auth info.'')
         else if uid = '''' then Inl (InvalidParam ''The param uid is required for creating auth info.'')
         else if uname = '''' then Inl (InvalidParam ''The param uname is required for creating auth info.'')
         else if role = '''' then Inl (InvalidParam ''The param role is required for creating auth info.'')
         else case mget form ''room'' of
           None \<Rightarrow> Inl (InvalidParam ''The param room is required for creating auth info.'')
         | Some rooms \<Rightarrow>
             (case (if deadlineStr = '''' then Some (5 * 60 * 1000) else ParseUint deadlineStr 64) of
                None \<Rightarrow> Inl (InvalidParam ''The param deadline must be an unsigned integer.'')
              | Some deadline \<Rightarrow>
                  if strNonce = '''' then Inl (InvalidParam ''The param nonce is required for creating auth info.'')
                  else (case Atoi strNonce of
                          None \<Rightarrow> Inl (PlainError ''strconv.Atoi'')
                        | Some n \<Rightarrow>
                            Inr \<lparr> Usage = ''conference'', Key = key, UID = uid, UName = uname, Role = role, authRooms = rooms,
                                  AutoJoin = isTrue (formGet form ''autojoin''), Timestamp = now, Deadline = deadline, Nonce = toInt32 n \<rparr>)))"

section \<open>Tokens\<close>

record AuthLib =
  jsonMarshal :: "AuthInfo \<Rightarrow> byte list"
  jsonUnmarshal :: "byte list \<Rightarrow> go_err + AuthInfo"
  base64Encode :: "byte list \<Rightarrow> string"
  base64Decode :: "string \<Rightarrow> go_err + byte list"
  sha1 :: "byte list \<Rightarrow> byte list"
  gcmSeal :: "byte list \<Rightarrow> byte list \<Rightarrow> byte list \<Rightarrow> byte list"
  gcmOpen :: "byte list \<Rightarrow> byte list \<Rightarrow> byte list \<Rightarrow> go_err + byte list"

definition GenAesKey :: "AuthLib \<Rightarrow> byte list \<Rightarrow> byte list" where
  "GenAesKey lib pass = take 16 (sha1 lib (sha1 lib pass))"

definition nonceSize :: nat where "nonceSize = 12"

definition encrypt :: "AuthLib \<Rightarrow> byte list \<Rightarrow> byte list \<Rightarrow> byte list \<Rightarrow> byte list" where
  "encrypt lib nonce plaintext key = nonce @ gcmSeal lib key nonce plaintext"

definition decrypt :: "AuthLib \<Rightarrow> byte list \<Rightarrow> byte list \<Rightarrow> go_err + byte list" where
  "decrypt lib ciphertext key =
     (if length ciphertext < nonceSize then Inl (FatalError ''ciphertext too short'')
      else gcmOpen lib key (take nonceSize ciphertext) (drop nonceSize ciphertext))"

definition Encode :: "AuthLib \<Rightarrow> byte list \<Rightarrow> byte list \<Rightarrow> AuthInfo \<Rightarrow> string" where
  "Encode lib secret nonce ai = base64Encode lib (encrypt lib nonce (jsonMarshal lib ai) (GenAesKey lib secret))"

definition Decode :: "AuthLib \<Rightarrow> byte list \<Rightarrow> string \<Rightarrow> go_err + AuthInfo" where
  "Decode lib secret token =
     bind_res (base64Decode lib token) (\<lambda>bs. bind_res (decrypt lib bs (GenAesKey lib secret)) (jsonUnmarshal lib))"

text \<open>The route \<open>/token\<close>: an error is a panic, which the error middleware turns into a response.\<close>

definition tokenRoute :: "AuthLib \<Rightarrow> byte list \<Rightarrow> byte list \<Rightarrow> int \<Rightarrow> (string, string list) gomap \<Rightarrow> go_err + string" where
  "tokenRoute lib secret nonce now form = bind_res (NewAuthInfoFromForm now form) (\<lambda>ai. Inr (Encode lib secret nonce ai))"

section \<open>The entrances\<close>

text \<open>A value of the auth data of a handshake: a string or something else.\<close>

datatype HandshakeVal = HString string | HOther

definition expired :: "int \<Rightarrow> AuthInfo \<Rightarrow> bool" where
  "expired now ai \<longleftrightarrow> i64 (Timestamp ai + i64 (int (Deadline ai))) < now"

text \<open>
  \<open>SocketIOAuthHandler\<close>: the calls of \<open>next\<close> in their order (\<open>None\<close> lets the socket in) and the data of the
  socket. Two of the checks report an error and go on.
\<close>

definition SocketIOAuthHandler :: "AuthLib \<Rightarrow> byte list \<Rightarrow> int \<Rightarrow> string \<Rightarrow> bool \<Rightarrow> (string, HandshakeVal) gomap option
    \<Rightarrow> string option list \<times> (AuthInfo \<times> string) option" where
  "SocketIOAuthHandler lib secret now fresh authed auth =
     (if authed then ([None], None)
      else case auth of
        None \<Rightarrow> ([Some ''Unauthorized''], None)
      | Some m \<Rightarrow>
          (case mget m ''token'' of
             None \<Rightarrow> ([Some ''Unauthorized''], None)
           | Some v \<Rightarrow>
               (let (errs1, token) = (case v of HString t \<Rightarrow> ([], t) | HOther \<Rightarrow> ([Some ''Invalid token type %v''], ''''));
                    (errs2, signalId) = (case mget m ''id'' of
                                           None \<Rightarrow> ([], fresh)
                                         | Some (HString i) \<Rightarrow> ([], i)
                                         | Some HOther \<Rightarrow> ([Some ''Invalid signal id type %v''], ''''))
                in case Decode lib secret token of
                     Inl _ \<Rightarrow> (errs1 @ errs2 @ [Some ''Unauthorized''], None)
                   | Inr ai \<Rightarrow>
                       if Usage ai \<noteq> ''conference'' \<or> Key ai = '''' \<or> UID ai = '''' \<or> expired now ai
                       then (errs1 @ errs2 @ [Some ''Unauthorized''], None)
                       else (errs1 @ errs2 @ [None], Some (ai, signalId)))))"

text \<open>
  The handler of \<open>/ws\<close>: the first header value whose token decodes, and the id that the client asks for.
  \<open>None\<close> is the answer 401.
\<close>

definition wsToken :: "string \<Rightarrow> string option" where
  "wsToken auth_str =
     (case SplitN CHR '' '' 2 auth_str of [] \<Rightarrow> None | [t] \<Rightarrow> Some t | _ # t # _ \<Rightarrow> Some t)"

fun wsAuth :: "AuthLib \<Rightarrow> byte list \<Rightarrow> string list \<Rightarrow> AuthInfo option" where
  "wsAuth lib secret [] = None"
| "wsAuth lib secret (auth_str # rest) =
     (case wsToken auth_str of
        None \<Rightarrow> wsAuth lib secret rest
      | Some token \<Rightarrow> (case Decode lib secret token of Inr ai \<Rightarrow> Some ai | Inl _ \<Rightarrow> wsAuth lib secret rest))"

definition wsHandler :: "AuthLib \<Rightarrow> byte list \<Rightarrow> string \<Rightarrow> string list option \<Rightarrow> string list option \<Rightarrow> SignalContext option" where
  "wsHandler lib secret fresh auth_header signal_id_header =
     (case auth_header of
        None \<Rightarrow> None
      | Some hs \<Rightarrow>
          map_option (\<lambda>ai. newSignalContext ai (case signal_id_header of Some (i # _) \<Rightarrow> i | _ \<Rightarrow> fresh)) (wsAuth lib secret hs))"

section \<open>Properties\<close>

text \<open>The documented behaviour of the libraries, for an auth info.\<close>

definition lib_ok :: "AuthLib \<Rightarrow> AuthInfo \<Rightarrow> bool" where
  "lib_ok lib ai \<longleftrightarrow> jsonUnmarshal lib (jsonMarshal lib ai) = Inr ai \<and> (\<forall>bs. base64Decode lib (base64Encode lib bs) = Inr bs) \<and>
     (\<forall>bs. CHR '' '' \<notin> set (base64Encode lib bs)) \<and> (\<forall>key nonce p. gcmOpen lib key nonce (gcmSeal lib key nonce p) = Inr p)"

lemma Decode_Encode:
  assumes "lib_ok lib ai" "length nonce = nonceSize"
  shows "Decode lib secret (Encode lib secret nonce ai) = Inr ai"
  using assms by (simp add: Decode_def Encode_def encrypt_def decrypt_def lib_ok_def)

lemma NewAuthInfoFromForm_fields:
  assumes "NewAuthInfoFromForm now form = Inr ai"
  shows "Usage ai = ''conference'' \<and> Key ai \<noteq> '''' \<and> UID ai \<noteq> '''' \<and> Timestamp ai = now \<and> Deadline ai < 2 ^ 64 \<and> mget form ''room'' = Some (authRooms ai)"
  using assms by (auto simp: NewAuthInfoFromForm_def Let_def ParseUint_def split: if_splits option.splits)

text \<open>C14: 
  The life of a token: what the auth server gives out for a form is let in by the Socket.IO entrance from then
  on, with exactly the rooms of the form, until the deadline has passed, and not after that; the deadline counts
  seconds.
\<close>

theorem token_life:
  assumes "lib_ok lib ai" "length nonce = nonceSize" "tokenRoute lib secret nonce t0 form = Inr token" "NewAuthInfoFromForm t0 form = Inr ai"
    and "0 \<le> t0" "t0 + int (Deadline ai) < 2 ^ 63"
  shows "mget form ''room'' = Some (authRooms ai) \<and>
    SocketIOAuthHandler lib secret t fresh False (Some [(''token'', HString token), (''id'', HString i)]) =
      (if t \<le> t0 + int (Deadline ai) then ([None], Some (ai, i)) else ([Some ''Unauthorized''], None))"
proof -
  note f = NewAuthInfoFromForm_fields [OF assms(4)]
  have token: "Decode lib secret token = Inr ai" using assms(3,4) Decode_Encode [OF assms(1,2)] by (auto simp: tokenRoute_def)
  have "i64 (Timestamp ai + i64 (int (Deadline ai))) = t0 + int (Deadline ai)" using f assms(5,6) by (simp add: i64_id)
  then show ?thesis using token f by (auto simp: SocketIOAuthHandler_def expired_def)
qed

text \<open>C36: The other entrance takes the same token at any time, and the id that the client chooses.\<close>

theorem websocket_ignores_deadline:
  assumes "lib_ok lib ai" "length nonce = nonceSize" "Usage ai \<noteq> ''conference'' \<or> expired now ai"
  shows "wsHandler lib secret fresh (Some [''Bearer '' @ Encode lib secret nonce ai]) (Some [i]) = Some (newSignalContext ai i) \<and>
    SocketIOAuthHandler lib secret now fresh False (Some [(''token'', HString (Encode lib secret nonce ai))]) = ([Some ''Unauthorized''], None)"
proof -
  let ?t = "Encode lib secret nonce ai"
  have "CHR '' '' \<notin> set ?t" using assms(1) by (simp add: Encode_def lib_ok_def)
  then have "SplitN CHR '' '' 2 (''Bearer '' @ ?t) = [''Bearer'', ?t]" by (simp add: numeral_2_eq_2 Let_def)
  then show ?thesis using Decode_Encode [OF assms(1,2)] assms(3) by (auto simp: wsHandler_def wsToken_def SocketIOAuthHandler_def)
qed

text \<open>A deadline of half the range of a 64-bit number or more is negative as a signed one: the token is never valid.\<close>

theorem deadline_overflow:
  assumes "2 ^ 63 \<le> Deadline ai" "Deadline ai < 2 ^ 64" "0 \<le> Timestamp ai" "Timestamp ai < 2 ^ 62" "Timestamp ai \<le> now" "Deadline ai + 2 ^ 62 < 2 ^ 64"
  shows "expired now ai"
proof -
  have d: "i64 (int (Deadline ai)) = int (Deadline ai) - 2 ^ 64"
  proof -
    have "(int (Deadline ai) + 2 ^ 63) mod 2 ^ 64 = (int (Deadline ai) - 2 ^ 63 + 2 ^ 64) mod 2 ^ 64" by (rule arg_cong [where f = "\<lambda>x. x mod 2 ^ 64"]) simp
    also have "\<dots> = int (Deadline ai) - 2 ^ 63" unfolding mod_add_self2 using assms(1,2) by (intro mod_pos_pos_trivial) simp_all
    finally show ?thesis by (simp add: i64_def)
  qed
  have "Timestamp ai + i64 (int (Deadline ai)) < 0" unfolding d using assms(4,6) by simp
  moreover have "- (2 ^ 63) \<le> Timestamp ai + i64 (int (Deadline ai))" unfolding d using assms(1,3) by simp
  ultimately show ?thesis unfolding expired_def using assms(3,5) by (subst i64_id) simp_all
qed

text \<open>A signal id that is no string is reported as an error, and the socket is let in nevertheless, under the empty id.\<close>

theorem bad_id_let_in:
  assumes "Decode lib secret token = Inr ai" "Usage ai = ''conference''" "Key ai \<noteq> ''''" "UID ai \<noteq> ''''" "\<not> expired now ai"
  shows "SocketIOAuthHandler lib secret now fresh False (Some [(''token'', HString token), (''id'', HOther)]) =
    ([Some ''Invalid signal id type %v'', None], Some (ai, ''''))"
  using assms by (simp add: SocketIOAuthHandler_def)

text \<open>
  A client that connects with the id of another one takes its place: the id leads to the new context, and when the
  first client disconnects the context of the second is closed, while its own stays open.
\<close>

theorem signal_id_takeover:
  assumes "mget (ndSigMap nd) uid = Some old" "scId (ctxOf nd new) = uid" "old \<noteq> new" "\<not> scClosed (ctxOf nd old)"
    and "CloseSignalContext uid False (RegisterSignalContext new nd) = Inr (nd', out)"
  shows "FindSignalContextById uid (RegisterSignalContext new nd) = Some new \<and> scClosed (ctxOf nd' new) \<and> \<not> scClosed (ctxOf nd' old)"
proof -
  let ?nd = "RegisterSignalContext new nd"
  have r: "mget (ndSigMap ?nd) uid = Some new" "ndHeap ?nd = ndHeap nd"
    using assms(2) by (simp_all add: RegisterSignalContext_def Let_def gomap_simps)
  obtain nd2 where c: "SelfClose False new nd2 = Inr (nd', out)" "ndHeap nd2 = ndHeap nd"
    using assms(5) r by (auto simp: CloseSignalContext_def Let_def split: option.splits if_splits)
  have h: "ctxOf nd2 = ctxOf nd" using c(2) by (simp add: ctxOf_def fun_eq_iff)
  have "scClosed (ctxOf nd' new) \<and> ctxOf nd' old = ctxOf nd old"
  proof (cases "scClosed (ctxOf nd2 new)")
    case True
    then show ?thesis using c(1) h by (simp add: SelfClose_def)
  next
    case False
    then obtain c5 m where "nd' = setCtx new c5 (nd2\<lparr> ndMessager := m \<rparr>)" "scClosed c5"
      using c(1) by (auto simp: SelfClose_def Let_def LeaveRoom_def closeMedia_def bind_res_Inr_iff split: if_splits)
    then show ?thesis using assms(3) h c(2) by (simp add: setCtx_def ctxOf_def gomap_simps)
  qed
  then show ?thesis using r(1) assms(4) by (simp add: FindSignalContextById_def)
qed

section \<open>Witnesses\<close>

definition hexEncode :: "byte list \<Rightarrow> string" where
  "hexEncode bs = concat (map (\<lambda>b. [char_of (64 + unat b div 16), char_of (64 + unat b mod 16)]) bs)"

fun hexDecode :: "string \<Rightarrow> byte list" where
  "hexDecode (a # b # s) = of_nat ((of_char a - 64) * 16 + (of_char b - 64)) # hexDecode s"
| "hexDecode s = []"

lemma hex_byte:
  fixes b :: byte
  shows "of_char (char_of (64 + unat b div 16) :: char) = 64 + unat b div 16" "of_char (char_of (64 + unat b mod 16) :: char) = 64 + unat b mod 16"
    "of_nat ((64 + unat b div 16 - 64) * 16 + (64 + unat b mod 16 - 64)) = b" "char_of (64 + unat b div 16) \<noteq> CHR '' ''" "char_of (64 + unat b mod 16) \<noteq> CHR '' ''"
proof -
  have b: "unat b < 256" using unsigned_less [of b] by simp
  then have d: "unat b div 16 < 16" "unat b mod 16 < 16" by (simp_all add: div_less_iff_less_mult)
  show o: "of_char (char_of (64 + unat b div 16) :: char) = 64 + unat b div 16" "of_char (char_of (64 + unat b mod 16) :: char) = 64 + unat b mod 16"
    using d by simp_all
  have "(64 + unat b div 16 - 64) * 16 + (64 + unat b mod 16 - 64) = unat b" by simp
  then show "of_nat ((64 + unat b div 16 - 64) * 16 + (64 + unat b mod 16 - 64)) = b" by (simp only: of_nat_unat ucast_id)
  have s: "(of_char CHR '' '' :: nat) = 32" by simp
  show "char_of (64 + unat b div 16) \<noteq> CHR '' ''" by (rule notI, drule arg_cong [where f = "of_char :: char \<Rightarrow> nat"], unfold o s, simp)
  show "char_of (64 + unat b mod 16) \<noteq> CHR '' ''" by (rule notI, drule arg_cong [where f = "of_char :: char \<Rightarrow> nat"], unfold o s, simp)
qed

lemma hex_ok: "hexDecode (hexEncode bs) = bs" "CHR '' '' \<notin> set (hexEncode bs)"
proof -
  show "hexDecode (hexEncode bs) = bs"
  proof (induction bs)
    case (Cons b bs)
    have "hexDecode (hexEncode (b # bs)) = of_nat ((of_char (char_of (64 + unat b div 16) :: char) - 64) * 16 + (of_char (char_of (64 + unat b mod 16) :: char) - 64))
        # hexDecode (hexEncode bs)" by (simp only: hexEncode_def list.map concat.simps append.simps hexDecode.simps)
    then show ?case using Cons unfolding hex_byte(1,2) by (simp only: hex_byte(3))
  qed (simp add: hexEncode_def)
  show "CHR '' '' \<notin> set (hexEncode bs)" using hex_byte(4,5) by (fastforce simp: hexEncode_def)
qed

definition demoAuthInfo :: AuthInfo where
  "demoAuthInfo = \<lparr> Usage = ''conference'', Key = ''k'', UID = ''u'', UName = ''n'', Role = ''r'', authRooms = [''a.*''], AutoJoin = False,
     Timestamp = 100, Deadline = 60, Nonce = 1 \<rparr>"

definition demoAuthLib :: AuthLib where
  "demoAuthLib = \<lparr> jsonMarshal = (\<lambda>_. []), jsonUnmarshal = (\<lambda>_. Inr demoAuthInfo), base64Encode = hexEncode, base64Decode = (\<lambda>s. Inr (hexDecode s)),
     sha1 = id, gcmSeal = (\<lambda>key nonce p. p), gcmOpen = (\<lambda>key nonce p. Inr p) \<rparr>"

definition demoForm :: "(string, string list) gomap" where
  "demoForm = [(''key'', [''k'']), (''uid'', [''u'']), (''uname'', [''n'']), (''role'', [''r'']), (''room'', [''a.*'']), (''deadline'', [''60'']), (''nonce'', [''1''])]"

lemma demoAuthLib_ok: "lib_ok demoAuthLib demoAuthInfo"
  by (simp add: lib_ok_def demoAuthLib_def hex_ok)

lemma demoForm_ok: "NewAuthInfoFromForm 100 demoForm = Inr demoAuthInfo"
proof -
  have "ParseUint ''60'' 64 = Some 60" "ParseUint ''1'' 64 = Some 1" by (simp_all add: ParseUint_def isDigit_def digitsVal_def)
  moreover from this(2) have "Atoi ''1'' = Some 1" by (simp add: Atoi_def HasPrefix_def)
  ultimately show ?thesis
    by (simp add: NewAuthInfoFromForm_def demoForm_def demoAuthInfo_def formGet_def Let_def toInt32_def isTrue_def ToLower_def)
qed

theorem token_life_witness:
  "\<exists>token. tokenRoute demoAuthLib [] (replicate 12 0) 100 demoForm = Inr token \<and>
     SocketIOAuthHandler demoAuthLib [] 160 ''f'' False (Some [(''token'', HString token), (''id'', HString ''i'')]) = ([None], Some (demoAuthInfo, ''i'')) \<and>
     SocketIOAuthHandler demoAuthLib [] 161 ''f'' False (Some [(''token'', HString token), (''id'', HString ''i'')]) = ([Some ''Unauthorized''], None)"
proof -
  obtain token where t: "tokenRoute demoAuthLib [] (replicate 12 0) 100 demoForm = Inr token" using demoForm_ok by (simp add: tokenRoute_def)
  have "length (replicate 12 (0 :: byte)) = nonceSize" "(0 :: int) \<le> 100" "100 + int (Deadline demoAuthInfo) < 2 ^ 63"
    by (simp_all add: nonceSize_def demoAuthInfo_def)
  note f = token_life [OF demoAuthLib_ok this(1) t demoForm_ok this(2,3)]
  from f [of 160 "''f''" "''i''"] f [of 161 "''f''" "''i''"] t show ?thesis by (simp add: demoAuthInfo_def)
qed

theorem websocket_ignores_deadline_witness:
  "wsHandler demoAuthLib [] ''f'' (Some [''Bearer '' @ Encode demoAuthLib [] (replicate 12 0) demoAuthInfo]) (Some [''i'']) = Some (newSignalContext demoAuthInfo ''i'') \<and>
    SocketIOAuthHandler demoAuthLib [] 1000 ''f'' False (Some [(''token'', HString (Encode demoAuthLib [] (replicate 12 0) demoAuthInfo))]) = ([Some ''Unauthorized''], None)"
  by (rule websocket_ignores_deadline [OF demoAuthLib_ok]) (simp_all add: nonceSize_def expired_def demoAuthInfo_def i64_def)

end
