(* ===== verification/SignalHandlers.thy ===== *)
theory SignalHandlers
  imports SignalContexts
begin

text \<open>
  The handlers of the events of a client (\<open>signal/main.go\<close>, from the registration of \<open>join\<close> on), with the
  deferred response (\<open>FinallyResponse\<close>), the decoding of the arguments and the errors as messages
  (\<open>signal/utils.go\<close>). Negotiation (\<open>sdp\<close>, \<open>candidate\<close>) has a theory of its own.

  A handler gives the context after it, the messages for the cluster, and the responses: calls of the
  acknowledgement function, or the error event that closes the signal. \<open>publish\<close> and \<open>subscribe\<close> do their
  work in a goroutine with a deferred response of its own; the handler is the outer part followed by it.
  The values of a decoded argument are those of \<open>mapstructure\<close>, parameters of the model. A recovered value
  is a panic of the model; in an error message it stands for its text, and the stack trace is left out.
\<close>

section \<open>Responses\<close>

record ErrorMessage =
  emMsg :: go_panic
  emFatal :: bool
  emCause :: string

datatype AckArg = AckWord | PublishResult string | SubscribeResult string | UserInfoArg UserInfo | NilArg

datatype Response = AckOk "AckArg list" | AckErr go_err | FatalClose ErrorMessage

text \<open>The runtime errors are errors in Go; a panic with another value is not.\<close>

fun panicErr :: "go_panic \<Rightarrow> go_err option" where
  "panicErr (ErrorPanic e) = Some e"
| "panicErr (ValuePanic v) = None"
| "panicErr IndexOutOfRange = Some (PlainError ''runtime error: index out of range'')"
| "panicErr SliceBounds = Some (PlainError ''runtime error: slice bounds out of range'')"
| "panicErr DivideByZero = Some (PlainError ''runtime error: integer divide by zero'')"
| "panicErr NilDeref = Some (PlainError ''runtime error: invalid memory address or nil pointer dereference'')"

definition ErrToMsg :: "go_panic \<Rightarrow> string \<Rightarrow> ErrorMessage" where
  "ErrToMsg err cause =
     (case err of
        ErrorPanic (ConfError code msg) \<Rightarrow> \<lparr> emMsg = err, emFatal = (code = 1000), emCause = cause \<rparr>
      | _ \<Rightarrow> \<lparr> emMsg = err, emFatal = False, emCause = cause \<rparr>)"

definition FatalErrorAndClose :: "go_panic \<Rightarrow> string \<Rightarrow> Response" where
  "FatalErrorAndClose err cause = FatalClose ((ErrToMsg err cause)\<lparr> emFatal := True \<rparr>)"

definition FinallyResponse :: "bool \<Rightarrow> go_panic option \<Rightarrow> AckArg list \<Rightarrow> string \<Rightarrow> bool \<Rightarrow> Response list" where
  "FinallyResponse ack rawErr arkArgs cause onlyErr =
     (case rawErr of
        Some p \<Rightarrow>
          if ack then [AckErr (case panicErr p of Some e \<Rightarrow> MaybeWrapError e | None \<Rightarrow> FatalError ''%v'')]
          else [FatalErrorAndClose p cause]
      | None \<Rightarrow>
          if onlyErr then [] else if ack then [AckOk (if arkArgs \<noteq> [] then arkArgs else [AckWord])] else [])"

definition parseArgs :: "('a \<Rightarrow> go_err + 'r) \<Rightarrow> 'a list \<Rightarrow> go_err + 'r" where
  "parseArgs decode args =
     (case args of
        [] \<Rightarrow> Inl (FatalError ''too little parameter'')
      | [x] \<Rightarrow> decode x
      | _ \<Rightarrow> Inl (FatalError ''too many parameter''))"

text \<open>\<open>mustEmitWithAck\<close>: a message that cannot be delivered is fatal for the connection.\<close>

definition mustEmitWithAck :: "(nat \<Rightarrow> go_err + 'a) \<Rightarrow> int \<Rightarrow> string \<Rightarrow> Response list \<times> go_err option" where
  "mustEmitWithAck send retries cause =
     (case fst (emitEvent send True retries) of
        Inl e \<Rightarrow> ([FatalErrorAndClose (ErrorPanic e) cause], Some e)
      | Inr _ \<Rightarrow> ([], None))"

section \<open>Handlers\<close>

record Run =
  rnCtx :: SignalContext
  rnOut :: "RoomMessage list"
  rnResponses :: "Response list"

text \<open>A handler that panicked with \<open>p\<close> before it changed anything.\<close>

definition failed :: "bool \<Rightarrow> go_panic \<Rightarrow> string \<Rightarrow> SignalContext \<Rightarrow> Run" where
  "failed ack p cause c = \<lparr> rnCtx = c, rnOut = [], rnResponses = FinallyResponse ack (Some p) [] cause False \<rparr>"

definition onJoin :: "string \<Rightarrow> ('a \<Rightarrow> go_err + string list) \<Rightarrow> bool \<Rightarrow> 'a list \<Rightarrow> SignalContext \<Rightarrow> Run" where
  "onJoin node decode ack args c =
     (case parseArgs decode args of
        Inl err \<Rightarrow> failed ack (ErrorPanic err) ''join'' c
      | Inr rooms \<Rightarrow>
          (case JoinRoom node rooms c of
             Inl p \<Rightarrow> failed ack p ''join'' c
           | Inr (c', out, Inl e) \<Rightarrow> \<lparr> rnCtx = c', rnOut = out, rnResponses = FinallyResponse ack (Some (ErrorPanic e)) [] ''join'' False \<rparr>
           | Inr (c', out, Inr _) \<Rightarrow> \<lparr> rnCtx = c', rnOut = out, rnResponses = FinallyResponse ack None [] ''join'' False \<rparr>))"

definition onLeave :: "string \<Rightarrow> ('a \<Rightarrow> go_err + string list) \<Rightarrow> bool \<Rightarrow> 'a list \<Rightarrow> SignalContext \<Rightarrow> Run" where
  "onLeave node decode ack args c =
     (case parseArgs decode args of
        Inl err \<Rightarrow> failed ack (ErrorPanic err) ''leave'' c
      | Inr rooms \<Rightarrow>
          (case LeaveRoom node rooms c of
             (c', out) \<Rightarrow> \<lparr> rnCtx = c', rnOut = out, rnResponses = FinallyResponse ack None [] ''leave'' False \<rparr>))"

text \<open>The goroutine of \<open>publish\<close>; \<open>None\<close> if it never draws a free id.\<close>

definition goPublish :: "(nat \<Rightarrow> string) \<Rightarrow> (nat \<Rightarrow> string) \<Rightarrow> bool \<Rightarrow> PublishMessage \<Rightarrow> SignalContext \<Rightarrow> Run option" where
  "goPublish uuids tids ack msg c =
     map_option (\<lambda>r. case r of
         Inl p \<Rightarrow> failed ack p ''publish'' c
       | Inr (c', Inl e) \<Rightarrow> \<lparr> rnCtx = c', rnOut = [], rnResponses = FinallyResponse ack (Some (ErrorPanic e)) [NilArg] ''publish'' False \<rparr>
       | Inr (c', Inr pid) \<Rightarrow>
           \<lparr> rnCtx = c', rnOut = [], rnResponses = FinallyResponse ack None [PublishResult pid] ''publish'' False \<rparr>)
       (Publish uuids tids msg c)"

definition onPublish :: "(nat \<Rightarrow> string) \<Rightarrow> (nat \<Rightarrow> string) \<Rightarrow> ('a \<Rightarrow> go_err + PublishMessage) \<Rightarrow> bool \<Rightarrow> 'a list \<Rightarrow> SignalContext \<Rightarrow> Run option" where
  "onPublish uuids tids decode ack args c =
     (case parseArgs decode args of
        Inl err \<Rightarrow> Some \<lparr> rnCtx = c, rnOut = [], rnResponses = FinallyResponse ack (Some (ErrorPanic err)) [NilArg] ''publish'' True \<rparr>
      | Inr msg \<Rightarrow>
          map_option (\<lambda>r. r\<lparr> rnResponses := FinallyResponse ack None [NilArg] ''publish'' True @ rnResponses r \<rparr>) (goPublish uuids tids ack msg c))"

text \<open>The goroutine of \<open>subscribe\<close>.\<close>

definition goSubscribe :: "string \<Rightarrow> string \<Rightarrow> GroupOrder \<Rightarrow> (nat \<Rightarrow> string) \<Rightarrow> bool \<Rightarrow> SubscribeMessage \<Rightarrow> SignalContext \<Rightarrow> Run option" where
  "goSubscribe node tp ord uuids ack msg c =
     map_option (\<lambda>r. case r of
         Inl p \<Rightarrow> failed ack p ''subscribe'' c
       | Inr sr \<Rightarrow>
           (case srAnswer sr of
              Inl e \<Rightarrow> \<lparr> rnCtx = srContext sr, rnOut = srEmitted sr,
                        rnResponses = FinallyResponse ack (Some (ErrorPanic e)) [NilArg] ''subscribe'' False \<rparr>
            | Inr subId \<Rightarrow> \<lparr> rnCtx = srContext sr, rnOut = srEmitted sr,
                            rnResponses = FinallyResponse ack None [SubscribeResult subId] ''subscribe'' False \<rparr>))
       (Subscribe node tp ord uuids msg c)"

definition onSubscribe :: "string \<Rightarrow> string \<Rightarrow> GroupOrder \<Rightarrow> (nat \<Rightarrow> string) \<Rightarrow> ('a \<Rightarrow> go_err + SubscribeMessage) \<Rightarrow> bool \<Rightarrow> 'a list
    \<Rightarrow> SignalContext \<Rightarrow> Run option" where
  "onSubscribe node tp ord uuids decode ack args c =
     (case parseArgs decode args of
        Inl err \<Rightarrow> Some \<lparr> rnCtx = c, rnOut = [], rnResponses = FinallyResponse ack (Some (ErrorPanic err)) [NilArg] ''subscribe'' True \<rparr>
      | Inr msg \<Rightarrow>
          map_option (\<lambda>r. r\<lparr> rnResponses := FinallyResponse ack None [NilArg] ''subscribe'' True @ rnResponses r \<rparr>)
            (goSubscribe node tp ord uuids ack msg c))"

definition onUserInfo :: "bool \<Rightarrow> SignalContext \<Rightarrow> Run" where
  "onUserInfo ack c = \<lparr> rnCtx = c, rnOut = [], rnResponses = FinallyResponse ack None [UserInfoArg (MakeUserInfo c)] ''user-info'' False \<rparr>"

text \<open>\<open>ping\<close> and \<open>pong\<close>: a message for one socket; an acknowledgement is refused by closing the signal.\<close>

definition onDirect :: "string \<Rightarrow> string \<Rightarrow> ('a \<Rightarrow> go_err + RoomMessage) \<Rightarrow> bool \<Rightarrow> 'a list \<Rightarrow> SignalContext \<Rightarrow> Run" where
  "onDirect evt node decode ack args c =
     (case parseArgs decode args of
        Inl err \<Rightarrow> failed False (ErrorPanic err) evt c
      | Inr msg \<Rightarrow>
          if ack then failed False (ErrorPanic (PlainError (evt @ '' msg does not support ack''))) evt c
          else if (case GetRouter msg of None \<Rightarrow> True | Some r \<Rightarrow> socketTo r = '''')
          then failed False (ErrorPanic (PlainError (evt @ '' msg require a router with valid socketTo attribute''))) evt c
          else \<lparr> rnCtx = c, rnOut = clusterEmit node c msg, rnResponses = FinallyResponse False None [] evt False \<rparr>)"

text \<open>Custom messages and their acknowledgements have no response.\<close>

definition onCustom :: "string \<Rightarrow> string \<Rightarrow> CustomMessage \<Rightarrow> SignalContext \<Rightarrow> Run" where
  "onCustom node evt msg c =
     \<lparr> rnCtx = c, rnOut = clusterEmit node c (MCustomCluster \<lparr> ccEvt = evt, ccMsg = Some msg \<rparr>), rnResponses = [] \<rparr>"

definition onCustomAck :: "string \<Rightarrow> CustomAckMessage \<Rightarrow> SignalContext \<Rightarrow> Run" where
  "onCustomAck node msg c = \<lparr> rnCtx = c, rnOut = clusterEmit node c (MCustomAck msg), rnResponses = [] \<rparr>"

section \<open>The events of a client\<close>

record 'a HandlerEnv =
  heNode :: string
  heTransport :: string
  heOrder :: GroupOrder
  heUuids :: "nat \<Rightarrow> string"
  heTrackIds :: "nat \<Rightarrow> string"
  heRooms :: "'a \<Rightarrow> go_err + string list"
  hePublish :: "'a \<Rightarrow> go_err + PublishMessage"
  heSubscribe :: "'a \<Rightarrow> go_err + SubscribeMessage"
  hePing :: "'a \<Rightarrow> go_err + PingMessage"
  hePong :: "'a \<Rightarrow> go_err + PongMessage"

definition runEvent :: "'a HandlerEnv \<Rightarrow> string \<Rightarrow> bool \<Rightarrow> 'a list \<Rightarrow> SignalContext \<Rightarrow> Run option" where
  "runEvent env evt ack args c =
     (if evt = ''join'' then Some (onJoin (heNode env) (heRooms env) ack args c)
      else if evt = ''leave'' then Some (onLeave (heNode env) (heRooms env) ack args c)
      else if evt = ''publish'' then onPublish (heUuids env) (heTrackIds env) (hePublish env) ack args c
      else if evt = ''subscribe'' then onSubscribe (heNode env) (heTransport env) (heOrder env) (heUuids env) (heSubscribe env) ack args c
      else if evt = ''user-info'' then Some (onUserInfo ack c)
      else if evt = ''ping'' then Some (onDirect ''ping'' (heNode env) (\<lambda>x. map_sum id MPing (hePing env x)) ack args c)
      else if evt = ''pong'' then Some (onDirect ''pong'' (heNode env) (\<lambda>x. map_sum id MPong (hePong env x)) ack args c)
      else Some \<lparr> rnCtx = c, rnOut = [], rnResponses = [] \<rparr>)"

section \<open>Lemmas\<close>

definition is_ack :: "Response \<Rightarrow> bool" where
  "is_ack r \<longleftrightarrow> (case r of FatalClose _ \<Rightarrow> False | _ \<Rightarrow> True)"

definition is_error :: "Response \<Rightarrow> bool" where
  "is_error r \<longleftrightarrow> (case r of AckOk _ \<Rightarrow> False | _ \<Rightarrow> True)"

text \<open>What a response may be: with an acknowledgement one, without only the end of the signal.\<close>

definition answered :: "bool \<Rightarrow> Response list \<Rightarrow> bool" where
  "answered ack rs \<longleftrightarrow> (if ack then \<exists>r. rs = [r] \<and> is_ack r else rs = [] \<or> (\<exists>m. rs = [FatalClose m] \<and> emFatal m))"

lemma FinallyResponse_answered: "answered ack (FinallyResponse ack rawErr arkArgs cause False)"
  by (auto simp: answered_def FinallyResponse_def is_ack_def FatalErrorAndClose_def split: option.splits)

lemma FinallyResponse_outer:
  "FinallyResponse ack None arkArgs cause True = []"
  "FinallyResponse ack (Some p) arkArgs cause True = FinallyResponse ack (Some p) arkArgs cause False"
  by (simp_all add: FinallyResponse_def)

lemma FinallyResponse_error: "list_ex is_error (FinallyResponse ack rawErr arkArgs cause onlyErr) \<longleftrightarrow> rawErr \<noteq> None"
  by (auto simp: FinallyResponse_def is_error_def FatalErrorAndClose_def split: option.splits)

lemmas response_simps = FinallyResponse_answered FinallyResponse_outer FinallyResponse_error failed_def

text \<open>The context of a session: rooms as the token grants them, media maps well formed.\<close>

definition session_ok :: "AuthInfo \<Rightarrow> string \<Rightarrow> SignalContext \<Rightarrow> bool" where
  "session_ok ai uid c \<longleftrightarrow> rooms_inv (scRooms c) \<and> scAuth c = ai \<and> scId c = uid \<and> (\<forall>rm \<in> set (Rooms c). granted ai rm) \<and> media_ok c"

text \<open>What every handler promises: one answer, a good context, and no change and no message when it answers with an error.\<close>

definition run_ok :: "AuthInfo \<Rightarrow> string \<Rightarrow> bool \<Rightarrow> SignalContext \<Rightarrow> Run \<Rightarrow> bool" where
  "run_ok ai uid ack c r \<longleftrightarrow> answered ack (rnResponses r) \<and> session_ok ai uid (rnCtx r) \<and>
     (list_ex is_error (rnResponses r) \<longrightarrow> rnCtx r = c \<and> rnOut r = [])"

lemma run_ok_failed: "session_ok ai uid c \<Longrightarrow> run_ok ai uid ack c (failed ack p cause c)"
  by (simp add: run_ok_def response_simps)

lemma session_ok_rooms:
  assumes "session_ok ai uid c" "JoinRoom node rooms c = Inr (c', out, r)"
  shows "session_ok ai uid c' \<and> (\<forall>e. r = Inl e \<longrightarrow> c' = c \<and> out = [])"
  using assms(2)
proof (cases rule: JoinRoom_cases)
  case (err e)
  then show ?thesis using assms(1) by simp
next
  case ok
  have s: "rooms_inv (scRooms c)" "scAuth c = ai" "scId c = uid" "\<forall>rm \<in> set (Rooms c). granted ai rm" "media_ok c"
    using assms(1) by (simp_all add: session_ok_def)
  have "media_ok c'" using s(5) ok(2) by (auto simp: joinRooms_def Let_def media_ok_def split: prod.splits)
  then show ?thesis
    using joinRooms_state [OF s(1) ok(2)] s granted_wanted [OF ok(3)] ok(1) by (auto simp: session_ok_def)
qed

lemma session_ok_media:
  assumes "session_ok ai uid c" "media_ok c'" "scRooms c' = scRooms c" "scAuth c' = scAuth c" "scId c' = scId c"
  shows "session_ok ai uid c'"
  using assms by (simp add: session_ok_def Rooms_def)

lemma Publish_fields:
  assumes "Publish uuids tids msg c = Some (Inr (c', a))"
  shows "scRooms c' = scRooms c \<and> scAuth c' = scAuth c \<and> scId c' = scId c \<and> (\<forall>e. a = Inl e \<longrightarrow> c' = c)"
  using assms by (auto simp: Publish_def bind_res_Inr_iff split: sum.splits if_splits option.splits)

lemma Subscribe_fields:
  assumes "Subscribe node tp ord uuids msg c = Some (Inr r)"
  shows "scRooms (srContext r) = scRooms c \<and> scAuth (srContext r) = scAuth c \<and> scId (srContext r) = scId c"
  using assms
  by (auto simp: Subscribe_def subscribeAdd_def subscribeUpdate_def subscribeRemove_def Let_def bind_res_Inr_iff
      split: sum.splits if_splits option.splits prod.splits)

section \<open>Every handler keeps its promise\<close>

lemma onJoin_ok:
  assumes "session_ok ai uid c"
  shows "run_ok ai uid ack c (onJoin node decode ack args c)"
proof (cases "parseArgs decode args")
  case (Inr rooms)
  show ?thesis
  proof (cases "JoinRoom node rooms c")
    case (Inr x)
    obtain c' out r where x: "JoinRoom node rooms c = Inr (c', out, r)" using Inr by (cases x) auto
    show ?thesis using session_ok_rooms [OF assms x] x \<open>parseArgs decode args = Inr rooms\<close>
      by (cases r) (auto simp: onJoin_def run_ok_def response_simps)
  qed (use \<open>parseArgs decode args = Inr rooms\<close> assms in \<open>simp add: onJoin_def run_ok_failed\<close>)
qed (use assms in \<open>simp add: onJoin_def run_ok_failed\<close>)

lemma onLeave_ok: "session_ok ai uid c \<Longrightarrow> run_ok ai uid ack c (onLeave node decode ack args c)"
  by (cases "parseArgs decode args") (simp_all add: onLeave_def run_ok_failed LeaveRoom_def run_ok_def response_simps)

lemma onPublish_ok:
  assumes "session_ok ai uid c" "inj uuids"
  shows "\<exists>r. onPublish uuids tids decode ack args c = Some r \<and> run_ok ai uid ack c r"
proof (cases "parseArgs decode args")
  case (Inl e)
  then show ?thesis using assms(1) by (simp add: onPublish_def run_ok_def response_simps)
next
  case (Inr msg)
  have "media_ok c" using assms(1) by (simp add: session_ok_def)
  from Publish_answer [OF this assms(2), of tids msg] obtain c' a where
    p: "Publish uuids tids msg c = Some (Inr (c', a))" "media_ok c'" by blast
  then have s: "session_ok ai uid c'" "\<forall>e. a = Inl e \<longrightarrow> c' = c" using session_ok_media [OF assms(1)] Publish_fields [OF p(1)] by simp_all
  then show ?thesis using Inr p(1) by (cases a) (simp_all add: onPublish_def goPublish_def run_ok_def response_simps)
qed

lemma onSubscribe_ok:
  assumes "session_ok ai uid c" "inj uuids" "\<And>g. mset (ord g) = mset g"
  shows "\<exists>r. onSubscribe node tp ord uuids decode ack args c = Some r \<and> run_ok ai uid ack c r"
proof (cases "parseArgs decode args")
  case (Inl e)
  then show ?thesis using assms(1) by (simp add: onSubscribe_def run_ok_def response_simps)
next
  case (Inr msg)
  have m: "media_ok c" using assms(1) by (simp add: session_ok_def)
  show ?thesis
  proof (cases "subOp msg = 2 \<or> subPattern msg \<noteq> None")
    case True
    from Subscribe_answer [OF m assms(2,3) True, of node tp] obtain r where
      r: "Subscribe node tp ord uuids msg c = Some (Inr r)" "media_ok (srContext r)" "\<forall>e. srAnswer r = Inl e \<longrightarrow> srContext r = c \<and> srEmitted r = []"
      by blast
    have s: "session_ok ai uid (srContext r)" using session_ok_media [OF assms(1) r(2)] Subscribe_fields [OF r(1)] by simp
    show ?thesis using Inr r s by (cases "srAnswer r") (auto simp: onSubscribe_def goSubscribe_def run_ok_def response_simps)
  next
    case False
    then obtain x where x: "SubscribeMessage_Validate msg = x" "\<And>u. x \<noteq> Inr (Inr u)"
      using Validate_subscribe [of msg] by auto
    have "\<exists>y. Subscribe node tp ord uuids msg c = Some y \<and> (\<forall>sr. y = Inr sr \<longrightarrow> srContext sr = c \<and> srEmitted sr = [] \<and> (\<exists>e. srAnswer sr = Inl e))"
    proof (cases x)
      case (Inr z)
      then show ?thesis using x by (cases z) (auto simp: Subscribe_def)
    qed (use x in \<open>simp add: Subscribe_def\<close>)
    then obtain y where y: "Subscribe node tp ord uuids msg c = Some y"
        "\<And>sr. y = Inr sr \<Longrightarrow> srContext sr = c \<and> srEmitted sr = [] \<and> (\<exists>e. srAnswer sr = Inl e)" by blast
    show ?thesis
    proof (cases y)
      case (Inl p)
      then show ?thesis using Inr y(1) assms(1) by (simp add: onSubscribe_def goSubscribe_def run_ok_def response_simps)
    next
      case (Inr sr)
      then show ?thesis using \<open>parseArgs decode args = Inr msg\<close> y(1) y(2) [OF Inr] assms(1)
        by (auto simp: onSubscribe_def goSubscribe_def run_ok_def response_simps)
    qed
  qed
qed

lemma onUserInfo_ok: "session_ok ai uid c \<Longrightarrow> run_ok ai uid ack c (onUserInfo ack c)"
  by (simp add: onUserInfo_def run_ok_def response_simps)

text \<open>\<open>ping\<close> and \<open>pong\<close> answer as if there was no acknowledgement to give.\<close>

lemma onDirect_ok: "session_ok ai uid c \<Longrightarrow> run_ok ai uid False c (onDirect evt node decode ack args c)"
proof -
  assume s: "session_ok ai uid c"
  have "run_ok ai uid False c \<lparr> rnCtx = c, rnOut = out, rnResponses = FinallyResponse False None [] evt False \<rparr>" for out
    using s by (simp add: run_ok_def response_simps)
  then show ?thesis using run_ok_failed [OF s, of False] by (simp add: onDirect_def split: sum.splits)
qed

text \<open>The events that answer with an acknowledgement.\<close>

definition ackEvents :: "string list" where
  "ackEvents = [''join'', ''leave'', ''publish'', ''subscribe'', ''user-info'']"

lemma runEvent_ok:
  assumes s: "session_ok ai uid c" and u: "inj (heUuids env)" and o: "\<And>g. mset (heOrder env g) = mset g"
  shows "\<exists>r. runEvent env evt ack args c = Some r \<and> run_ok ai uid (ack \<and> evt \<in> set ackEvents) c r"
proof -
  consider "evt = ''join''" | "evt = ''leave''" | "evt = ''publish''" | "evt = ''subscribe''" | "evt = ''user-info''" | "evt = ''ping''"
    | "evt = ''pong''" | "evt \<noteq> ''join'' \<and> evt \<noteq> ''leave'' \<and> evt \<noteq> ''publish'' \<and> evt \<noteq> ''subscribe'' \<and> evt \<noteq> ''user-info'' \<and> evt \<noteq> ''ping'' \<and> evt \<noteq> ''pong''"
    by argo
  then show ?thesis
  proof cases
    case 1 then show ?thesis using onJoin_ok [OF s, of ack "heNode env" "heRooms env" args] by (simp add: runEvent_def ackEvents_def)
  next
    case 2 then show ?thesis using onLeave_ok [OF s, of ack "heNode env" "heRooms env" args] by (simp add: runEvent_def ackEvents_def)
  next
    case 3 then show ?thesis using onPublish_ok [OF s u, of "heTrackIds env" "hePublish env" ack args] by (simp add: runEvent_def ackEvents_def)
  next
    case 4 then show ?thesis
      using onSubscribe_ok [OF s u o, of "heNode env" "heTransport env" "heSubscribe env" ack args] by (simp add: runEvent_def ackEvents_def)
  next
    case 5 then show ?thesis using onUserInfo_ok [OF s, of ack] by (simp add: runEvent_def ackEvents_def)
  next
    case 6 then show ?thesis using onDirect_ok [OF s] by (simp add: runEvent_def ackEvents_def)
  next
    case 7 then show ?thesis using onDirect_ok [OF s] by (simp add: runEvent_def ackEvents_def)
  next
    case 8
    then have "runEvent env evt ack args c = Some \<lparr> rnCtx = c, rnOut = [], rnResponses = [] \<rparr>" "evt \<notin> set ackEvents"
      by (simp_all add: runEvent_def ackEvents_def)
    then show ?thesis using s by (simp add: run_ok_def answered_def)
  qed
qed

section \<open>Properties\<close>


inductive session :: "'a HandlerEnv \<Rightarrow> AuthInfo \<Rightarrow> string \<Rightarrow> SignalContext \<Rightarrow> bool" for env ai uid where
  start: "session env ai uid (newSignalContext ai uid)"
| request: "session env ai uid c \<Longrightarrow> runEvent env evt ack args c = Some r \<Longrightarrow> session env ai uid (rnCtx r)"

text \<open>C12: 
  The context of a client, after any requests with any arguments: its rooms are well formed and granted by its
  token, its subscriptions and publications are filed under their own ids, open, and with valid patterns.
\<close>

theorem session_wellformed:
  assumes "session env ai uid c" "inj (heUuids env)" "\<And>g. mset (heOrder env g) = mset g"
  shows "session_ok ai uid c"
  using assms(1)
proof (induction rule: session.induct)
  case start
  then show ?case using media_ok_new [of ai uid] by (simp add: session_ok_def newSignalContext_def Rooms_def)
next
  case (request c evt ack args r)
  then show ?case using runEvent_ok [OF request.IH assms(2,3), of evt ack args] by (auto simp: run_ok_def)
qed

text \<open>
  A ping with an acknowledgement closes the connection, and the acknowledgement is never given.
\<close>

theorem ping_with_ack_closes:
  assumes "evt = ''ping'' \<or> evt = ''pong''"
  shows "\<exists>r m. runEvent env evt True args c = Some r \<and> rnResponses r = [FatalClose m] \<and> rnCtx r = c"
  using assms by (auto simp: runEvent_def onDirect_def failed_def FinallyResponse_def FatalErrorAndClose_def split: sum.splits)

section \<open>Witnesses\<close>

definition demoHandlers :: "string list HandlerEnv" where
  "demoHandlers = \<lparr> heNode = ''n1'', heTransport = ''t'', heOrder = (\<lambda>g. g), heUuids = decimal, heTrackIds = decimal, heRooms = Inr,
     hePublish = (\<lambda>_. Inl (PlainError ''e'')), heSubscribe = (\<lambda>_. Inl (PlainError ''e'')), hePing = (\<lambda>_. Inl (PlainError ''e'')),
     hePong = (\<lambda>_. Inl (PlainError ''e'')) \<rparr>"

lemma demoHandlers_ok: "inj (heUuids demoHandlers)" "mset (heOrder demoHandlers g) = mset g"
  by (simp_all add: demoHandlers_def inj_decimal)

theorem session_wellformed_witness:
  "\<exists>r. runEvent demoHandlers ''join'' True [[''a.b'']] (newSignalContext demo_auth ''s'') = Some r \<and> session_ok demo_auth ''s'' (rnCtx r)"
proof -
  obtain r where r: "runEvent demoHandlers ''join'' True [[''a.b'']] (newSignalContext demo_auth ''s'') = Some r"
    by (simp add: runEvent_def)
  from session_wellformed [OF session.request [OF session.start r] demoHandlers_ok] r show ?thesis by blast
qed


theorem ping_with_ack_closes_witness:
  "\<exists>r m. runEvent demoHandlers ''ping'' True [[]] (newSignalContext demo_auth ''s'') = Some r \<and> rnResponses r = [FatalClose m] \<and>
     rnCtx r = newSignalContext demo_auth ''s''"
  by (rule ping_with_ack_closes) simp

end
