(* ===== verification/Negotiation.thy ===== *)
theory Negotiation
  imports SignalHandlers
begin

text \<open>
  The negotiation of a client's peer connection: \<open>StartNegotiate\<close>, \<open>makeSurePeer\<close> and \<open>closePeer\<close> (\<open>signal/model.go\<close>), the
  handlers of \<open>sdp\<close> and \<open>candidate\<close> with \<open>processPendingCandidateMsg\<close> (\<open>signal/main.go\<close>).

  Several goroutines run through these functions; the state holds what they share: the mutex of the
  negotiation, the one of the candidates (with the candidate of the handler that holds it), the state of the
  peer, and how many goroutines stand between two of their steps. An operation is one step of a goroutine
  between two points where another one can run; the step relation interleaves them in any way. The answers of the
  WebRTC library are arguments; it calls the handler of a signaling state in a goroutine of its own.
\<close>

section \<open>State\<close>

datatype SignalingState = Stable | HaveLocalOffer | HaveRemoteOffer

record CandidateMessage =
  cdOp :: string
  cdCandidate :: string

record Neg =
  negMux :: bool
  sdpMsgId :: int
  signaling :: SignalingState
  hasRemote :: bool
  candMux :: "CandidateMessage option"
  pendingCandidates :: "CandidateMessage list"
  added :: "string list"
  sdpSent :: "(string \<times> int) list"
  toProcess :: nat
  callbacks :: nat

definition newNeg :: Neg where
  "newNeg = \<lparr> negMux = False, sdpMsgId = 0, signaling = Stable, hasRemote = False, candMux = None, pendingCandidates = [], added = [],
     sdpSent = [], toProcess = 0, callbacks = 0 \<rparr>"

section \<open>The peer\<close>

datatype PeerSlot = NoPeer | Peer | PeerClosed bool

text \<open>\<open>makeSurePeer\<close>: \<open>created\<close> is the answer of \<open>createPeer\<close>; \<open>closePeer\<close> says whether a peer was closed.\<close>

definition makeSurePeer :: "go_err option \<Rightarrow> PeerSlot \<Rightarrow> PeerSlot \<times> go_err option" where
  "makeSurePeer created p =
     (case p of
        PeerClosed _ \<Rightarrow> (p, Some (PlainError ''connection closed''))
      | Peer \<Rightarrow> (p, None)
      | NoPeer \<Rightarrow> (case created of Some e \<Rightarrow> (NoPeer, Some e) | None \<Rightarrow> (Peer, None)))"

definition closePeer :: "PeerSlot \<Rightarrow> PeerSlot" where
  "closePeer p = (case p of PeerClosed b \<Rightarrow> PeerClosed b | Peer \<Rightarrow> PeerClosed True | NoPeer \<Rightarrow> PeerClosed False)"

section \<open>Operations\<close>

text \<open>
  \<open>StartNegotiate\<close>; \<open>None\<close> while it waits for the mutex. \<open>offerErr\<close>, \<open>localErr\<close> and \<open>emitErr\<close> are the answers of
  \<open>CreateOffer\<close>, \<open>SetLocalDescription\<close> and \<open>mustEmitWithAck\<close>.
\<close>

definition StartNegotiate :: "go_err option \<Rightarrow> go_err option \<Rightarrow> go_err option \<Rightarrow> int \<Rightarrow> Neg \<Rightarrow> (Neg \<times> go_err option) option" where
  "StartNegotiate offerErr localErr emitErr msgId s =
     (if negMux s then None
      else let s1 = s\<lparr> negMux := True \<rparr>
           in Some (case offerErr of
                      Some e \<Rightarrow> (s1, Some e)
                    | None \<Rightarrow>
                        (case localErr of
                           Some e \<Rightarrow> (s1, Some e)
                         | None \<Rightarrow> (s1\<lparr> signaling := HaveLocalOffer, sdpSent := sdpSent s1 @ [(''offer'', msgId)] \<rparr>, emitErr))))"

text \<open>
  The goroutine of \<open>sdp\<close> up to \<open>SetRemoteDescription\<close>, whose answer is \<open>remoteErr\<close>: whether it goes on.
\<close>

definition sdpBegin :: "go_err option \<Rightarrow> string \<Rightarrow> int \<Rightarrow> Neg \<Rightarrow> Neg \<times> bool" where
  "sdpBegin remoteErr typ mid s =
     (let s1 = s\<lparr> negMux := True \<rparr>
      in if typ = ''answer'' \<and> sdpMsgId s1 \<noteq> mid then (s1, False)
         else case remoteErr of
                Some e \<Rightarrow> (s1, False)
              | None \<Rightarrow>
                  (s1\<lparr> hasRemote := True, toProcess := Suc (toProcess s1),
                       signaling := (if typ = ''answer'' then Stable else HaveRemoteOffer),
                       callbacks := (if typ = ''answer'' then Suc (callbacks s1) else callbacks s1) \<rparr>, True))"

definition processCandidateMsg :: "CandidateMessage \<Rightarrow> Neg \<Rightarrow> Neg" where
  "processCandidateMsg msg s = s\<lparr> added := added s @ [if cdOp msg = ''add'' then cdCandidate msg else ''''] \<rparr>"

definition processPendingCandidateMsg :: "Neg \<Rightarrow> Neg" where
  "processPendingCandidateMsg s = (fold processCandidateMsg (pendingCandidates s) s)\<lparr> pendingCandidates := [] \<rparr>"

text \<open>
  The rest of the goroutine, once it holds the mutex of the candidates: \<open>candErr\<close> is an error of one of the candidates,
  \<open>answerErr\<close> one of \<open>CreateAnswer\<close> or \<open>SetLocalDescription\<close>, \<open>emitErr\<close> one of the sending of the answer.
\<close>

definition sdpEnd :: "go_err option \<Rightarrow> go_err option \<Rightarrow> go_err option \<Rightarrow> string \<Rightarrow> int \<Rightarrow> Neg \<Rightarrow> Neg \<times> go_panic option" where
  "sdpEnd candErr answerErr emitErr typ mid s =
     (let s1 = (processPendingCandidateMsg s)\<lparr> toProcess := toProcess s - 1 \<rparr>
      in case candErr of
           Some e \<Rightarrow> (s1, Some (ErrorPanic e))
         | None \<Rightarrow>
             if typ = ''offer''
             then (case answerErr of
                     Some e \<Rightarrow> (s1, Some (ErrorPanic e))
                   | None \<Rightarrow> (s1\<lparr> signaling := Stable, callbacks := Suc (callbacks s1), sdpSent := sdpSent s1 @ [(''answer'', mid)] \<rparr>, map_option ErrorPanic emitErr))
             else if typ \<noteq> ''answer'' then (s1, Some (ErrorPanic (FatalError ''the sdp type %v is not supported'')))
             else (s1, None))"

text \<open>The handler of the signaling state, called for the state \<open>stable\<close>.\<close>

definition onStable :: "Neg \<Rightarrow> Neg" where
  "onStable s = s\<lparr> negMux := False, callbacks := callbacks s - 1 \<rparr>"

text \<open>
  The handler of \<open>candidate\<close>: without a remote description it takes the mutex, looks again, and then appends the
  candidate and frees the mutex.
\<close>

definition candidateArrives :: "CandidateMessage \<Rightarrow> Neg \<Rightarrow> Neg option" where
  "candidateArrives msg s =
     (if hasRemote s then Some (processCandidateMsg msg s)
      else if candMux s \<noteq> None then None
      else Some (s\<lparr> candMux := Some msg \<rparr>))"

definition candidateAppend :: "Neg \<Rightarrow> Neg" where
  "candidateAppend s =
     (case candMux s of None \<Rightarrow> s | Some msg \<Rightarrow> s\<lparr> pendingCandidates := pendingCandidates s @ [msg], candMux := None \<rparr>)"

section \<open>Steps\<close>

inductive neg_step :: "Neg \<Rightarrow> CandidateMessage list \<Rightarrow> Neg \<Rightarrow> bool" where
  draw_id: "neg_step s [] (s\<lparr> sdpMsgId := i \<rparr>)"
| start: "StartNegotiate e1 e2 e3 mid s = Some (s', r) \<Longrightarrow> neg_step s [] s'"
| sdp_begin: "sdpBegin e typ mid s = (s', go) \<Longrightarrow> neg_step s [] s'"
| sdp_end: "0 < toProcess s \<Longrightarrow> candMux s = None \<Longrightarrow> sdpEnd e1 e2 e3 typ mid s = (s', r) \<Longrightarrow> neg_step s [] s'"
| stable: "0 < callbacks s \<Longrightarrow> neg_step s [] (onStable s)"
| candidate: "candidateArrives msg s = Some s' \<Longrightarrow> neg_step s [msg] s'"
| append_candidate: "neg_step s [] (candidateAppend s)"

inductive neg_reach :: "CandidateMessage list \<Rightarrow> Neg \<Rightarrow> bool" where
  init: "neg_reach [] newNeg"
| step: "neg_reach cs s \<Longrightarrow> neg_step s new s' \<Longrightarrow> neg_reach (cs @ new) s'"

definition candOf :: "CandidateMessage \<Rightarrow> string" where
  "candOf msg = (if cdOp msg = ''add'' then cdCandidate msg else '''')"

definition neg_inv :: "CandidateMessage list \<Rightarrow> Neg \<Rightarrow> bool" where
  "neg_inv cs s \<longleftrightarrow>
     mset (added s) + mset (map candOf (pendingCandidates s)) + mset (map candOf (case candMux s of None \<Rightarrow> [] | Some m \<Rightarrow> [m])) = mset (map candOf cs) \<and>
     (hasRemote s \<and> toProcess s = 0 \<longrightarrow> pendingCandidates s = [] \<and> candMux s = None) \<and>
     (\<not> hasRemote s \<longrightarrow> added s = [] \<and> toProcess s = 0)"

lemma fold_process: "fold processCandidateMsg ms s = s\<lparr> added := added s @ map candOf ms \<rparr>"
  by (induction ms arbitrary: s) (simp_all add: processCandidateMsg_def candOf_def)

lemma processPending_simp: "processPendingCandidateMsg s = s\<lparr> added := added s @ map candOf (pendingCandidates s), pendingCandidates := [] \<rparr>"
  by (simp add: processPendingCandidateMsg_def fold_process)

lemma neg_inv_cong:
  assumes "neg_inv cs s" "added s' = added s" "pendingCandidates s' = pendingCandidates s" "candMux s' = candMux s" "hasRemote s' = hasRemote s"
    "toProcess s' = toProcess s"
  shows "neg_inv cs s'"
  using assms by (simp add: neg_inv_def)

lemma sdpEnd_fields:
  assumes "sdpEnd e1 e2 e3 typ mid s = (s', r)"
  shows "added s' = added s @ map candOf (pendingCandidates s) \<and> pendingCandidates s' = [] \<and> candMux s' = candMux s \<and> hasRemote s' = hasRemote s \<and>
    toProcess s' = toProcess s - 1"
  using assms by (auto simp: sdpEnd_def Let_def processPending_simp split: option.splits if_splits)

lemma neg_step_inv:
  assumes "neg_step s new s'" "neg_inv cs s"
  shows "neg_inv (cs @ new) s'"
  using assms
proof (cases rule: neg_step.cases)
  case (start e1 e2 e3 mid r)
  then have "added s' = added s" "pendingCandidates s' = pendingCandidates s" "candMux s' = candMux s" "hasRemote s' = hasRemote s" "toProcess s' = toProcess s"
    by (auto simp: StartNegotiate_def Let_def split: if_splits option.splits)
  then show ?thesis using start(1) neg_inv_cong [OF assms(2)] by simp
next
  case (sdp_begin e ty mid more)
  then show ?thesis using assms(2) by (auto simp: sdpBegin_def Let_def neg_inv_def split: if_splits option.splits)
next
  case (sdp_end e1 e2 e3 ty mid r)
  have "hasRemote s" using assms(2) sdp_end(2) by (auto simp: neg_inv_def)
  then show ?thesis using assms(2) sdp_end sdpEnd_fields [OF sdp_end(4)] by (simp add: neg_inv_def)
next
  case (candidate msg)
  then show ?thesis using assms(2)
    by (auto simp: candidateArrives_def neg_inv_def processCandidateMsg_def candOf_def split: if_splits)
next
  case append_candidate
  then show ?thesis using assms(2) by (auto simp: candidateAppend_def neg_inv_def split: option.splits)
qed (use neg_inv_cong [OF assms(2)] in \<open>auto simp: onStable_def\<close>)

lemma neg_reach_inv: "neg_reach cs s \<Longrightarrow> neg_inv cs s"
  by (induction rule: neg_reach.induct) (use neg_step_inv in \<open>auto simp: neg_inv_def newNeg_def\<close>)

section \<open>Properties\<close>

text \<open>C15: 
  However the goroutines interleave, no candidate of a client is lost, doubled or stranded: once the remote description
  is set and the handlers have run to their end, exactly the candidates that came have been given to the peer.
\<close>

theorem no_candidate_stranded:
  assumes "neg_reach cs s" "hasRemote s" "toProcess s = 0"
  shows "mset (added s) = mset (map candOf cs) \<and> pendingCandidates s = []"
  using neg_reach_inv [OF assms(1)] assms(2,3) by (auto simp: neg_inv_def)

text \<open>Before the remote description the peer gets no candidate at all.\<close>

theorem no_early_candidate:
  assumes "neg_reach cs s" "\<not> hasRemote s"
  shows "added s = []"
  using neg_reach_inv [OF assms(1)] assms(2) by (simp add: neg_inv_def)

text \<open>Only the handler of the stable state frees the mutex of the negotiation.\<close>

lemma neg_step_locked:
  assumes "neg_step s new s'" "negMux s" "callbacks s = 0"
  shows "negMux s'"
  using assms
  by (cases rule: neg_step.cases)
    (auto simp: StartNegotiate_def sdpBegin_def sdpEnd_def candidateArrives_def candidateAppend_def processCandidateMsg_def processPending_simp Let_def
      split: if_splits option.splits)

text \<open>A run in which no description is accepted, so that the handler of the stable state is not called.\<close>

inductive quiet_run :: "Neg \<Rightarrow> Neg \<Rightarrow> bool" where
  refl: "callbacks s = 0 \<Longrightarrow> quiet_run s s"
| step: "quiet_run s s1 \<Longrightarrow> neg_step s1 new s2 \<Longrightarrow> callbacks s2 = 0 \<Longrightarrow> quiet_run s s2"

lemma quiet_run_locked: "quiet_run s s' \<Longrightarrow> negMux s \<Longrightarrow> negMux s' \<and> callbacks s' = 0"
  by (induction rule: quiet_run.induct) (auto dest: neg_step_locked)

text \<open>
  An answer that does not belong to the last offer is ignored, but the goroutine has taken the mutex and keeps it:
  from then on no negotiation of the server can start until the client sends a description that is accepted. The same
  holds after an offer that could not be made.
\<close>

theorem stray_answer_blocks:
  assumes "mid \<noteq> sdpMsgId s" "quiet_run (fst (sdpBegin e ''answer'' mid s)) s'"
  shows "StartNegotiate e1 e2 e3 i s' = None"
proof -
  have "negMux (fst (sdpBegin e ''answer'' mid s))" using assms(1) by (simp add: sdpBegin_def Let_def)
  from quiet_run_locked [OF assms(2) this] show ?thesis by (simp add: StartNegotiate_def)
qed

theorem failed_offer_blocks:
  assumes "StartNegotiate (Some e) e2 e3 i s = Some (s1, r)" "quiet_run s1 s'"
  shows "r = Some e \<and> StartNegotiate e4 e5 e6 j s' = None"
proof -
  have "negMux s1" "r = Some e" using assms(1) by (auto simp: StartNegotiate_def Let_def split: if_splits)
  with quiet_run_locked [OF assms(2)] show ?thesis by (simp add: StartNegotiate_def)
qed

text \<open>
  A round of the server: the offer goes out under the id that was drawn, the answer with that id is accepted, and after
  the handler of the stable state the next negotiation can start.
\<close>

theorem negotiation_round:
  assumes "\<not> negMux s" "sdpMsgId s = mid" "candMux s = None" "callbacks s = 0"
  shows "\<exists>s1 s2 s3. StartNegotiate None None None mid s = Some (s1, None) \<and> signaling s1 = HaveLocalOffer \<and>
    sdpBegin None ''answer'' mid s1 = (s2, True) \<and> sdpEnd None None None ''answer'' mid s2 = (s3, None) \<and> signaling s3 = Stable \<and>
    sdpSent (onStable s3) = sdpSent s @ [(''offer'', mid)] \<and> pendingCandidates (onStable s3) = [] \<and> \<not> negMux (onStable s3) \<and> callbacks (onStable s3) = 0"
  using assms by (simp add: StartNegotiate_def sdpBegin_def sdpEnd_def Let_def onStable_def processPending_simp)

text \<open>
  The mutex does not keep two negotiations apart: the handler of the stable state frees it whoever holds it. After two
  offers of the client in a row, the second of their handlers runs while an offer of the server is open.
\<close>

lemma neg_reach_stepI: "neg_reach cs s \<Longrightarrow> neg_step s [] s' \<Longrightarrow> neg_reach cs s'"
  using neg_reach.step [of cs s "[]" s'] by simp

lemma remote_offer:
  assumes "neg_reach cs s" "candMux s = None"
  shows "neg_reach cs (fst (sdpEnd None None None ''offer'' mid (fst (sdpBegin None ''offer'' mid s))))"
proof -
  obtain s1 b where b: "sdpBegin None ''offer'' mid s = (s1, b)" by fastforce
  then have t: "0 < toProcess s1" "candMux s1 = None" using assms(2) by (auto simp: sdpBegin_def Let_def)
  obtain s2 r where e: "sdpEnd None None None ''offer'' mid s1 = (s2, r)" by fastforce
  have "neg_reach cs s1" by (rule neg_reach_stepI [OF assms(1) neg_step.sdp_begin [OF b]])
  from neg_reach_stepI [OF this neg_step.sdp_end [OF t e]] show ?thesis by (simp add: b e)
qed

theorem two_offers_open:
  "\<exists>s s'. neg_reach [] s \<and> signaling s = HaveLocalOffer \<and> StartNegotiate None None None 6 s = Some (s', None) \<and>
     map fst (sdpSent s') = [''answer'', ''answer'', ''offer'', ''offer'']"
proof -
  define a where "a = fst (sdpEnd None None None ''offer'' 1 (fst (sdpBegin None ''offer'' 1 newNeg)))"
  define b where "b = fst (sdpEnd None None None ''offer'' 3 (fst (sdpBegin None ''offer'' 3 a)))"
  note defs = a_def b_def newNeg_def sdpBegin_def sdpEnd_def processPending_simp Let_def onStable_def
  have "neg_reach [] a" unfolding a_def by (rule remote_offer [OF neg_reach.init]) (simp add: newNeg_def)
  moreover have "candMux a = None" by (simp add: defs)
  ultimately have "neg_reach [] b" unfolding b_def by (rule remote_offer)
  then have r: "neg_reach [] (onStable b)" by (rule neg_reach_stepI [OF _ neg_step.stable]) (simp add: defs)
  obtain c where c: "StartNegotiate None None None 4 (onStable b) = Some (c, None)" by (simp add: StartNegotiate_def defs)
  from neg_reach_stepI [OF r neg_step.start [OF c]] have "neg_reach [] c" .
  then have "neg_reach [] (onStable c)" by (rule neg_reach_stepI [OF _ neg_step.stable]) (use c in \<open>auto simp: StartNegotiate_def defs\<close>)
  moreover have "signaling (onStable c) = HaveLocalOffer" using c by (auto simp: StartNegotiate_def defs)
  moreover obtain d where "StartNegotiate None None None 6 (onStable c) = Some (d, None)" "map fst (sdpSent d) = [''answer'', ''answer'', ''offer'', ''offer'']"
    using c by (simp add: StartNegotiate_def defs) auto
  ultimately have "neg_reach [] (onStable c) \<and> signaling (onStable c) = HaveLocalOffer \<and> StartNegotiate None None None 6 (onStable c) = Some (d, None) \<and>
     map fst (sdpSent d) = [''answer'', ''answer'', ''offer'', ''offer'']" by (intro conjI)
  then show ?thesis by (intro exI)
qed

section \<open>Witnesses\<close>

definition demoCandidate :: CandidateMessage where
  "demoCandidate = \<lparr> cdOp = ''add'', cdCandidate = ''c1'' \<rparr>"

theorem no_candidate_stranded_witness:
  "\<exists>s. neg_reach [demoCandidate] s \<and> mset (added s) = mset (map candOf [demoCandidate]) \<and> pendingCandidates s = []"
proof -
  obtain a where a: "candidateArrives demoCandidate newNeg = Some a" "candMux a = Some demoCandidate"
    by (simp add: candidateArrives_def newNeg_def)
  have "neg_reach [demoCandidate] a" using neg_reach.step [OF neg_reach.init neg_step.candidate [OF a(1)]] by simp
  then have r: "neg_reach [demoCandidate] (candidateAppend a)" by (rule neg_reach_stepI) (rule neg_step.append_candidate)
  let ?s = "fst (sdpEnd None None None ''offer'' 1 (fst (sdpBegin None ''offer'' 1 (candidateAppend a))))"
  have "neg_reach [demoCandidate] ?s" by (rule remote_offer [OF r]) (use a in \<open>simp add: candidateAppend_def\<close>)
  moreover have "hasRemote ?s" "toProcess ?s = 0"
    using a by (auto simp: candidateAppend_def candidateArrives_def newNeg_def sdpBegin_def sdpEnd_def processPending_simp Let_def)
  ultimately show ?thesis using no_candidate_stranded [of "[demoCandidate]" ?s] by blast
qed

theorem no_early_candidate_witness: "added newNeg = []"
  by (rule no_early_candidate [OF neg_reach.init]) (simp add: newNeg_def)

theorem stray_answer_blocks_witness: "StartNegotiate None None None 2 (fst (sdpBegin None ''answer'' 7 newNeg)) = None"
  by (rule stray_answer_blocks [of 7 newNeg None]) (simp_all add: newNeg_def sdpBegin_def quiet_run.refl)

theorem negotiation_round_witness:
  "\<exists>s1 s2 s3. StartNegotiate None None None 0 newNeg = Some (s1, None) \<and> sdpBegin None ''answer'' 0 s1 = (s2, True) \<and>
     sdpEnd None None None ''answer'' 0 s2 = (s3, None) \<and> \<not> negMux (onStable s3)"
  using negotiation_round [of newNeg 0] by (auto simp: newNeg_def)

end
