(* ===== verification/Redis.thy ===== *)
theory Redis
  imports Collections ClusterConf
begin

text \<open>
  The Redis client (\<open>signal/redis.go\<close>) and the copying of fields between structs it uses (\<open>ShallowCopy\<close>, \<open>pkg/common/reflect.go\<close>). The
  parsers of URLs of the library \<open>go-redis\<close> are arguments; of its options the model has the addresses, the credentials and the name of the client.
  What \<open>ShallowCopy\<close> makes of the structs of the library is an argument too.
\<close>

section \<open>Copying fields\<close>

text \<open>
  A value with its type: of a basic type (or any type that is not looked into), a struct with its fields, a pointer.
\<close>

datatype RType = TBasic string | TStruct string | TPtr RType

datatype RVal = RBasic string string | RStruct string "(string \<times> RVal) list" | RPtr RType "RVal option"

fun typeOf :: "RVal \<Rightarrow> RType" where
  "typeOf (RBasic t _) = TBasic t"
| "typeOf (RStruct t _) = TStruct t"
| "typeOf (RPtr t _) = TPtr t"

text \<open>A field can be set from outside of its package when its name begins with an upper case letter.\<close>

definition exported :: "string \<Rightarrow> bool" where
  "exported name = (case name of c # _ \<Rightarrow> 65 \<le> (of_char c :: nat) \<and> (of_char c :: nat) \<le> 90 | [] \<Rightarrow> False)"

definition elemOf :: "RVal \<Rightarrow> RType \<Rightarrow> RVal res" where
  "elemOf v ty =
     (if typeOf v = ty then Inr v
      else case v of
             RPtr _ (Some w) \<Rightarrow> Inr w
           | RPtr _ None \<Rightarrow> Inl (ValuePanic ''reflect: call of reflect.Value.Type on zero Value'')
           | _ \<Rightarrow> Inr v)"

text \<open>
  \<open>shallowCopy\<close> for two structs, given by their fields: the fields of the target after the call, and the error. The type of a field
  that the target does not have is asked for before the field is looked at. Errors of nested structs are dropped.
\<close>

lemma elemOf_size: "elemOf v ty = Inr w \<Longrightarrow> size w \<le> size v"
  by (cases v) (auto simp: elemOf_def split: if_splits option.splits)

function copyFields :: "(string \<times> RVal) list \<Rightarrow> (string, RVal) gomap \<Rightarrow> ((string, RVal) gomap \<times> go_err option) res" where
  "copyFields [] target = Inr (target, None)"
| "copyFields ((name, v) # fs) target =
     (case mget target name of
        None \<Rightarrow> Inl (ValuePanic ''reflect: call of reflect.Value.Type on zero Value'')
      | Some tv \<Rightarrow>
          (case elemOf v (typeOf tv) of
             Inl p \<Rightarrow> Inl p
           | Inr w \<Rightarrow>
               if \<not> exported name then copyFields fs target
               else if typeOf w \<noteq> typeOf tv then Inr (target, Some (PlainError ''shallowCopy failed. fields type mismatched: %s.%s''))
               else (case (w, tv) of
                       (RStruct _ wfs, RStruct ty tfs) \<Rightarrow>
                         (case copyFields wfs tfs of
                            Inl p \<Rightarrow> Inl p
                          | Inr (tfs', _) \<Rightarrow> copyFields fs (mput name (RStruct ty tfs') target))
                     | _ \<Rightarrow> copyFields fs (mput name w target))))"
  by pat_completeness auto
termination
  by (relation "measure (\<lambda>(fs, _). size_list (size_prod (\<lambda>_. 0) size) fs)") (auto dest!: elemOf_size)

fun unwrapPointer :: "RVal \<Rightarrow> RVal option" where
  "unwrapPointer (RPtr _ None) = None"
| "unwrapPointer (RPtr _ (Some v)) = unwrapPointer v"
| "unwrapPointer v = Some v"

text \<open>The target with new fields at the end of its pointers.\<close>

fun setFields :: "(string, RVal) gomap \<Rightarrow> RVal \<Rightarrow> RVal" where
  "setFields fs (RPtr t (Some v)) = RPtr t (Some (setFields fs v))"
| "setFields fs (RStruct n _) = RStruct n fs"
| "setFields fs v = v"

definition ShallowCopy :: "RVal option \<Rightarrow> RVal option \<Rightarrow> (RVal option \<times> go_err option) res" where
  "ShallowCopy src target =
     (case (src, target) of
        (Some s, Some t) \<Rightarrow>
          (case t of
             RPtr _ _ \<Rightarrow>
               (case unwrapPointer s of
                  Some (RStruct _ sfs) \<Rightarrow>
                    (case unwrapPointer t of
                       Some (RStruct _ tfs) \<Rightarrow> bind_res (copyFields sfs tfs) (\<lambda>(tfs', e). Inr (Some (setFields tfs' t), e))
                     | _ \<Rightarrow> Inr (target, Some (PlainError ''shallowCopy only accept a pointer to struct target argument'')))
                | _ \<Rightarrow> Inr (target, Some (PlainError ''shallowCopy only accept a struct or pointer to struct src argument'')))
           | _ \<Rightarrow> Inr (target, Some (PlainError ''shallowCopy only accept a pointer to struct target argument'')))
      | _ \<Rightarrow> Inr (target, None))"

section \<open>Options\<close>

record RedisOptions =
  roAddr :: string
  roUsername :: string
  roPassword :: string
  roClientName :: string

text \<open>\<open>coNewClient\<close> says whether the closure for the nodes is set, here and for a ring.\<close>

record ClusterOptions =
  coAddrs :: "string list"
  coUsername :: string
  coPassword :: string
  coClientName :: string
  coNewClient :: bool

record FailoverOptions =
  foSentinelAddrs :: "string list"
  foMasterName :: string
  foUsername :: string
  foPassword :: string
  foClientName :: string

record RingOptions =
  riAddrs :: "(string, string) gomap"
  riUsername :: string
  riPassword :: string
  riClientName :: string
  riNewClient :: bool

datatype RedisClient = NewClient RedisOptions | NewClusterClient ClusterOptions | NewFailoverClient FailoverOptions | NewRing RingOptions

record redisAuth =
  raUser :: string
  raPass :: string

record RedisLib =
  ParseClusterURL :: "string \<Rightarrow> go_err + ClusterOptions"
  ParseURL :: "string \<Rightarrow> go_err + RedisOptions"
  copyFailover :: "ClusterOptions \<Rightarrow> (FailoverOptions \<times> go_err option) res"
  copyRing :: "ClusterOptions \<Rightarrow> RingOptions res"

definition checkRedisMode :: "string \<Rightarrow> go_err + string" where
  "checkRedisMode m =
     (let mode = ToLower (TrimSpace m)
      in if mode \<in> {''auto'', ''standalone'', ''cluster'', ''sentinel'', ''ring''} then Inr mode
         else Inl (InvalidConfig ''invalid redis mode %s, support one is auto, standalone, cluster, sentinel or ring''))"

definition emptyOptions :: "string \<Rightarrow> RedisOptions" where
  "emptyOptions addr = \<lparr> roAddr = addr, roUsername = '''', roPassword = '''', roClientName = '''' \<rparr>"

definition addrEntry :: "RedisLib \<Rightarrow> string \<Rightarrow> (string, RedisOptions) gomap \<Rightarrow> (string, RedisOptions) gomap" where
  "addrEntry lib a m =
     (let addr = TrimSpace a
      in case ParseURL lib addr of
           Inr opts \<Rightarrow> mput (roAddr opts) opts m
         | Inl _ \<Rightarrow> mput addr (emptyOptions addr) m)"

definition parseRedisOpts :: "RedisLib \<Rightarrow> RedisConfigure \<Rightarrow> go_err + (string, RedisOptions) gomap \<times> ClusterOptions option" where
  "parseRedisOpts lib conf =
     (if rdAddrs conf = '''' then Inl (InvalidConfig ''addrs is required for redis config'')
      else case ParseClusterURL lib (rdAddrs conf) of
             Inr opts \<Rightarrow> Inr ([], Some opts)
           | Inl _ \<Rightarrow>
               (let m = fold (addrEntry lib) (Split CHR '','' (rdAddrs conf)) []
                in if m = [] then Inl (InvalidConfig ''addrs is required for redis config'') else Inr (m, None)))"

definition nonEmptyWords :: "string \<Rightarrow> string list" where
  "nonEmptyWords s = SliceMapNew (Split CHR '' '' s) (\<lambda>w. let w = TrimSpace w in if w = '''' then None else Some w)"

definition parseRedisAuth :: "RedisConfigure \<Rightarrow> go_err + redisAuth list" where
  "parseRedisAuth conf =
     (let users = nonEmptyWords (rdUsers conf); passes = nonEmptyWords (rdPasses conf)
      in if users = [] \<and> passes = [] then Inr []
         else if users = [] then Inr (map (\<lambda>user. \<lparr> raUser = user, raPass = '''' \<rparr>) users)
         else if passes = [] then Inr (map (\<lambda>pass. \<lparr> raUser = '''', raPass = pass \<rparr>) passes)
         else if length users = 1 then Inr (map (\<lambda>pass. \<lparr> raUser = users ! 0, raPass = pass \<rparr>) passes)
         else if length passes = 1 then Inr (map (\<lambda>user. \<lparr> raUser = user, raPass = passes ! 0 \<rparr>) users)
         else if length users = length passes then Inr (map (\<lambda>(u, p). \<lparr> raUser = u, raPass = p \<rparr>) (zip users passes))
         else Inl (InvalidConfig ''invalid redis config, the number of users not match passes''))"

text \<open>The closure for the nodes of a cluster (and of a ring): it sets the options of the cluster, and the options of the node stay.\<close>

definition nodeClient :: "string list \<Rightarrow> redisAuth list \<Rightarrow> string \<times> string \<Rightarrow> RedisOptions \<Rightarrow> ((string \<times> string) \<times> RedisOptions) res" where
  "nodeClient addrs auths opts opt =
     (let i = IndexOf addrs (roAddr opt) None
      in if i = -1 then Inl (ErrorPanic ThisIsImpossible)
         else if int (length auths) \<le> i then Inl IndexOutOfRange
         else
           (let auth = auths ! nat i; (username, password) = opts
            in Inr ((if raUser auth \<noteq> '''' then raUser auth else username, if raPass auth \<noteq> '''' then raPass auth else password), opt)))"

definition userOf :: "redisAuth list \<Rightarrow> string \<Rightarrow> string" where
  "userOf auths old = (case auths of [a] \<Rightarrow> if raUser a \<noteq> '''' then raUser a else old | _ \<Rightarrow> old)"

definition passOf :: "redisAuth list \<Rightarrow> string \<Rightarrow> string" where
  "passOf auths old = (case auths of [a] \<Rightarrow> if raPass a \<noteq> '''' then raPass a else old | _ \<Rightarrow> old)"

section \<open>Clients\<close>

definition standaloneClient ::
  "RedisLib \<Rightarrow> RedisConfigure \<Rightarrow> string \<Rightarrow> (string, RedisOptions) gomap \<Rightarrow> ClusterOptions option \<Rightarrow> string list \<Rightarrow> redisAuth list \<Rightarrow> go_err + RedisClient" where
  "standaloneClient lib conf clientName addrsMap clusterOpts addrs auths =
     (if length addrs \<noteq> 1
      then Inl (InvalidConfig ''redis config in standalone mode must specify one and only one address, but got %d addresses: %s'')
      else if length auths > 1 then Inl (InvalidConfig ''invalid redis config, too many users or passes'')
      else
        (let opts = (case clusterOpts of
                       Some _ \<Rightarrow> (let addr = TrimSpace (rdAddrs conf)
                                  in case ParseURL lib addr of Inr o1 \<Rightarrow> o1 | Inl _ \<Rightarrow> emptyOptions addr)
                     | None \<Rightarrow> the (mget addrsMap (addrs ! 0)))
         in Inr (NewClient (opts\<lparr> roClientName := clientName, roUsername := userOf auths (roUsername opts), roPassword := passOf auths (roPassword opts) \<rparr>))))"

definition clusterClient :: "string \<Rightarrow> ClusterOptions option \<Rightarrow> string list \<Rightarrow> redisAuth list \<Rightarrow> go_err + RedisClient" where
  "clusterClient clientName clusterOpts addrs auths =
     bind_res
       (case clusterOpts of
          Some o1 \<Rightarrow>
            if length auths > 1 then Inl (InvalidConfig ''invalid redis config, cluster redis connect string only one auth data, but got %d'')
            else Inr o1
        | None \<Rightarrow>
            if length auths > 1 \<and> length auths \<noteq> length addrs
            then Inl (InvalidConfig ''invalid redis config, the number of auth data not match addrs'')
            else Inr \<lparr> coAddrs = addrs, coUsername = '''', coPassword = '''', coClientName = '''', coNewClient = (length auths > 1) \<rparr>)
       (\<lambda>opts. Inr (NewClusterClient
          (opts\<lparr> coClientName := clientName, coUsername := userOf auths (coUsername opts), coPassword := passOf auths (coPassword opts) \<rparr>)))"

definition sentinelClient ::
  "RedisLib \<Rightarrow> RedisConfigure \<Rightarrow> string \<Rightarrow> ClusterOptions option \<Rightarrow> string list \<Rightarrow> redisAuth list \<Rightarrow> (go_err + RedisClient) res" where
  "sentinelClient lib conf clientName clusterOpts addrs auths =
     (if rdMasterName conf = '''' then Inr (Inl (InvalidConfig ''invalid redis config, masterName is required for sentinel mode''))
      else if length auths > 1 then Inr (Inl (InvalidConfig ''invalid redis config, too many users or passes for sentinel mode''))
      else
        bind_res
          (case clusterOpts of
             Some o1 \<Rightarrow> copyFailover lib o1
           | None \<Rightarrow> Inr (\<lparr> foSentinelAddrs = addrs, foMasterName = '''', foUsername = '''', foPassword = '''', foClientName = '''' \<rparr>, None))
          (\<lambda>(opts, err).
             Inr (case err of
                    Some e \<Rightarrow> Inl (FatalError (case e of ConfError _ m \<Rightarrow> m | PlainError m \<Rightarrow> m))
                  | None \<Rightarrow>
                      Inr (NewFailoverClient (opts\<lparr> foMasterName := rdMasterName conf, foClientName := clientName,
                        foUsername := userOf auths (foUsername opts), foPassword := passOf auths (foPassword opts) \<rparr>)))))"

text \<open>The error of \<open>ShallowCopy\<close> is ignored here.\<close>

definition ringClient :: "RedisLib \<Rightarrow> string \<Rightarrow> ClusterOptions option \<Rightarrow> string list \<Rightarrow> redisAuth list \<Rightarrow> (go_err + RedisClient) res" where
  "ringClient lib clientName clusterOpts addrs auths =
     (if length auths > 1 \<and> clusterOpts \<noteq> None
      then Inr (Inl (InvalidConfig ''invalid redis config, ring mode only support one auth data, but got %d''))
      else if length auths > 1 \<and> length auths \<noteq> length addrs
      then Inr (Inl (InvalidConfig ''invalid redis config, the number of auth data not match addrs''))
      else
        bind_res
          (case clusterOpts of
             Some o1 \<Rightarrow> copyRing lib o1
           | None \<Rightarrow> Inr \<lparr> riAddrs = SliceToMap addrs (\<lambda>s index. Some (decimal index, s)) None, riUsername = '''', riPassword = '''', riClientName = '''',
               riNewClient = (length auths > 1) \<rparr>)
          (\<lambda>opts. Inr (Inr (NewRing
             (opts\<lparr> riClientName := clientName, riUsername := userOf auths (riUsername opts), riPassword := passOf auths (riPassword opts) \<rparr>)))))"

definition redisMode :: "RedisConfigure \<Rightarrow> string \<Rightarrow> (string, RedisOptions) gomap \<Rightarrow> ClusterOptions option \<Rightarrow> string" where
  "redisMode conf mode addrsMap clusterOpts =
     (if mode = ''auto''
      then if rdMasterName conf \<noteq> '''' then ''sentinel''
           else if (case clusterOpts of Some o1 \<Rightarrow> coAddrs o1 \<noteq> [] | None \<Rightarrow> False) \<or> length addrsMap > 1 then ''cluster''
           else ''standalone''
      else mode)"

definition MakeRedisClient :: "RedisLib \<Rightarrow> ClusterConfigure \<Rightarrow> RedisConfigure \<Rightarrow> (go_err + RedisClient) res" where
  "MakeRedisClient lib cluster conf =
     (case checkRedisMode (rdMode conf) of
        Inl e \<Rightarrow> Inr (Inl e)
      | Inr mode0 \<Rightarrow>
          (case parseRedisOpts lib conf of
             Inl e \<Rightarrow> Inr (Inl e)
           | Inr (addrsMap, clusterOpts) \<Rightarrow>
               (let mode = redisMode conf mode0 addrsMap clusterOpts;
                    addrs = (case clusterOpts of Some o1 \<Rightarrow> coAddrs o1 | None \<Rightarrow> map fst addrsMap);
                    clientName = GetNodeName cluster
                in case parseRedisAuth conf of
                     Inl e \<Rightarrow> Inr (Inl e)
                   | Inr auths \<Rightarrow>
                       if mode = ''standalone'' then Inr (standaloneClient lib conf clientName addrsMap clusterOpts addrs auths)
                       else if mode = ''cluster'' then Inr (clusterClient clientName clusterOpts addrs auths)
                       else if mode = ''sentinel'' then sentinelClient lib conf clientName clusterOpts addrs auths
                       else if mode = ''ring'' then ringClient lib clientName clusterOpts addrs auths
                       else Inr (Inl ThisIsImpossible))))"

definition MakeRedisKey :: "RedisConfigure \<Rightarrow> string \<Rightarrow> string" where
  "MakeRedisKey conf key = (let prefix = TrimSpace (rdKeyPrefix conf) in if prefix = '''' then key else prefix @ key)"

section \<open>Properties\<close>

text \<open>Copying between flat structs: the fields of the source are set, the other ones stay.\<close>

lemma copyFields_basic:
  assumes "\<And>n v. (n, v) \<in> set fs \<Longrightarrow> exported n \<and> (\<exists>t x y. v = RBasic t x \<and> mget target n = Some (RBasic t y))" "distinct (map fst fs)"
  shows "\<exists>target'. copyFields fs target = Inr (target', None) \<and>
    (\<forall>n. mget target' n = (case mget fs n of Some v \<Rightarrow> Some v | None \<Rightarrow> mget target n))"
  using assms
proof (induction fs arbitrary: target)
  case (Cons f fs)
  obtain n v where f: "f = (n, v)" by fastforce
  obtain t x y where v: "v = RBasic t x" "mget target n = Some (RBasic t y)" "exported n" using Cons.prems(1) f by (metis list.set_intros(1))
  let ?t = "mput n v target"
  have "exported m \<and> (\<exists>t x y. u = RBasic t x \<and> mget ?t m = Some (RBasic t y))" if "(m, u) \<in> set fs" for m u
  proof -
    have "m \<noteq> n" using Cons.prems(2) that f by force
    then show ?thesis using Cons.prems(1) [of m u] that by (auto simp: gomap_simps)
  qed
  with Cons.IH [of ?t] Cons.prems(2) f obtain target' where t: "copyFields fs ?t = Inr (target', None)"
    "\<forall>k. mget target' k = (case mget fs k of Some u \<Rightarrow> Some u | None \<Rightarrow> mget ?t k)" by auto
  have "mget fs n = None" using Cons.prems(2) f by (simp add: map_of_eq_None_iff)
  then have "\<forall>k. mget target' k = (case mget (f # fs) k of Some u \<Rightarrow> Some u | None \<Rightarrow> mget target k)"
    using t(2) by (auto simp: f gomap_simps split: option.splits)
  moreover have "copyFields (f # fs) target = Inr (target', None)" using t(1) v by (simp add: f elemOf_def)
  ultimately show ?case by blast
qed simp

text \<open>
  A field that the target does not have, exported or not, makes \<open>ShallowCopy\<close> panic: the check that the field is valid comes after its type was asked for.
\<close>

theorem missing_field_panics:
  assumes "mget target name = None"
  shows "copyFields ((name, v) # fs) target = Inl (ValuePanic ''reflect: call of reflect.Value.Type on zero Value'')"
  using assms by simp

definition addrOf :: "RedisLib \<Rightarrow> string \<Rightarrow> string" where
  "addrOf lib a = (case ParseURL lib (TrimSpace a) of Inr o1 \<Rightarrow> roAddr o1 | Inl _ \<Rightarrow> TrimSpace a)"

fun clientAddrs :: "RedisClient \<Rightarrow> string set" where
  "clientAddrs (NewClient o1) = {roAddr o1}"
| "clientAddrs (NewClusterClient o1) = set (coAddrs o1)"
| "clientAddrs (NewFailoverClient o1) = set (foSentinelAddrs o1)"
| "clientAddrs (NewRing o1) = snd ` set (riAddrs o1)"

fun clientName :: "RedisClient \<Rightarrow> string" where
  "clientName (NewClient o1) = roClientName o1"
| "clientName (NewClusterClient o1) = coClientName o1"
| "clientName (NewFailoverClient o1) = foClientName o1"
| "clientName (NewRing o1) = riClientName o1"

lemma in_set_mput: "x \<in> set (mput k v m) \<Longrightarrow> x = (k, v) \<or> x \<in> set m"
  by (induction m) (auto split: if_splits)

text \<open>The table of addresses has an entry for each address, under the address in its options.\<close>

lemma addrEntry_fold:
  assumes "\<forall>x \<in> set m. roAddr (snd x) = fst x" "mwf m"
  shows "fst ` set (fold (addrEntry lib) as m) = addrOf lib ` set as \<union> fst ` set m" "mwf (fold (addrEntry lib) as m)"
    "\<forall>x \<in> set (fold (addrEntry lib) as m). roAddr (snd x) = fst x"
proof -
  have "fst ` set (fold (addrEntry lib) as m) = addrOf lib ` set as \<union> fst ` set m \<and> mwf (fold (addrEntry lib) as m) \<and>
    (\<forall>x \<in> set (fold (addrEntry lib) as m). roAddr (snd x) = fst x)"
    using assms
  proof (induction as arbitrary: m)
    case (Cons a as)
    obtain o1 where o1: "addrEntry lib a m = mput (roAddr o1) o1 m" "roAddr o1 = addrOf lib a"
      by (cases "ParseURL lib (TrimSpace a)") (auto simp: addrEntry_def addrOf_def Let_def emptyOptions_def)
    have "\<forall>x \<in> set (addrEntry lib a m). roAddr (snd x) = fst x" using Cons.prems(1) by (auto simp: o1(1) dest!: in_set_mput)
    moreover have "mwf (addrEntry lib a m)" using Cons.prems(2) by (simp add: o1(1))
    moreover have "fst ` set (addrEntry lib a m) = insert (addrOf lib a) (fst ` set m)" by (simp add: o1 dom_update)
    ultimately show ?case using Cons.IH [of "addrEntry lib a m"] by simp
  qed simp
  then show "fst ` set (fold (addrEntry lib) as m) = addrOf lib ` set as \<union> fst ` set m" "mwf (fold (addrEntry lib) as m)"
    "\<forall>x \<in> set (fold (addrEntry lib) as m). roAddr (snd x) = fst x" by simp_all
qed

lemma toMap_index_values:
  "(\<And>x. x \<in> fst ` set out \<Longrightarrow> \<exists>j < i. x = decimal j) \<Longrightarrow>
   snd ` set (toMapLoop (\<lambda>s index. Some (decimal index, s)) (\<lambda>v1 v2. v2) i sl out) = set sl \<union> snd ` set out"
proof (induction sl arbitrary: i out)
  case (Cons s sl)
  have "decimal i \<notin> fst ` set out" using Cons.prems by (metis decimal_eq less_irrefl)
  then have n: "mget out (decimal i) = None" by (simp add: map_of_eq_None_iff)
  then have u: "mput (decimal i) s out = out @ [(decimal i, s)]" by (rule update_fresh)
  have "\<exists>j < Suc i. x = decimal j" if "x \<in> fst ` set (out @ [(decimal i, s)])" for x
    using that Cons.prems by (auto simp: less_Suc_eq)
  from Cons.IH [of "out @ [(decimal i, s)]" "Suc i", OF this] show ?case by (simp add: n u)
qed simp

text \<open>
  With plain addresses (no URL of a cluster) a client is made or refused, never with a panic or the error that is said to be impossible; a client
  has exactly the addresses of the configuration and the name of the node.
\<close>

theorem MakeRedisClient_plain:
  assumes "ParseClusterURL lib (rdAddrs conf) = Inl e"
  shows "\<exists>r. MakeRedisClient lib cluster conf = Inr r \<and> r \<noteq> Inl ThisIsImpossible \<and>
    (\<forall>c. r = Inr c \<longrightarrow> clientAddrs c = addrOf lib ` set (Split CHR '','' (rdAddrs conf)) \<and> clientName c = GetNodeName cluster)"
proof (cases "checkRedisMode (rdMode conf)")
  case (Inl e)
  then show ?thesis by (auto simp: MakeRedisClient_def checkRedisMode_def Let_def InvalidConfig_def ThisIsImpossible_def split: if_splits)
next
  case (Inr mode0)
  let ?m = "fold (addrEntry lib) (Split CHR '','' (rdAddrs conf)) []"
  note m = addrEntry_fold [of "[]" lib "Split CHR '','' (rdAddrs conf)", simplified]
  have len: "length ?m = 1 \<Longrightarrow> {roAddr (the (mget ?m (fst (?m ! 0))))} = fst ` set ?m"
    using m(3) by (cases ?m) auto
  have mode: "mode0 \<in> {''auto'', ''standalone'', ''cluster'', ''sentinel'', ''ring''}"
    using Inr by (auto simp: checkRedisMode_def Let_def split: if_splits)
  show ?thesis
  proof (cases "parseRedisOpts lib conf")
    case (Inl e2)
    then show ?thesis using Inr by (auto simp: MakeRedisClient_def parseRedisOpts_def assms Let_def InvalidConfig_def ThisIsImpossible_def split: if_splits)
  next
    case (Inr am)
    then have am: "am = (?m, None)" using assms by (auto simp: parseRedisOpts_def Let_def split: if_splits)
    show ?thesis
    proof (cases "parseRedisAuth conf")
      case (Inl e3)
      then show ?thesis using Inr \<open>checkRedisMode (rdMode conf) = Inr mode0\<close>
        by (auto simp: MakeRedisClient_def am Let_def parseRedisAuth_def InvalidConfig_def ThisIsImpossible_def split: if_splits)
    next
      case (Inr auths)
      have k: "MakeRedisClient lib cluster conf =
        (let mode = redisMode conf mode0 ?m None; addrs = map fst ?m; cn = GetNodeName cluster
         in if mode = ''standalone'' then Inr (standaloneClient lib conf cn ?m None addrs auths)
            else if mode = ''cluster'' then Inr (clusterClient cn None addrs auths)
            else if mode = ''sentinel'' then sentinelClient lib conf cn None addrs auths
            else if mode = ''ring'' then ringClient lib cn None addrs auths
            else Inr (Inl ThisIsImpossible))"
        using Inr \<open>parseRedisOpts lib conf = Inr am\<close> \<open>checkRedisMode (rdMode conf) = Inr mode0\<close> by (simp add: MakeRedisClient_def am Let_def)
      have "redisMode conf mode0 ?m None \<in> {''standalone'', ''cluster'', ''sentinel'', ''ring''}"
        using mode by (auto simp: redisMode_def)
      moreover have "clientAddrs c = fst ` set ?m \<and> clientName c = GetNodeName cluster"
        if "standaloneClient lib conf (GetNodeName cluster) ?m None (map fst ?m) auths = Inr c" for c
        using that len by (simp add: standaloneClient_def Let_def split: if_splits) (hypsubst, simp)
      moreover have "snd ` set (riAddrs \<lparr> riAddrs = SliceToMap (map fst ?m) (\<lambda>s index. Some (decimal index, s)) None, riUsername = u, riPassword = p,
          riClientName = n, riNewClient = b \<rparr>) = fst ` set ?m" for u p n b
        using toMap_index_values [of "[]" 0 "map fst ?m"] by (simp add: SliceToMap_def)
      ultimately show ?thesis unfolding k m(1) [symmetric]
        by (auto simp: Let_def clusterClient_def sentinelClient_def ringClient_def standaloneClient_def InvalidConfig_def ThisIsImpossible_def bind_res_def
            split: if_splits sum.splits)
    qed
  qed
qed

definition demoRedisLib :: RedisLib where
  "demoRedisLib = \<lparr> ParseClusterURL = (\<lambda>_. Inl (PlainError ''redis: invalid URL scheme'')), ParseURL = (\<lambda>_. Inl (PlainError ''redis: invalid URL scheme'')),
     copyFailover = (\<lambda>o1. Inl NilDeref), copyRing = (\<lambda>o1. Inl NilDeref) \<rparr>"

theorem MakeRedisClient_plain_witness:
  "\<exists>c. MakeRedisClient demoRedisLib demoCluster demoRedis = Inr (Inr c) \<and> clientAddrs c = {''r''} \<and> clientName c = ''n''"
proof -
  have p: "ParseClusterURL demoRedisLib (rdAddrs demoRedis) = Inl (PlainError ''redis: invalid URL scheme'')" by (simp add: demoRedisLib_def)
  have a: "addrOf demoRedisLib ` set (Split CHR '','' (rdAddrs demoRedis)) = {''r''}" "GetNodeName demoCluster = ''n''" by code_simp+
  have "MakeRedisClient demoRedisLib demoCluster demoRedis =
      Inr (Inr (NewClient \<lparr> roAddr = ''r'', roUsername = '''', roPassword = '''', roClientName = ''n'' \<rparr>))" by code_simp
  with MakeRedisClient_plain [OF p, of demoCluster] show ?thesis by (auto simp: a)
qed

text \<open>Users without passwords, or passwords without users, are no credentials at all: the two branches map over the empty slice.\<close>

theorem half_credentials_dropped:
  assumes "nonEmptyWords (rdUsers conf) = [] \<or> nonEmptyWords (rdPasses conf) = []"
  shows "parseRedisAuth conf = Inr []"
  using assms by (auto simp: parseRedisAuth_def Let_def)

text \<open>The credentials of the nodes are written into the options of the cluster: the client of a node is made without them.\<close>

theorem node_credentials_lost:
  assumes "nodeClient addrs auths opts opt = Inr (opts', opt')"
  shows "opt' = opt"
  using assms by (auto simp: nodeClient_def Let_def split: if_splits prod.splits)

text \<open>In the mode \<open>auto\<close> the URL of one server is taken for a cluster.\<close>

theorem auto_url_is_cluster:
  assumes "rdMasterName conf = ''''" "coAddrs o1 \<noteq> []"
  shows "redisMode conf ''auto'' [] (Some o1) = ''cluster''"
  using assms by (simp add: redisMode_def)

end
