(* ===== verification/SignalTransport.thy ===== *)
theory SignalTransport
  imports Collections Messages WsCodec
begin

text \<open>
  The signal of a client as the handlers see it (\<open>signal/signal.go\<close>): callbacks by event, \<open>MsgCbs\<close>, and its two
  implementations, over Socket.IO (\<open>signal/socketio.go\<close>) and over a websocket (\<open>signal/websocket.go\<close>, on top of \<open>WsCodec\<close>). What
  the handlers rely on is the locale \<open>event_transport\<close>, which both implementations interpret. A callback is a value of the
  type \<open>'cb\<close>; \<open>run\<close> tells what a call of it returns, or that it panics. No part of the program sets the panic handlers
  of \<open>MsgCbs\<close> or \<open>SocketIOSignal\<close>; the one of \<open>MsgCbs\<close> is an argument.
\<close>

section \<open>Callbacks\<close>

record 'cb MsgCbs =
  mcCbs :: "(string, 'cb list) gomap"

definition NewMsgCbs :: "'cb MsgCbs" where
  "NewMsgCbs = \<lparr> mcCbs = [] \<rparr>"

definition AddCallback :: "string \<Rightarrow> 'cb \<Rightarrow> 'cb MsgCbs \<Rightarrow> 'cb MsgCbs" where
  "AddCallback evt cb mc =
     mc\<lparr> mcCbs := mput evt (case mget (mcCbs mc) evt of Some cbs \<Rightarrow> cbs @ [cb] | None \<Rightarrow> [cb]) (mcCbs mc) \<rparr>"

text \<open>\<open>panic_cb\<close> says whether a panic is recovered; the deferred function then leaves \<open>remained\<close> at its zero value.\<close>

definition invokeMsgCb :: "(go_panic \<Rightarrow> bool) option \<Rightarrow> ('cb \<Rightarrow> bool res) \<Rightarrow> 'cb \<Rightarrow> bool res" where
  "invokeMsgCb panic_cb run cb =
     (case run cb of
        Inr remained \<Rightarrow> Inr remained
      | Inl p \<Rightarrow> (case panic_cb of Some f \<Rightarrow> if f p then Inr False else Inl p | None \<Rightarrow> Inl p))"

text \<open>
  The loop of \<open>SliceMapChange\<close> with the callbacks as mapper: \<open>kept\<close> has been written over the front of the slice, \<open>todo\<close> is the rest of
  it. A panic leaves the loop.
\<close>

fun runCbs :: "('cb \<Rightarrow> bool res) \<Rightarrow> 'cb list \<Rightarrow> 'cb list \<Rightarrow> 'cb list \<times> 'cb list \<times> go_panic option" where
  "runCbs ivk kept [] = (kept, [], None)"
| "runCbs ivk kept (cb # todo) =
     (case ivk cb of
        Inl p \<Rightarrow> (kept, [cb], Some p)
      | Inr remained \<Rightarrow>
          (case runCbs ivk (if remained then kept @ [cb] else kept) todo of (kept', calls, p) \<Rightarrow> (kept', cb # calls, p)))"

text \<open>
  \<open>Run\<close>: the callbacks that were called. After a panic the map has the old slice, the front of which the loop has overwritten.
\<close>

definition MsgCbs_Run :: "(go_panic \<Rightarrow> bool) option \<Rightarrow> ('cb \<Rightarrow> bool res) \<Rightarrow> string \<Rightarrow> 'cb MsgCbs \<Rightarrow> 'cb MsgCbs \<times> 'cb list \<times> go_panic option" where
  "MsgCbs_Run panic_cb run evt mc =
     (case mget (mcCbs mc) evt of
        None \<Rightarrow> (mc, [], None)
      | Some cbs \<Rightarrow>
          (case runCbs (invokeMsgCb panic_cb run) [] cbs of
             (kept, calls, Some p) \<Rightarrow> (mc\<lparr> mcCbs := mput evt (kept @ drop (length kept) cbs) (mcCbs mc) \<rparr>, calls, Some p)
           | (kept, calls, None) \<Rightarrow>
               (if kept = [] then mc\<lparr> mcCbs := mdel evt (mcCbs mc) \<rparr> else mc\<lparr> mcCbs := mput evt kept (mcCbs mc) \<rparr>, calls, None)))"

section \<open>Socket.IO\<close>

text \<open>An argument of an event: a string, a function with or without the signature of an acknowledgement, nil, or another value.\<close>

datatype 'd IOArg = IOString string | IOFunc bool | IONil | IOVal 'd

record 'cb SocketIOSignal =
  ioMsgCbs :: "'cb MsgCbs"
  ioCustomCb :: "'cb option"
  ioCustomAckCb :: "'cb option"

definition NewSocketIOSignal :: "'cb SocketIOSignal" where
  "NewSocketIOSignal = \<lparr> ioMsgCbs = NewMsgCbs, ioCustomCb = None, ioCustomAckCb = None \<rparr>"

definition io_On :: "string \<Rightarrow> 'cb \<Rightarrow> 'cb SocketIOSignal \<Rightarrow> 'cb SocketIOSignal" where
  "io_On evt cb s = s\<lparr> ioMsgCbs := AddCallback evt cb (ioMsgCbs s) \<rparr>"

definition io_OnCustom :: "'cb \<Rightarrow> 'cb SocketIOSignal \<Rightarrow> 'cb SocketIOSignal" where
  "io_OnCustom cb s = s\<lparr> ioCustomCb := Some cb \<rparr>"

definition io_OnCustomAck :: "'cb \<Rightarrow> 'cb SocketIOSignal \<Rightarrow> 'cb SocketIOSignal" where
  "io_OnCustomAck cb s = s\<lparr> ioCustomAckCb := Some cb \<rparr>"

text \<open>
  What arrives at a callback: the name of a custom event with its message, or an event with its arguments and whether it asks for an
  acknowledgement.
\<close>

datatype 'd Arrival =
    NoArrival
  | CustomArrival string CustomMessage
  | CustomAckArrival CustomAckMessage
  | EventArrival string bool "'d IOArg list"

definition ackOf :: "'d IOArg list \<Rightarrow> ('d IOArg list \<times> bool) res" where
  "ackOf rest =
     (if rest = [] then Inr ([], False)
      else case last rest of
             IOFunc ok \<Rightarrow> if ok then Inr (butlast rest, True) else Inl (ValuePanic ''Invalid ack param'')
           | _ \<Rightarrow> Inr (rest, False))"

definition io_arrival ::
  "('d IOArg \<Rightarrow> CustomMessage option) \<Rightarrow> ('d IOArg \<Rightarrow> CustomAckMessage option) \<Rightarrow> 'd IOArg list \<Rightarrow> 'd Arrival res" where
  "io_arrival decCustom decCustomAck args =
     (case args of
        IOString evt # rest \<Rightarrow>
          if HasPrefix evt ''custom:''
          then Inr (case rest of
                      a # _ \<Rightarrow> (case decCustom a of Some msg \<Rightarrow> CustomArrival (drop 7 evt) msg | None \<Rightarrow> NoArrival)
                    | [] \<Rightarrow> NoArrival)
          else if evt = ''custom-ack''
          then Inr (case rest of
                      a # _ \<Rightarrow> (case decCustomAck a of Some msg \<Rightarrow> CustomAckArrival msg | None \<Rightarrow> NoArrival)
                    | [] \<Rightarrow> NoArrival)
          else bind_res (ackOf rest) (\<lambda>(real_args, ack). Inr (EventArrival evt ack real_args))
      | _ \<Rightarrow> Inr NoArrival)"

text \<open>The handler given to \<open>OnAny\<close>: the callbacks called, each with what arrived.\<close>

definition io_OnAny ::
  "('d IOArg \<Rightarrow> CustomMessage option) \<Rightarrow> ('d IOArg \<Rightarrow> CustomAckMessage option) \<Rightarrow> ('d Arrival \<Rightarrow> 'cb \<Rightarrow> bool res) \<Rightarrow> 'd IOArg list \<Rightarrow>
    'cb SocketIOSignal \<Rightarrow> 'cb SocketIOSignal \<times> ('cb \<times> 'd Arrival) list \<times> go_panic option" where
  "io_OnAny decCustom decCustomAck run args s =
     (case io_arrival decCustom decCustomAck args of
        Inl p \<Rightarrow> (s, [], Some p)
      | Inr NoArrival \<Rightarrow> (s, [], None)
      | Inr (EventArrival evt ack real_args) \<Rightarrow>
          (case MsgCbs_Run None (run (EventArrival evt ack real_args)) evt (ioMsgCbs s) of
             (mc, calls, p) \<Rightarrow> (s\<lparr> ioMsgCbs := mc \<rparr>, map (\<lambda>cb. (cb, EventArrival evt ack real_args)) calls, p))
      | Inr (CustomArrival evt msg) \<Rightarrow>
          (case ioCustomCb s of
             None \<Rightarrow> (s, [], None)
           | Some cb \<Rightarrow> (s, [(cb, CustomArrival evt msg)], case run (CustomArrival evt msg) cb of Inl p \<Rightarrow> Some p | Inr _ \<Rightarrow> None))
      | Inr (CustomAckArrival msg) \<Rightarrow>
          (case ioCustomAckCb s of
             None \<Rightarrow> (s, [], None)
           | Some cb \<Rightarrow> (s, [(cb, CustomAckArrival msg)], case run (CustomAckArrival msg) cb of Inl p \<Rightarrow> Some p | Inr _ \<Rightarrow> None)))"

text \<open>
  \<open>SendMsg\<close>: \<open>timeout\<close> is the time until the deadline of the context, \<open>emitErr\<close> the answer of \<open>Emit\<close>, and \<open>wait\<close> the case of the
  \<open>select\<close> that comes first. The result has the timeout the socket is given.
\<close>

datatype 'd IOWait = IOCtxDone | IOAck "'d list" "go_err option"

definition io_SendMsg :: "int option \<Rightarrow> go_err option \<Rightarrow> 'd IOWait \<Rightarrow> bool \<Rightarrow> int option \<times> 'd list \<times> go_err option" where
  "io_SendMsg timeout emitErr wait ack =
     ((case timeout of Some t \<Rightarrow> if t > 0 then Some t else None | None \<Rightarrow> None),
      (if ack
       then (case emitErr of
               Some e \<Rightarrow> ([], Some e)
             | None \<Rightarrow>
                 (case wait of
                    IOCtxDone \<Rightarrow> ([], Some (MsgTimeout ''send %s message timeout.''))
                  | IOAck res err \<Rightarrow> (res, err)))
       else ([], emitErr)))"

section \<open>Websocket\<close>

text \<open>The signal of a websocket in the server: the one of \<open>WsCodec\<close> with the callbacks by event as its callback.\<close>

record 'cb WsSignal =
  wsInner :: WebSocketSignal
  wsMsgCbs :: "'cb MsgCbs"

definition newWebSocketSignal :: "'cb WsSignal" where
  "newWebSocketSignal = \<lparr> wsInner = ws_On 0 (NewWebSocketSignal WS_SIGNAL_MODE_SERVER), wsMsgCbs = NewMsgCbs \<rparr>"

definition wss_On :: "string \<Rightarrow> 'cb \<Rightarrow> 'cb WsSignal \<Rightarrow> 'cb WsSignal" where
  "wss_On evt cb s = s\<lparr> wsMsgCbs := AddCallback evt cb (wsMsgCbs s) \<rparr>"

text \<open>
  A text frame with an event: the callbacks called, each with the data of the frame as the one argument. Acknowledgements and custom frames go where
  \<open>msg_handler\<close> says.
\<close>

definition wss_frame ::
  "(string \<Rightarrow> 'd option) \<Rightarrow> ('d \<Rightarrow> go_err option) \<Rightarrow> ('cb \<Rightarrow> bool res) \<Rightarrow> string \<Rightarrow> 'cb WsSignal \<Rightarrow>
    'cb WsSignal \<times> ('cb \<times> bool \<times> 'd option) list \<times> go_panic option" where
  "wss_frame json asErr run frame s =
     (case msg_handler json asErr frame (wsInner s) of
        Inl p \<Rightarrow> (s, [], Some p)
      | Inr (sig, EventMsg evt ack data) \<Rightarrow>
          (case MsgCbs_Run None run evt (wsMsgCbs s) of
             (mc, calls, p) \<Rightarrow> (s\<lparr> wsInner := sig, wsMsgCbs := mc \<rparr>, map (\<lambda>cb. (cb, ack, data)) calls, p))
      | Inr (sig, _) \<Rightarrow> (s\<lparr> wsInner := sig \<rparr>, [], None))"

section \<open>Running the callbacks\<close>

lemma runCbs_returns:
  assumes "\<And>cb. cb \<in> set todo \<Longrightarrow> \<exists>b. ivk cb = Inr b"
  shows "runCbs ivk kept todo = (kept @ filter (\<lambda>cb. ivk cb = Inr True) todo, todo, None)"
  using assms
proof (induction todo arbitrary: kept)
  case (Cons cb todo)
  then obtain b where "ivk cb = Inr b" by (meson list.set_intros(1))
  then show ?case using Cons by simp
qed simp

lemma runCbs_panics:
  "runCbs ivk kept (xs @ cb # ys) = (kept @ filter (\<lambda>cb. ivk cb = Inr True) xs, xs @ [cb], Some p)"
  if "\<And>x. x \<in> set xs \<Longrightarrow> \<exists>b. ivk x = Inr b" "ivk cb = Inl p"
  using that
proof (induction xs arbitrary: kept)
  case (Cons x xs)
  then obtain b where "ivk x = Inr b" by (meson list.set_intros(1))
  then show ?case using Cons by simp
qed simp

text \<open>The loop computes what \<open>SliceMapChange\<close> does.\<close>

lemma runCbs_SliceMapChange:
  assumes "\<And>cb. cb \<in> set cbs \<Longrightarrow> \<exists>b. ivk cb = Inr b"
  shows "fst (runCbs ivk [] cbs) = snd (SliceMapChange cbs (\<lambda>cb. if ivk cb = Inr True then Some cb else None))"
proof -
  have "List.map_filter (\<lambda>cb. if P cb then Some cb else None) xs = filter P xs" for P and xs :: "'a list"
    by (induction xs) (simp_all add: map_filter_simps)
  then show ?thesis by (simp add: runCbs_returns [OF assms] SliceMapChange_out)
qed

definition handlersOf :: "'cb MsgCbs \<Rightarrow> string \<Rightarrow> 'cb list" where
  "handlersOf mc evt = (case mget (mcCbs mc) evt of None \<Rightarrow> [] | Some cbs \<Rightarrow> cbs)"

lemma handlersOf_AddCallback: "handlersOf (AddCallback evt cb mc) = (handlersOf mc)(evt := handlersOf mc evt @ [cb])"
  by (auto simp: handlersOf_def AddCallback_def gomap_simps fun_eq_iff split: option.splits)

text \<open>
  \<open>Run\<close> when no callback panics: each callback of the event is called once, in the order of registration, and exactly those that asked to
  remain are left; the callbacks of other events stay.
\<close>

lemma MsgCbs_Run_returns:
  assumes "\<And>cb. cb \<in> set (handlersOf mc evt) \<Longrightarrow> \<exists>b. invokeMsgCb panic_cb run cb = Inr b"
  shows "\<exists>mc'. MsgCbs_Run panic_cb run evt mc = (mc', handlersOf mc evt, None) \<and>
    handlersOf mc' = (handlersOf mc)(evt := filter (\<lambda>cb. invokeMsgCb panic_cb run cb = Inr True) (handlersOf mc evt))"
proof (cases "mget (mcCbs mc) evt")
  case None
  then show ?thesis by (auto simp: MsgCbs_Run_def handlersOf_def fun_eq_iff)
next
  case (Some cbs)
  then have r: "runCbs (invokeMsgCb panic_cb run) [] cbs = (filter (\<lambda>cb. invokeMsgCb panic_cb run cb = Inr True) cbs, cbs, None)"
    using runCbs_returns [of cbs "invokeMsgCb panic_cb run" "[]"] assms by (simp add: handlersOf_def)
  show ?thesis by (simp add: MsgCbs_Run_def Some r handlersOf_def gomap_simps fun_eq_iff)
qed

section \<open>The interface\<close>

text \<open>
  What the handlers rely on: registration adds a callback at the end of those of its event, and an input that carries an event calls the
  callbacks of the event in order and keeps them when all of them ask to remain.
\<close>

locale event_transport =
  fixes on_event :: "string \<Rightarrow> 'cb \<Rightarrow> 't \<Rightarrow> 't"
    and arrive :: "('cb \<Rightarrow> bool res) \<Rightarrow> 'in \<Rightarrow> 't \<Rightarrow> 't \<times> ('cb \<times> 'arg) list \<times> go_panic option"
    and handlers :: "'t \<Rightarrow> string \<Rightarrow> 'cb list"
    and carries :: "'t \<Rightarrow> 'in \<Rightarrow> string \<Rightarrow> 'arg \<Rightarrow> bool"
  assumes handlers_on: "handlers (on_event evt cb t) = (handlers t)(evt := handlers t evt @ [cb])"
    and carries_on: "carries (on_event evt cb t) i e a = carries t i e a"
    and arrive_all: "carries t i evt a \<Longrightarrow> (\<And>cb. cb \<in> set (handlers t evt) \<Longrightarrow> run cb = Inr True) \<Longrightarrow>
      \<exists>t'. arrive run i t = (t', map (\<lambda>cb. (cb, a)) (handlers t evt), None) \<and> handlers t' = handlers t"
begin

definition registerAll :: "(string \<times> 'cb) list \<Rightarrow> 't \<Rightarrow> 't" where
  "registerAll regs t = fold (\<lambda>(evt, cb). on_event evt cb) regs t"

lemma handlers_registerAll: "handlers (registerAll regs t) evt = handlers t evt @ map snd (filter (\<lambda>(e, _). e = evt) regs)"
proof (induction regs arbitrary: t)
  case (Cons r regs)
  have "registerAll (r # regs) t = registerAll regs (on_event (fst r) (snd r) t)" by (simp add: registerAll_def case_prod_beta')
  then show ?case using Cons.IH [of "on_event (fst r) (snd r) t"] by (simp add: handlers_on case_prod_beta')
qed (simp add: registerAll_def)

lemma carries_registerAll: "carries (registerAll regs t) i e a = carries t i e a"
proof (induction regs arbitrary: t)
  case (Cons r regs)
  have "registerAll (r # regs) t = registerAll regs (on_event (fst r) (snd r) t)" by (simp add: registerAll_def case_prod_beta')
  then show ?case using Cons.IH [of "on_event (fst r) (snd r) t"] by (simp add: carries_on case_prod_beta')
qed (simp add: registerAll_def)

lemma event_delivered:
  assumes "handlers t evt = []" "carries t i evt a" "\<And>cb. run cb = Inr True"
  shows "\<exists>t'. arrive run i (registerAll regs t) = (t', map (\<lambda>(_, cb). (cb, a)) (filter (\<lambda>(e, _). e = evt) regs), None) \<and>
    handlers t' = handlers (registerAll regs t)"
proof -
  have "map (\<lambda>cb. (cb, a)) (handlers (registerAll regs t) evt) = map (\<lambda>(_, cb). (cb, a)) (filter (\<lambda>(e, _). e = evt) regs)"
    by (simp add: handlers_registerAll assms(1) case_prod_beta')
  then show ?thesis
    using arrive_all [of "registerAll regs t" i evt a run] assms(2,3) by (simp add: carries_registerAll)
qed

end

section \<open>The implementations\<close>

lemma invoke_None [simp]: "invokeMsgCb None run cb = run cb"
  by (simp add: invokeMsgCb_def split: sum.splits)

lemma MsgCbs_Run_all:
  assumes "\<And>cb. cb \<in> set (handlersOf mc evt) \<Longrightarrow> run cb = Inr True"
  shows "\<exists>mc'. MsgCbs_Run None run evt mc = (mc', handlersOf mc evt, None) \<and> handlersOf mc' = handlersOf mc"
proof -
  have f: "filter (\<lambda>cb. invokeMsgCb None run cb = Inr True) (handlersOf mc evt) = handlersOf mc evt"
    by (rule filter_True) (simp add: assms)
  have "\<And>cb. cb \<in> set (handlersOf mc evt) \<Longrightarrow> \<exists>b. invokeMsgCb None run cb = Inr b" using assms by auto
  from MsgCbs_Run_returns [of mc evt None run, OF this] show ?thesis unfolding f by (simp only: fun_upd_triv)
qed

interpretation sio: event_transport io_On "\<lambda>run. io_OnAny decC decA (\<lambda>_. run)" "\<lambda>s. handlersOf (ioMsgCbs s)"
  "\<lambda>_ i evt a. io_arrival decC decA i = Inr a \<and> (\<exists>ack args. a = EventArrival evt ack args)" for decC decA
proof
  fix t :: "'cb SocketIOSignal" and i evt a and run :: "'cb \<Rightarrow> bool res"
  assume i: "io_arrival decC decA i = Inr a \<and> (\<exists>ack args. a = EventArrival evt ack args)"
    and r: "\<And>cb. cb \<in> set (handlersOf (ioMsgCbs t) evt) \<Longrightarrow> run cb = Inr True"
  from MsgCbs_Run_all [of "ioMsgCbs t" evt run, OF r] obtain mc' where "MsgCbs_Run None run evt (ioMsgCbs t) = (mc', handlersOf (ioMsgCbs t) evt, None)"
    "handlersOf mc' = handlersOf (ioMsgCbs t)" by blast
  then show "\<exists>t'. io_OnAny decC decA (\<lambda>_. run) i t = (t', map (\<lambda>cb. (cb, a)) (handlersOf (ioMsgCbs t) evt), None) \<and>
      handlersOf (ioMsgCbs t') = handlersOf (ioMsgCbs t)"
    using i by (auto simp: io_OnAny_def)
qed (simp_all add: io_On_def handlersOf_AddCallback)

interpretation wss: event_transport wss_On "wss_frame json asErr" "\<lambda>s. handlersOf (wsMsgCbs s)"
  "\<lambda>t i evt (ack, data). \<exists>sig. msg_handler json asErr i (wsInner t) = Inr (sig, EventMsg evt ack data)" for json asErr
proof
  fix t :: "'cb WsSignal" and i evt a and run :: "'cb \<Rightarrow> bool res"
  assume i: "case a of (ack, data) \<Rightarrow> \<exists>sig. msg_handler json asErr i (wsInner t) = Inr (sig, EventMsg evt ack data)"
    and r: "\<And>cb. cb \<in> set (handlersOf (wsMsgCbs t) evt) \<Longrightarrow> run cb = Inr True"
  from MsgCbs_Run_all [of "wsMsgCbs t" evt run, OF r] obtain mc' where "MsgCbs_Run None run evt (wsMsgCbs t) = (mc', handlersOf (wsMsgCbs t) evt, None)"
    "handlersOf mc' = handlersOf (wsMsgCbs t)" by blast
  then show "\<exists>t'. wss_frame json asErr run i t = (t', map (\<lambda>cb. (cb, a)) (handlersOf (wsMsgCbs t) evt), None) \<and>
      handlersOf (wsMsgCbs t') = handlersOf (wsMsgCbs t)"
    using i by (cases a) (auto simp: wss_frame_def)
qed (auto simp: wss_On_def handlersOf_AddCallback)

section \<open>Properties\<close>

text \<open>C37: 
  Both transports bring the same event to the same callbacks: whatever callbacks are registered, an event with one argument reaches exactly those
  of its name, each once and in the order of their registration, with its argument and with an acknowledgement when the sender asks for one.
\<close>

theorem events_delivered:
  assumes evt: "CHR '';'' \<notin> set evt" "\<not> HasPrefix evt ''custom:''" "evt \<noteq> ''custom-ack''"
    and run: "\<And>cb. run cb = Inr True"
    and frame: "encodeWsTextData marshal evt msg_id (if ack then 2 else 4) (Some d) = Inr frame"
    and json: "\<And>s. marshal (Some d) = Inr s \<Longrightarrow> s \<noteq> '''' \<and> json s = Some d"
  shows "\<exists>s w. io_OnAny decC decA (\<lambda>_. run) (IOString evt # IOVal d # (if ack then [IOFunc True] else []))
        (fold (\<lambda>(e, cb). io_On e cb) regs NewSocketIOSignal) = (s, map (\<lambda>(_, cb). (cb, EventArrival evt ack [IOVal d])) (filter (\<lambda>(e, _). e = evt) regs), None) \<and>
    wss_frame json asErr run frame (fold (\<lambda>(e, cb). wss_On e cb) regs newWebSocketSignal) = (w, map (\<lambda>(_, cb). (cb, ack, Some d)) (filter (\<lambda>(e, _). e = evt) regs), None)"
proof -
  have i: "io_arrival decC decA (IOString evt # IOVal d # (if ack then [IOFunc True] else [])) = Inr (EventArrival evt ack [IOVal d])"
    using evt by (simp add: io_arrival_def ackOf_def)
  obtain s where s: "marshal (Some d) = Inr s" "decodeWsTextData frame = Inr (Inr (evt, msg_id, if ack then 2 else 4, s))"
    using frame decode_frame [OF evt(1), of "if ack then 2 else 4" msg_id] by (auto simp: encodeWsTextData_def bind_res_Inr_iff)
  have m: "msg_handler json asErr frame (ws_On 0 (NewWebSocketSignal WS_SIGNAL_MODE_SERVER)) =
      Inr (ws_On 0 (NewWebSocketSignal WS_SIGNAL_MODE_SERVER), EventMsg evt ack (Some d))"
    using evt s json [OF s(1)] by (simp add: msg_handler_def Let_def ws_On_def)
  have n: "handlersOf (ioMsgCbs NewSocketIOSignal) evt = ([] :: 'c list)" "handlersOf (wsMsgCbs newWebSocketSignal) evt = ([] :: 'c list)" for evt
    by (simp_all add: handlersOf_def NewSocketIOSignal_def newWebSocketSignal_def NewMsgCbs_def)
  have "\<exists>s. io_OnAny decC decA (\<lambda>_. run) (IOString evt # IOVal d # (if ack then [IOFunc True] else []))
        (fold (\<lambda>(e, cb). io_On e cb) regs NewSocketIOSignal) = (s, map (\<lambda>(_, cb). (cb, EventArrival evt ack [IOVal d])) (filter (\<lambda>(e, _). e = evt) regs), None)"
    using sio.event_delivered [of NewSocketIOSignal evt decC decA "IOString evt # IOVal d # (if ack then [IOFunc True] else [])" "EventArrival evt ack [IOVal d]" run regs]
      i run n(1) unfolding sio.registerAll_def by blast
  moreover have "\<exists>w. wss_frame json asErr run frame (fold (\<lambda>(e, cb). wss_On e cb) regs newWebSocketSignal) = (w, map (\<lambda>(_, cb). (cb, ack, Some d)) (filter (\<lambda>(e, _). e = evt) regs), None)"
    using wss.event_delivered [of newWebSocketSignal evt json asErr frame "(ack, Some d)" run regs]
      m run n(2) unfolding wss.registerAll_def by (auto simp: newWebSocketSignal_def)
  ultimately show ?thesis by blast
qed

theorem events_delivered_witness:
  "\<exists>w. wss_frame (\<lambda>_. Some ()) (\<lambda>_. None) (\<lambda>_ :: bool. Inr True) ''join;7;2;x'' (fold (\<lambda>(e, cb). wss_On e cb) [(''join'', True), (''leave'', False)] newWebSocketSignal) =
     (w, [(True, True, Some ())], None)"
proof -
  have f: "encodeWsTextData (\<lambda>_. Inr ''x'') ''join'' 7 (if True then 2 else 4) (Some ()) = Inr ''join;7;2;x''" by code_simp
  show ?thesis
    using events_delivered [OF _ _ _ _ f, of "\<lambda>_. Inr True" "\<lambda>_. Some ()" "\<lambda>_. None" "\<lambda>_. None" "[(''join'', True), (''leave'', False)]" "\<lambda>_. None"]
    by (auto simp: HasPrefix_def)
qed

lemma decode_event4: "CHR '';'' \<notin> set evt \<Longrightarrow> decodeWsTextData (evt @ '';4;4;'') = Inr (Inr (evt, 4, 4, ''''))"
proof -
  assume e: "CHR '';'' \<notin> set evt"
  have "decimal 4 = ''4''" by code_simp
  then show ?thesis using decode_frame [OF e, of 4 4 "''''"] by simp
qed

text \<open>
  A frame with a custom event that comes before the handler of custom events is set, which happens after the connection is open, calls a nil
  function; over Socket.IO it is dropped.
\<close>

theorem early_custom_panics:
  "wss_frame json asErr run ''custom:a;4;4;'' newWebSocketSignal = (newWebSocketSignal, [], Some NilDeref) \<and>
   (\<exists>s calls. io_OnAny decC decA (\<lambda>_. run') (IOString ''custom:a'' # rest) NewSocketIOSignal = (s, calls, None))"
proof
  have d: "decodeWsTextData ''custom:a;4;4;'' = Inr (Inr (''custom:a'', 4, 4, ''''))" using decode_event4 [of "''custom:a''"] by simp
  have h: "HasPrefix ''custom:a'' ''custom:''" by code_simp
  show "wss_frame json asErr run ''custom:a;4;4;'' newWebSocketSignal = (newWebSocketSignal, [], Some NilDeref)"
    unfolding wss_frame_def msg_handler_def d bind_res_simps Let_def using h
    by (simp add: newWebSocketSignal_def ws_On_def NewWebSocketSignal_def)
  show "\<exists>s calls. io_OnAny decC decA (\<lambda>_. run') (IOString ''custom:a'' # rest) NewSocketIOSignal = (s, calls, None)"
    by (auto simp: io_OnAny_def io_arrival_def NewSocketIOSignal_def h split: list.splits option.splits)
qed

text \<open>
  An event without an argument has no argument over Socket.IO, which the handlers refuse, and one nil argument over a websocket, which they take
  for an empty message.
\<close>

theorem empty_event_differs:
  "io_arrival decC decA [IOString ''join''] = Inr (EventArrival ''join'' False []) \<and>
   msg_handler json asErr ''join;4;4;'' (ws_On 0 sig) = Inr (ws_On 0 sig, EventMsg ''join'' False None)"
proof
  have d: "decodeWsTextData ''join;4;4;'' = Inr (Inr (''join'', 4, 4, ''''))" using decode_event4 [of "''join''"] by simp
  have h: "\<not> HasPrefix ''join'' ''custom:''" by code_simp
  show "io_arrival decC decA [IOString ''join''] = Inr (EventArrival ''join'' False [])" by (simp add: io_arrival_def ackOf_def HasPrefix_def)
  show "msg_handler json asErr ''join;4;4;'' (ws_On 0 sig) = Inr (ws_On 0 sig, EventMsg ''join'' False None)"
    unfolding msg_handler_def d bind_res_simps Let_def using h by (simp add: ws_On_def)
qed

text \<open>
  A panic in the middle of the loop leaves the slice half rewritten: here the first callback is gone and the second registered twice.
\<close>

theorem panic_duplicates_callback:
  "fst (MsgCbs_Run None (\<lambda>cb. if cb = 3 then Inl NilDeref else Inr (cb \<noteq> 1)) ''e'' \<lparr> mcCbs = [(''e'', [1, 2, 3])] \<rparr>) =
     \<lparr> mcCbs = [(''e'', [2 :: nat, 2, 3])] \<rparr>"
  by (simp add: MsgCbs_Run_def)

text \<open>A callback whose panic is recovered is unregistered.\<close>

theorem recovered_panic_unregisters:
  assumes "run cb = Inl p" "f p"
  shows "MsgCbs_Run (Some f) run evt (AddCallback evt cb NewMsgCbs) = (NewMsgCbs, [cb], None)"
  using assms by (simp add: MsgCbs_Run_def AddCallback_def NewMsgCbs_def invokeMsgCb_def)

end
