(* ===== verification/ClientSignal.thy ===== *)
theory ClientSignal
  imports Participants SignalTransport SignalRooms
begin

text \<open>
  The client in Go (\<open>client/websocket.go\<close>, \<open>client/client.go\<close>) on top of the tables of \<open>Participants\<close>: the connection, which several
  goroutines may ask for at once, the callbacks for the events of the server, custom messages with their acknowledgements, the rooms, the waiting for a
  participant and the keep-alive loops. Channels and connections are numbered by \<open>nextCh\<close>; \<open>closedChs\<close> has the channels that are closed. A callback
  of the user is a function from its arguments to \<open>remained\<close> and the calls of the acknowledgement function it makes. An operation that waits is
  cut into the part before and the part after, with the case of the \<open>select\<close> that comes first as an argument.
\<close>

section \<open>State\<close>

record CustomCall =
  callContent :: string
  callAck :: bool
  callRoom :: string
  callFrom :: string
  callTo :: string

type_synonym CustomMsgCb = "CustomCall \<Rightarrow> bool \<times> (string \<times> go_err option) list"

text \<open>The callbacks that the client itself registers for events, with the channels and values they capture.\<close>

datatype ClientCb = ReadyCb nat | JoinCb | LeaveCb | PingCb | PongCb nat "32 word" string string

record WebsocketSignal =
  clSignal :: "nat option"
  signal_init_flag :: bool
  signal_init_ch :: "nat option"
  clCloseCb :: "nat option"
  next_custom_msg_id :: "32 word"
  clMsgCbs :: "ClientCb MsgCbs"
  custom_msg_cbs :: "(string, CustomMsgCb list) gomap"
  custom_ack_msg_notifiers :: "(AckKey, nat) gomap"
  ackMsgs :: "(nat, CustomAckMessage) gomap"
  user_info :: "UserInfo option"
  clRooms :: "string list"
  ping_msg_id :: "32 word"
  ping_chs :: "(PingKey, nat list) gomap"
  participants :: ParticipantsBox
  nextCh :: nat
  closedChs :: "nat list"

definition NewWebsocketSignal :: WebsocketSignal where
  "NewWebsocketSignal =
     \<lparr> clSignal = None, signal_init_flag = False, signal_init_ch = None, clCloseCb = None, next_custom_msg_id = 0, clMsgCbs = NewMsgCbs, custom_msg_cbs = [],
       custom_ack_msg_notifiers = [], ackMsgs = [], user_info = None, clRooms = [], ping_msg_id = 0, ping_chs = [],
       participants = mewParticipantsBox, nextCh = 0, closedChs = [] \<rparr>"

definition Client_Id :: "WebsocketSignal \<Rightarrow> string" where
  "Client_Id st = (case user_info st of Some u \<Rightarrow> uiSocketId u | None \<Rightarrow> '''')"

definition closeCh :: "nat \<Rightarrow> WebsocketSignal \<Rightarrow> WebsocketSignal res" where
  "closeCh ch st =
     (if ch \<in> set (closedChs st) then Inl (ValuePanic ''close of closed channel'') else Inr (st\<lparr> closedChs := ch # closedChs st \<rparr>))"

section \<open>Events of the server\<close>

definition args2arg :: "'d list \<Rightarrow> 'd option" where
  "args2arg args = (case args of [] \<Rightarrow> None | a # _ \<Rightarrow> Some a)"

definition onMsg :: "string \<Rightarrow> ClientCb \<Rightarrow> WebsocketSignal \<Rightarrow> WebsocketSignal" where
  "onMsg evt cb st = st\<lparr> clMsgCbs := AddCallback evt cb (clMsgCbs st) \<rparr>"

text \<open>\<open>mapstructure.Decode\<close> for the types of the messages.\<close>

record 'd Decoders =
  decReady :: "'d option \<Rightarrow> go_err + UserInfo"
  decJoin :: "'d option \<Rightarrow> go_err + StateParticipantMessage"
  decLeave :: "'d option \<Rightarrow> go_err + StateLeaveMessage"
  decPing :: "'d option \<Rightarrow> go_err + PingMessage"
  decPong :: "'d option \<Rightarrow> go_err + PongMessage"

definition pongMatches :: "32 word \<Rightarrow> string \<Rightarrow> string \<Rightarrow> PongMessage \<Rightarrow> bool" where
  "pongMatches msg_id sid rm msg =
     (pongMsgId msg = msg_id \<and> socketFrom (routerOrNew (pongRouter msg)) = sid \<and> room (routerOrNew (pongRouter msg)) = rm)"

text \<open>What a callback returns for \<open>remained\<close>.\<close>

definition cbRemains :: "'d Decoders \<Rightarrow> 'd option \<Rightarrow> ClientCb \<Rightarrow> bool res" where
  "cbRemains dec arg cb =
     Inr (case cb of
            ReadyCb _ \<Rightarrow> False
          | PongCb _ msg_id sid rm \<Rightarrow> (case decPong dec arg of Inl _ \<Rightarrow> False | Inr msg \<Rightarrow> \<not> pongMatches msg_id sid rm msg)
          | _ \<Rightarrow> True)"

text \<open>
  What the callbacks send: calls of the user's participant callbacks, pings for the passive keep-alive loops, answers to pings, errors for the
  active loops.
\<close>

datatype ClientOut =
    JoinCalls "(int \<times> Participant option) list"
  | LeaveCalls "(int \<times> Participant option) list"
  | PingTo "(nat \<times> PingMessage) list"
  | SendPong PongMessage
  | PongErr nat go_err

definition onReady :: "nat \<Rightarrow> (go_err + UserInfo) \<Rightarrow> WebsocketSignal \<Rightarrow> WebsocketSignal res" where
  "onReady ready_ch decoded st =
     closeCh ready_ch
       (case decoded of
          Inl _ \<Rightarrow> st
        | Inr msg \<Rightarrow> st\<lparr> clRooms := uiRooms msg, user_info := Some (msg\<lparr> uiRooms := [] \<rparr>) \<rparr>)"

definition pongFor :: "PingMessage \<Rightarrow> PongMessage" where
  "pongFor msg =
     (let router = routerOrNew (pingRouter msg)
      in \<lparr> pongRouter = Some (newRouter\<lparr> room := room router, socketTo := socketFrom router \<rparr>), pongMsgId = pingMsgId msg \<rparr>)"

definition cbEffect :: "'d Decoders \<Rightarrow> int \<Rightarrow> 'd option \<Rightarrow> ClientCb \<Rightarrow> WebsocketSignal \<times> ClientOut list \<Rightarrow> (WebsocketSignal \<times> ClientOut list) res" where
  "cbEffect dec now arg cb so =
     (case so of (st, out) \<Rightarrow>
       (case cb of
          ReadyCb ready_ch \<Rightarrow> bind_res (onReady ready_ch (decReady dec arg) st) (\<lambda>st'. Inr (st', out))
        | JoinCb \<Rightarrow>
            (case decJoin dec arg of
               Inl _ \<Rightarrow> Inr (st, out)
             | Inr msg \<Rightarrow> (case ProcessJoinCbs msg (participants st) of
                 (box, calls) \<Rightarrow> Inr (st\<lparr> participants := box \<rparr>, out @ [JoinCalls calls])))
        | LeaveCb \<Rightarrow>
            (case decLeave dec arg of
               Inl _ \<Rightarrow> Inr (st, out)
             | Inr msg \<Rightarrow> (case ProcessLeaveCbs now msg (participants st) of
                 (box, calls) \<Rightarrow> Inr (st\<lparr> participants := box \<rparr>, out @ [LeaveCalls calls])))
        | PingCb \<Rightarrow>
            (case decPing dec arg of
               Inl _ \<Rightarrow> Inr (st, out)
             | Inr msg \<Rightarrow> Inr (st, out @ [PingTo (publishPingMsgs msg (ping_chs st)), SendPong (pongFor msg)]))
        | PongCb ch msg_id sid rm \<Rightarrow>
            (case decPong dec arg of
               Inl e \<Rightarrow> Inr (st, out @ [PongErr ch e])
             | Inr msg \<Rightarrow>
                 if pongMatches msg_id sid rm msg then bind_res (closeCh ch st) (\<lambda>st'. Inr (st', out)) else Inr (st, out))))"

text \<open>An event of the server: \<open>MsgCbs.Run\<close>, under whose lock the callbacks run one after the other.\<close>

definition clientEvent :: "'d Decoders \<Rightarrow> int \<Rightarrow> string \<Rightarrow> 'd list \<Rightarrow> WebsocketSignal \<Rightarrow> (WebsocketSignal \<times> ClientOut list) res" where
  "clientEvent dec now evt args st =
     (case MsgCbs_Run None (cbRemains dec (args2arg args)) evt (clMsgCbs st) of
        (mc, calls, _) \<Rightarrow>
          bind_res (fold_res (cbEffect dec now (args2arg args)) calls (st, [])) (\<lambda>(st', out). Inr (st'\<lparr> clMsgCbs := mc \<rparr>, out)))"

section \<open>Connecting\<close>

datatype Access = HaveSignal nat | WaitInit | StartInit

definition accessEnter :: "WebsocketSignal \<Rightarrow> Access \<times> WebsocketSignal" where
  "accessEnter st =
     (case clSignal st of
        Some s \<Rightarrow> (HaveSignal s, st)
      | None \<Rightarrow>
          if signal_init_flag st then (WaitInit, st)
          else (StartInit, st\<lparr> signal_init_flag := True, signal_init_ch := Some (nextCh st), nextCh := nextCh st + 1 \<rparr>))"

text \<open>A new connection object with the callbacks registered for it; the result is the channel of the ready message.\<close>

definition accessSetup :: "WebsocketSignal \<Rightarrow> nat \<times> WebsocketSignal" where
  "accessSetup st =
     (let ready_ch = nextCh st + 1;
          st1 = st\<lparr> clSignal := Some (nextCh st), nextCh := nextCh st + 2 \<rparr>
      in (ready_ch,
          onMsg ''ping'' PingCb (onMsg ''participant-leave'' LeaveCb (onMsg ''participant-join'' JoinCb (onMsg ''ready'' (ReadyCb ready_ch) st1)))))"

datatype ReadyWait = DialFailed go_err | ReadyTimeout | IsReady | CtxEnded go_err | SignalCtxEnded go_err

text \<open>The end of \<open>accessSignal\<close> with its deferred function. The signal is read again from its field, which a closed connection has reset.\<close>

definition accessFinish :: "ReadyWait \<Rightarrow> WebsocketSignal \<Rightarrow> (WebsocketSignal \<times> (go_err + nat option)) res" where
  "accessFinish w st =
     (let r = (case w of
                 DialFailed e \<Rightarrow> Inl e
               | ReadyTimeout \<Rightarrow> Inl (PlainError ''ready timeout'')
               | IsReady \<Rightarrow> if user_info st \<noteq> None then Inr (clSignal st) else Inl (PlainError ''failed to get user info'')
               | CtxEnded e \<Rightarrow> Inl e
               | SignalCtxEnded e \<Rightarrow> Inl e);
          st1 = st\<lparr> signal_init_flag := False, signal_init_ch := None \<rparr>
      in case signal_init_ch st of
           None \<Rightarrow> Inl NilDeref
         | Some ch \<Rightarrow> bind_res (closeCh ch st1) (\<lambda>st2. Inr (st2, r)))"

text \<open>The callback of the user for the end of a connection (a number), and its call.\<close>

definition SetCloseCb :: "nat \<Rightarrow> WebsocketSignal \<Rightarrow> WebsocketSignal" where
  "SetCloseCb cb st = st\<lparr> clCloseCb := Some cb \<rparr>"

definition onSignalClose :: "go_err option \<Rightarrow> WebsocketSignal \<Rightarrow> WebsocketSignal \<times> (nat \<times> go_err option) list" where
  "onSignalClose err st = (st\<lparr> clSignal := None \<rparr>, case clCloseCb st of Some cb \<Rightarrow> [(cb, err)] | None \<Rightarrow> [])"

section \<open>Custom messages\<close>

definition OnMessage :: "string \<Rightarrow> CustomMsgCb \<Rightarrow> WebsocketSignal \<Rightarrow> WebsocketSignal" where
  "OnMessage evt cb st =
     st\<lparr> custom_msg_cbs := mput evt (case mget (custom_msg_cbs st) evt of Some cbs \<Rightarrow> cbs @ [cb] | None \<Rightarrow> [cb]) (custom_msg_cbs st) \<rparr>"

text \<open>The acknowledgement function: \<open>marshalErr\<close> is \<open>json.Marshal\<close> for an error (\<open>Inl\<close> the text of its own error). The room is not filled in.\<close>

definition customAck :: "(go_err \<Rightarrow> string + string) \<Rightarrow> CustomMessage \<Rightarrow> string \<times> go_err option \<Rightarrow> CustomAckMessage" where
  "customAck marshalErr msg answer =
     (case answer of (res, err) \<Rightarrow>
        \<lparr> caRouter = Some (newRouter\<lparr> socketTo := socketFrom (routerOrNew (cmRouter msg)) \<rparr>), caMsgId = cmMsgId msg,
          caContent = (case err of
                         None \<Rightarrow> res
                       | Some e \<Rightarrow> (case marshalErr e of Inl t \<Rightarrow> ''unable to encode the custom ack err, '' @ t | Inr js \<Rightarrow> js)),
          caErr = (err \<noteq> None) \<rparr>)"

definition callOf :: "CustomMessage \<Rightarrow> CustomCall" where
  "callOf msg =
     (let router = routerOrNew (cmRouter msg)
      in \<lparr> callContent = cmContent msg, callAck = cmAck msg, callRoom = room router, callFrom = socketFrom router, callTo = socketTo router \<rparr>)"

text \<open>The loop over the callbacks of an event. Without a request for an acknowledgement the function is nil, and calling it panics.\<close>

fun customLoop :: "(go_err \<Rightarrow> string + string) \<Rightarrow> CustomMessage \<Rightarrow> CustomMsgCb list \<Rightarrow> (CustomMsgCb list \<times> CustomAckMessage list) res" where
  "customLoop marshalErr msg [] = Inr ([], [])"
| "customLoop marshalErr msg (cb # cbs) =
     (case cb (callOf msg) of (remained, answers) \<Rightarrow>
        if answers \<noteq> [] \<and> \<not> cmAck msg then Inl NilDeref
        else bind_res (customLoop marshalErr msg cbs) (\<lambda>(new_cbs, acks).
               Inr ((if remained then cb # new_cbs else new_cbs), map (customAck marshalErr msg) answers @ acks)))"

definition onCustomMsg :: "(go_err \<Rightarrow> string + string) \<Rightarrow> string \<Rightarrow> CustomMessage \<Rightarrow> WebsocketSignal \<Rightarrow> (WebsocketSignal \<times> CustomAckMessage list) res" where
  "onCustomMsg marshalErr evt msg st =
     bind_res (customLoop marshalErr msg (case mget (custom_msg_cbs st) evt of Some cbs \<Rightarrow> cbs | None \<Rightarrow> [])) (\<lambda>(new_cbs, acks).
       Inr (st\<lparr> custom_msg_cbs := (if new_cbs \<noteq> [] then mput evt new_cbs (custom_msg_cbs st) else mdel evt (custom_msg_cbs st)) \<rparr>, acks))"

definition onCustomAckMsg :: "CustomAckMessage \<Rightarrow> WebsocketSignal \<Rightarrow> WebsocketSignal res" where
  "onCustomAckMsg msg st =
     (let router = routerOrNew (caRouter msg)
      in case PopCustomAckMsgCh (room router) (socketFrom router) (caMsgId msg) (custom_ack_msg_notifiers st) of
           (notifiers, None) \<Rightarrow> Inr (st\<lparr> custom_ack_msg_notifiers := notifiers \<rparr>)
         | (notifiers, Some ch) \<Rightarrow> closeCh ch (st\<lparr> custom_ack_msg_notifiers := notifiers, ackMsgs := mput ch msg (ackMsgs st) \<rparr>))"

text \<open>\<open>SendMessage\<close> with a connection, up to the waiting: the frame and the channel to wait on. An error of the write is ignored.\<close>

definition SendMessage_begin :: "bool \<Rightarrow> string \<Rightarrow> string \<Rightarrow> string \<Rightarrow> string \<Rightarrow> WebsocketSignal \<Rightarrow> WebsocketSignal \<times> (string \<times> CustomMessage) \<times> nat option" where
  "SendMessage_begin ack evt content to rm st =
     (let custom_msg_id = next_custom_msg_id st + 1;
          st1 = st\<lparr> next_custom_msg_id := custom_msg_id \<rparr>;
          ch = nextCh st1;
          st2 = (if ack
                 then st1\<lparr> custom_ack_msg_notifiers := PushCustomAckMsgCh rm to custom_msg_id ch (custom_ack_msg_notifiers st1), nextCh := ch + 1 \<rparr>
                 else st1)
      in (st2,
          (''custom:'' @ evt,
           \<lparr> cmRouter = Some (newRouter\<lparr> room := rm, socketTo := to \<rparr>), cmContent = content, cmMsgId = custom_msg_id, cmAck = ack \<rparr>),
          if ack then Some ch else None))"

datatype SendWait = SendCtxDone go_err | SendSignalDone go_err | SendAcked

definition SendMessage_end :: "(string \<Rightarrow> go_err option) \<Rightarrow> nat option \<Rightarrow> SendWait \<Rightarrow> WebsocketSignal \<Rightarrow> go_err + string" where
  "SendMessage_end unmarshalErr ack_ch w st =
     (case ack_ch of
        None \<Rightarrow> Inr ''''
      | Some ch \<Rightarrow>
          (case w of
             SendCtxDone e \<Rightarrow> Inl e
           | SendSignalDone e \<Rightarrow> Inl e
           | SendAcked \<Rightarrow>
               (case mget (ackMsgs st) ch of
                  None \<Rightarrow> Inr ''''
                | Some msg \<Rightarrow>
                    if caErr msg
                    then Inl (case unmarshalErr (caContent msg) of
                                None \<Rightarrow> FatalError ''unable to decode custom ack err \"%s\", %w''
                              | Some ce \<Rightarrow> ce)
                    else Inr (caContent msg))))"

section \<open>Rooms\<close>

text \<open>The operations that need the connection: \<open>acc\<close> is the result of \<open>accessSignal\<close>, \<open>reply\<close> the one of \<open>SendMsg\<close>.\<close>

definition UserInfo_of :: "go_err + nat option \<Rightarrow> WebsocketSignal \<Rightarrow> go_err + UserInfo option" where
  "UserInfo_of acc st = bind_res acc (\<lambda>_. Inr (user_info st))"

definition GetRooms :: "go_err + nat option \<Rightarrow> WebsocketSignal \<Rightarrow> go_err + string list" where
  "GetRooms acc st = bind_res acc (\<lambda>_. Inr (clRooms st))"

definition IsInRoom :: "go_err + nat option \<Rightarrow> string \<Rightarrow> WebsocketSignal \<Rightarrow> go_err + bool" where
  "IsInRoom acc rm st = bind_res acc (\<lambda>_. Inr (rm \<in> set (clRooms st)))"

definition sendMsg :: "go_err + nat option \<Rightarrow> go_err + 'd list \<Rightarrow> go_err + 'd option" where
  "sendMsg acc reply = bind_res acc (\<lambda>_. bind_res reply (\<lambda>res_arr. Inr (args2arg res_arr)))"

definition Join :: "go_err + nat option \<Rightarrow> go_err + 'd list \<Rightarrow> string list \<Rightarrow> WebsocketSignal \<Rightarrow> WebsocketSignal \<times> go_err option" where
  "Join acc reply rooms st =
     (case sendMsg acc reply of
        Inl e \<Rightarrow> (st, Some e)
      | Inr _ \<Rightarrow> (st\<lparr> clRooms := Client_Join (clRooms st) rooms \<rparr>, None))"

definition Leave :: "go_err + nat option \<Rightarrow> go_err + 'd list \<Rightarrow> string list \<Rightarrow> WebsocketSignal \<Rightarrow> (WebsocketSignal \<times> go_err option) res" where
  "Leave acc reply rooms st =
     (case sendMsg acc reply of
        Inl e \<Rightarrow> Inr (st, Some e)
      | Inr _ \<Rightarrow> bind_res (Client_Leave (clRooms st) rooms) (\<lambda>rooms'. Inr (st\<lparr> clRooms := rooms' \<rparr>, None)))"

record RoomedWebsocketSignal =
  rsRoom :: string

definition Roomed :: "go_err + nat option \<Rightarrow> string \<Rightarrow> WebsocketSignal \<Rightarrow> go_err + RoomedWebsocketSignal" where
  "Roomed acc rm st =
     bind_res (IsInRoom acc rm st) (\<lambda>inRoom. if \<not> inRoom then Inl (PlainError ''not in room %s'') else Inr \<lparr> rsRoom = rm \<rparr>)"

definition Roomed_OnMessage :: "RoomedWebsocketSignal \<Rightarrow> string \<Rightarrow> CustomMsgCb \<Rightarrow> WebsocketSignal \<Rightarrow> WebsocketSignal" where
  "Roomed_OnMessage s evt cb = OnMessage evt (\<lambda>call. if callRoom call = rsRoom s then cb call else (True, []))"

definition Roomed_SendMessage :: "RoomedWebsocketSignal \<Rightarrow> bool \<Rightarrow> string \<Rightarrow> string \<Rightarrow> string \<Rightarrow> WebsocketSignal \<Rightarrow> WebsocketSignal \<times> (string \<times> CustomMessage) \<times> nat option" where
  "Roomed_SendMessage s ack evt content to = SendMessage_begin ack evt content to (rsRoom s)"

section \<open>Waiting for a participant\<close>

text \<open>The callback closes the channel and goes when the participant has come.\<close>

definition waitCb :: "string \<Rightarrow> ParticipantCb" where
  "waitCb uid participant = (case participant of Some p \<Rightarrow> ptId p \<noteq> uid | None \<Rightarrow> True)"

definition WaitParticipant_begin :: "string \<Rightarrow> string \<Rightarrow> ParticipantsBox \<Rightarrow> ParticipantsBox \<times> int \<times> Participant option" where
  "WaitParticipant_begin rm uid box =
     (case AddJoinCallback rm (waitCb uid) box of
        (box1, cbId) \<Rightarrow>
          (case FindOneByUser rm uid box1 of
             Some p \<Rightarrow> (RemoveJoinCallback rm cbId box1, cbId, Some p)
           | None \<Rightarrow> (box1, cbId, None)))"

definition WaitParticipant_end :: "string \<Rightarrow> string \<Rightarrow> int \<Rightarrow> ParticipantsBox \<Rightarrow> ParticipantsBox \<times> Participant option" where
  "WaitParticipant_end rm uid cbId box = (RemoveJoinCallback rm cbId box, FindOneByUser rm uid box)"

section \<open>Keeping alive\<close>

record KeepAliveContext =
  kaErr :: "go_err option"
  TimeoutNum :: int
  TimeoutDuration :: int

definition newKeepAliveContext :: KeepAliveContext where
  "newKeepAliveContext = \<lparr> kaErr = None, TimeoutNum = 0, TimeoutDuration = 0 \<rparr>"

text \<open>A round of the active loop registers a callback for the answer and sends a ping.\<close>

definition activePing :: "string \<Rightarrow> string \<Rightarrow> WebsocketSignal \<Rightarrow> WebsocketSignal \<times> PingMessage \<times> nat" where
  "activePing rm sid st =
     (let msg_id = ping_msg_id st + 1; ch = nextCh st
      in (onMsg ''pong'' (PongCb ch msg_id sid rm) (st\<lparr> ping_msg_id := msg_id, nextCh := ch + 1 \<rparr>),
          \<lparr> pingRouter = Some (newRouter\<lparr> room := rm, socketTo := sid \<rparr>), pingMsgId = msg_id \<rparr>, ch))"

text \<open>What comes first in a round: \<open>RoundTimeout\<close> has the time since its start, \<open>SendFailed\<close> the error of the ping as it is wrapped.\<close>

datatype Round = SendFailed go_err | RoundEnded | RoundTimeout int | PongError go_err | PongArrived

text \<open>The contexts that \<open>errCb\<close> is called with, the context after the round, and whether the loop returns.\<close>

definition failRound :: "(KeepAliveContext \<Rightarrow> bool) \<Rightarrow> KeepAliveContext \<Rightarrow> KeepAliveContext list \<times> KeepAliveContext \<times> bool" where
  "failRound errCb ka = ([ka], if errCb ka then ka else ka\<lparr> kaErr := None \<rparr>, errCb ka)"

definition activeRound :: "(KeepAliveContext \<Rightarrow> bool) \<Rightarrow> Round \<Rightarrow> KeepAliveContext \<Rightarrow> KeepAliveContext list \<times> KeepAliveContext \<times> bool" where
  "activeRound errCb r ka =
     (case r of
        SendFailed e \<Rightarrow> failRound errCb (ka\<lparr> kaErr := Some e \<rparr>)
      | RoundEnded \<Rightarrow> ([], ka, True)
      | RoundTimeout since \<Rightarrow>
          (let ka' = ka\<lparr> TimeoutNum := TimeoutNum ka + 1, TimeoutDuration := TimeoutDuration ka + since \<rparr> in ([ka'], ka', errCb ka'))
      | PongError e \<Rightarrow> failRound errCb (ka\<lparr> kaErr := Some e \<rparr>)
      | PongArrived \<Rightarrow> ([], ka\<lparr> TimeoutNum := 0, TimeoutDuration := 0 \<rparr>, False))"

text \<open>The pause after a round; when the context of the client has ended the \<open>select\<close> is left, but not the loop.\<close>

datatype Pause = ClientEnded | PauseEnded | PauseElapsed

fun keepAliveActive :: "(KeepAliveContext \<Rightarrow> bool) \<Rightarrow> (Round \<times> Pause) list \<Rightarrow> KeepAliveContext \<Rightarrow> KeepAliveContext list \<times> bool" where
  "keepAliveActive errCb [] ka = ([], False)"
| "keepAliveActive errCb ((r, p) # rs) ka =
     (case activeRound errCb r ka of (calls, ka', stop) \<Rightarrow>
        if stop \<or> p = PauseEnded then (calls, True)
        else (case keepAliveActive errCb rs ka' of (calls', stop') \<Rightarrow> (calls @ calls', stop')))"

datatype PassiveRound = PassiveEnded | PassiveTimeout int | PingArrived

fun keepAlivePassive :: "(KeepAliveContext \<Rightarrow> bool) \<Rightarrow> PassiveRound list \<Rightarrow> KeepAliveContext \<Rightarrow> KeepAliveContext list \<times> bool" where
  "keepAlivePassive errCb [] ka = ([], False)"
| "keepAlivePassive errCb (r # rs) ka =
     (case r of
        PassiveEnded \<Rightarrow> ([], True)
      | PassiveTimeout since \<Rightarrow>
          (let ka' = ka\<lparr> TimeoutNum := TimeoutNum ka + 1, TimeoutDuration := TimeoutDuration ka + since \<rparr>
           in if errCb ka' then ([ka'], True)
              else (case keepAlivePassive errCb rs ka' of (calls, stop) \<Rightarrow> (ka' # calls, stop)))
      | PingArrived \<Rightarrow> keepAlivePassive errCb rs (ka\<lparr> TimeoutNum := 0, TimeoutDuration := 0 \<rparr>))"

section \<open>The client around the signal\<close>

text \<open>The timeout that \<open>NewWebsocketClient\<close> keeps of the configured one, in nanoseconds.\<close>

definition clientTimeout :: "int \<Rightarrow> int" where
  "clientTimeout conf = (if conf = 0 then 1000000000 else 0)"

definition MakeSureId :: "go_err + nat option \<Rightarrow> WebsocketSignal \<Rightarrow> go_err + string" where
  "MakeSureId acc st = bind_res acc (\<lambda>_. Inr (Client_Id st))"

end
