(* ===== verification/ClientProps.thy ===== *)
theory ClientProps
  imports ClientSignal
begin

text \<open>
  Properties of the client in Go: a goroutine that waits for a participant is woken up, one goroutine at a time connects, the keep-alive
  loops count the timeouts in a row, and a custom message is answered through both servers.
\<close>

section \<open>Waiting for a participant\<close>

datatype BoxStep = BoxJoin StateParticipantMessage | BoxLeave int StateLeaveMessage | BoxAdd string ParticipantCb | BoxRemove string int

text \<open>A step on the participants with the calls of join callbacks it makes.\<close>

fun boxStep :: "BoxStep \<Rightarrow> ParticipantsBox \<Rightarrow> ParticipantsBox \<times> (int \<times> Participant option) list" where
  "boxStep (BoxJoin msg) box = ProcessJoinCbs msg box"
| "boxStep (BoxLeave now msg) box = (fst (ProcessLeaveCbs now msg box), [])"
| "boxStep (BoxAdd rm cb) box = (fst (AddJoinCallback rm cb box), [])"
| "boxStep (BoxRemove rm i) box = (RemoveJoinCallback rm i box, [])"

fun boxSteps :: "BoxStep list \<Rightarrow> ParticipantsBox \<Rightarrow> ParticipantsBox \<times> (int \<times> Participant option) list" where
  "boxSteps [] box = (box, [])"
| "boxSteps (s # ss) box = (case boxStep s box of (box1, calls) \<Rightarrow> (case boxSteps ss box1 of (box2, calls2) \<Rightarrow> (box2, calls @ calls2)))"

definition wakes :: "int \<Rightarrow> string \<Rightarrow> (int \<times> Participant option) list \<Rightarrow> nat" where
  "wakes i uid calls = length (filter (\<lambda>(j, q). j = i \<and> \<not> waitCb uid q) calls)"

definition box_ok :: "ParticipantsBox \<Rightarrow> bool" where
  "box_ok box \<longleftrightarrow> mwf (boxParticipants box) \<and> (\<forall>r cbs. mget (join_chs box) r = Some cbs \<longrightarrow> mwf cbs \<and> (\<forall>j cb. mget cbs j = Some cb \<longrightarrow> j < next_join_id box))"

lemma findByUid_None: "findByUid m uid = None \<longleftrightarrow> (\<forall>k. fst k = uid \<longrightarrow> mget m k = None)"
proof (induction m)
  case (Cons e m)
  obtain u t v where "e = ((u, t), v)" by (metis prod.exhaust)
  with Cons show ?case by auto
qed simp

lemma cleanRooms_Cons:
  "cleanRooms now (e # m) = (if snd (Participants_Clean now (snd e)) then [] else [(fst e, fst (Participants_Clean now (snd e)))]) @ cleanRooms now m"
  by (cases e) (auto split: prod.splits)

lemma cleanRooms_keys: "fst ` set (cleanRooms now m) \<subseteq> fst ` set m"
  by (induction m) (auto simp: cleanRooms_Cons simp del: cleanRooms.simps(2))

lemma cleanRooms_fresh: "k \<notin> fst ` set m \<Longrightarrow> k \<notin> fst ` set (cleanRooms now m)"
  using cleanRooms_keys [of now m] by blast

lemma cleanRooms_mwf: "mwf m \<Longrightarrow> mwf (cleanRooms now m)"
  by (induction m) (auto simp: mwf_def cleanRooms_Cons cleanRooms_fresh simp del: cleanRooms.simps(2))

lemma cleanRooms_get:
  assumes "mwf m" "mget (cleanRooms now m) rm = Some ps'"
  shows "\<exists>ps. mget m rm = Some ps \<and> psParticipants ps' = psParticipants ps"
  using assms
proof (induction m)
  case (Cons e m)
  have "mget (cleanRooms now m) (fst e) = None" using Cons.prems(1) cleanRooms_fresh by (simp add: mwf_def map_of_eq_None_iff)
  moreover have "psParticipants (fst (Participants_Clean now (snd e))) = psParticipants (snd e)" by (simp add: Participants_Clean_def Let_def)
  ultimately show ?case using Cons by (cases e) (auto simp: mwf_def cleanRooms_Cons simp del: cleanRooms.simps(2) split: if_splits)
qed simp

lemma join_frame:
  "join_chs (fst (ProcessLeaveCbs now msg box)) = join_chs box"
  "next_join_id (fst (ProcessLeaveCbs now msg box)) = next_join_id box"
  "next_join_id (fst (ProcessJoinCbs jmsg box)) = next_join_id box"
  by (auto simp: ProcessLeaveCbs_def ProcessJoinCbs_def box_clean_def Let_def split: option.splits prod.splits)

lemma box_mwf:
  assumes "mwf (boxParticipants box)"
  shows "mwf (boxParticipants (fst (ProcessLeaveCbs now msg box)))" "mwf (boxParticipants (fst (ProcessJoinCbs jmsg box)))"
  using assms
  by (auto simp: ProcessLeaveCbs_def ProcessJoinCbs_def box_clean_def Let_def cleanRooms_mwf split: option.splits prod.splits)

lemma mwf_filter [simp, intro]: "mwf m \<Longrightarrow> mwf (filter P m)"
  by (induction m) (auto simp: mwf_def image_iff)

text \<open>The callbacks of the rooms after a join.\<close>

definition joined :: "StateParticipantMessage \<Rightarrow> Participant" where
  "joined msg = \<lparr> ptId = spUserId msg, ptName = spUserName msg, ptSourceId = spSocketId msg, ptJoinId = spJoinId msg \<rparr>"

abbreviation joinRoom :: "StateParticipantMessage \<Rightarrow> string" where
  "joinRoom msg \<equiv> room (routerOrNew (spRouter msg))"

lemma ProcessJoinCbs_chs:
  assumes "ProcessJoinCbs msg box = (box', calls)"
  shows "(join_chs box' = join_chs box \<and> calls = []) \<or>
    (\<exists>cbs. mget (join_chs box) (joinRoom msg) = Some cbs \<and>
       join_chs box' = mput (joinRoom msg) (filter (\<lambda>(i, cb). cb (Some (joined msg))) cbs) (join_chs box) \<and>
       calls = map (\<lambda>(i, cb). (i, Some (joined msg))) cbs)"
  using assms
  by (auto simp: ProcessJoinCbs_def joined_def Let_def Participants.runCbs_def split: option.splits prod.splits if_splits)

lemma mget_filter_mwf: "mwf m \<Longrightarrow> mget (filter P m) k = (case mget m k of Some v \<Rightarrow> if P (k, v) then Some v else None | None \<Rightarrow> None)"
  by (induction m) (auto simp: mwf_def map_of_eq_None_iff image_iff split: option.splits)

lemma box_ok_step:
  assumes "box_ok box"
  shows "box_ok (fst (boxStep s box)) \<and> next_join_id box \<le> next_join_id (fst (boxStep s box))"
proof (cases s)
  case (BoxJoin msg)
  obtain box' calls where p: "ProcessJoinCbs msg box = (box', calls)" by fastforce
  have n: "next_join_id box' = next_join_id box" "mwf (boxParticipants box')"
    using join_frame(3) [of msg box] box_mwf(2) [of box msg] assms p by (auto simp: box_ok_def)
  from ProcessJoinCbs_chs [OF p] have "box_ok box'"
  proof
    assume "join_chs box' = join_chs box \<and> calls = []"
    then show ?thesis using assms n by (simp add: box_ok_def)
  next
    assume "\<exists>cbs. mget (join_chs box) (joinRoom msg) = Some cbs \<and>
       join_chs box' = mput (joinRoom msg) (filter (\<lambda>(i, cb). cb (Some (joined msg))) cbs) (join_chs box) \<and>
       calls = map (\<lambda>(i, cb). (i, Some (joined msg))) cbs"
    then show ?thesis using assms n by (auto simp: box_ok_def gomap_simps mget_filter_mwf split: if_splits option.splits)
  qed
  then show ?thesis using n p BoxJoin by simp
next
  case (BoxLeave now msg)
  then show ?thesis using assms by (simp add: box_ok_def join_frame box_mwf)
next
  case (BoxAdd rm cb)
  have "j < next_join_id box + 1" if "mget (join_chs box) rm' = Some cbs" "mget cbs j = Some cb'" for rm' cbs j cb'
    using assms that by (fastforce simp: box_ok_def)
  moreover have "mwf [(next_join_id box, cb)]" by (simp add: mwf_def)
  ultimately show ?thesis using assms
    by (auto simp: BoxAdd AddJoinCallback_def Let_def box_ok_def gomap_simps split: option.splits if_splits)
next
  case (BoxRemove rm i)
  then show ?thesis using assms
    by (auto simp: RemoveJoinCallback_def box_ok_def gomap_simps split: option.splits if_splits)
qed

lemma box_ok_steps: "box_ok box \<Longrightarrow> box_ok (fst (boxSteps ss box))"
  using box_ok_step by (induction ss arbitrary: box) (auto split: prod.splits, metis fst_conv)

lemma box_ok_new: "box_ok mewParticipantsBox"
  by (simp add: box_ok_def mewParticipantsBox_def)

text \<open>The participants of a user in a room: a join that adds one calls the callbacks of the room, a leave adds none.\<close>

definition absent :: "string \<Rightarrow> string \<Rightarrow> ParticipantsBox \<Rightarrow> bool" where
  "absent rm uid box \<longleftrightarrow> FindOneByUser rm uid box = None"

lemma absent_alt:
  "absent rm uid box \<longleftrightarrow> (\<forall>ps. mget (boxParticipants box) rm = Some ps \<longrightarrow> (\<forall>sid. mget (psParticipants ps) (uid, sid) = None))"
  by (auto simp: absent_def FindOneByUser_def Participants_FindOneByUser_def findByUid_None split: option.splits)

lemma Add_not_added:
  "Participants_Add p ps = (ps', False) \<Longrightarrow> psParticipants ps' = psParticipants ps"
  by (auto simp: Participants_Add_def addParticipant_def Let_def split: option.splits if_splits)

lemma Add_other_user:
  "Participants_Add p ps = (ps', b) \<Longrightarrow> uid \<noteq> ptId p \<Longrightarrow> mget (psParticipants ps') (uid, sid) = mget (psParticipants ps) (uid, sid)"
  using Add_other [of "(uid, sid)" p ps] by auto

lemma Remove_adds_none:
  "Participants_Remove now u sd jid ps = (ps', r) \<Longrightarrow> mget (psParticipants ps) k = None \<Longrightarrow> mget (psParticipants ps') k = None"
  by (auto simp: Participants_Remove_def removeParticipant_def Let_def gomap_simps split: option.splits if_splits)

lemma newParticipants_empty: "psParticipants newParticipants = []"
  by (simp add: newParticipants_def)

lemma absent_join:
  assumes p: "ProcessJoinCbs msg box = (box', calls)" and a: "absent rm uid box"
  shows "absent rm uid box' \<or> (joinRoom msg = rm \<and> spUserId msg = uid \<and>
    (\<forall>cbs. mget (join_chs box) rm = Some cbs \<longrightarrow>
       join_chs box' = mput rm (filter (\<lambda>(i, cb). cb (Some (joined msg))) cbs) (join_chs box) \<and> calls = map (\<lambda>(i, cb). (i, Some (joined msg))) cbs))"
proof -
  let ?ps = "case mget (boxParticipants box) (joinRoom msg) of Some ps \<Rightarrow> ps | None \<Rightarrow> newParticipants"
  obtain ps' b where add: "Participants_Add (joined msg) ?ps = (ps', b)" by fastforce
  have bp: "boxParticipants box' = mput (joinRoom msg) ps' (boxParticipants box)"
    using p add by (auto simp: ProcessJoinCbs_def joined_def Let_def split: option.splits prod.splits if_splits)
  have old: "mget (psParticipants ?ps) (uid, sid) = None" if "joinRoom msg = rm" for sid
    using a that by (auto simp: absent_alt newParticipants_empty split: option.splits)
  show ?thesis
  proof (cases "joinRoom msg = rm \<and> spUserId msg = uid \<and> b")
    case True
    then show ?thesis using p add
      by (auto simp: ProcessJoinCbs_def joined_def Let_def Participants.runCbs_def split: option.splits prod.splits if_splits)
  next
    case False
    have "absent rm uid box'"
    proof (cases "joinRoom msg = rm")
      case True
      have "mget (psParticipants ps') (uid, sid) = None" for sid
        using False True old [OF True, of sid] Add_other_user [OF add, of uid sid] Add_not_added [of "joined msg" ?ps ps'] add
        by (cases b) (auto simp: joined_def)
      then show ?thesis using True by (auto simp: absent_alt bp gomap_simps)
    next
      case False
      then show ?thesis using a by (auto simp: absent_alt bp gomap_simps)
    qed
    then show ?thesis by simp
  qed
qed

lemma absent_leave:
  assumes "box_ok box" "absent rm uid box"
  shows "absent rm uid (fst (ProcessLeaveCbs now msg box))"
proof -
  let ?r = "room (routerOrNew (slRouter msg))"
  let ?ps = "case mget (boxParticipants box) ?r of Some ps \<Rightarrow> ps | None \<Rightarrow> newParticipants"
  obtain ps' q where rem: "Participants_Remove now (slUserId msg) (slSocketId msg) (slJoinId msg) ?ps = (ps', q)" by fastforce
  let ?m = "mput ?r ps' (boxParticipants box)"
  have bp: "boxParticipants (fst (ProcessLeaveCbs now msg box)) = ?m \<or> boxParticipants (fst (ProcessLeaveCbs now msg box)) = cleanRooms now ?m"
    using rem by (auto simp: ProcessLeaveCbs_def box_clean_def Let_def split: option.splits prod.splits)
  have "mget (psParticipants ps') (uid, sid) = None" if "?r = rm" for sid
    using assms(2) that Remove_adds_none [OF rem, of "(uid, sid)"] by (auto simp: absent_alt newParticipants_empty split: option.splits)
  then have m: "mget (psParticipants ps) (uid, sid) = None" if "mget ?m rm = Some ps" for ps sid
    using that assms(2) by (auto simp: absent_alt gomap_simps split: if_splits)
  have wf: "mwf ?m" using assms(1) by (simp add: box_ok_def)
  show ?thesis using bp m cleanRooms_get [OF wf, of now rm] by (fastforce simp: absent_alt)
qed

text \<open>
  The state while a goroutine waits with the callback \<open>i\<close>: before it is woken the user is absent and the callback is registered; afterwards the callback is
  gone.
\<close>

definition waiting :: "string \<Rightarrow> string \<Rightarrow> int \<Rightarrow> nat \<Rightarrow> ParticipantsBox \<Rightarrow> bool" where
  "waiting rm uid i n box \<longleftrightarrow> box_ok box \<and> i < next_join_id box \<and>
     (\<forall>r cbs. r \<noteq> rm \<longrightarrow> mget (join_chs box) r = Some cbs \<longrightarrow> mget cbs i = None) \<and>
     (if n = 0 then absent rm uid box \<and> (\<exists>cbs. mget (join_chs box) rm = Some cbs \<and> mget cbs i = Some (waitCb uid))
      else n = 1 \<and> (\<forall>cbs. mget (join_chs box) rm = Some cbs \<longrightarrow> mget cbs i = None))"

lemma wakes_simps [simp]:
  "wakes i uid [] = 0" "wakes i uid (xs @ ys) = wakes i uid xs + wakes i uid ys"
  "wakes i uid ((j, Some p) # xs) = (if j = i \<and> ptId p = uid then 1 else 0) + wakes i uid xs"
  by (simp_all add: wakes_def waitCb_def)

lemma wakes_map:
  "mwf cbs \<Longrightarrow> wakes i uid (map (\<lambda>(j, cb). (j, Some p)) cbs) = (if mget cbs i \<noteq> None \<and> ptId p = uid then 1 else 0)"
proof (induction cbs)
  case (Cons e cbs)
  then have "mget cbs (fst e) = None" "mwf cbs" by (auto simp: mwf_def map_of_eq_None_iff)
  then show ?case using Cons.IH by (cases e) auto
qed simp

lemma waiting_join:
  assumes w: "waiting rm uid i n box" and p: "ProcessJoinCbs msg box = (box', calls)"
  shows "waiting rm uid i (n + wakes i uid calls) box'"
proof -
  have ok: "box_ok box'" "next_join_id box' = next_join_id box"
    using w box_ok_step [of box "BoxJoin msg"] join_frame(3) [of msg box] p by (auto simp: waiting_def)
  have id: "ptId (joined msg) = spUserId msg" by (simp add: joined_def)
  from ProcessJoinCbs_chs [OF p] show ?thesis
  proof
    assume same: "join_chs box' = join_chs box \<and> calls = []"
    have "absent rm uid box'" if "n = 0"
      using absent_join [OF p, of rm uid] w same that by (auto simp: waiting_def split: if_splits)
    then show ?thesis using w ok same by (auto simp: waiting_def split: if_splits)
  next
    assume "\<exists>cbs. mget (join_chs box) (joinRoom msg) = Some cbs \<and>
       join_chs box' = mput (joinRoom msg) (filter (\<lambda>(i, cb). cb (Some (joined msg))) cbs) (join_chs box) \<and>
       calls = map (\<lambda>(i, cb). (i, Some (joined msg))) cbs"
    then obtain cbs where c: "mget (join_chs box) (joinRoom msg) = Some cbs"
      "join_chs box' = mput (joinRoom msg) (filter (\<lambda>(i, cb). cb (Some (joined msg))) cbs) (join_chs box)"
      "calls = map (\<lambda>(i, cb). (i, Some (joined msg))) cbs" by blast
    have wf: "mwf cbs" using w c(1) by (auto simp: waiting_def box_ok_def)
    note k = wakes_map [OF wf, of i uid "joined msg", folded c(3), unfolded id]
    have "absent rm uid box'" if "n = 0" "\<not> (joinRoom msg = rm \<and> spUserId msg = uid)"
      using absent_join [OF p, of rm uid] w that by (auto simp: waiting_def)
    then show ?thesis using w ok c(1,2) k wf
      by (cases "joinRoom msg = rm"; cases "n = 0")
        (auto simp: waiting_def gomap_simps mget_filter_mwf waitCb_def id split: if_splits option.splits)
  qed
qed

lemma waiting_step:
  assumes "waiting rm uid i n box" "s \<noteq> BoxRemove rm i"
  shows "waiting rm uid i (n + wakes i uid (snd (boxStep s box))) (fst (boxStep s box))"
proof (cases s)
  case (BoxJoin msg)
  then show ?thesis using waiting_join [OF assms(1)] by (metis boxStep.simps(1) prod.collapse)
next
  case (BoxLeave now msg)
  then show ?thesis using assms box_ok_step [of box s] absent_leave [of box rm uid now msg]
    by (auto simp: waiting_def join_frame split: if_splits)
next
  case (BoxAdd r cb)
  have "box_ok (fst (boxStep s box))" using assms(1) box_ok_step by (auto simp: waiting_def)
  moreover have "absent rm uid (fst (boxStep s box)) = absent rm uid box" by (simp add: BoxAdd AddJoinCallback_def Let_def absent_alt)
  ultimately show ?thesis using assms
    by (auto simp: BoxAdd waiting_def AddJoinCallback_def Let_def gomap_simps split: if_splits option.splits)
next
  case (BoxRemove r j)
  have "box_ok (fst (boxStep s box))" using assms(1) box_ok_step by (auto simp: waiting_def)
  moreover have "absent rm uid (fst (boxStep s box)) = absent rm uid box"
    by (simp add: BoxRemove RemoveJoinCallback_def absent_alt split: option.splits)
  ultimately show ?thesis using assms
    by (auto simp: BoxRemove waiting_def RemoveJoinCallback_def gomap_simps split: if_splits option.splits)
qed

lemma waiting_steps:
  "waiting rm uid i n box \<Longrightarrow> BoxRemove rm i \<notin> set ss \<Longrightarrow>
   waiting rm uid i (n + wakes i uid (snd (boxSteps ss box))) (fst (boxSteps ss box))"
proof (induction ss arbitrary: n box)
  case (Cons s ss)
  obtain box1 calls1 where 1: "boxStep s box = (box1, calls1)" by fastforce
  obtain box2 calls2 where 2: "boxSteps ss box1 = (box2, calls2)" by fastforce
  have "waiting rm uid i (n + wakes i uid calls1) box1" using waiting_step [OF Cons.prems(1), of s] Cons.prems(2) 1 by auto
  from Cons.IH [OF this] show ?case using Cons.prems(2) 1 2 by (simp add: add.assoc)
qed simp

lemma waiting_begin:
  assumes "box_ok box" "WaitParticipant_begin rm uid box = (box1, i, None)"
  shows "waiting rm uid i 0 box1"
proof -
  have add: "AddJoinCallback rm (waitCb uid) box = (box1, i)" "absent rm uid box1"
    using assms(2) by (auto simp: WaitParticipant_begin_def absent_def split: prod.splits option.splits)
  have "box_ok box1" using box_ok_step [OF assms(1), of "BoxAdd rm (waitCb uid)"] add by simp
  moreover have "mget cbs (next_join_id box) = None" if "mget (join_chs box) r = Some cbs" for r cbs
    using assms(1) that unfolding box_ok_def by (metis less_irrefl not_Some_eq)
  ultimately show ?thesis using add
    by (auto simp: waiting_def AddJoinCallback_def Let_def gomap_simps split: option.splits if_splits)
qed


definition demoJoin :: StateParticipantMessage where
  "demoJoin = \<lparr> spRouter = Some (newRouter\<lparr> room := ''r'' \<rparr>), spUserId = ''u'', spUserName = ''n'', spSocketId = ''s'', spJoinId = 1 \<rparr>"


section \<open>Connecting\<close>

text \<open>
  Several goroutines call \<open>accessSignal\<close>. A goroutine that saw the flag reads the channel to wait on after it has given the lock back.
\<close>

datatype AccPhase = AccStart | AccSawInit | AccWait "nat option" | AccInit | AccReady | AccDone "go_err + nat option"

inductive client_step :: "'d Decoders \<Rightarrow> WebsocketSignal \<times> (nat \<Rightarrow> AccPhase) \<Rightarrow> WebsocketSignal \<times> (nat \<Rightarrow> AccPhase) \<Rightarrow> bool" for dec where
  acc_have: "ph g = AccStart \<Longrightarrow> accessEnter st = (HaveSignal s, st') \<Longrightarrow> client_step dec (st, ph) (st', ph(g := AccDone (Inr (Some s))))"
| acc_saw: "ph g = AccStart \<Longrightarrow> accessEnter st = (WaitInit, st') \<Longrightarrow> client_step dec (st, ph) (st', ph(g := AccSawInit))"
| acc_start: "ph g = AccStart \<Longrightarrow> accessEnter st = (StartInit, st') \<Longrightarrow> client_step dec (st, ph) (st', ph(g := AccInit))"
| acc_read: "ph g = AccSawInit \<Longrightarrow> client_step dec (st, ph) (st, ph(g := AccWait (signal_init_ch st)))"
| acc_wake: "ph g = AccWait (Some ch) \<Longrightarrow> ch \<in> set (closedChs st) \<Longrightarrow> client_step dec (st, ph) (st, ph(g := AccStart))"
| acc_ctx: "ph g = AccWait c \<Longrightarrow> client_step dec (st, ph) (st, ph(g := AccDone (Inl e)))"
| acc_setup: "ph g = AccInit \<Longrightarrow> accessSetup st = (ready_ch, st') \<Longrightarrow> client_step dec (st, ph) (st', ph(g := AccReady))"
| acc_finish: "ph g = AccReady \<Longrightarrow> accessFinish w st = Inr (st', r) \<Longrightarrow> client_step dec (st, ph) (st', ph(g := AccDone r))"
| conn_close: "onSignalClose err st = (st', calls) \<Longrightarrow> client_step dec (st, ph) (st', ph)"
| conn_event: "clientEvent dec now evt args st = Inr (st', out) \<Longrightarrow> client_step dec (st, ph) (st', ph)"
| custom_ack: "onCustomAckMsg msg st = Inr st' \<Longrightarrow> client_step dec (st, ph) (st', ph)"
| custom_send: "SendMessage_begin ack evt content to rm st = (st', frame, ch) \<Longrightarrow> client_step dec (st, ph) (st', ph)"
| keep_alive: "activePing rm sid st = (st', msg, ch) \<Longrightarrow> client_step dec (st, ph) (st', ph)"

inductive client_reach :: "'d Decoders \<Rightarrow> WebsocketSignal \<times> (nat \<Rightarrow> AccPhase) \<Rightarrow> bool" for dec where
  client_new: "client_reach dec (NewWebsocketSignal, \<lambda>_. AccStart)"
| client_next: "client_reach dec sys \<Longrightarrow> client_step dec sys sys' \<Longrightarrow> client_reach dec sys'"

definition initializers :: "(nat \<Rightarrow> AccPhase) \<Rightarrow> nat set" where
  "initializers ph = {g. ph g = AccInit \<or> ph g = AccReady}"

text \<open>Who will close a channel: a callback of an event, the sender of a custom message, or the goroutine that connects.\<close>

datatype Slot = CbSlot string | AckSlot AckKey | InitSlot

fun chanOf :: "ClientCb \<Rightarrow> nat list" where
  "chanOf (ReadyCb c) = [c]"
| "chanOf (PongCb c _ _ _) = [c]"
| "chanOf _ = []"

definition cbChans :: "WebsocketSignal \<Rightarrow> string \<Rightarrow> nat list" where
  "cbChans st evt = concat (map chanOf (handlersOf (clMsgCbs st) evt))"

fun owns :: "WebsocketSignal \<Rightarrow> nat \<Rightarrow> Slot \<Rightarrow> bool" where
  "owns st c (CbSlot evt) = (c \<in> set (cbChans st evt))"
| "owns st c (AckSlot k) = (mget (custom_ack_msg_notifiers st) k = Some c)"
| "owns st c InitSlot = (signal_init_ch st = Some c)"

definition chans_ok :: "WebsocketSignal \<Rightarrow> bool" where
  "chans_ok st \<longleftrightarrow> (\<forall>evt. distinct (cbChans st evt)) \<and> (\<forall>c s s'. owns st c s \<longrightarrow> owns st c s' \<longrightarrow> s = s') \<and>
     (\<forall>c s. owns st c s \<longrightarrow> c < nextCh st \<and> c \<notin> set (closedChs st)) \<and> (\<forall>c \<in> set (closedChs st). c < nextCh st)"

text \<open>An operation keeps this when old channels get no new owner, each new channel has at most one, and what it closes has none left.\<close>

lemma chans_ok_mono:
  assumes ok: "chans_ok st" "nextCh st \<le> nextCh st'" "\<And>evt. distinct (cbChans st' evt)"
    and old: "\<And>c s. owns st' c s \<Longrightarrow> c < nextCh st \<Longrightarrow> owns st c s"
    and new: "\<And>c s. owns st' c s \<Longrightarrow> nextCh st \<le> c \<Longrightarrow> c < nextCh st' \<and> s = own c"
    and closed: "\<And>c. c \<in> set (closedChs st') \<Longrightarrow> c \<in> set (closedChs st) \<or> (c < nextCh st \<and> (\<forall>s. \<not> owns st' c s))"
  shows "chans_ok st'"
  unfolding chans_ok_def
proof (intro conjI allI impI ballI)
  note ok1 = ok(1) [unfolded chans_ok_def]
  show "distinct (cbChans st' evt)" for evt by (rule ok)
  show "s = s'" if "owns st' c s" "owns st' c s'" for c s s'
    using that old new ok1 by (metis not_less)
  show "c < nextCh st'" if "owns st' c s" for c s
    using old [OF that] new [OF that] ok(2) by linarith
  show "c \<notin> set (closedChs st')" if "owns st' c s" for c s
    using that old [OF that] closed [of c] ok1 by metis
  show "c < nextCh st'" if "c \<in> set (closedChs st')" for c using closed [OF that] ok(2) ok1 by fastforce
qed

lemma cbChans_onMsg: "cbChans (onMsg evt cb st) e = cbChans st e @ (if e = evt then chanOf cb else [])"
  by (simp add: cbChans_def onMsg_def handlersOf_AddCallback)

lemma onMsg_fields [simp]:
  "custom_ack_msg_notifiers (onMsg evt cb st) = custom_ack_msg_notifiers st" "signal_init_ch (onMsg evt cb st) = signal_init_ch st"
  "signal_init_flag (onMsg evt cb st) = signal_init_flag st"
  "closedChs (onMsg evt cb st) = closedChs st" "nextCh (onMsg evt cb st) = nextCh st"
  by (simp_all add: onMsg_def)

lemma cbChans_update [simp]:
  "cbChans (st\<lparr> signal_init_flag := b \<rparr>) = cbChans st" "cbChans (st\<lparr> signal_init_ch := c \<rparr>) = cbChans st" "cbChans (st\<lparr> nextCh := n \<rparr>) = cbChans st"
  "cbChans (st\<lparr> clSignal := s \<rparr>) = cbChans st" "cbChans (st\<lparr> closedChs := cl \<rparr>) = cbChans st" "cbChans (st\<lparr> custom_ack_msg_notifiers := a \<rparr>) = cbChans st"
  "cbChans (st\<lparr> ackMsgs := m \<rparr>) = cbChans st" "cbChans (st\<lparr> next_custom_msg_id := i \<rparr>) = cbChans st" "cbChans (st\<lparr> ping_msg_id := i \<rparr>) = cbChans st"
  by (simp_all add: cbChans_def fun_eq_iff)

lemma owns_less: "chans_ok st \<Longrightarrow> owns st c s \<Longrightarrow> c < nextCh st"
  by (auto simp: chans_ok_def)

lemma chans_enter:
  assumes "chans_ok st" "accessEnter st = (a, st')"
  shows "chans_ok st'"
proof (rule chans_ok_mono [OF assms(1), of _ "\<lambda>_. InitSlot"])
  fix c s assume "owns st' c s" "c < nextCh st"
  then show "owns st c s"
    using assms by (cases s) (auto simp: accessEnter_def split: option.splits if_splits)
next
  fix c s assume "owns st' c s" "nextCh st \<le> c"
  then show "c < nextCh st' \<and> s = InitSlot"
    using assms owns_less [OF assms(1), of c s] by (cases s) (auto simp: accessEnter_def split: option.splits if_splits)
qed (use assms in \<open>auto simp: accessEnter_def chans_ok_def split: option.splits if_splits\<close>)

text \<open>A callback with a new channel is registered.\<close>

lemma chans_new_cb:
  assumes ok: "chans_ok st" "nextCh st \<le> c0" "c0 < nextCh st'" and st': "closedChs st' = closedChs st" "signal_init_ch st' = signal_init_ch st"
    "custom_ack_msg_notifiers st' = custom_ack_msg_notifiers st" "\<And>e. cbChans st' e = cbChans st e @ (if e = evt then [c0] else [])"
  shows "chans_ok st'"
proof (rule chans_ok_mono [OF ok(1), of _ "\<lambda>_. CbSlot evt"])
  show "nextCh st \<le> nextCh st'" using ok by simp
  have "c0 \<notin> set (cbChans st e)" for e using owns_less [OF ok(1), of c0 "CbSlot e"] ok(2) by auto
  then show "distinct (cbChans st' e)" for e using ok(1) by (simp add: st' chans_ok_def)
  show "owns st c s" if "owns st' c s" "c < nextCh st" for c s using that ok(2) by (cases s) (auto simp: st' split: if_splits)
  show "c < nextCh st' \<and> s = CbSlot evt" if "owns st' c s" "nextCh st \<le> c" for c s
    using that owns_less [OF ok(1), of c s] ok(3) by (cases s) (auto simp: st' split: if_splits)
  show "c \<in> set (closedChs st) \<or> (c < nextCh st \<and> (\<forall>s. \<not> owns st' c s))" if "c \<in> set (closedChs st')" for c using that st' by simp
qed

lemma chans_setup: "chans_ok st \<Longrightarrow> accessSetup st = (ready_ch, st') \<Longrightarrow> chans_ok st'"
  by (rule chans_new_cb [of st "nextCh st + 1" _ "''ready''"]) (auto simp: accessSetup_def Let_def cbChans_onMsg)

lemma chans_ping: "chans_ok st \<Longrightarrow> activePing rm sid st = (st', msg, ch) \<Longrightarrow> chans_ok st'"
  by (rule chans_new_cb [of st "nextCh st" _ "''pong''"]) (auto simp: activePing_def Let_def cbChans_onMsg)

lemma chans_send:
  assumes "chans_ok st" "SendMessage_begin ack evt content to rm st = (st', frame, ch)"
  shows "chans_ok st'"
proof (rule chans_ok_mono [OF assms(1), of _ "\<lambda>_. AckSlot (rm, to, next_custom_msg_id st + 1)"])
  show "owns st c s" if "owns st' c s" "c < nextCh st" for c s
    using that assms(2) by (cases s) (auto simp: SendMessage_begin_def Let_def PushCustomAckMsgCh_def gomap_simps split: if_splits)
  show "c < nextCh st' \<and> s = AckSlot (rm, to, next_custom_msg_id st + 1)" if "owns st' c s" "nextCh st \<le> c" for c s
    using that assms(2) owns_less [OF assms(1), of c s]
    by (cases s) (auto simp: SendMessage_begin_def Let_def PushCustomAckMsgCh_def gomap_simps split: if_splits)
qed (use assms in \<open>auto simp: SendMessage_begin_def Let_def chans_ok_def split: if_splits\<close>)

text \<open>A channel is closed by its owner, who gives it up.\<close>

lemma chans_closed:
  assumes "chans_ok st" "owns st ch s0"
    and "nextCh st' = nextCh st" "closedChs st' = ch # closedChs st" "\<And>e. distinct (cbChans st' e)"
    and "\<And>c s. owns st' c s \<Longrightarrow> owns st c s \<and> (s = s0 \<longrightarrow> c \<noteq> ch)"
  shows "chans_ok st'"
proof (rule chans_ok_mono [OF assms(1), of _ "\<lambda>_. s0"])
  have "ch < nextCh st" by (rule owns_less [OF assms(1,2)])
  moreover have "\<not> owns st' ch s" for s using assms(1) [unfolded chans_ok_def] assms(2,6) by metis
  ultimately show "c \<in> set (closedChs st) \<or> (c < nextCh st \<and> (\<forall>s. \<not> owns st' c s))" if "c \<in> set (closedChs st')" for c
    using that assms(4) by auto
  show "c < nextCh st' \<and> s = s0" if "owns st' c s" "nextCh st \<le> c" for c s
    using assms(6) [OF that(1)] owns_less [OF assms(1), of c s] that(2) by simp
qed (use assms in auto)

lemma chans_finish:
  assumes "chans_ok st" "signal_init_ch st = Some ch"
  shows "\<exists>st' r. accessFinish w st = Inr (st', r) \<and> chans_ok st' \<and> signal_init_flag st' = False \<and> signal_init_ch st' = None"
proof -
  let ?st' = "st\<lparr> signal_init_flag := False, signal_init_ch := None, closedChs := ch # closedChs st \<rparr>"
  have "ch \<notin> set (closedChs st)" using assms unfolding chans_ok_def by (metis owns.simps(3))
  moreover have "chans_ok ?st'"
  proof (rule chans_closed [OF assms(1), of ch InitSlot])
    show "owns st c s \<and> (s = InitSlot \<longrightarrow> c \<noteq> ch)" if "owns ?st' c s" for c s using that by (cases s) auto
  qed (use assms in \<open>auto simp: chans_ok_def\<close>)
  ultimately show ?thesis by (auto simp: accessFinish_def Let_def assms(2) closeCh_def)
qed

lemma Pop_cases:
  assumes "PopCustomAckMsgCh rm from i notifiers = (notifiers', r)"
  shows "(r = None \<and> notifiers' = notifiers) \<or> (\<exists>k ch. r = Some ch \<and> mget notifiers k = Some ch \<and> notifiers' = mdel k notifiers)"
proof (cases "mget notifiers (rm, from, i)")
  case None
  show ?thesis
  proof (cases "mget notifiers (rm, [], i)")
    case (Some ch)
    then have "r = Some ch" "notifiers' = mdel (rm, [], i) notifiers" using None assms by (simp_all add: PopCustomAckMsgCh_def)
    then show ?thesis using Some by blast
  qed (use None assms in \<open>simp add: PopCustomAckMsgCh_def\<close>)
next
  case (Some ch)
  then have "r = Some ch" "notifiers' = mdel (rm, from, i) notifiers" using assms by (simp_all add: PopCustomAckMsgCh_def)
  then show ?thesis using Some by blast
qed

lemma chans_ack:
  assumes "chans_ok st"
  shows "\<exists>st'. onCustomAckMsg msg st = Inr st' \<and> chans_ok st' \<and> signal_init_flag st' = signal_init_flag st \<and> signal_init_ch st' = signal_init_ch st"
proof -
  let ?r = "routerOrNew (caRouter msg)"
  obtain notifiers r where p: "PopCustomAckMsgCh (room ?r) (socketFrom ?r) (caMsgId msg) (custom_ack_msg_notifiers st) = (notifiers, r)" by fastforce
  from Pop_cases [OF p] show ?thesis
  proof (elim disjE exE conjE)
    assume "r = None" "notifiers = custom_ack_msg_notifiers st"
    then show ?thesis using assms p by (auto simp: onCustomAckMsg_def Let_def)
  next
    fix k ch assume k: "r = Some ch" "mget (custom_ack_msg_notifiers st) k = Some ch" "notifiers = mdel k (custom_ack_msg_notifiers st)"
    let ?st' = "st\<lparr> custom_ack_msg_notifiers := notifiers, ackMsgs := mput ch msg (ackMsgs st), closedChs := ch # closedChs st \<rparr>"
    have o: "owns st ch (AckSlot k)" using k by simp
    have "chans_ok ?st'"
    proof (rule chans_closed [OF assms o])
      show "owns st c s \<and> (s = AckSlot k \<longrightarrow> c \<noteq> ch)" if "owns ?st' c s" for c s
        using that k(3) by (cases s) (auto simp: gomap_simps split: if_splits)
    qed (use assms in \<open>auto simp: chans_ok_def\<close>)
    moreover have "ch \<notin> set (closedChs st)" using assms o unfolding chans_ok_def by blast
    ultimately show ?thesis using p k(1) by (auto simp: onCustomAckMsg_def Let_def closeCh_def)
  qed
qed

text \<open>The channels that the callbacks of an event close.\<close>

fun closes :: "'d Decoders \<Rightarrow> 'd option \<Rightarrow> ClientCb \<Rightarrow> nat list" where
  "closes dec arg (ReadyCb c) = [c]"
| "closes dec arg (PongCb c msg_id sid rm) = (case decPong dec arg of Inr msg \<Rightarrow> if pongMatches msg_id sid rm msg then [c] else [] | Inl _ \<Rightarrow> [])"
| "closes dec arg _ = []"

definition sameChans :: "WebsocketSignal \<Rightarrow> WebsocketSignal \<Rightarrow> bool" where
  "sameChans st st' \<longleftrightarrow> clMsgCbs st' = clMsgCbs st \<and> custom_ack_msg_notifiers st' = custom_ack_msg_notifiers st \<and>
     signal_init_ch st' = signal_init_ch st \<and> signal_init_flag st' = signal_init_flag st \<and> nextCh st' = nextCh st"

lemma cbEffect_returns:
  assumes "set (closes dec arg cb) \<inter> set (closedChs st) = {}"
  shows "\<exists>st' out'. cbEffect dec now arg cb (st, out) = Inr (st', out') \<and> closedChs st' = closes dec arg cb @ closedChs st \<and> sameChans st st'"
  using assms
  by (cases cb) (auto simp: cbEffect_def onReady_def closeCh_def sameChans_def split: sum.splits prod.splits)

lemma effects_return:
  assumes "distinct (concat (map (closes dec arg) calls))" "set (concat (map (closes dec arg) calls)) \<inter> set (closedChs st) = {}"
  shows "\<exists>st' out'. fold_res (cbEffect dec now arg) calls (st, out) = Inr (st', out') \<and>
    set (closedChs st') = set (concat (map (closes dec arg) calls)) \<union> set (closedChs st) \<and> sameChans st st'"
  using assms
proof (induction calls arbitrary: st out)
  case (Cons cb calls)
  obtain st1 out1 where 1: "cbEffect dec now arg cb (st, out) = Inr (st1, out1)" "closedChs st1 = closes dec arg cb @ closedChs st" "sameChans st st1"
    using cbEffect_returns [of dec arg cb st now out] Cons.prems(2) by auto
  have "\<exists>st' out'. fold_res (cbEffect dec now arg) calls (st1, out1) = Inr (st', out') \<and>
      set (closedChs st') = set (concat (map (closes dec arg) calls)) \<union> set (closedChs st1) \<and> sameChans st1 st'"
    using Cons.prems 1(2) by (intro Cons.IH) auto
  then show ?case using 1 by (auto simp: sameChans_def)
qed (simp add: sameChans_def)

lemma closes_sub: "set (closes dec arg cb) \<subseteq> set (chanOf cb)" "closes dec arg cb \<noteq> [] \<Longrightarrow> closes dec arg cb = chanOf cb"
  "closes dec arg cb \<noteq> [] \<Longrightarrow> cbRemains dec arg cb = Inr False"
  by (cases cb; auto simp: cbRemains_def split: sum.splits if_splits)+

lemma distinct_closes: "distinct (concat (map chanOf cbs)) \<Longrightarrow> distinct (concat (map (closes dec arg) cbs))"
proof (induction cbs)
  case (Cons cb cbs)
  have "set (concat (map (closes dec arg) cbs)) \<subseteq> set (concat (map chanOf cbs))" using closes_sub(1) by fastforce
  moreover have "distinct (closes dec arg cb)" using Cons.prems closes_sub(2) [of dec arg cb] by (cases "closes dec arg cb = []") auto
  ultimately show ?case using Cons closes_sub(1) [of dec arg cb] by auto
qed simp

lemma concat_owner: "distinct (concat (map f xs)) \<Longrightarrow> x \<in> set xs \<Longrightarrow> y \<in> set xs \<Longrightarrow> c \<in> set (f x) \<Longrightarrow> c \<in> set (f y) \<Longrightarrow> x = y"
  by (induction xs) auto

lemma distinct_concat_filter: "distinct (concat (map f xs)) \<Longrightarrow> distinct (concat (map f (filter P xs)))"
  by (induction xs) auto

lemma chans_event:
  assumes "chans_ok st"
  shows "\<exists>st' out. clientEvent dec now evt args st = Inr (st', out) \<and> chans_ok st' \<and>
    signal_init_flag st' = signal_init_flag st \<and> signal_init_ch st' = signal_init_ch st"
proof -
  let ?arg = "args2arg args" let ?hs = "handlersOf (clMsgCbs st) evt"
  let ?P = "\<lambda>cb. cbRemains dec ?arg cb = Inr True"
  have ivk: "invokeMsgCb None (cbRemains dec ?arg) cb = cbRemains dec ?arg cb" for cb by (auto simp: invokeMsgCb_def split: sum.splits)
  obtain mc where mc: "MsgCbs_Run None (cbRemains dec ?arg) evt (clMsgCbs st) = (mc, ?hs, None)"
    "handlersOf mc = (handlersOf (clMsgCbs st))(evt := filter ?P ?hs)"
    using MsgCbs_Run_returns [of "clMsgCbs st" evt None "cbRemains dec ?arg"] unfolding ivk by (auto simp: cbRemains_def)
  have d: "distinct (concat (map chanOf ?hs))" using assms by (simp add: chans_ok_def cbChans_def [symmetric])
  have own: "owns st c (CbSlot evt)" if "c \<in> set (concat (map (closes dec ?arg) ?hs))" for c
    using that closes_sub(1) by (fastforce simp: cbChans_def)
  then have "set (concat (map (closes dec ?arg) ?hs)) \<inter> set (closedChs st) = {}" using assms unfolding chans_ok_def by blast
  then obtain st1 out where f: "fold_res (cbEffect dec now ?arg) ?hs (st, []) = Inr (st1, out)"
    "set (closedChs st1) = set (concat (map (closes dec ?arg) ?hs)) \<union> set (closedChs st)" "sameChans st st1"
    using effects_return [OF distinct_closes [OF d]] by blast
  let ?st' = "st1\<lparr> clMsgCbs := mc \<rparr>"
  have ch: "cbChans ?st' e = (if e = evt then concat (map chanOf (filter ?P ?hs)) else cbChans st e)" for e
    using mc(2) by (simp add: cbChans_def)
  have sub: "owns st c s" if "owns ?st' c s" for c s using that f(3) by (cases s) (auto simp: ch cbChans_def [of st] sameChans_def split: if_splits)
  have gone: "\<not> owns ?st' c s" if c: "c \<in> set (concat (map (closes dec ?arg) ?hs))" for c s
  proof
    assume o: "owns ?st' c s"
    then have "s = CbSlot evt" using sub [OF o] own [OF c] assms unfolding chans_ok_def by blast
    then obtain y where y: "y \<in> set ?hs" "?P y" "c \<in> set (chanOf y)" using o by (auto simp: ch)
    obtain x where "x \<in> set ?hs" "c \<in> set (closes dec ?arg x)" using c by auto
    then have "x = y" "closes dec ?arg x \<noteq> []" using y concat_owner [OF d, of x y c] closes_sub(1) [of dec ?arg x] by auto
    then show False using y(2) closes_sub(3) by fastforce
  qed
  have "chans_ok ?st'"
  proof (rule chans_ok_mono [OF assms, of _ "\<lambda>_. InitSlot"])
    show "distinct (cbChans ?st' e)" for e using assms d by (simp add: ch distinct_concat_filter chans_ok_def)
    show "c < nextCh ?st' \<and> s = InitSlot" if "owns ?st' c s" "nextCh st \<le> c" for c s using owns_less [OF assms sub [OF that(1)]] that(2) by simp
    show "c \<in> set (closedChs st) \<or> (c < nextCh st \<and> (\<forall>s. \<not> owns ?st' c s))" if "c \<in> set (closedChs ?st')" for c
      using that f(2) gone owns_less [OF assms own, of c] by auto
  qed (use f(3) sub in \<open>auto simp: sameChans_def\<close>)
  then show ?thesis using f mc(1) by (auto simp: clientEvent_def sameChans_def)
qed

text \<open>The flag is set exactly while some goroutine connects, and then its channel is there.\<close>

definition access_ok :: "WebsocketSignal \<times> (nat \<Rightarrow> AccPhase) \<Rightarrow> bool" where
  "access_ok sys \<longleftrightarrow> (case sys of (st, ph) \<Rightarrow>
     chans_ok st \<and> (signal_init_flag st \<longleftrightarrow> initializers ph \<noteq> {}) \<and> (signal_init_flag st \<longleftrightarrow> signal_init_ch st \<noteq> None) \<and>
     (\<forall>g \<in> initializers ph. \<forall>h \<in> initializers ph. g = h))"

lemma initializers_upd:
  "initializers (ph(g := AccInit)) = insert g (initializers ph)" "initializers (ph(g := AccReady)) = insert g (initializers ph)"
  "p \<noteq> AccInit \<Longrightarrow> p \<noteq> AccReady \<Longrightarrow> initializers (ph(g := p)) = initializers ph - {g}"
  by (auto simp: initializers_def)

lemma not_initializer: "ph g \<noteq> AccInit \<Longrightarrow> ph g \<noteq> AccReady \<Longrightarrow> initializers ph - {g} = initializers ph"
  by (auto simp: initializers_def)

lemma access_ok_step:
  assumes "client_step dec sys sys'" "access_ok sys"
  shows "access_ok sys'"
  using assms
proof (induction rule: client_step.induct)
  case (acc_have ph g st s st')
  then show ?case using chans_enter [of st "HaveSignal s" st']
    by (auto simp: access_ok_def initializers_upd not_initializer accessEnter_def split: option.splits if_splits)
next
  case (acc_saw ph g st st')
  then show ?case using chans_enter [of st WaitInit st']
    by (auto simp: access_ok_def initializers_upd not_initializer accessEnter_def split: option.splits if_splits)
next
  case (acc_start ph g st st')
  then show ?case using chans_enter [of st StartInit st']
    by (auto simp: access_ok_def initializers_upd accessEnter_def split: option.splits if_splits)
next
  case (acc_setup ph g st ready_ch st')
  then have "g \<in> initializers ph" by (simp add: initializers_def)
  then show ?case using acc_setup chans_setup [of st ready_ch st']
    by (auto simp: access_ok_def initializers_upd insert_absorb accessSetup_def Let_def)
next
  case (acc_finish ph g w st st' r)
  then have "g \<in> initializers ph" by (simp add: initializers_def)
  then have "initializers ph = {g}" "\<exists>ch. signal_init_ch st = Some ch" using acc_finish by (auto simp: access_ok_def)
  then show ?case using acc_finish chans_finish [of st _ w] by (auto simp: access_ok_def initializers_upd)
next
  case (conn_close err st st' calls ph)
  have st': "st' = st\<lparr> clSignal := None \<rparr>" using conn_close.hyps by (simp add: onSignalClose_def)
  have own: "owns st c s" if "owns st' c s" for c s using that by (cases s) (auto simp: st')
  have ok: "chans_ok st" using conn_close.prems by (simp add: access_ok_def)
  have "chans_ok st'"
  proof (rule chans_ok_mono [OF ok, of _ "\<lambda>_. InitSlot"])
    show "c < nextCh st' \<and> s = InitSlot" if "owns st' c s" "nextCh st \<le> c" for c s using owns_less [OF ok own [OF that(1)]] that(2) by simp
  qed (use ok own in \<open>auto simp: st' chans_ok_def\<close>)
  then show ?case using conn_close.prems unfolding access_ok_def by (simp add: st') blast
next
  case (conn_event now evt args st st' out ph)
  then show ?case using chans_event [of st dec now evt args] by (auto simp: access_ok_def)
next
  case (custom_ack msg st st' ph)
  then show ?case using chans_ack [of st msg] by (auto simp: access_ok_def)
next
  case (custom_send ack evt content to rm st st' frame ch ph)
  then show ?case using chans_send [of st ack evt content to rm st' frame ch]
    by (auto simp: access_ok_def SendMessage_begin_def Let_def split: if_splits)
next
  case (keep_alive rm sid st st' msg ch ph)
  have "signal_init_flag st' = signal_init_flag st" "signal_init_ch st' = signal_init_ch st"
    using keep_alive.hyps by (auto simp: activePing_def Let_def)
  moreover have "chans_ok st'" using chans_ping [OF _ keep_alive.hyps] keep_alive.prems by (simp add: access_ok_def)
  ultimately show ?case using keep_alive.prems unfolding access_ok_def by simp blast
qed (auto simp: access_ok_def initializers_upd not_initializer)

lemma access_ok_reach: "client_reach dec sys \<Longrightarrow> access_ok sys"
proof (induction rule: client_reach.induct)
  case client_new
  have "\<not> owns NewWebsocketSignal c s" for c s
    by (cases s) (auto simp: NewWebsocketSignal_def cbChans_def handlersOf_def NewMsgCbs_def)
  moreover have "cbChans NewWebsocketSignal evt = []" for evt by (simp add: NewWebsocketSignal_def cbChans_def handlersOf_def NewMsgCbs_def)
  ultimately show ?case by (simp add: access_ok_def chans_ok_def initializers_def) (simp add: NewWebsocketSignal_def)
qed (rule access_ok_step)

lemma access_finish:
  assumes "client_reach dec (st, ph)" "ph g = AccReady"
  shows "\<exists>st' r. accessFinish w st = Inr (st', r)"
proof -
  have "g \<in> initializers ph" using assms(2) by (simp add: initializers_def)
  then show ?thesis using access_ok_reach [OF assms(1)] chans_finish [of st _ w] by (fastforce simp: access_ok_def)
qed


text \<open>The goroutine 0 connects while the goroutine 1 has seen the flag.\<close>

definition demoConn :: WebsocketSignal where
  "demoConn = snd (accessSetup (snd (accessEnter NewWebsocketSignal)))"

lemma demoConn_reach: "client_reach dec (demoConn, (\<lambda>_ :: nat. AccStart)(0 := AccReady, 1 := AccSawInit))"
proof -
  let ?st = "snd (accessEnter NewWebsocketSignal)"
  let ?p1 = "(\<lambda>_ :: nat. AccStart)(0 := AccInit)" let ?p2 = "?p1(1 := AccSawInit)"
  have e: "accessEnter NewWebsocketSignal = (StartInit, ?st)" "accessEnter ?st = (WaitInit, ?st)" by (simp_all add: accessEnter_def NewWebsocketSignal_def)
  have "client_reach dec (?st, ?p1)" by (rule client_next [OF client_new acc_start [OF _ e(1)]]) simp
  then have "client_reach dec (?st, ?p2)" by (rule client_next [OF _ acc_saw [OF _ e(2)]]) simp
  then have "client_reach dec (demoConn, ?p2(0 := AccReady))"
    by (rule client_next [OF _ acc_setup [of _ _ _ "fst (accessSetup ?st)"]]) (simp_all add: demoConn_def)
  moreover have "?p2(0 := AccReady) = (\<lambda>_ :: nat. AccStart)(0 := AccReady, 1 := AccSawInit)" by (simp add: fun_eq_iff)
  ultimately show ?thesis by simp
qed

definition demoDec :: "unit Decoders" where
  "demoDec = \<lparr> decReady = (\<lambda>_. Inl (PlainError ''e'')), decJoin = (\<lambda>_. Inl (PlainError ''e'')), decLeave = (\<lambda>_. Inl (PlainError ''e'')),
     decPing = (\<lambda>_. Inl (PlainError ''e'')), decPong = (\<lambda>_. Inl (PlainError ''e'')) \<rparr>"


text \<open>
  A goroutine that waits on a nil channel waits until the client ends: it read the channel after the connecting goroutine had reset it, and although
  there is a connection nothing wakes it up.
\<close>

lemma nil_wait_stays:
  assumes "client_step dec sys sys'" "snd sys g = AccWait None"
  shows "snd sys' g = AccWait None \<or> (\<exists>e. snd sys' g = AccDone (Inl e))"
  using assms by (induction rule: client_step.induct) (auto split: if_splits)

theorem waiter_left:
  "\<exists>st ph. client_reach dec (st, ph) \<and> ph 1 = AccWait None \<and> clSignal st \<noteq> None \<and> initializers ph = {} \<and>
     (\<forall>st' ph'. client_step dec (st, ph) (st', ph') \<longrightarrow> ph' 1 = AccWait None \<or> (\<exists>e. ph' 1 = AccDone (Inl e)))"
proof -
  let ?ph = "(\<lambda>_ :: nat. AccStart)(0 := AccReady, 1 := AccSawInit)"
  have "signal_init_ch demoConn = Some 0" "0 \<notin> set (closedChs demoConn)" "clSignal demoConn \<noteq> None"
    by (simp_all add: demoConn_def accessSetup_def accessEnter_def NewWebsocketSignal_def onMsg_def Let_def)
  then obtain st r where f: "accessFinish ReadyTimeout demoConn = Inr (st, r)" "signal_init_ch st = None" "clSignal st \<noteq> None"
    by (auto simp: accessFinish_def closeCh_def Let_def)
  have "client_reach dec (st, ?ph(0 := AccDone r))" by (rule client_next [OF demoConn_reach acc_finish [OF _ f(1)]]) simp
  then have "client_reach dec (st, ?ph(0 := AccDone r, 1 := AccWait (signal_init_ch st)))" by (rule client_next [OF _ acc_read]) simp
  moreover have "initializers (?ph(0 := AccDone r, 1 := AccWait None)) = {}" by (auto simp: initializers_def)
  ultimately show ?thesis using f nil_wait_stays [of dec _ _ 1]
    by (intro exI [of _ st] exI [of _ "?ph(0 := AccDone r, 1 := AccWait None)"]) force
qed

text \<open>After a failed dial, and after a ready message that did not come in time, the field keeps a signal without connection, and every later call gets it.\<close>

theorem failed_dial_sticks:
  assumes "client_reach dec (st, ph)" "ph g = AccReady" "clSignal st = Some s" "w \<noteq> IsReady"
  shows "\<exists>st' e. accessFinish w st = Inr (st', Inl e) \<and> accessEnter st' = (HaveSignal s, st')"
proof -
  obtain st' r where f: "accessFinish w st = Inr (st', r)" using access_finish [OF assms(1,2)] by blast
  then show ?thesis using assms(3,4)
    by (cases w) (auto simp: accessFinish_def closeCh_def accessEnter_def Let_def split: option.splits if_splits)
qed

end
