(* ===== verification/ClientExchange.thy ===== *)
theory ClientExchange
  imports ClientProps SignalHandlers
begin

text \<open>
  A custom message with acknowledgement from one client to another, through the handlers of their servers: the client that sends
  (\<open>SendMessage\<close>), the server of the sender (\<open>ClusterEmit\<close>), the server of the receiver (\<open>OnCustomMessage\<close>), the callback of the receiver, and
  the way back. What reaches a client is JSON that \<open>mapstructure\<close> decodes: \<open>decC\<close> and \<open>decA\<close>.
\<close>

section \<open>The way of the messages\<close>

definition hideNodes :: "Router option \<Rightarrow> Router option" where
  "hideNodes = map_option (\<lambda>r. r\<lparr> nodeFrom := '''', nodeTo := '''' \<rparr>)"

definition toCustom :: "SignalContext \<Rightarrow> RoomMessage \<Rightarrow> ClientEvent list" where
  "toCustom c m = (case m of MCustomCluster x \<Rightarrow> OnCustomMessage c x | _ \<Rightarrow> [])"

definition toCustomAck :: "SignalContext \<Rightarrow> RoomMessage \<Rightarrow> ClientEvent list" where
  "toCustomAck c m = (case m of MCustomAck x \<Rightarrow> OnCustomAckMessage c x | _ \<Rightarrow> [])"

text \<open>The message of the sender as the receiver gets it.\<close>

definition receivedMsg :: "string \<Rightarrow> CustomMessage \<Rightarrow> CustomMessage" where
  "receivedMsg from msg = msg\<lparr> cmRouter := Some ((routerOrNew (cmRouter msg))\<lparr> socketFrom := from, nodeFrom := '''', nodeTo := '''' \<rparr>) \<rparr>"

lemma request_delivered:
  assumes msg: "cmRouter msg = Some (newRouter\<lparr> room := rm, socketTo := to \<rparr>)" and rm: "rm \<noteq> ''''" and to: "to \<noteq> ''''"
    and decC: "\<And>m. decC (ToClientMessage (MCustom m)) = Some (m\<lparr> cmRouter := hideNodes (cmRouter m) \<rparr>)"
  shows "\<exists>m. rnOut (onCustom node evt msg cA) = [m] \<and>
    (\<forall>c. scId c \<noteq> to \<or> JoinId c rm = 0 \<longrightarrow> toCustom c m = []) \<and>
    (\<forall>c. scId c = to \<and> JoinId c rm \<noteq> 0 \<longrightarrow> (\<exists>x. toCustom c m = [(''custom:'' @ evt, x)] \<and> decC x = Some (receivedMsg (scId cA) msg)))"
  using rm to
  by (simp add: onCustom_def clusterEmit_def GetRoom_def message_defs msg fixRouter_def toCustom_def OnCustomMessage_def matchRoomMsg_def matchSocketTo_def
      decC receivedMsg_def hideNodes_def newRouter_def)

text \<open>The acknowledgement has no room: it goes to every room of the receiver, and its copies come back with the room filled in.\<close>

definition ackCopy :: "string \<Rightarrow> string \<Rightarrow> CustomAckMessage \<Rightarrow> CustomAckMessage" where
  "ackCopy from rm ack = ack\<lparr> caRouter := Some ((routerOrNew (caRouter ack))\<lparr> room := rm, socketFrom := from, nodeFrom := '''', nodeTo := '''' \<rparr>) \<rparr>"

lemma ack_copies:
  assumes ack: "caRouter ack = Some (newRouter\<lparr> socketTo := to \<rparr>)"
    and decA: "\<And>m. decA (ToClientMessage (MCustomAck m)) = Some (m\<lparr> caRouter := hideNodes (caRouter m) \<rparr>)"
    and ne: "'''' \<notin> set (Rooms cB)"
  shows "(\<forall>m \<in> set (rnOut (onCustomAck node ack cB)). \<forall>c. scId c \<noteq> to \<longrightarrow> toCustomAck c m = []) \<and>
    (scId cA = to \<longrightarrow> map (\<lambda>(_, y). decA y) (concat (map (toCustomAck cA) (rnOut (onCustomAck node ack cB)))) =
       map (\<lambda>rm. Some (ackCopy (scId cB) rm ack)) (filter (\<lambda>rm. JoinId cA rm \<noteq> 0) (Rooms cB)))"
proof -
  let ?m = "\<lambda>rm. MCustomAck (CustomAckMessage_FixRouter (CustomAckMessage_CopyPlain ack) rm (scId cB) node)"
  have out: "rnOut (onCustomAck node ack cB) = map ?m (Rooms cB)"
    by (simp add: onCustomAck_def clusterEmit_def GetRoom_def ack newRouter_def)
  have one: "toCustomAck c (?m rm) = (if scId c = to \<and> rm \<noteq> '''' \<and> JoinId c rm \<noteq> 0
      then [(''custom-ack'', ToClientMessage (?m rm))] else [])" for c rm
    by (auto simp: toCustomAck_def OnCustomAckMessage_def matchRoomMsg_def matchSocketTo_def message_defs ack fixRouter_def newRouter_def)
  have dec: "decA (ToClientMessage (?m rm)) = Some (ackCopy (scId cB) rm ack)" if "rm \<noteq> ''''" for rm
    using that by (simp add: decA message_defs ack fixRouter_def newRouter_def hideNodes_def ackCopy_def)
  have "map (\<lambda>(_, y). decA y) (concat (map (\<lambda>rm. toCustomAck cA (?m rm)) rms)) =
      map (\<lambda>rm. Some (ackCopy (scId cB) rm ack)) (filter (\<lambda>rm. JoinId cA rm \<noteq> 0) rms)"
    if "scId cA = to" "'''' \<notin> set rms" for rms
    using that(2) by (induction rms) (auto simp: one that(1) dec)
  then show ?thesis using ne by (auto simp: out one comp_def)
qed

section \<open>The acknowledgement at the sender\<close>

lemma ack_ignored:
  assumes "PopCustomAckMsgCh (room (routerOrNew (caRouter a))) (socketFrom (routerOrNew (caRouter a))) (caMsgId a) (custom_ack_msg_notifiers st) =
    (custom_ack_msg_notifiers st, None)"
  shows "onCustomAckMsg a st = Inr st"
  using assms by (simp add: onCustomAckMsg_def Let_def)

lemma acks_ignored:
  assumes "\<And>r s. r \<in> set rms \<Longrightarrow> mget (custom_ack_msg_notifiers st) (r, s, caMsgId ack) = None"
  shows "fold_res onCustomAckMsg (map (\<lambda>rm. ackCopy from rm ack) rms) st = Inr st"
  using assms
proof (induction rms)
  case (Cons rm rms)
  have "mget (custom_ack_msg_notifiers st) (rm, s, caMsgId ack) = None" for s using Cons.prems [of rm s] by simp
  then have "onCustomAckMsg (ackCopy from rm ack) st = Inr st" by (intro ack_ignored) (simp add: PopCustomAckMsgCh_def ackCopy_def)
  then show ?case using Cons by simp
qed simp

text \<open>Of the copies, one for each room that both are in, the one with the room of the request is taken and the others are ignored.\<close>

lemma acks_resolve:
  assumes ok: "chans_ok st" and ch: "mget (custom_ack_msg_notifiers st) (rm, from, caMsgId ack) = Some ch"
    and only: "\<And>r s c. mget (custom_ack_msg_notifiers st) (r, s, caMsgId ack) = Some c \<Longrightarrow> r = rm \<and> s = from"
    and rms: "distinct rms" "rm \<in> set rms"
  shows "\<exists>st'. fold_res onCustomAckMsg (map (\<lambda>rm. ackCopy from rm ack) rms) st = Inr st' \<and> mget (ackMsgs st') ch = Some (ackCopy from rm ack) \<and>
    custom_ack_msg_notifiers st' = mdel (rm, from, caMsgId ack) (custom_ack_msg_notifiers st)"
proof -
  obtain xs ys where rs: "rms = xs @ rm # ys" "rm \<notin> set xs" "rm \<notin> set ys" using rms by (metis distinct.simps(2) distinct_append not_distinct_conv_prefix split_list_first)
  let ?n = "mdel (rm, from, caMsgId ack) (custom_ack_msg_notifiers st)"
  let ?st' = "st\<lparr> custom_ack_msg_notifiers := ?n, ackMsgs := mput ch (ackCopy from rm ack) (ackMsgs st), closedChs := ch # closedChs st \<rparr>"
  have other: "mget (custom_ack_msg_notifiers st) (r, s, caMsgId ack) = None" if "r \<noteq> rm" for r s
    using only [of r s] that by (cases "mget (custom_ack_msg_notifiers st) (r, s, caMsgId ack)") auto
  have 1: "fold_res onCustomAckMsg (map (\<lambda>rm. ackCopy from rm ack) xs) st = Inr st" by (rule acks_ignored) (use rs in \<open>auto intro!: other\<close>)
  have "ch \<notin> set (closedChs st)" using ok ch unfolding chans_ok_def by (metis owns.simps(2))
  then have 2: "onCustomAckMsg (ackCopy from rm ack) st = Inr ?st'"
    using ch by (simp add: onCustomAckMsg_def Let_def ackCopy_def PopCustomAckMsgCh_def closeCh_def)
  have 3: "fold_res onCustomAckMsg (map (\<lambda>rm. ackCopy from rm ack) ys) ?st' = Inr ?st'"
    by (rule acks_ignored) (use rs in \<open>auto simp: gomap_simps intro!: other\<close>)
  have fold_app: "fold_res f (us @ vs) s = bind_res (fold_res f us s) (fold_res f vs)" for f :: "'x \<Rightarrow> 's \<Rightarrow> 'e + 's" and us vs s
    by (induction us arbitrary: s) (auto simp: bind_res_def split: sum.splits)
  show ?thesis using 1 2 3 by (simp add: rs(1) fold_app gomap_simps)
qed

section \<open>Request and reply\<close>

lemma send_pending:
  assumes "SendMessage_begin True evt content to rm st = (st1, (e, msg), Some ch)"
    and "\<And>r s. mget (custom_ack_msg_notifiers st) (r, s, next_custom_msg_id st + 1) = None"
  shows "mget (custom_ack_msg_notifiers st1) (rm, to, cmMsgId msg) = Some ch"
    "mget (custom_ack_msg_notifiers st1) (r, s, cmMsgId msg) = Some c \<Longrightarrow> r = rm \<and> s = to"
    "mget (mdel (rm, to, cmMsgId msg) (custom_ack_msg_notifiers st1)) k = mget (custom_ack_msg_notifiers st) k"
    "msg = \<lparr> cmRouter = Some (newRouter\<lparr> room := rm, socketTo := to \<rparr>), cmContent = content, cmMsgId = next_custom_msg_id st + 1, cmAck = True \<rparr>"
  using assms by (auto simp: SendMessage_begin_def Let_def PushCustomAckMsgCh_def gomap_simps split: if_splits)

text \<open>C16: 
  A custom message with acknowledgement for a client in the same room: the server of the sender emits it once, it reaches the client it is for and no other, as
  a call with the room, the sender and the content of the request; the answer of the callback, which goes through all rooms of the receiver, reaches the
  sender and no other client, resolves the request once and is what \<open>SendMessage\<close> returns; nothing stays pending.
\<close>

theorem custom_request_reply:
  assumes decC: "\<And>m. decC (ToClientMessage (MCustom m)) = Some (m\<lparr> cmRouter := hideNodes (cmRouter m) \<rparr>)"
    and decA: "\<And>m. decA (ToClientMessage (MCustomAck m)) = Some (m\<lparr> caRouter := hideNodes (caRouter m) \<rparr>)"
    and rooms: "rm \<noteq> ''''" "JoinId cA rm \<noteq> 0" "JoinId cB rm \<noteq> 0" "mwf (scRooms cB)" "'''' \<notin> set (Rooms cB)" "scId cB \<noteq> ''''"
    and reach: "client_reach dec (stA, ph)"
    and free: "\<And>r s. mget (custom_ack_msg_notifiers stA) (r, s, next_custom_msg_id stA + 1) = None"
    and send: "SendMessage_begin True evt content (scId cB) rm stA = (stA1, (e, msg), Some ch)"
    and cb: "mget (custom_msg_cbs stB) evt = Some [cb]"
      "cb \<lparr> callContent = content, callAck = True, callRoom = rm, callFrom = scId cA, callTo = scId cB \<rparr> = (remained, [(res, None)])"
  shows "\<exists>m x msg' stB1 ack stA2. rnOut (onCustom nodeA evt msg cA) = [m] \<and>
    toCustom cB m = [(e, x)] \<and> decC x = Some msg' \<and> (\<forall>c. scId c \<noteq> scId cB \<longrightarrow> toCustom c m = []) \<and>
    onCustomMsg marshalErr evt msg' stB = Inr (stB1, [ack]) \<and>
    (\<forall>m' \<in> set (rnOut (onCustomAck nodeB ack cB)). \<forall>c. scId c \<noteq> scId cA \<longrightarrow> toCustomAck c m' = []) \<and>
    fold_res onCustomAckMsg (map (\<lambda>(_, y). the (decA y)) (concat (map (toCustomAck cA) (rnOut (onCustomAck nodeB ack cB))))) stA1 = Inr stA2 \<and>
    SendMessage_end unmarshalErr (Some ch) SendAcked stA2 = Inr res \<and>
    mget (custom_ack_msg_notifiers stA2) = mget (custom_ack_msg_notifiers stA)"
proof -
  note sp = send_pending [OF send free]
  have e: "e = ''custom:'' @ evt" using send by (auto simp: SendMessage_begin_def Let_def)
  have router: "cmRouter msg = Some (newRouter\<lparr> room := rm, socketTo := scId cB \<rparr>)" by (simp add: sp(4))
  obtain m x where m: "rnOut (onCustom nodeA evt msg cA) = [m]" "\<forall>c. scId c \<noteq> scId cB \<longrightarrow> toCustom c m = []"
    "toCustom cB m = [(e, x)]" "decC x = Some (receivedMsg (scId cA) msg)"
    using request_delivered [OF router rooms(1,6) decC, of nodeA evt cA] rooms(3) e by auto
  let ?msg' = "receivedMsg (scId cA) msg" 
  define ack where "ack = customAck marshalErr ?msg' (res, None)"
  have "callOf ?msg' = \<lparr> callContent = content, callAck = True, callRoom = rm, callFrom = scId cA, callTo = scId cB \<rparr>" "cmAck ?msg'"
    by (simp_all add: callOf_def receivedMsg_def sp(4) Let_def)
  then have c: "\<exists>stB1. onCustomMsg marshalErr evt ?msg' stB = Inr (stB1, [ack])" using cb by (simp add: onCustomMsg_def ack_def)
  have a: "caRouter ack = Some (newRouter\<lparr> socketTo := scId cA \<rparr>)" "caMsgId ack = cmMsgId msg" "caContent ack = res" "\<not> caErr ack"
    by (simp_all add: ack_def customAck_def receivedMsg_def)
  let ?rms = "filter (\<lambda>rm. JoinId cA rm \<noteq> 0) (Rooms cB)"
  note copies = ack_copies [OF a(1) decA rooms(5), of nodeB cA]
  have ok: "chans_ok stA1" using chans_send [OF _ send] access_ok_reach [OF reach] by (simp add: access_ok_def)
  have rm: "distinct ?rms" "rm \<in> set ?rms"
    using rooms by (auto simp: Rooms_def mwf_def JoinId_def distinct_map_filter image_iff dest!: map_of_SomeD split: option.splits if_splits)
  obtain stA2 where r: "fold_res onCustomAckMsg (map (\<lambda>rm. ackCopy (scId cB) rm ack) ?rms) stA1 = Inr stA2"
    "mget (ackMsgs stA2) ch = Some (ackCopy (scId cB) rm ack)"
    "custom_ack_msg_notifiers stA2 = mdel (rm, scId cB, cmMsgId msg) (custom_ack_msg_notifiers stA1)"
    using acks_resolve [OF ok, of rm "scId cB" ack ch ?rms, unfolded a(2), OF sp(1) _ rm] sp(2) by metis
  have "map (\<lambda>(_, y). the (decA y)) (concat (map (toCustomAck cA) (rnOut (onCustomAck nodeB ack cB)))) = map (\<lambda>rm. ackCopy (scId cB) rm ack) ?rms"
    using arg_cong [OF conjunct2 [OF copies, rule_format, OF refl], of "map the"] by (simp add: comp_def case_prod_unfold)
  moreover have "SendMessage_end unmarshalErr (Some ch) SendAcked stA2 = Inr res" using r(2) a(3,4) by (simp add: SendMessage_end_def ackCopy_def)
  moreover have "mget (custom_ack_msg_notifiers stA2) = mget (custom_ack_msg_notifiers stA)" using sp(3) r(3) by (simp add: fun_eq_iff)
  ultimately show ?thesis using m c copies r(1) by (metis (no_types, lifting))
qed

text \<open>A decoder as the witness needs it: it reads the map of a message field by field.\<close>

definition strAt :: "anyMap \<Rightarrow> string \<Rightarrow> string" where
  "strAt m k = (case mget m k of Some (AStr s) \<Rightarrow> s | _ \<Rightarrow> '''')"

definition wordAt :: "anyMap \<Rightarrow> string \<Rightarrow> 32 word" where
  "wordAt m k = (case mget m k of Some (AU32 w) \<Rightarrow> w | _ \<Rightarrow> 0)"

definition boolAt :: "anyMap \<Rightarrow> string \<Rightarrow> bool" where
  "boolAt m k = (case mget m k of Some (ABool b) \<Rightarrow> b | _ \<Rightarrow> False)"

definition routerAt :: "anyMap \<Rightarrow> Router option" where
  "routerAt m =
     (case mget m ''router'' of
        Some (AMap r) \<Rightarrow>
          if r = [] then None
          else Some \<lparr> room = strAt r ''room'', nodeFrom = strAt r ''nodeFrom'', nodeTo = strAt r ''nodeTo'',
            socketFrom = strAt r ''socketFrom'', socketTo = strAt r ''socketTo'' \<rparr>
      | _ \<Rightarrow> None)"

definition demoDecC :: "ClientMessage \<Rightarrow> CustomMessage option" where
  "demoDecC x =
     (case x of
        MapMessage m \<Rightarrow> Some \<lparr> cmRouter = routerAt m, cmContent = strAt m ''content'', cmMsgId = wordAt m ''msgId'', cmAck = boolAt m ''ack'' \<rparr>
      | PlainMessage _ \<Rightarrow> None)"

definition demoDecA :: "ClientMessage \<Rightarrow> CustomAckMessage option" where
  "demoDecA x =
     (case x of
        MapMessage m \<Rightarrow> Some \<lparr> caRouter = routerAt m, caMsgId = wordAt m ''msgId'', caContent = strAt m ''content'', caErr = boolAt m ''err'' \<rparr>
      | PlainMessage _ \<Rightarrow> None)"

lemmas demo_dec_simps = ToClientMessage_def CustomMessage_ToMap_def CustomAckMessage_ToMap_def Router_ToMap_def routerAt_def strAt_def wordAt_def boolAt_def
  hideNodes_def

lemma demoDecC_law: "demoDecC (ToClientMessage (MCustom m)) = Some (m\<lparr> cmRouter := hideNodes (cmRouter m) \<rparr>)"
  by (cases "cmRouter m") (simp_all add: demoDecC_def demo_dec_simps)

lemma demoDecA_law: "demoDecA (ToClientMessage (MCustomAck m)) = Some (m\<lparr> caRouter := hideNodes (caRouter m) \<rparr>)"
  by (cases "caRouter m") (simp_all add: demoDecA_def demo_dec_simps)

definition demoClient :: "string \<Rightarrow> SignalContext" where
  "demoClient uid =
     (newSignalContext demo_auth uid)
       \<lparr> scRooms := [(''r'', \<lparr> riJoinId = 1, riJoined = True \<rparr>), (''q'', \<lparr> riJoinId = 1, riJoined = True \<rparr>)] \<rparr>"

theorem custom_request_reply_witness:
  "\<exists>m x. rnOut (onCustom ''n'' ''e'' (snd (fst (snd (SendMessage_begin True ''e'' ''hi'' ''b'' ''r'' NewWebsocketSignal)))) (demoClient ''a'')) = [m] \<and>
     toCustom (demoClient ''b'') m = [(''custom:e'', x)] \<and> toCustom (demoClient ''c'') m = []"
proof -
  let ?s = "SendMessage_begin True ''e'' ''hi'' ''b'' ''r'' NewWebsocketSignal"
  let ?stB = "OnMessage ''e'' (\<lambda>_. (True, [(''ok'', None)])) NewWebsocketSignal"
  have id: "scId (demoClient u) = u" for u by (simp add: demoClient_def newSignalContext_def)
  have s: "SendMessage_begin True ''e'' ''hi'' (scId (demoClient ''b'')) ''r'' NewWebsocketSignal = (fst ?s, (''custom:e'', snd (fst (snd ?s))), Some 0)"
    by (simp add: id SendMessage_begin_def NewWebsocketSignal_def Let_def)
  have j: "JoinId (demoClient u) ''r'' \<noteq> 0" "mwf (scRooms (demoClient u))" "'''' \<notin> set (Rooms (demoClient u))" for u
    by (simp_all add: JoinId_def demoClient_def mwf_def Rooms_def)
  have cb: "mget (custom_msg_cbs ?stB) ''e'' = Some [\<lambda>_. (True, [(''ok'', None)])]" by (simp add: OnMessage_def NewWebsocketSignal_def)
  have "scId (demoClient ''c'') \<noteq> scId (demoClient ''b'')" by (simp add: id)
  then show ?thesis
    using custom_request_reply [where decC = demoDecC and decA = demoDecA and cA = "demoClient ''a''" and cB = "demoClient ''b''" and stB = ?stB
        and nodeA = "''n''" and res = "''ok''" and remained = True, OF demoDecC_law demoDecA_law _ j(1) j(1) j(2) j(3) _ client_new [of demoDec] _ s cb]
    by (fastforce simp: id NewWebsocketSignal_def)
qed

text \<open>
  A message with acknowledgement that names no room goes to all rooms of the sender, but the answers come back with a room: none of them finds the
  request, and the sender waits until its context ends.
\<close>

theorem roomless_ack_lost:
  assumes "SendMessage_begin True evt content to '''' st = (st1, (e, msg), Some ch)"
    and "\<And>r s. mget (custom_ack_msg_notifiers st) (r, s, next_custom_msg_id st + 1) = None"
    and "'''' \<notin> set rms" "caMsgId ack = cmMsgId msg"
  shows "fold_res onCustomAckMsg (map (\<lambda>rm. ackCopy from rm ack) rms) st1 = Inr st1"
proof (rule acks_ignored)
  fix r s assume "r \<in> set rms"
  then have "r \<noteq> ''''" using assms(3) by auto
  then show "mget (custom_ack_msg_notifiers st1) (r, s, caMsgId ack) = None"
    using send_pending(2) [OF assms(1,2), of r s] assms(4) by (cases "mget (custom_ack_msg_notifiers st1) (r, s, caMsgId ack)") auto
qed

end
