(* ===== verification/ClientAlive.thy ===== *)
theory ClientAlive
  imports ClientProps
begin

text \<open>
  The keep-alive loops of the client (\<open>client/websocket.go\<close>, \<open>KeepAlive\<close>): when they end, and the deadlock between a loop that ends and the
  goroutine that passes a ping on; what a second connection does to the callbacks.
\<close>

section \<open>When the passive loop ends\<close>

fun isTimeout :: "PassiveRound \<Rightarrow> bool" where
  "isTimeout (PassiveTimeout _) = True"
| "isTimeout _ = False"

definition timeoutRun :: "int \<Rightarrow> PassiveRound list \<Rightarrow> bool" where
  "timeoutRun n rs \<longleftrightarrow> (\<exists>pre post. rs = pre @ post \<and> n \<le> int (length (takeWhile isTimeout post)))"

lemma timeoutRun_Nil: "0 < n \<Longrightarrow> \<not> timeoutRun n []"
  by (simp add: timeoutRun_def)

lemma timeoutRun_Cons: "timeoutRun n (r # rs) \<longleftrightarrow> n \<le> int (length (takeWhile isTimeout (r # rs))) \<or> timeoutRun n rs"
  unfolding timeoutRun_def by (metis append_Cons append_Nil append_eq_Cons_conv)

lemma timeoutRun_prefix: "n \<le> int (length (takeWhile isTimeout rs)) \<Longrightarrow> timeoutRun n rs"
  unfolding timeoutRun_def by (metis append_Nil)

lemma passive_from:
  assumes "0 \<le> TimeoutNum ka" "TimeoutNum ka < n"
  shows "snd (keepAlivePassive (\<lambda>ka. n \<le> TimeoutNum ka) rs ka) \<longleftrightarrow>
    PassiveEnded \<in> set rs \<or> n - TimeoutNum ka \<le> int (length (takeWhile isTimeout rs)) \<or> timeoutRun n rs"
  using assms
proof (induction rs arbitrary: ka)
  case Nil
  then show ?case by (simp add: timeoutRun_Nil)
next
  case (Cons r rs)
  show ?case
  proof (cases r)
    case PassiveEnded
    then show ?thesis by simp
  next
    case (PassiveTimeout t)
    let ?ka = "ka\<lparr> TimeoutNum := TimeoutNum ka + 1, TimeoutDuration := TimeoutDuration ka + t \<rparr>"
    have n: "TimeoutNum ?ka = TimeoutNum ka + 1" by simp
    show ?thesis
    proof (cases "n \<le> TimeoutNum ka + 1")
      case True
      then show ?thesis by (simp add: PassiveTimeout Let_def)
    next
      case False
      then have "snd (keepAlivePassive (\<lambda>ka. n \<le> TimeoutNum ka) (r # rs) ka) =
          (PassiveEnded \<in> set rs \<or> n - (TimeoutNum ka + 1) \<le> int (length (takeWhile isTimeout rs)) \<or> timeoutRun n rs)"
        using Cons.IH [of ?ka] Cons.prems unfolding n by (simp add: PassiveTimeout Let_def case_prod_unfold)
      moreover have "n \<le> int (length (takeWhile isTimeout (r # rs))) \<Longrightarrow> n - TimeoutNum ka \<le> int (length (takeWhile isTimeout (r # rs)))"
        using Cons.prems by linarith
      ultimately show ?thesis by (auto simp: PassiveTimeout timeoutRun_Cons)
    qed
  next
    case PingArrived
    let ?ka = "ka\<lparr> TimeoutNum := 0, TimeoutDuration := 0 \<rparr>"
    have n: "TimeoutNum ?ka = 0" by simp
    have "snd (keepAlivePassive (\<lambda>ka. n \<le> TimeoutNum ka) (r # rs) ka) =
        (PassiveEnded \<in> set rs \<or> n - 0 \<le> int (length (takeWhile isTimeout rs)) \<or> timeoutRun n rs)"
      using Cons.IH [of ?ka] Cons.prems unfolding n by (simp add: PingArrived)
    then show ?thesis using Cons.prems timeoutRun_prefix [of n rs] by (auto simp: PingArrived timeoutRun_Cons)
  qed
qed



section \<open>The deadlock of pings\<close>

text \<open>
  One passive loop with its channel of capacity one, and the goroutines of the pings: \<open>publishPingMsgs\<close> sends while it holds the mutex of the table,
  \<open>unsubscribePingMsg\<close> needs the mutex.
\<close>

datatype LoopPhase = Selecting | Unsubscribing | Returned

record PingSys =
  chanFull :: bool
  publishing :: bool
  loopPhase :: LoopPhase

inductive ping_step :: "PingSys \<Rightarrow> PingSys \<Rightarrow> bool" where
  publish_lock: "\<not> publishing s \<Longrightarrow> loopPhase s \<noteq> Returned \<Longrightarrow> ping_step s (s\<lparr> publishing := True \<rparr>)"
| publish_send: "publishing s \<Longrightarrow> \<not> chanFull s \<Longrightarrow> ping_step s (s\<lparr> publishing := False, chanFull := True \<rparr>)"
| loop_receive: "loopPhase s = Selecting \<Longrightarrow> chanFull s \<Longrightarrow> ping_step s (s\<lparr> chanFull := False \<rparr>)"
| loop_ended: "loopPhase s = Selecting \<Longrightarrow> ping_step s (s\<lparr> loopPhase := Unsubscribing \<rparr>)"
| loop_unsubscribe: "loopPhase s = Unsubscribing \<Longrightarrow> \<not> publishing s \<Longrightarrow> ping_step s (s\<lparr> loopPhase := Returned \<rparr>)"

inductive_simps ping_step_simps: "ping_step s s'"

definition pingStart :: PingSys where
  "pingStart = \<lparr> chanFull = False, publishing = False, loopPhase = Selecting \<rparr>"

text \<open>
  When a second ping comes before the loop has taken the first one and the loop then ends, the publisher waits for the channel with the mutex, and the loop
  for the mutex: neither goes on.
\<close>

theorem ping_deadlock:
  "\<exists>s. ping_step\<^sup>*\<^sup>* pingStart s \<and> loopPhase s \<noteq> Returned \<and> (\<forall>s'. \<not> ping_step s s')"
proof -
  let ?s1 = "pingStart\<lparr> publishing := True \<rparr>"
  let ?s2 = "?s1\<lparr> publishing := False, chanFull := True \<rparr>"
  let ?s3 = "?s2\<lparr> publishing := True \<rparr>"
  let ?s4 = "?s3\<lparr> loopPhase := Unsubscribing \<rparr>"
  have "ping_step pingStart ?s1" by (rule publish_lock) (simp_all add: pingStart_def)
  moreover have "ping_step ?s1 ?s2" by (rule publish_send) (simp_all add: pingStart_def)
  moreover have "ping_step ?s2 ?s3" by (rule publish_lock) (simp_all add: pingStart_def)
  moreover have "ping_step ?s3 ?s4" by (rule loop_ended) (simp add: pingStart_def)
  ultimately have "ping_step\<^sup>*\<^sup>* pingStart ?s4" by (meson converse_rtranclp_into_rtranclp r_into_rtranclp)
  moreover have "\<not> ping_step ?s4 s'" for s' by (simp add: ping_step_simps)
  ultimately show ?thesis by (intro exI [of _ ?s4]) simp
qed

section \<open>A second connection\<close>

definition demoLeave :: StateLeaveMessage where
  "demoLeave = \<lparr> slRouter = Some (newRouter\<lparr> room := ''r'' \<rparr>), slUserId = ''u'', slSocketId = ''s'', slJoinId = 1 \<rparr>"

definition demoLeaveDec :: "unit Decoders" where
  "demoLeaveDec = demoDec\<lparr> decLeave := (\<lambda>_. Inr demoLeave) \<rparr>"

text \<open>A client that is connected, loses the connection and is connected again; the user has one callback for leaves in the room.\<close>

definition demoAgain :: WebsocketSignal where
  "demoAgain =
     (let st = snd (accessSetup (fst (onSignalClose None (snd (accessSetup NewWebsocketSignal)))));
          box = fst (AddLeaveCallback ''r'' (\<lambda>_. True) (fst (ProcessJoinCbs demoJoin (participants st))))
      in st\<lparr> participants := box \<rparr>)"

text \<open>
  The callbacks for the events are registered again with every connection: after a reconnect a leave is processed twice, and the callback of the user is
  called a second time, with nil for the participant.
\<close>

theorem reconnect_leave_twice:
  "\<exists>st' p. clientEvent demoLeaveDec 0 ''participant-leave'' [()] demoAgain = Inr (st', [LeaveCalls [(0, Some p)], LeaveCalls [(0, None)]])"
proof -
  have cbs: "mget (mcCbs (clMsgCbs demoAgain)) ''participant-leave'' = Some [LeaveCb, LeaveCb]"
    by (simp add: demoAgain_def accessSetup_def onSignalClose_def onMsg_def AddCallback_def NewWebsocketSignal_def NewMsgCbs_def Let_def)
  have box: "participants demoAgain = fst (AddLeaveCallback ''r'' (\<lambda>_. True) (fst (ProcessJoinCbs demoJoin mewParticipantsBox)))"
    by (simp add: demoAgain_def accessSetup_def onSignalClose_def onMsg_def NewWebsocketSignal_def Let_def)
  have "\<exists>b p. ProcessLeaveCbs 0 demoLeave (participants demoAgain) = (b, [(0, Some p)]) \<and> snd (ProcessLeaveCbs 0 demoLeave b) = [(0, None)]"
    by (simp add: box ProcessJoinCbs_def demoJoin_def ProcessLeaveCbs_def demoLeave_def mewParticipantsBox_def Participants_Add_def addParticipant_def
        newParticipants_def AddLeaveCallback_def Participants_Remove_def removeParticipant_def box_clean_def Participants.runCbs_def Let_def)
  then obtain b p where b: "ProcessLeaveCbs 0 demoLeave (participants demoAgain) = (b, [(0, Some p)])" "snd (ProcessLeaveCbs 0 demoLeave b) = [(0, None)]"
    by blast
  have dec: "decLeave demoLeaveDec a = Inr demoLeave" "cbRemains demoLeaveDec a LeaveCb = Inr True" for a by (simp_all add: demoLeaveDec_def cbRemains_def)
  show ?thesis
    by (simp add: clientEvent_def MsgCbs_Run_def cbs invokeMsgCb_def dec cbEffect_def b case_prod_unfold)
qed

end
