(* ===== verification/Startup.thy ===== *)
theory Startup
  imports Config PubPattern SignalRooms
begin

text \<open>
  What surrounds the servers: the context that ends when servers end (\<open>utils/context.go\<close>) and the program that starts them (\<open>entry/main.go\<close>), the
  responses of the HTTP servers to a panic (\<open>middleware/gin.go\<close>), the callback URLs (\<open>signal/callback.go\<close>), and the codecs (\<open>model/common.go\<close>,
  \<open>signal/model.go\<close>). A context is modelled by its cause: \<open>None\<close> while it is not done, and the given error (\<open>None\<close> for nil, which
  the library turns into \<open>context.Canceled\<close>) afterwards.
\<close>

section \<open>Contexts\<close>

datatype AutoCancelType = AutoCancelAll | AutoCancelAny

record autoCancelContext =
  acSelf :: "go_err option option"
  acChildren :: "nat list"
  acStart :: bool
  acCause :: "go_err option"
  acNext :: nat

definition WithAutoCancel :: autoCancelContext where
  "WithAutoCancel = \<lparr> acSelf = None, acChildren = [], acStart = False, acCause = None, acNext = 0 \<rparr>"

text \<open>The cancel function of the library: the first call wins.\<close>

definition cancel_self :: "go_err option \<Rightarrow> autoCancelContext \<Rightarrow> autoCancelContext" where
  "cancel_self cause c = (case acSelf c of None \<Rightarrow> c\<lparr> acSelf := Some cause \<rparr> | Some _ \<Rightarrow> c)"

definition ac_spawn :: "autoCancelContext \<Rightarrow> autoCancelContext \<times> nat" where
  "ac_spawn c = (c\<lparr> acChildren := acChildren c @ [acNext c], acNext := acNext c + 1 \<rparr>, acNext c)"

definition ac_done :: "AutoCancelType \<Rightarrow> nat \<Rightarrow> go_err option \<Rightarrow> autoCancelContext \<Rightarrow> autoCancelContext res" where
  "ac_done cancelType child cause c =
     bind_res (if cancelType = AutoCancelAll
               then bind_res (SliceRemoveByValue (acChildren c) False child) (\<lambda>(_, children). Inr (c\<lparr> acChildren := children \<rparr>))
               else Inr c) (\<lambda>c1.
       Inr (if cancelType = AutoCancelAny \<or> acChildren c1 = []
            then (if acStart c1 then cancel_self cause c1
                  else if acCause c1 = None then c1\<lparr> acCause := cause \<rparr> else c1)
            else c1))"

definition ac_start :: "autoCancelContext \<Rightarrow> autoCancelContext" where
  "ac_start c =
     (let c1 = c\<lparr> acStart := True \<rparr> in if acChildren c1 = [] then cancel_self (acCause c1) c1 else c1)"

text \<open>\<open>WithOrContext\<close>: the causes of the given contexts in the order in which they end; the first one counts.\<close>

definition WithOrContext :: "go_err option list \<Rightarrow> go_err option option" where
  "WithOrContext causes = (case causes of [] \<Rightarrow> None | cause # _ \<Rightarrow> Some cause)"

text \<open>\<open>MakeTimeoutChan\<close>: when the channel fires, if ever.\<close>

definition MakeTimeoutChan :: "int \<Rightarrow> int option" where
  "MakeTimeoutChan timeout = (if timeout > 0 then Some timeout else None)"

section \<open>The program\<close>

text \<open>
  The servers are started in goroutines, which call \<open>done\<close> when they end (at once when the server is not enabled). \<open>RunEvent\<close> says in which order the
  calls of \<open>done\<close> and of \<open>start\<close> come.
\<close>

datatype RunEvent = ServerDone nat "go_err option" | RunStart

definition runEvent :: "AutoCancelType \<Rightarrow> RunEvent \<Rightarrow> autoCancelContext \<Rightarrow> autoCancelContext res" where
  "runEvent ty e c = (case e of ServerDone child cause \<Rightarrow> ac_done ty child cause c | RunStart \<Rightarrow> Inr (ac_start c))"

definition entry_Run :: "nat \<Rightarrow> RunEvent list \<Rightarrow> autoCancelContext res" where
  "entry_Run servers events = fold_res (runEvent AutoCancelAny) events (((\<lambda>c. fst (ac_spawn c)) ^^ servers) WithAutoCancel)"

text \<open>The end of the program: it waits for the context and fails unless the cause is \<open>context.Canceled\<close>.\<close>

datatype Exit = Waiting | Normal | Fatal go_err

definition exitOf :: "autoCancelContext \<Rightarrow> Exit" where
  "exitOf c = (case acSelf c of None \<Rightarrow> Waiting | Some None \<Rightarrow> Normal | Some (Some e) \<Rightarrow> Fatal e)"

section \<open>Responses to a panic\<close>

text \<open>\<open>ErrorHandler\<close>: the status and the code and message of the body; \<open>text\<close> gives the text of a recovered value that is no \<open>ConferenceError\<close>.\<close>

definition ErrorHandler :: "(go_panic \<Rightarrow> string) \<Rightarrow> go_panic \<Rightarrow> int \<times> int \<times> string" where
  "ErrorHandler text err =
     (case err of
        ErrorPanic (ConfError code msg) \<Rightarrow> (if code > 600 then 500 else code, code, msg)
      | _ \<Rightarrow> (500, 500, text err))"

section \<open>Callbacks\<close>

definition hexDigit :: "nat \<Rightarrow> char" where
  "hexDigit n = char_of (if n < 10 then 48 + n else 55 + n)"

definition unreserved :: "char \<Rightarrow> bool" where
  "unreserved ch =
     (let n = (of_char ch :: nat)
      in (97 \<le> n \<and> n \<le> 122) \<or> (65 \<le> n \<and> n \<le> 90) \<or> (48 \<le> n \<and> n \<le> 57) \<or> ch \<in> {CHR ''-'', CHR ''_'', CHR ''.'', CHR ''~''})"

definition escapeByte :: "char \<Rightarrow> string" where
  "escapeByte ch =
     (if unreserved ch then [ch]
      else if ch = CHR '' '' then ''+''
      else [CHR ''%'', hexDigit (of_char ch div 16), hexDigit (of_char ch mod 16)])"

definition QueryEscape :: "string \<Rightarrow> string" where
  "QueryEscape s = concat (map escapeByte s)"

definition CloseCallback :: "ConferenceConfigure \<Rightarrow> string \<Rightarrow> string" where
  "CloseCallback conf uid = SignalExternalAddress conf @ ''/conference/close'' @ ''/'' @ QueryEscape uid"

record ConferenceCallback =
  cbName :: string
  cbUrl :: string

text \<open>\<open>execute\<close> is the engine of the template (\<open>fasttemplate\<close>) with the delimiters of the source.\<close>

definition NewConferenceCallback :: "(string \<Rightarrow> (string, string) gomap \<Rightarrow> string) \<Rightarrow> ConferenceConfigure \<Rightarrow> string \<Rightarrow> string \<Rightarrow> SignalContext \<Rightarrow> ConferenceCallback" where
  "NewConferenceCallback execute conf name template c =
     \<lparr> cbName = name,
       cbUrl = (if template = '''' then ''''
                else execute template
                  [(''key'', QueryEscape (Key (scAuth c))), (''uid'', QueryEscape (UID (scAuth c))), (''uname'', QueryEscape (UName (scAuth c))),
                   (''nonce'', showInt (Nonce (scAuth c))), (''usage'', QueryEscape (Usage (scAuth c))), (''role'', QueryEscape (Role (scAuth c))),
                   (''closeCallback'', QueryEscape (CloseCallback conf (scId c)))]) \<rparr>"

text \<open>\<open>Call\<close>: \<open>get\<close> is \<open>http.Get\<close> with the status of its response.\<close>

definition Callback_Call :: "(string \<Rightarrow> go_err + int) \<Rightarrow> ConferenceCallback \<Rightarrow> int \<times> go_err option" where
  "Callback_Call get me =
     (if cbUrl me = '''' then (0, None)
      else case get (cbUrl me) of Inl e \<Rightarrow> (0, Some e) | Inr status \<Rightarrow> (status, None))"

section \<open>Codecs\<close>

text \<open>The codec of the WebRTC library, with its narrower integers.\<close>

record WebrtcCodec =
  wcMimeType :: string
  wcClockRate :: "32 word"
  wcChannels :: "16 word"
  wcFmtpLine :: string
  wcFeedback :: "(string \<times> string) list"
  wcPayloadType :: "8 word"

definition NewRTPCodecParameters :: "WebrtcCodec \<Rightarrow> RTPCodecParameters" where
  "NewRTPCodecParameters source =
     \<lparr> mimeType = wcMimeType source, clockRate = wcClockRate source, channels = ucast (wcChannels source), sdpFmtpLine = wcFmtpLine source,
       rtcpFeedback = map (\<lambda>(t, p). \<lparr> fbType = t, fbParameter = p \<rparr>) (wcFeedback source), payloadType = ucast (wcPayloadType source) \<rparr>"

definition RTPCodecParametersToWebrtc :: "RTPCodecParameters \<Rightarrow> WebrtcCodec" where
  "RTPCodecParametersToWebrtc me =
     \<lparr> wcMimeType = mimeType me, wcClockRate = clockRate me, wcChannels = ucast (channels me), wcFmtpLine = sdpFmtpLine me,
       wcFeedback = map (\<lambda>f. (fbType f, fbParameter f)) (rtcpFeedback me), wcPayloadType = ucast (payloadType me) \<rparr>"

definition mkCodec :: "8 word \<Rightarrow> string \<Rightarrow> 32 word \<Rightarrow> 16 word \<Rightarrow> string \<Rightarrow> (string \<times> string) list \<Rightarrow> WebrtcCodec" where
  "mkCodec pt mime clock chans fmtp fb =
     \<lparr> wcMimeType = mime, wcClockRate = clock, wcChannels = chans, wcFmtpLine = fmtp, wcFeedback = fb, wcPayloadType = pt \<rparr>"

definition leastAudioCodecs :: "WebrtcCodec list" where
  "leastAudioCodecs =
     [mkCodec 111 ''audio/opus'' 48000 2 ''minptime=10;useinbandfec=1'' [], mkCodec 9 ''audio/G722'' 8000 0 '''' [],
      mkCodec 0 ''audio/PCMU'' 8000 0 '''' [], mkCodec 8 ''audio/PCMA'' 8000 0 '''' []]"

definition videoRTCPFeedback :: "(string \<times> string) list" where
  "videoRTCPFeedback = [(''goog-remb'', ''''), (''ccm'', ''fir''), (''nack'', ''''), (''nack'', ''pli'')]"

definition h264Codec :: "8 word \<Rightarrow> string \<Rightarrow> string \<Rightarrow> WebrtcCodec" where
  "h264Codec pt mode profile =
     mkCodec pt ''video/H264'' 90000 0 (''level-asymmetry-allowed=1;packetization-mode='' @ mode @ '';profile-level-id='' @ profile) videoRTCPFeedback"

definition rtxCodec :: "8 word \<Rightarrow> string \<Rightarrow> WebrtcCodec" where
  "rtxCodec pt apt = mkCodec pt ''video/rtx'' 90000 0 (''apt='' @ apt) []"

definition leastVideoCodecs :: "WebrtcCodec list" where
  "leastVideoCodecs =
     [h264Codec 102 ''1'' ''42001f'', rtxCodec 103 ''102'', h264Codec 104 ''0'' ''42001f'', rtxCodec 105 ''104'',
      h264Codec 106 ''1'' ''42e01f'', rtxCodec 107 ''106'', h264Codec 108 ''0'' ''42e01f'', rtxCodec 109 ''108'',
      h264Codec 127 ''1'' ''4d001f'', rtxCodec 125 ''127'', h264Codec 39 ''0'' ''4d001f'', rtxCodec 40 ''39'',
      h264Codec 112 ''1'' ''64001f'', rtxCodec 113 ''112'']"

text \<open>\<open>register\<close> is \<open>MediaEngine.RegisterCodec\<close> on the state \<open>'m\<close> of the engine.\<close>

datatype CodecType = RTPCodecTypeAudio | RTPCodecTypeVideo

definition RegisterLeastCodecs :: "(WebrtcCodec \<Rightarrow> CodecType \<Rightarrow> 'm \<Rightarrow> go_err + 'm) \<Rightarrow> 'm \<Rightarrow> go_err + 'm" where
  "RegisterLeastCodecs register m =
     bind_res (fold_res (\<lambda>cd. register cd RTPCodecTypeAudio) leastAudioCodecs m) (fold_res (\<lambda>cd. register cd RTPCodecTypeVideo) leastVideoCodecs)"

section \<open>When the context ends\<close>

lemma ac_done_all:
  "ac_done AutoCancelAll child cause c =
     Inr (let c1 = c\<lparr> acChildren := filter (\<lambda>v. v \<noteq> child) (acChildren c) \<rparr>
          in if acChildren c1 = []
             then (if acStart c1 then cancel_self cause c1 else if acCause c1 = None then c1\<lparr> acCause := cause \<rparr> else c1)
             else c1)"
proof -
  obtain r where "SliceRemoveByValue (acChildren c) False child = Inr r" "snd r = filter (\<lambda>v. v \<noteq> child) (acChildren c)"
    using SliceRemoveByValue_out [of "acChildren c" False child] by (cases "SliceRemoveByValue (acChildren c) False child") auto
  then show ?thesis by (auto simp: ac_done_def Let_def split: prod.splits)
qed

lemma cancel_self_fields [simp]:
  "\<exists>y. acSelf (cancel_self cause c) = Some y" "acChildren (cancel_self cause c) = acChildren c" "acStart (cancel_self cause c) = acStart c"
  by (auto simp: cancel_self_def split: option.splits)

definition auto_ok :: "autoCancelContext \<Rightarrow> bool" where
  "auto_ok c \<longleftrightarrow> (acSelf c \<noteq> None \<longleftrightarrow> acStart c \<and> acChildren c = [])"

lemma all_events:
  assumes "auto_ok c" "fold_res (runEvent AutoCancelAll) events c = Inr c'"
  shows "auto_ok c' \<and> (acStart c' \<longleftrightarrow> acStart c \<or> RunStart \<in> set events) \<and>
    acChildren c' = filter (\<lambda>v. \<forall>e. ServerDone v e \<notin> set events) (acChildren c)"
  using assms
proof (induction events arbitrary: c)
  case (Cons ev events)
  obtain c1 where c1: "runEvent AutoCancelAll ev c = Inr c1" "fold_res (runEvent AutoCancelAll) events c1 = Inr c'"
    using Cons.prems(2) by (auto simp: bind_res_Inr_iff)
  show ?case
  proof (cases ev)
    case (ServerDone child cause)
    then have "auto_ok c1" "acStart c1 = acStart c" "acChildren c1 = filter (\<lambda>v. v \<noteq> child) (acChildren c)"
      using c1(1) Cons.prems(1) by (auto simp: runEvent_def ac_done_all Let_def auto_ok_def split: if_splits)
    then show ?thesis using Cons.IH [OF _ c1(2)] by (auto simp: ServerDone intro!: filter_cong)
  next
    case RunStart
    then have "auto_ok c1" "acStart c1" "acChildren c1 = acChildren c"
      using c1(1) Cons.prems(1) by (auto simp: runEvent_def ac_start_def Let_def auto_ok_def split: if_splits)
    then show ?thesis using Cons.IH [OF _ c1(2)] by (auto simp: RunStart)
  qed
qed simp

lemma spawned: "acChildren (((\<lambda>c. fst (ac_spawn c)) ^^ n) WithAutoCancel) = [0..<n] \<and> acNext (((\<lambda>c. fst (ac_spawn c)) ^^ n) WithAutoCancel) = n \<and>
   acSelf (((\<lambda>c. fst (ac_spawn c)) ^^ n) WithAutoCancel) = None \<and> \<not> acStart (((\<lambda>c. fst (ac_spawn c)) ^^ n) WithAutoCancel)"
  by (induction n) (simp_all add: WithAutoCancel_def ac_spawn_def)

text \<open>
  A context of the kind \<open>AutoCancelAll\<close> with \<open>n\<close> children ends exactly when it was started and each child is done, in whatever order.
\<close>

theorem autoCancelAll_ends:
  assumes "fold_res (runEvent AutoCancelAll) events (((\<lambda>c. fst (ac_spawn c)) ^^ n) WithAutoCancel) = Inr c"
  shows "acSelf c \<noteq> None \<longleftrightarrow> RunStart \<in> set events \<and> (\<forall>i < n. \<exists>cause. ServerDone i cause \<in> set events)"
  using all_events [OF _ assms] spawned [of n] by (auto simp: auto_ok_def filter_empty_conv)

theorem autoCancelAll_ends_witness:
  "\<exists>c. fold_res (runEvent AutoCancelAll) [ServerDone 1 None, RunStart, ServerDone 0 None] (((\<lambda>c. fst (ac_spawn c)) ^^ 2) WithAutoCancel) = Inr c \<and>
     acSelf c \<noteq> None"
proof -
  have "\<exists>c. fold_res (runEvent AutoCancelAll) [ServerDone 1 None, RunStart, ServerDone 0 None] (((\<lambda>c. fst (ac_spawn c)) ^^ 2) WithAutoCancel) = Inr c"
    by (simp add: runEvent_def ac_done_all)
  then obtain c where c: "fold_res (runEvent AutoCancelAll) [ServerDone 1 None, RunStart, ServerDone 0 None] (((\<lambda>c. fst (ac_spawn c)) ^^ 2) WithAutoCancel) = Inr c"
    by blast
  have "(\<forall>i < (2 :: nat). \<exists>cause. ServerDone i cause \<in> set [ServerDone 1 None, RunStart, ServerDone 0 None])" by (auto simp: less_2_cases_iff)
  then show ?thesis using autoCancelAll_ends [OF c] c by auto
qed

text \<open>
  The program ends with the first server that ends, also when that server is one that is not enabled; but when the server ends before \<open>start\<close>,
  which its goroutine may, the end is missed and the program waits for another one.
\<close>

theorem entry_race:
  assumes "0 < n"
  shows "\<exists>c. entry_Run n [ServerDone i cause, RunStart] = Inr c \<and> exitOf c = Waiting"
    "\<exists>c. entry_Run n [RunStart, ServerDone i cause] = Inr c \<and> exitOf c = (case cause of None \<Rightarrow> Normal | Some e \<Rightarrow> Fatal e)"
  using spawned [of n] assms
  by (auto simp: entry_Run_def runEvent_def ac_done_def ac_start_def cancel_self_def exitOf_def Let_def split: option.splits)

section \<open>Callback URLs\<close>

text \<open>How the server that gets the callback reads the path: \<open>%XX\<close> is decoded, and a plus sign is a plus sign.\<close>

definition unhex :: "char \<Rightarrow> nat option" where
  "unhex ch =
     (let n = (of_char ch :: nat)
      in if 48 \<le> n \<and> n \<le> 57 then Some (n - 48) else if 65 \<le> n \<and> n \<le> 70 then Some (n - 55) else if 97 \<le> n \<and> n \<le> 102 then Some (n - 87) else None)"

fun pathUnescape :: "string \<Rightarrow> string option" where
  "pathUnescape [] = Some []"
| "pathUnescape (ch # s) =
     (if ch = CHR ''%''
      then (case s of
              a # b # s' \<Rightarrow>
                (case (unhex a, unhex b) of
                   (Some x, Some y) \<Rightarrow> map_option (Cons (char_of (16 * x + y))) (pathUnescape s')
                 | _ \<Rightarrow> None)
            | _ \<Rightarrow> None)
      else map_option (Cons ch) (pathUnescape s))"

lemma unhex_hexDigit: "n < 16 \<Longrightarrow> unhex (hexDigit n) = Some n"
  by (auto simp: unhex_def hexDigit_def Let_def)

lemma escapeByte_decoded: "ch \<noteq> CHR '' '' \<Longrightarrow> pathUnescape (escapeByte ch @ s) = map_option (Cons ch) (pathUnescape s)"
proof -
  assume "ch \<noteq> CHR '' ''"
  moreover have "\<not> unreserved CHR ''%''" by code_simp
  moreover have "of_char ch div 16 < (16 :: nat)" using nat_of_char_less_256 [of ch] by (simp add: less_mult_imp_div_less)
  moreover have "char_of (16 * (of_char ch div 16) + of_char ch mod 16 :: nat) = ch" by simp
  ultimately show ?thesis by (auto simp: escapeByte_def unhex_hexDigit)
qed

text \<open>The id in the URL of the close callback is read back by the server, unless it has a space (which becomes a plus sign).\<close>

theorem CloseCallback_roundtrip:
  assumes "CHR '' '' \<notin> set uid"
  shows "\<exists>path. CloseCallback conf uid = SignalExternalAddress conf @ ''/conference/close/'' @ path \<and> pathUnescape path = Some uid \<and>
    set path \<subseteq> {ch. unreserved ch \<or> ch = CHR ''%''}"
proof -
  have "pathUnescape (QueryEscape uid) = Some uid" using assms by (induction uid) (auto simp: QueryEscape_def escapeByte_decoded)
  moreover have "set (QueryEscape uid) \<subseteq> {ch. unreserved ch \<or> ch = CHR ''%''}"
  proof -
    have hex: "unreserved (hexDigit n)" if "n < 16" for n using that by (auto simp: unreserved_def hexDigit_def Let_def)
    have e: "set (escapeByte ch) \<subseteq> {ch. unreserved ch \<or> ch = CHR ''%''}" if "ch \<noteq> CHR '' ''" for ch
      using that hex [of "of_char ch div 16"] hex [of "of_char ch mod 16"] nat_of_char_less_256 [of ch] by (auto simp: escapeByte_def less_mult_imp_div_less)
    show ?thesis
    proof
      fix x assume "x \<in> set (QueryEscape uid)"
      then obtain ch where ch: "ch \<in> set uid" "x \<in> set (escapeByte ch)" by (auto simp: QueryEscape_def)
      then have "ch \<noteq> CHR '' ''" using assms by metis
      then show "x \<in> {ch. unreserved ch \<or> ch = CHR ''%''}" using e ch(2) by blast
    qed
  qed
  ultimately show ?thesis by (auto simp: CloseCallback_def)
qed

theorem space_id_lost: "pathUnescape (QueryEscape ''a b'') = Some ''a+b''"
  by code_simp

section \<open>Codecs between the nodes\<close>

text \<open>A codec of the WebRTC library survives the message to another node; the other way the channels and the payload type are cut to their widths.\<close>

theorem codec_roundtrip: "RTPCodecParametersToWebrtc (NewRTPCodecParameters source) = source"
proof -
  have "(ucast (ucast x :: 32 word) :: 16 word) = x" for x :: "16 word" by (rule bit_word_eqI) (auto simp: bit_simps)
  moreover have "(ucast (ucast x :: 32 word) :: 8 word) = x" for x :: "8 word" by (rule bit_word_eqI) (auto simp: bit_simps)
  ultimately show ?thesis by (simp add: RTPCodecParametersToWebrtc_def NewRTPCodecParameters_def comp_def case_prod_unfold)
qed

text \<open>The codecs for recording have distinct payload types, and every retransmission codec names the codec before it.\<close>

theorem least_codecs_distinct:
  "distinct (map wcPayloadType (leastAudioCodecs @ leastVideoCodecs)) \<and>
   (\<forall>i < 7. wcFmtpLine (leastVideoCodecs ! (2 * i + 1)) = ''apt='' @ decimal (unat (wcPayloadType (leastVideoCodecs ! (2 * i)))))"
  by code_simp

end
