(* ===== verification/Spec2Isabelle.thy ===== *)
theory Spec2Isabelle
  imports Messager Collections PubPattern Participants WsCodec SignalNode PubBind SampleProps RecordingProps Config KafkaProps Auth Negotiation Redis ClientExchange ClientAlive Startup
begin

text \<open>
  Verification of conference.go, a video conference server (a selective forwarding unit).

  \<^bold>\<open>The program.\<close> A client connects to a node with a token (\<open>auth\<close>, \<open>authserver\<close>), over Socket.IO or a websocket
  (\<open>signal/socketio.go\<close>, \<open>signal/websocket.go\<close>, \<open>websocket/signal.go\<close>). The node keeps a \<open>SignalContext\<close> for it (\<open>signal/model.go\<close>) in
  a registry (\<open>signal/global.go\<close>), with the handlers of its requests (\<open>signal/main.go\<close>): it joins rooms, publishes and subscribes to
  tracks, and sends messages to the others in a room. The messager of a node (\<open>signal/messager.go\<close>) delivers messages by room
  pattern (\<open>signal/utils.go\<close>) to the contexts of its own node and, through Kafka (\<open>signal/kafka.go\<close>), of the other nodes. The
  media of a published track go to the consumers of the track: to the subscribers through the router (\<open>signal/router.go\<close>), and to
  the recorder (\<open>signal/record.go\<close>), which puts packets into order with the sample builder (\<open>pkg/samplebuilder\<close>) and cuts them into
  segments (\<open>pkg/segmenter\<close>). \<open>client/websocket.go\<close> is the client in Go.

  \<^bold>\<open>Conventions.\<close> \<open>Prelude\<close> and \<open>GoStrings\<close> hold what the components share of Go: errors and panics as values (a Go function that may
  panic has a result in \<open>'a res\<close>, one that returns an error in \<open>go_err + 'a\<close>), maps as association lists in the order of one
  iteration, the functions of package \<open>strings\<close>. Definitions keep the names of the source. Integers are at their width where the
  code can overflow: words in the packets, the sample builder and the MP4 times, \<open>i64\<close> elsewhere. Code that is not in the
  repository is an argument, with its documented behaviour as a hypothesis: JSON, protobuf, Base64 and AES-GCM, WebRTC, MongoDB,
  the Kafka broker, the file system, the template engine, the parsers of H.264 and the depacketizers, clocks and fresh ids.
  Goroutines that share state are steps of an \<open>inductive\<close> relation where their interleaving matters (\<open>Negotiation\<close>, \<open>KafkaClient\<close>,
  \<open>RecordingProps\<close>, \<open>ClientProps\<close>); elsewhere a mutex makes an operation one step.

  \<^bold>\<open>Theories and sources.\<close>
  \<^item> \<open>ConfErrors\<close> (\<open>errors/main.go\<close>), \<open>Collections\<close> (\<open>utils/collection.go\<close>): the slice helpers with their in-place loops; each is shown
    equal to a plain function on lists.
  \<^item> \<open>RoomPattern\<close> (\<open>signal/utils.go\<close>): room patterns with stars, the prefix tree of patterns. Matching is the glob relation, and the tree
    collects exactly the patterns that match.
  \<^item> \<open>PubPattern\<close> (\<open>model/pattern.go\<close>), \<open>Messages\<close> (\<open>proto/message.ext.go\<close>, \<open>model/messages.go\<close>): patterns of publications and their boolean
    meaning; routers, validation, what reaches a client.
  \<^item> \<open>Messager\<close> (\<open>signal/messager.go\<close>): registration and delivery, shown against the set of registrations; \<open>Emit\<close> reaches each node once.
    \<open>ClusterConf\<close> and \<open>Config\<close> (\<open>config/model.go\<close>): the configuration, its validation and its replicas. \<open>KafkaClient\<close> and \<open>KafkaProps\<close>
    (\<open>signal/kafka.go\<close>): the client of the messager and its partition consumers; no record is lost or overtaken.
  \<^item> \<open>SignalTracks\<close>, \<open>SignalRooms\<close>, \<open>SignalContexts\<close>, \<open>PubBind\<close> (\<open>signal/model.go\<close>): subscriptions, rooms and rights, requests, the binding of
    published tracks and the fan-out of their packets. \<open>SignalNode\<close> (\<open>signal/global.go\<close>, \<open>signal/main.go\<close>): the registry, the life of a
    context and the delivery to the clients of a node. \<open>SignalHandlers\<close> (\<open>signal/main.go\<close>): the handlers of the requests; the context
    stays well formed and each request is answered once. \<open>Negotiation\<close> (\<open>signal/main.go\<close>, \<open>signal/model.go\<close>): offers, answers and candidates.
    \<open>Auth\<close> (\<open>auth/main.go\<close>, \<open>authserver/main.go\<close>, \<open>signal/socketio.go\<close>, \<open>signal/websocket.go\<close>): tokens and both entrances.
  \<^item> \<open>WsCodec\<close> (\<open>websocket/signal.go\<close>): frames, requests and acknowledgements; round trips. \<open>SignalTransport\<close> (\<open>signal/signal.go\<close>,
    \<open>signal/socketio.go\<close>, \<open>signal/websocket.go\<close>): callbacks by event, and the two signals under one interface.
  \<^item> \<open>Participants\<close>, \<open>ClientSignal\<close> (\<open>client/websocket.go\<close>, \<open>client/client.go\<close>): the client in Go. The participants it sees converge whatever the
    order of the messages; \<open>ClientProps\<close>: a waiting goroutine is woken, one goroutine connects at a time, no channel is closed twice;
    \<open>ClientAlive\<close>: the keep-alive loops; \<open>ClientExchange\<close>: a custom message with its answer from client to client through both servers.
  \<^item> \<open>Packets\<close>, \<open>RouterNode\<close> (\<open>signal/router.go\<close>): the packets between nodes, accepters with reference counts, forwarding.
  \<^item> \<open>SampleBuilder\<close>, \<open>SampleWindow\<close>, \<open>SampleProps\<close> (\<open>pkg/samplebuilder\<close>): the ring of packets, its window as a list, and the properties of
    \<open>Push\<close> and \<open>Pop\<close>.
  \<^item> \<open>MediaTime\<close>, \<open>H264Dts\<close>, \<open>SegTemplate\<close>, \<open>Segmenter\<close>, \<open>SegmenterProps\<close>, \<open>SegmenterFacts\<close> (\<open>pkg/segmenter\<close>): times and access units, the
    extractor of decoding times, templates, the segmenter and what a finished recording holds. \<open>Recording\<close>, \<open>RecordingProps\<close>
    (\<open>signal/record.go\<close>, \<open>signal/model.go\<close>): the record loop and the recorder.
  \<^item> \<open>Redis\<close> (\<open>signal/redis.go\<close>, \<open>pkg/common/reflect.go\<close>): the client for Redis from its configuration, and the copying of fields. \<open>Startup\<close>
    (\<open>entry/main.go\<close>, \<open>utils/context.go\<close>, \<open>middleware/gin.go\<close>, \<open>signal/callback.go\<close>, \<open>model/common.go\<close>): the end of the program with its servers,
    the responses to a panic, callback URLs and codecs.

  \<^bold>\<open>Interfaces.\<close> The locales state what one component uses of another: maps with their lookup laws in \<open>Prelude\<close>, the signal that the
  handlers register with (\<open>event_transport\<close>, interpreted for Socket.IO and for the websocket), and the laws of
  codecs and containers in the theories that provide them; each is interpreted on the definitions of the model.

  \<^bold>\<open>Bounds and fuel.\<close> The properties of the sample builder are for \<open>maxLate\<close> up to 10922, above which sequence numbers cannot be compared
  (the code allows 32767); its loops have as fuel the number of slots, which is enough since each round frees one. Picture order
  counts have at most 16 bits, as H.264 says. Loops that may not end have an option as result, and that they end is proved. The
  replicas of a configuration have ports below \<open>2 ^ 31\<close>.

  \<^bold>\<open>Not modelled.\<close> The set-up of servers and routes (\<open>signalserver\<close>, \<open>cmd\<close>, \<open>ConfigureSocketIOSingalServer\<close>, \<open>Cors\<close>), logging (\<open>log\<close>) and
  Prometheus (\<open>signal/prom.go\<close>), the media engine of the WebRTC library (\<open>createPeer\<close>), the types for the DASH manifest (\<open>pkg/mpd\<close>, no operations),
  the writers of codecs other than H.264 that no call reaches, the packet statistics of \<open>signal/rtp.go\<close>, which nothing uses, UDP sockets, and the
  clients in other languages: they call libraries and keep no state of their own, or are not reached.
\<close>

end
